(* ===== verification/Prelude.thy ===== *)
theory Prelude
  imports Main "HOL-Library.Word"
begin

text \<open>
  Prelude of the DiyOS development.

  The kernel is 32-bit x86 C. This theory fixes how C is read in HOL:
  \<^item> \<open>uint8_t\<close>, \<open>uint16_t\<close>, \<open>uint32_t\<close> (include/ctypes.h) are words of their width, so
    arithmetic wraps as it does in the code; a pointer is the 32-bit word of its address and
    NULL is 0;
  \<^item> what the code cannot survive is a value of \<open>fault\<close>: a panic, an access outside an array
    or through a pointer to nothing, a loop that never ends, the use of a value a function
    never returned;
  \<^item> a fallible computation has type \<open>'a result\<close> (\<open>Inl\<close> the fault, \<open>Inr\<close> the value) and
    \<open>bindr\<close> sequences two of them: the second runs only when the first returned.

  It also holds the collection \<open>result_simps\<close> and the lemmas on lists, words and modular
  indices that the component theories share.
\<close>

unbundle bit_operations_syntax

section \<open>C data\<close>

type_synonym u8 = "8 word"
type_synonym u16 = "16 word"
type_synonym u32 = "32 word"
type_synonym addr = "32 word"

abbreviation (input) NULL :: addr where
  "NULL \<equiv> 0"

abbreviation (input) FALSE8 :: u8 where
  "FALSE8 \<equiv> 0"

abbreviation (input) TRUE8 :: u8 where
  "TRUE8 \<equiv> 1"

text \<open>
  A walk along pointers visits addresses, and there are \<open>2 ^ 32\<close> of them: a walk that has
  not stopped after that many steps is on a cycle and never stops. So this many steps decide
  termination exactly, and running out of them is the fault \<open>Diverge\<close>.
\<close>

definition addr_space :: nat where
  "addr_space = 2 ^ 32"

section \<open>Faults and results\<close>

datatype fault =
    Panic            \<comment> \<open>\<open>PANIC\<close> or a failed \<open>ASSERT_PANIC\<close>: prints and loops for ever\<close>
  | OutOfBounds      \<comment> \<open>an access outside the array it is made on\<close>
  | BadPointer       \<comment> \<open>a dereference of NULL or of an address holding no such object\<close>
  | Diverge          \<comment> \<open>the code loops or recurses without end\<close>
  | NoValue          \<comment> \<open>the value of a function that reached its end without \<open>return\<close>\<close>
  | DivideError      \<comment> \<open>an unsigned division by zero\<close>

type_synonym 'a result = "fault + 'a"

definition bindr :: "'a result \<Rightarrow> ('a \<Rightarrow> 'b result) \<Rightarrow> 'b result" where
  "bindr r k = (case r of Inl f \<Rightarrow> Inl f | Inr x \<Rightarrow> k x)"

definition guardr :: "bool \<Rightarrow> fault \<Rightarrow> 'a result \<Rightarrow> 'a result" where
  "guardr b f r = (if b then r else Inl f)"

text \<open>An array read and an array write, with the range check C does not make.\<close>

definition array_get :: "'a list \<Rightarrow> nat \<Rightarrow> 'a result" where
  "array_get xs i = (if i < length xs then Inr (xs ! i) else Inl OutOfBounds)"

definition array_set :: "'a list \<Rightarrow> nat \<Rightarrow> 'a \<Rightarrow> 'a list result" where
  "array_set xs i v = (if i < length xs then Inr (xs[i := v]) else Inl OutOfBounds)"

text \<open>A dereference in a typed heap: the objects of one struct type, by address.\<close>

definition deref :: "(addr \<Rightarrow> 'a option) \<Rightarrow> addr \<Rightarrow> 'a result" where
  "deref h p = (case h p of None \<Rightarrow> Inl BadPointer | Some x \<Rightarrow> Inr x)"

named_theorems result_simps \<open>how results compute\<close>

lemma bindr_simps [simp, result_simps]:
  "bindr (Inl f) k = Inl f"
  "bindr (Inr x) k = k x"
  by (simp_all add: bindr_def)

lemma guardr_simps [simp, result_simps]:
  "guardr True f r = r"
  "guardr False f r = Inl f"
  by (simp_all add: guardr_def)

lemma bindr_eq_Inr_iff:
  "bindr r k = Inr y \<longleftrightarrow> (\<exists>x. r = Inr x \<and> k x = Inr y)"
  by (cases r) auto

lemma bindr_Inr_elim:
  assumes "bindr r k = Inr y"
  obtains x where "r = Inr x" "k x = Inr y"
  using assms by (auto simp: bindr_eq_Inr_iff)

lemma bindr_assoc: "bindr (bindr r k) g = bindr r (\<lambda>x. bindr (k x) g)"
  by (cases r) auto

lemma array_get_in [simp, result_simps]: "i < length xs \<Longrightarrow> array_get xs i = Inr (xs ! i)"
  by (simp add: array_get_def)

lemma array_set_in [simp, result_simps]: "i < length xs \<Longrightarrow> array_set xs i v = Inr (xs[i := v])"
  by (simp add: array_set_def)

lemma array_get_out [simp]: "length xs \<le> i \<Longrightarrow> array_get xs i = Inl OutOfBounds"
  by (simp add: array_get_def)

lemma array_set_out [simp]: "length xs \<le> i \<Longrightarrow> array_set xs i v = Inl OutOfBounds"
  by (simp add: array_set_def)

lemma deref_Some [simp, result_simps]: "h p = Some x \<Longrightarrow> deref h p = Inr x"
  by (simp add: deref_def)

lemma deref_None [simp, result_simps]: "h p = None \<Longrightarrow> deref h p = Inl BadPointer"
  by (simp add: deref_def)

lemma deref_eq_Inr_iff: "deref h p = Inr x \<longleftrightarrow> h p = Some x"
  by (simp add: deref_def split: option.splits)

section \<open>Words\<close>

lemma unat_u32_less: "unat w < 4294967296" for w :: u32
proof -
  have "unat w < 2 ^ LENGTH(32)" by (rule unsigned_less)
  then show ?thesis by simp
qed

lemma unat_plus_1:
  fixes w :: "'a::len word"
  assumes "unat w + 1 < 2 ^ LENGTH('a)"
  shows "unat (w + 1) = unat w + 1"
proof -
  have "unat (w + 1) = (unat w + unat (1 :: 'a word)) mod 2 ^ LENGTH('a)"
    by (simp add: unat_word_ariths)
  with assms show ?thesis by simp
qed

lemma unat_plus_1_less:
  fixes w v :: "'a::len word"
  assumes "w < v"
  shows "unat (w + 1) = unat w + 1"
proof -
  have "unat w < unat v" using assms by (simp add: word_less_nat_alt)
  moreover have "unat v < 2 ^ LENGTH('a)" by (rule unsigned_less)
  ultimately have "unat w + 1 < 2 ^ LENGTH('a)" by linarith
  then show ?thesis by (rule unat_plus_1)
qed

lemma unat_minus_1:
  fixes w :: "'a::len word"
  assumes "w \<noteq> 0"
  shows "unat (w - 1) = unat w - 1"
proof -
  have "1 \<le> w" using assms by (simp add: word_le_nat_alt Suc_le_eq word_neq_0_conv unat_gt_0)
  then show ?thesis by (simp add: unat_sub)
qed

lemma unat_ucast_up:
  fixes w :: "'a::len word"
  assumes "LENGTH('a) \<le> LENGTH('b::len)"
  shows "unat (ucast w :: 'b word) = unat w"
proof -
  have "unat w < 2 ^ LENGTH('a)" by (rule unsigned_less)
  also have "(2 :: nat) ^ LENGTH('a) \<le> 2 ^ LENGTH('b)" using assms by simp
  finally show ?thesis by (simp add: unsigned_ucast_eq take_bit_nat_eq_self)
qed

section \<open>Lists\<close>

lemma map_upt_shift: "map f [0 ..< Suc n] = f 0 # map (\<lambda>k. f (Suc k)) [0 ..< n]"
  unfolding upt_conv_Cons [OF zero_less_Suc] map_Suc_upt [symmetric] by simp

lemma find_append_option: "find P (xs @ ys) = (case find P xs of None \<Rightarrow> find P ys | Some x \<Rightarrow> Some x)"
  by (induction xs) auto

lemma find_map_option: "find P (map f xs) = map_option f (find (\<lambda>x. P (f x)) xs)"
  by (induction xs) auto

lemma find_cong_set: "(\<And>x. x \<in> set xs \<Longrightarrow> P x = Q x) \<Longrightarrow> find P xs = find Q xs"
  by (induction xs) auto

section \<open>Modular indices of circular buffers\<close>

lemma mod_succ_cases:
  fixes i n :: nat
  assumes "i < n"
  shows "(if i + 1 = n then 0 else i + 1) = (i + 1) mod n"
  using assms by auto

lemma mod_add_distinct:
  fixes f i j n :: nat
  assumes "f < n" "i < n" "j < n" "(f + i) mod n = (f + j) mod n"
  shows "i = j"
proof -
  have "f + i < 2 * n" "f + j < 2 * n" using assms by auto
  with assms show ?thesis
    by (cases "f + i < n"; cases "f + j < n") (auto simp: mod_if split: if_splits)
qed

end
