(* ===== verification/Fifo_Spec.thy ===== *)
theory Fifo_Spec
  imports Prelude
begin

text \<open>
  The contract of a bounded first-in-first-out buffer, as a locale.

  \<open>fifo_room\<close> is what every client of a buffer relies on: while fewer than \<open>cap\<close> elements
  are held, adding appends at the back, and taking from a non-empty buffer returns the front
  element. \<open>bounded_fifo\<close> adds what lib/queue.c promises besides: adding to a full queue
  drops the element and leaves the queue alone, and taking from an empty one returns NULL.
  Clients are proved once, against the contract: a batch of elements comes out in the order it
  went in, and any sequence of operations behaves as it does on the abstract list.
  The locales are interpreted on lib/queue.c (Queue) and lib/ring.c (Ring).
\<close>

section \<open>The abstract buffer\<close>

datatype 'a fifo_op = Enq 'a | Deq

text \<open>One operation on the list of held elements: the value it answers and the new list.\<close>

fun spec_op :: "nat \<Rightarrow> 'a \<Rightarrow> 'a fifo_op \<Rightarrow> 'a list \<Rightarrow> 'a option \<times> 'a list" where
  "spec_op c nul (Enq x) xs = (None, if length xs < c then xs @ [x] else xs)"
| "spec_op c nul Deq xs = (case xs of [] \<Rightarrow> (Some nul, []) | y # ys \<Rightarrow> (Some y, ys))"

fun spec_run :: "nat \<Rightarrow> 'a \<Rightarrow> 'a fifo_op list \<Rightarrow> 'a list \<Rightarrow> 'a option list \<times> 'a list" where
  "spec_run c nul [] xs = ([], xs)"
| "spec_run c nul (p # ps) xs =
     (case spec_op c nul p xs of (r, ys) \<Rightarrow>
        (case spec_run c nul ps ys of (rs, zs) \<Rightarrow> (r # rs, zs)))"

section \<open>Runs of an implementation\<close>

fun add_all :: "('a \<Rightarrow> 'q \<Rightarrow> 'q result) \<Rightarrow> 'a list \<Rightarrow> 'q \<Rightarrow> 'q result" where
  "add_all enq [] q = Inr q"
| "add_all enq (x # xs) q = bindr (enq x q) (add_all enq xs)"

fun take_n :: "('q \<Rightarrow> ('a \<times> 'q) result) \<Rightarrow> nat \<Rightarrow> 'q \<Rightarrow> ('a list \<times> 'q) result" where
  "take_n deq 0 q = Inr ([], q)"
| "take_n deq (Suc n) q =
     bindr (deq q) (\<lambda>(x, q'). bindr (take_n deq n q') (\<lambda>(xs, q''). Inr (x # xs, q'')))"

fun impl_op :: "('a \<Rightarrow> 'q \<Rightarrow> 'q result) \<Rightarrow> ('q \<Rightarrow> ('a \<times> 'q) result) \<Rightarrow> 'a fifo_op \<Rightarrow> 'q
    \<Rightarrow> ('a option \<times> 'q) result" where
  "impl_op enq deq (Enq x) q = bindr (enq x q) (\<lambda>q'. Inr (None, q'))"
| "impl_op enq deq Deq q = bindr (deq q) (\<lambda>(x, q'). Inr (Some x, q'))"

fun impl_run :: "('a \<Rightarrow> 'q \<Rightarrow> 'q result) \<Rightarrow> ('q \<Rightarrow> ('a \<times> 'q) result) \<Rightarrow> 'a fifo_op list \<Rightarrow> 'q
    \<Rightarrow> ('a option list \<times> 'q) result" where
  "impl_run enq deq [] q = Inr ([], q)"
| "impl_run enq deq (p # ps) q =
     bindr (impl_op enq deq p q) (\<lambda>(r, q').
       bindr (impl_run enq deq ps q') (\<lambda>(rs, q''). Inr (r # rs, q'')))"

section \<open>The contracts\<close>

locale fifo_room =
  fixes contents :: "'q \<Rightarrow> 'a list"
    and wf :: "'q \<Rightarrow> bool"
    and cap :: "'q \<Rightarrow> nat"
    and enq :: "'a \<Rightarrow> 'q \<Rightarrow> 'q result"
    and deq :: "'q \<Rightarrow> ('a \<times> 'q) result"
  assumes enq_room: "\<lbrakk>wf q; length (contents q) < cap q\<rbrakk> \<Longrightarrow>
      \<exists>q'. enq x q = Inr q' \<and> wf q' \<and> contents q' = contents q @ [x] \<and> cap q' = cap q"
    and deq_some: "\<lbrakk>wf q; contents q = x # xs\<rbrakk> \<Longrightarrow>
      \<exists>q'. deq q = Inr (x, q') \<and> wf q' \<and> contents q' = xs \<and> cap q' = cap q"
begin

text \<open>A batch that fits is held in order behind what was held before.\<close>

lemma add_all_room:
  "\<lbrakk>wf q; length (contents q) + length xs \<le> cap q\<rbrakk> \<Longrightarrow>
    \<exists>q'. add_all enq xs q = Inr q' \<and> wf q' \<and> contents q' = contents q @ xs \<and> cap q' = cap q"
proof (induction xs arbitrary: q)
  case Nil
  then show ?case by simp
next
  case (Cons x xs)
  then obtain q1 where q1: "enq x q = Inr q1" "wf q1" "contents q1 = contents q @ [x]"
      "cap q1 = cap q"
    using enq_room [of q x] by auto
  with Cons.IH [of q1] Cons.prems show ?case by auto
qed

text \<open>Taking \<open>n\<close> elements returns the first \<open>n\<close> held.\<close>

lemma take_n_prefix:
  "\<lbrakk>wf q; contents q = xs @ ys\<rbrakk> \<Longrightarrow>
    \<exists>q'. take_n deq (length xs) q = Inr (xs, q') \<and> wf q' \<and> contents q' = ys \<and> cap q' = cap q"
proof (induction xs arbitrary: q)
  case Nil
  then show ?case by simp
next
  case (Cons x xs)
  then obtain q1 where q1: "deq q = Inr (x, q1)" "wf q1" "contents q1 = xs @ ys" "cap q1 = cap q"
    using deq_some [of q x "xs @ ys"] by auto
  with Cons.IH [of q1] show ?case by auto
qed

text \<open>First in, first out: a batch put into an empty buffer comes out in the same order.\<close>

lemma fifo_order:
  assumes "wf q" "contents q = []" "length xs \<le> cap q"
  shows "\<exists>q'. bindr (add_all enq xs q) (take_n deq (length xs)) = Inr (xs, q') \<and>
      wf q' \<and> contents q' = []"
proof -
  obtain q1 where q1: "add_all enq xs q = Inr q1" "wf q1" "contents q1 = xs"
    using add_all_room [of q xs] assms by auto
  with take_n_prefix [of q1 xs "[]"] show ?thesis by auto
qed

end

locale bounded_fifo = fifo_room +
  fixes nul :: 'a
  assumes enq_full: "\<lbrakk>wf q; \<not> length (contents q) < cap q\<rbrakk> \<Longrightarrow> enq x q = Inr q"
    and deq_none: "\<lbrakk>wf q; contents q = []\<rbrakk> \<Longrightarrow> deq q = Inr (nul, q)"
begin

lemma impl_op_refines:
  assumes "wf q"
  shows "\<exists>q'. impl_op enq deq p q = Inr (fst (spec_op (cap q) nul p (contents q)), q') \<and>
      wf q' \<and> contents q' = snd (spec_op (cap q) nul p (contents q)) \<and> cap q' = cap q"
proof (cases p)
  case (Enq x)
  then show ?thesis
    using assms enq_room [of q x] enq_full [of q x]
    by (cases "length (contents q) < cap q") auto
next
  case Deq
  show ?thesis
  proof (cases "contents q")
    case Nil
    with assms Deq deq_none [of q] show ?thesis by auto
  next
    case (Cons y ys)
    with assms Deq deq_some [of q y ys] show ?thesis by auto
  qed
qed

text \<open>Every sequence of operations: no fault, the same answers, the same contents.\<close>

lemma impl_run_refines:
  "wf q \<Longrightarrow>
    \<exists>q'. impl_run enq deq ps q = Inr (fst (spec_run (cap q) nul ps (contents q)), q') \<and>
      wf q' \<and> contents q' = snd (spec_run (cap q) nul ps (contents q)) \<and> cap q' = cap q"
proof (induction ps arbitrary: q)
  case Nil
  then show ?case by simp
next
  case (Cons p ps)
  obtain q1 where q1:
      "impl_op enq deq p q = Inr (fst (spec_op (cap q) nul p (contents q)), q1)" "wf q1"
      "contents q1 = snd (spec_op (cap q) nul p (contents q))" "cap q1 = cap q"
    using impl_op_refines [OF Cons.prems] by blast
  with Cons.IH [OF q1(2)] show ?case by (auto split: prod.splits)
qed

end

end
