(* ===== verification/Queue.thy ===== *)
theory Queue
  imports Fifo_Spec
begin

text \<open>
  lib/queue.c and include/queue.h: the fixed-size circular queue of 32-bit words that holds
  the messages of a task, the scan codes of the keyboard, the packets of the mouse and the
  tasks that wait for them.

  The counters are 16-bit words as in the struct: \<open>rear\<close> starts at \<open>-1\<close>, which is 65535, and
  \<open>++rear\<close> wraps to 0. \<open>data\<close> is the array of words that \<open>malloc\<close> gave, so a write
  through an index outside it is a fault. \<open>queue_wf\<close> is the invariant, \<open>queue_contents\<close> the
  abstraction to a list, and the interpretation at the end shows that the queue is a bounded
  FIFO: it gives the theorem that any sequence of additions and removals from a new queue
  behaves as it does on a list.
\<close>

section \<open>The code\<close>

record queue =
  data :: "u32 list"
  qsize :: u16
  count :: u16
  rear :: u16
  front :: u16

text \<open>\<open>cells\<close> are the words found at the address that \<open>malloc\<close> returned.\<close>

definition queue_init :: "u32 list \<Rightarrow> u16 \<Rightarrow> queue" where
  "queue_init cells sz = \<lparr>data = cells, qsize = sz, count = 0, rear = - 1, front = 0\<rparr>"

definition queue_peek :: "queue \<Rightarrow> u32 result" where
  "queue_peek q = (if count q = 0 then Inr NULL else array_get (data q) (unat (front q)))"

definition queue_size :: "queue \<Rightarrow> u32" where
  "queue_size q = ucast (count q)"

text \<open>
  The comparison \<open>q->rear == (q->size - 1)\<close> is made on \<open>int\<close>, after both sides are promoted:
  for a queue of size 0 it compares with \<open>-1\<close>, never with 65535.
\<close>

definition queue_add :: "queue \<Rightarrow> u32 \<Rightarrow> queue result" where
  "queue_add q ptr =
     (if queue_size q < ucast (qsize q) then
        let r = (if uint (rear q) = uint (qsize q) - 1 then - 1 else rear q);
            r' = r + 1
        in bindr (array_set (data q) (unat r') ptr)
             (\<lambda>d. Inr (q\<lparr>data := d, rear := r', count := count q + 1\<rparr>))
      else Inr q)"

definition queue_remove :: "queue \<Rightarrow> (u32 \<times> queue) result" where
  "queue_remove q =
     (if count q = 0 then Inr (NULL, q)
      else bindr (array_get (data q) (unat (front q))) (\<lambda>ptr.
        let f = front q + 1;
            f' = (if f = qsize q then 0 else f)
        in Inr (ptr, q\<lparr>front := f', count := count q - 1\<rparr>)))"

text \<open>
  \<open>queue_foreach\<close>: the callback gets the items at the indices \<open>i\<close>, \<open>i + 1\<close>, \dots up to
  \<open>i_max\<close>; \<open>foreach_loop d c n i s\<close> is the loop with \<open>n\<close> iterations left.
\<close>

fun foreach_loop :: "u32 list \<Rightarrow> (u32 \<Rightarrow> 's \<Rightarrow> 's) \<Rightarrow> nat \<Rightarrow> nat \<Rightarrow> 's \<Rightarrow> 's result" where
  "foreach_loop d c 0 i s = Inr s"
| "foreach_loop d c (Suc n) i s =
     bindr (array_get d i) (\<lambda>x. foreach_loop d c n (i + 1) (c x s))"

definition queue_foreach :: "queue \<Rightarrow> (u32 \<Rightarrow> 's \<Rightarrow> 's) \<Rightarrow> 's \<Rightarrow> 's result" where
  "queue_foreach q c s =
     (let i = (if front q < rear q then unat (front q) else unat (rear q))
      in foreach_loop (data q) c (unat (queue_size q)) i s)"

section \<open>Invariant and abstraction\<close>

text \<open>The index that the next addition writes to.\<close>

definition next_slot :: "queue \<Rightarrow> nat" where
  "next_slot q =
     (if rear q = - 1 \<or> unat (rear q) + 1 = unat (qsize q) then 0 else unat (rear q) + 1)"

definition queue_wf :: "queue \<Rightarrow> bool" where
  "queue_wf q \<longleftrightarrow>
     0 < unat (qsize q) \<and> length (data q) = unat (qsize q) \<and>
     unat (count q) \<le> unat (qsize q) \<and> unat (front q) < unat (qsize q) \<and>
     (rear q = - 1 \<or> unat (rear q) < unat (qsize q)) \<and>
     next_slot q = (unat (front q) + unat (count q)) mod unat (qsize q)"

definition queue_contents :: "queue \<Rightarrow> u32 list" where
  "queue_contents q =
     map (\<lambda>k. data q ! ((unat (front q) + k) mod unat (qsize q))) [0..<unat (count q)]"

lemma length_queue_contents [simp]: "length (queue_contents q) = unat (count q)"
  by (simp add: queue_contents_def)

lemma queue_contents_nth:
  "k < unat (count q) \<Longrightarrow>
    queue_contents q ! k = data q ! ((unat (front q) + k) mod unat (qsize q))"
  by (simp add: queue_contents_def)

text \<open>The next slot depends on \<open>rear\<close> and \<open>size\<close> only, and \<open>rear\<close> inside the array is not 65535.\<close>

lemma next_slot_frame [simp]:
  "next_slot (q\<lparr>front := f, count := c\<rparr>) = next_slot q"
  by (simp add: next_slot_def)

lemma next_slot_in:
  assumes "unat (rear q) < unat (qsize q)"
  shows "next_slot q = (unat (rear q) + 1) mod unat (qsize q)"
proof -
  have "unat (qsize q) < 2 ^ LENGTH(16)" by (rule unsigned_less)
  with assms have "rear q \<noteq> - 1" by (auto simp: unsigned_minus_1_eq_mask mask_eq_exp_minus_1)
  with assms show ?thesis by (auto simp: next_slot_def)
qed

lemma queue_init_wf:
  assumes "0 < unat sz" "length cells = unat sz"
  shows "queue_wf (queue_init cells sz)"
  using assms by (simp add: queue_wf_def queue_init_def next_slot_def)

lemma queue_init_contents [simp]: "queue_contents (queue_init cells sz) = []"
  by (simp add: queue_contents_def queue_init_def)

lemma queue_init_qsize [simp]: "qsize (queue_init cells sz) = sz"
  by (simp add: queue_init_def)

section \<open>The operations\<close>

lemma rear_step:
  fixes r sz :: u16
  assumes "0 < unat sz" "r = - 1 \<or> unat r < unat sz"
  shows "unat ((if uint r = uint sz - 1 then - 1 else r) + 1) =
    (if r = - 1 \<or> unat r + 1 = unat sz then 0 else unat r + 1)"
proof -
  have eq: "uint r = uint sz - 1 \<longleftrightarrow> unat r + 1 = unat sz"
    using assms(1) uint_nat [of r] uint_nat [of sz] by linarith
  show ?thesis
  proof (cases "r = - 1 \<or> unat r + 1 = unat sz")
    case True
    then show ?thesis unfolding eq by auto
  next
    case False
    with assms have "unat r + 1 < unat sz" by auto
    moreover have "unat sz < 2 ^ LENGTH(16)" by (rule unsigned_less)
    ultimately have "unat (r + 1) = unat r + 1" by (intro unat_plus_1) linarith
    with False show ?thesis unfolding eq by simp
  qed
qed

lemma queue_add_room:
  assumes wf: "queue_wf q" and room: "unat (count q) < unat (qsize q)"
  shows "\<exists>q'. queue_add q x = Inr q' \<and> queue_wf q' \<and>
     queue_contents q' = queue_contents q @ [x] \<and> qsize q' = qsize q"
proof -
  let ?n = "unat (qsize q)" and ?f = "unat (front q)" and ?c = "unat (count q)"
  let ?r = "(if uint (rear q) = uint (qsize q) - 1 then - 1 else rear q) + 1"
  let ?i = "(?f + ?c) mod ?n"
  let ?q' = "q\<lparr>data := (data q)[?i := x], rear := ?r, count := count q + 1\<rparr>"
  have i: "unat ?r = ?i"
    using wf rear_step [of "qsize q" "rear q"] by (auto simp: queue_wf_def next_slot_def)
  have in_range: "?i < length (data q)" using wf by (auto simp: queue_wf_def)
  have small: "queue_size q < ucast (qsize q)"
    using room by (simp add: queue_size_def word_less_nat_alt unat_ucast_up)
  have add: "queue_add q x = Inr ?q'"
    using small in_range by (simp add: queue_add_def Let_def i)
  have cnt: "unat (count q + 1) = ?c + 1"
    using room by (intro unat_plus_1_less [of _ "qsize q"]) (simp add: word_less_nat_alt)
  have slot: "next_slot ?q' = (?i + 1) mod ?n"
    using in_range wf i by (simp add: next_slot_in queue_wf_def)
  have "(?i + 1) mod ?n = (?f + (?c + 1)) mod ?n" by (simp add: mod_simps)
  with slot cnt i in_range wf room have "queue_wf ?q'"
    by (auto simp: queue_wf_def)
  moreover have "queue_contents ?q' = queue_contents q @ [x]"
  proof (rule nth_equalityI)
    show "length (queue_contents ?q') = length (queue_contents q @ [x])" by (simp add: cnt)
    fix k
    assume "k < length (queue_contents ?q')"
    then have k: "k < ?c + 1" by (simp add: cnt)
    show "queue_contents ?q' ! k = (queue_contents q @ [x]) ! k"
    proof (cases "k = ?c")
      case True
      then show ?thesis using in_range by (simp add: queue_contents_def nth_append cnt)
    next
      case False
      with k have "k < ?c" by simp
      moreover have "(?f + k) mod ?n \<noteq> ?i"
        using mod_add_distinct [of ?f ?n k ?c] False k room wf by (auto simp: queue_wf_def)
      ultimately show ?thesis by (simp add: queue_contents_def nth_append cnt)
    qed
  qed
  ultimately show ?thesis using add by auto
qed

lemma queue_add_full:
  assumes "\<not> unat (count q) < unat (qsize q)"
  shows "queue_add q x = Inr q"
  using assms by (simp add: queue_add_def queue_size_def word_less_nat_alt unat_ucast_up)

lemma queue_remove_some:
  assumes wf: "queue_wf q" and held: "queue_contents q = x # xs"
  shows "\<exists>q'. queue_remove q = Inr (x, q') \<and> queue_wf q' \<and> queue_contents q' = xs \<and>
     qsize q' = qsize q"
proof -
  let ?n = "unat (qsize q)" and ?f = "unat (front q)" and ?c = "unat (count q)"
  let ?f' = "if front q + 1 = qsize q then 0 else front q + 1"
  let ?q' = "q\<lparr>front := ?f', count := count q - 1\<rparr>"
  have len: "?c = Suc (length xs)" using held length_queue_contents [of q] by simp
  then have pos: "count q \<noteq> 0" by auto
  have fr: "?f < ?n" using wf by (simp add: queue_wf_def)
  have x: "x = data q ! ?f"
    using arg_cong [OF held, of hd] len fr by (simp add: queue_contents_def upt_rec hd_map)
  have f1: "unat (front q + 1) = ?f + 1"
    using fr by (intro unat_plus_1_less [of _ "qsize q"]) (simp add: word_less_nat_alt)
  have f': "unat ?f' = (?f + 1) mod ?n"
  proof (cases "front q + 1 = qsize q")
    case True
    then have "?f + 1 = ?n" using f1 by simp
    then show ?thesis using True by simp
  next
    case False
    then have "?f + 1 \<noteq> ?n" using f1 by (metis word_unat_eq_iff)
    then show ?thesis using False f1 fr by simp
  qed
  have c': "unat (count q - 1) = length xs" using pos len by (simp add: unat_minus_1)
  have shift: "((?f + 1) mod ?n + k) mod ?n = (?f + Suc k) mod ?n" for k
    by (simp add: mod_simps)
  have "queue_remove q = Inr (x, ?q')"
    using pos fr wf x by (simp add: queue_remove_def Let_def queue_wf_def)
  moreover have "queue_wf ?q'"
    using wf fr f' c' len shift [of "length xs"] by (simp add: queue_wf_def)
  moreover have "queue_contents ?q' = xs"
  proof (rule nth_equalityI)
    show "length (queue_contents ?q') = length xs" by (simp add: c')
    fix k
    assume "k < length (queue_contents ?q')"
    then have k: "k < length xs" by (simp add: c')
    have "xs ! k = queue_contents q ! Suc k" by (simp add: held)
    also have "\<dots> = data q ! ((?f + Suc k) mod ?n)"
      using k len by (simp add: queue_contents_nth)
    finally show "queue_contents ?q' ! k = xs ! k"
      using k c' f' shift [of k] by (simp add: queue_contents_nth)
  qed
  ultimately show ?thesis by auto
qed

lemma queue_remove_empty:
  assumes "queue_contents q = []"
  shows "queue_remove q = Inr (NULL, q)"
proof -
  have "unat (count q) = 0" using assms length_queue_contents [of q] by simp
  then have "count q = 0" by (simp add: unat_eq_0)
  then show ?thesis by (simp add: queue_remove_def)
qed

interpretation qf: bounded_fifo queue_contents queue_wf "\<lambda>q. unat (qsize q)"
    "\<lambda>x q. queue_add q x" queue_remove NULL
proof
  fix q x
  assume "queue_wf q" "length (queue_contents q) < unat (qsize q)"
  then show "\<exists>q'. queue_add q x = Inr q' \<and> queue_wf q' \<and>
      queue_contents q' = queue_contents q @ [x] \<and> unat (qsize q') = unat (qsize q)"
    using queue_add_room [of q x] by auto
next
  fix q x xs
  assume "queue_wf q" "queue_contents q = x # xs"
  then show "\<exists>q'. queue_remove q = Inr (x, q') \<and> queue_wf q' \<and> queue_contents q' = xs \<and>
      unat (qsize q') = unat (qsize q)"
    using queue_remove_some [of q x xs] by auto
qed (simp_all add: queue_add_full queue_remove_empty)

section \<open>Peeking and iterating\<close>

lemma queue_peek_hd:
  assumes "queue_wf q"
  shows "queue_peek q = Inr (case queue_contents q of [] \<Rightarrow> NULL | x # _ \<Rightarrow> x)"
proof (cases "count q = 0")
  case True
  then have "queue_contents q = []" by (simp add: queue_contents_def)
  with True show ?thesis by (simp add: queue_peek_def)
next
  case False
  then have pos: "0 < unat (count q)" by (simp add: unat_gt_0)
  then obtain x xs where xs: "queue_contents q = x # xs"
    using length_queue_contents [of q] by (cases "queue_contents q") auto
  have "unat (front q) < unat (qsize q)" using assms by (simp add: queue_wf_def)
  with False xs pos assms queue_contents_nth [OF pos] show ?thesis
    by (simp add: queue_peek_def queue_wf_def)
qed

lemma foreach_loop_slice:
  "i + n \<le> length d \<Longrightarrow> foreach_loop d c n i s = Inr (fold c (take n (drop i d)) s)"
proof (induction n arbitrary: i s)
  case 0
  then show ?case by simp
next
  case (Suc n)
  then have "drop i d = d ! i # drop (i + 1) d"
    by (simp add: Cons_nth_drop_Suc)
  with Suc show ?case by simp
qed

text \<open>
  While the held elements do not run past the end of the array, \<open>queue_foreach\<close> starts at the
  front element and visits exactly the held ones.
\<close>

lemma queue_foreach_start:
  assumes wf: "queue_wf q" and held: "0 < unat (count q)"
    and flat: "unat (front q) + unat (count q) \<le> unat (qsize q)"
  shows "(if front q < rear q then unat (front q) else unat (rear q)) = unat (front q)"
proof -
  let ?n = "unat (qsize q)" and ?f = "unat (front q)" and ?c = "unat (count q)"
  have "?n < 2 ^ LENGTH(16)" by (rule unsigned_less)
  then have slot: "next_slot q = (?f + ?c) mod ?n" and m1: "unat (- 1 :: u16) \<ge> ?n"
    using wf by (auto simp: queue_wf_def unsigned_minus_1_eq_mask mask_eq_exp_minus_1)
  show ?thesis
  proof (cases "rear q = - 1")
    case True
    with held m1 wf show ?thesis by (auto simp: word_less_nat_alt queue_wf_def)
  next
    case False
    with wf have r: "unat (rear q) < ?n" by (simp add: queue_wf_def)
    with slot have "(unat (rear q) + 1) mod ?n = (?f + ?c) mod ?n" by (simp add: next_slot_in)
    with r held flat have "unat (rear q) + 1 = ?f + ?c"
      by (cases "unat (rear q) + 1 = ?n"; cases "?f + ?c = ?n") (auto simp: mod_if)
    with held show ?thesis by (auto simp: word_less_nat_alt)
  qed
qed

lemma queue_contents_slice:
  assumes "queue_wf q" "unat (front q) + unat (count q) \<le> unat (qsize q)"
  shows "queue_contents q = take (unat (count q)) (drop (unat (front q)) (data q))"
  using assms by (intro nth_equalityI) (auto simp: queue_contents_nth queue_wf_def)

section \<open>Properties\<close>

text \<open>
  C1: any sequence of \<open>queue_add\<close> and \<open>queue_remove\<close> on a newly initialised queue of positive
  size runs without a fault (in particular it never writes outside the array), and its answers
  and final contents are those of a list that holds at most \<open>size\<close> elements: removal takes the
  oldest element, NULL when there is none, and an addition to a full queue is dropped.
\<close>

theorem queue_refines_fifo:
  assumes "0 < unat sz" "length cells = unat sz"
  shows "\<exists>q'. impl_run (\<lambda>x q. queue_add q x) queue_remove ops (queue_init cells sz) =
       Inr (fst (spec_run (unat sz) NULL ops []), q') \<and>
     queue_contents q' = snd (spec_run (unat sz) NULL ops [])"
  using qf.impl_run_refines [OF queue_init_wf [OF assms], of ops] by auto

theorem queue_refines_fifo_witness:
  "\<exists>q'. impl_run (\<lambda>x q. queue_add q x) queue_remove [Enq 7, Enq 8, Enq 9, Deq, Enq 5, Deq]
       (queue_init [0, 0] 2) = Inr ([None, None, None, Some 7, None, Some 8], q') \<and>
     queue_contents q' = [5]"
  using queue_refines_fifo
    [of "2" "[0, 0]" "[Enq 7, Enq 8, Enq 9, Deq, Enq 5, Deq]"]
  by simp

text \<open>
  On a well-formed queue whose held elements do not run past the end of the array,
  \<open>queue_foreach\<close> gives the callback exactly the held elements, oldest first.
\<close>

theorem queue_foreach_in_order:
  assumes "queue_wf q" "0 < unat (count q)"
    and "unat (front q) + unat (count q) \<le> unat (qsize q)"
  shows "queue_foreach q c s = Inr (fold c (queue_contents q) s)"
  using assms queue_foreach_start [OF assms] foreach_loop_slice [of "unat (front q)" "unat (count q)" "data q" c s]
  by (simp add: queue_foreach_def queue_size_def unat_ucast_up queue_contents_slice queue_wf_def)

theorem queue_foreach_in_order_witness:
  "queue_foreach \<lparr>data = [1, 2, 3], qsize = 3, count = 2, rear = 2, front = 1\<rparr> (#) [] =
     Inr [3, 2]"
  using queue_foreach_in_order
    [of "\<lparr>data = [1, 2, 3], qsize = 3, count = 2, rear = 2, front = 1\<rparr>" "(#)" "[]"]
  by (simp add: queue_wf_def next_slot_def queue_contents_def upt_rec)

text \<open>
  Once the held elements run past the end of the array, \<open>queue_foreach\<close> does not wrap its
  index: a queue of three cells in which 4 was added last and 3 is the oldest element held
  (a state that additions and removals reach) gives the callback 4 and the stale 2.
\<close>

theorem queue_foreach_wrapped:
  "\<exists>q rs. impl_run (\<lambda>x q. queue_add q x) queue_remove
       [Enq 1, Enq 2, Enq 3, Deq, Deq, Enq 4] (queue_init [0, 0, 0] 3) = Inr (rs, q) \<and>
     queue_contents q = [3, 4] \<and> queue_foreach q (\<lambda>x xs. xs @ [x]) [] = Inr [4, 2]"
proof -
  let ?q = "\<lparr>data = [4, 2, 3], qsize = 3, count = 2, rear = 0, front = 2\<rparr>"
  have "impl_run (\<lambda>x q. queue_add q x) queue_remove
       [Enq 1, Enq 2, Enq 3, Deq, Deq, Enq 4] (queue_init [0, 0, 0] 3) =
     Inr ([None, None, None, Some 1, Some 2, None], ?q)"
    by (simp add: queue_init_def queue_add_def queue_remove_def queue_size_def Let_def)
  moreover have "queue_contents ?q = [3, 4]"
    by (simp add: queue_contents_def upt_rec)
  moreover have "queue_foreach ?q (\<lambda>x xs. xs @ [x]) [] = Inr [4, 2]"
    by (simp add: queue_foreach_def queue_size_def foreach_loop_slice)
  ultimately show ?thesis by blast
qed

end
