(* ===== verification/Ring.thy ===== *)
theory Ring
  imports Fifo_Spec
begin

text \<open>
  lib/ring.c and include/ring.h: the byte ring of a console.

  A ring pointer is \<open>None\<close> when it is NULL. \<open>ASSERT_PANIC\<close> on the magic number is the fault
  \<open>Panic\<close>. \<open>buffer\<close> is what \<open>malloc(size)\<close> gave, so an index at or past its length is a
  fault. \<open>ring_wf\<close> is the invariant that holds while at most \<open>lenght - 1\<close> bytes are held:
  then the ring is a FIFO (interpretation \<open>rf\<close>). It fails for a ring filled to its last byte
  from the start of the buffer, because \<open>ring_push\<close> wraps the write index only when the read
  index has moved: \<open>ring_overflow\<close> is that run.
\<close>

section \<open>The code\<close>

record ring =
  rmagic :: u32
  buffer :: "u8 list"
  read :: u32
  "write" :: u32
  lenght :: u32
  rcount :: u32

definition RING_MAGIC :: u32 where
  "RING_MAGIC = 0xefb1195d"

text \<open>
  \<open>ring_init\<close>: the flag it returns and the ring it leaves. \<open>cells\<close> are the bytes found at the
  address that \<open>malloc(size)\<close> returned.
\<close>

definition ring_init :: "u8 list \<Rightarrow> ring option \<Rightarrow> u32 \<Rightarrow> u8 \<times> ring option" where
  "ring_init cells r sz =
     (case r of
        None \<Rightarrow> (FALSE8, None)
      | Some r \<Rightarrow>
          if sz \<le> 1 then (FALSE8, Some r)
          else (TRUE8, Some (r\<lparr>lenght := sz, rcount := 0, read := 0, write := 0,
                  rmagic := RING_MAGIC, buffer := cells\<rparr>)))"

definition ring_is_full :: "ring option \<Rightarrow> u8 result" where
  "ring_is_full r =
     (case r of
        None \<Rightarrow> Inr TRUE8
      | Some r \<Rightarrow> guardr (rmagic r = RING_MAGIC) Panic
          (Inr (if lenght r \<le> rcount r then 1 else 0)))"

definition ring_is_empty :: "ring option \<Rightarrow> u8 result" where
  "ring_is_empty r =
     (case r of
        None \<Rightarrow> Inr TRUE8
      | Some r \<Rightarrow> guardr (rmagic r = RING_MAGIC) Panic
          (Inr (if rcount r = 0 then 1 else 0)))"

definition ring_size :: "ring option \<Rightarrow> u32 result" where
  "ring_size r =
     (case r of
        None \<Rightarrow> Inr 0
      | Some r \<Rightarrow> guardr (rmagic r = RING_MAGIC) Panic (Inr (lenght r)))"

definition ring_push :: "ring option \<Rightarrow> u8 \<Rightarrow> (u8 \<times> ring option) result" where
  "ring_push r d =
     (case r of
        None \<Rightarrow> Inr (FALSE8, None)
      | Some r \<Rightarrow> guardr (rmagic r = RING_MAGIC) Panic
          (if lenght r \<le> rcount r then Inr (FALSE8, Some r)
           else bindr (array_set (buffer r) (unat (write r)) d) (\<lambda>b.
             let w = write r + 1;
                 w' = (if w = lenght r \<and> 0 < read r then 0 else w)
             in Inr (TRUE8, Some (r\<lparr>buffer := b, write := w', rcount := rcount r + 1\<rparr>)))))"

definition ring_push32 :: "ring option \<Rightarrow> u32 \<Rightarrow> u8 \<times> ring option" where
  "ring_push32 r d = (TRUE8, r)"

text \<open>
  \<open>ring_pop\<close>: the flag, the byte stored through \<open>data\<close> (\<open>None\<close> when nothing is stored) and the
  ring. \<open>want\<close> says that the caller's \<open>data\<close> is not NULL; the read index moves only then.
\<close>

definition ring_pop :: "ring option \<Rightarrow> bool \<Rightarrow> (u8 \<times> u8 option \<times> ring option) result" where
  "ring_pop r want =
     (case r of
        None \<Rightarrow> Inr (0, None, None)
      | Some r \<Rightarrow> guardr (rmagic r = RING_MAGIC) Panic
          (if rcount r = 0 then Inr (FALSE8, None, Some r)
           else
             bindr (if want then bindr (array_get (buffer r) (unat (read r)))
                                   (\<lambda>x. Inr (Some x, read r + 1))
                    else Inr (None, read r))
               (\<lambda>(out, rd).
                 let rd' = (if lenght r \<le> rd then 0 else rd)
                 in Inr (TRUE8, out, Some (r\<lparr>read := rd', rcount := rcount r - 1\<rparr>)))))"

definition ring_pop32 :: "ring option \<Rightarrow> u8 \<times> ring option" where
  "ring_pop32 r = (TRUE8, r)"

section \<open>Invariant and abstraction\<close>

definition ring_wf :: "ring \<Rightarrow> bool" where
  "ring_wf r \<longleftrightarrow>
     rmagic r = RING_MAGIC \<and> 1 < unat (lenght r) \<and> length (buffer r) = unat (lenght r) \<and>
     unat (rcount r) < unat (lenght r) \<and> unat (read r) < unat (lenght r) \<and>
     unat (write r) = (unat (read r) + unat (rcount r)) mod unat (lenght r)"

definition ring_contents :: "ring \<Rightarrow> u8 list" where
  "ring_contents r =
     map (\<lambda>k. buffer r ! ((unat (read r) + k) mod unat (lenght r))) [0..<unat (rcount r)]"

text \<open>The two operations in the shape of the FIFO contract.\<close>

definition ring_enq :: "u8 \<Rightarrow> ring \<Rightarrow> ring result" where
  "ring_enq d r =
     bindr (ring_push (Some r) d) (\<lambda>(ok, r'). case r' of Some r'' \<Rightarrow> Inr r'' | None \<Rightarrow> Inl NoValue)"

definition ring_deq :: "ring \<Rightarrow> (u8 \<times> ring) result" where
  "ring_deq r =
     bindr (ring_pop (Some r) True) (\<lambda>(ok, out, r').
       case (out, r') of (Some x, Some r'') \<Rightarrow> Inr (x, r'') | _ \<Rightarrow> Inl NoValue)"

lemma length_ring_contents [simp]: "length (ring_contents r) = unat (rcount r)"
  by (simp add: ring_contents_def)

lemma ring_contents_nth:
  "k < unat (rcount r) \<Longrightarrow>
    ring_contents r ! k = buffer r ! ((unat (read r) + k) mod unat (lenght r))"
  by (simp add: ring_contents_def)

lemma ring_init_wf:
  assumes "1 < sz" "length cells = unat sz"
  shows "\<exists>r'. ring_init cells (Some r) sz = (TRUE8, Some r') \<and> ring_wf r' \<and>
     ring_contents r' = [] \<and> lenght r' = sz"
proof -
  have "1 < unat sz" using assms(1) by (simp add: word_less_nat_alt)
  with assms show ?thesis by (simp add: ring_init_def ring_wf_def ring_contents_def)
qed

section \<open>The operations\<close>

text \<open>With room for two more bytes, the write index after a push is the next one, wrapped.\<close>

lemma ring_push_index:
  assumes wf: "ring_wf r" and room: "unat (rcount r) + 1 < unat (lenght r)"
  defines "w \<equiv> write r + 1"
  shows "unat (if w = lenght r \<and> 0 < read r then 0 else w) =
    (unat (write r) + 1) mod unat (lenght r)"
proof -
  let ?n = "unat (lenght r)"
  have wr: "unat (write r) < ?n" using wf by (auto simp: ring_wf_def)
  then have w: "unat w = unat (write r) + 1"
    unfolding w_def by (intro unat_plus_1_less [of _ "lenght r"]) (simp add: word_less_nat_alt)
  show ?thesis
  proof (cases "w = lenght r")
    case True
    then have "unat (write r) + 1 = ?n" using w by simp
    moreover have "0 < read r"
    proof (rule ccontr)
      assume "\<not> 0 < read r"
      then have "read r = 0" using word_neq_0_conv by blast
      with wf room have "unat (write r) = unat (rcount r)" by (simp add: ring_wf_def)
      with calculation room show False by simp
    qed
    ultimately show ?thesis using True by simp
  next
    case False
    then have "unat (write r) + 1 \<noteq> ?n" using w by (metis word_unat_eq_iff)
    with False w wr show ?thesis by simp
  qed
qed

lemma ring_push_room:
  assumes wf: "ring_wf r" and room: "unat (rcount r) + 1 < unat (lenght r)"
  shows "\<exists>r'. ring_push (Some r) x = Inr (TRUE8, Some r') \<and> ring_wf r' \<and>
     ring_contents r' = ring_contents r @ [x] \<and> lenght r' = lenght r"
proof -
  let ?n = "unat (lenght r)" and ?f = "unat (read r)" and ?c = "unat (rcount r)"
  let ?i = "(?f + ?c) mod ?n"
  let ?w = "if write r + 1 = lenght r \<and> 0 < read r then 0 else write r + 1"
  let ?r' = "r\<lparr>buffer := (buffer r)[?i := x], write := ?w, rcount := rcount r + 1\<rparr>"
  have i: "unat (write r) = ?i" and in_range: "?i < length (buffer r)"
    using wf by (auto simp: ring_wf_def)
  have small: "\<not> lenght r \<le> rcount r" using room by (simp add: word_le_nat_alt)
  have push: "ring_push (Some r) x = Inr (TRUE8, Some ?r')"
    using wf small in_range i by (simp add: ring_push_def ring_wf_def Let_def)
  have cnt: "unat (rcount r + 1) = ?c + 1"
    using room by (intro unat_plus_1_less [of _ "lenght r"]) (simp add: word_less_nat_alt)
  have "(?i + 1) mod ?n = (?f + (?c + 1)) mod ?n" by (simp add: mod_simps)
  then have "ring_wf ?r'"
    using wf room cnt ring_push_index [OF wf room] i by (simp add: ring_wf_def)
  moreover have "ring_contents ?r' = ring_contents r @ [x]"
  proof (rule nth_equalityI)
    show "length (ring_contents ?r') = length (ring_contents r @ [x])" by (simp add: cnt)
    fix k
    assume "k < length (ring_contents ?r')"
    then have k: "k < ?c + 1" by (simp add: cnt)
    show "ring_contents ?r' ! k = (ring_contents r @ [x]) ! k"
    proof (cases "k = ?c")
      case True
      then show ?thesis using in_range by (simp add: ring_contents_nth nth_append cnt)
    next
      case False
      with k have "k < ?c" by simp
      moreover have "(?f + k) mod ?n \<noteq> ?i"
        using mod_add_distinct [of ?f ?n k ?c] False k room wf by (auto simp: ring_wf_def)
      ultimately show ?thesis by (simp add: ring_contents_nth nth_append cnt)
    qed
  qed
  ultimately show ?thesis using push by auto
qed

lemma ring_pop_some:
  assumes wf: "ring_wf r" and held: "ring_contents r = x # xs"
  shows "\<exists>r'. ring_pop (Some r) True = Inr (TRUE8, Some x, Some r') \<and> ring_wf r' \<and>
     ring_contents r' = xs \<and> lenght r' = lenght r"
proof -
  let ?n = "unat (lenght r)" and ?f = "unat (read r)" and ?c = "unat (rcount r)"
  let ?f' = "if lenght r \<le> read r + 1 then 0 else read r + 1"
  let ?r' = "r\<lparr>read := ?f', rcount := rcount r - 1\<rparr>"
  have len: "?c = Suc (length xs)" using held length_ring_contents [of r] by simp
  then have pos: "rcount r \<noteq> 0" by auto
  have fr: "?f < ?n" using wf by (simp add: ring_wf_def)
  have x: "x = buffer r ! ?f" using held len fr ring_contents_nth [of 0 r] by simp
  have f1: "unat (read r + 1) = ?f + 1"
    using fr by (intro unat_plus_1_less [of _ "lenght r"]) (simp add: word_less_nat_alt)
  have f': "unat ?f' = (?f + 1) mod ?n"
    using f1 fr by (cases "?f + 1 = ?n") (auto simp: word_le_nat_alt)
  have c': "unat (rcount r - 1) = length xs" using pos len by (simp add: unat_minus_1)
  have shift: "((?f + 1) mod ?n + k) mod ?n = (?f + Suc k) mod ?n" for k
    by (simp add: mod_simps)
  have "ring_pop (Some r) True = Inr (TRUE8, Some x, Some ?r')"
    using pos fr wf x by (simp add: ring_pop_def Let_def ring_wf_def)
  moreover have "ring_wf ?r'"
    using wf fr f' c' len shift [of "length xs"] by (simp add: ring_wf_def)
  moreover have "ring_contents ?r' = xs"
  proof (rule nth_equalityI)
    show "length (ring_contents ?r') = length xs" by (simp add: c')
    fix k
    assume "k < length (ring_contents ?r')"
    then have k: "k < length xs" by (simp add: c')
    have "xs ! k = ring_contents r ! Suc k" by (simp add: held)
    also have "\<dots> = buffer r ! ((?f + Suc k) mod ?n)"
      using k len by (simp add: ring_contents_nth)
    finally show "ring_contents ?r' ! k = xs ! k"
      using k c' f' shift [of k] by (simp add: ring_contents_nth)
  qed
  ultimately show ?thesis by auto
qed

interpretation rf: fifo_room ring_contents ring_wf "\<lambda>r. unat (lenght r) - 1" ring_enq ring_deq
proof
  fix r x
  assume wf: "ring_wf r" and "length (ring_contents r) < unat (lenght r) - 1"
  then have "unat (rcount r) + 1 < unat (lenght r)" by simp
  with wf show "\<exists>r'. ring_enq x r = Inr r' \<and> ring_wf r' \<and>
      ring_contents r' = ring_contents r @ [x] \<and> unat (lenght r') - 1 = unat (lenght r) - 1"
    using ring_push_room [of r x] by (auto simp: ring_enq_def)
next
  fix r x xs
  assume "ring_wf r" "ring_contents r = x # xs"
  then show "\<exists>r'. ring_deq r = Inr (x, r') \<and> ring_wf r' \<and> ring_contents r' = xs \<and>
      unat (lenght r') - 1 = unat (lenght r) - 1"
    using ring_pop_some [of r x xs] by (auto simp: ring_deq_def)
qed

section \<open>Filling a ring from the start of its buffer\<close>

definition ring_filling :: "ring \<Rightarrow> bool" where
  "ring_filling r \<longleftrightarrow>
     rmagic r = RING_MAGIC \<and> length (buffer r) = unat (lenght r) \<and> read r = 0 \<and>
     rcount r = write r"

lemma ring_fill:
  "\<lbrakk>ring_filling r; unat (write r) + length xs \<le> unat (lenght r)\<rbrakk> \<Longrightarrow>
    \<exists>r'. add_all ring_enq xs r = Inr r' \<and> ring_filling r' \<and> lenght r' = lenght r \<and>
      unat (write r') = unat (write r) + length xs"
proof (induction xs arbitrary: r)
  case Nil
  then show ?case by simp
next
  case (Cons x xs)
  let ?r = "r\<lparr>buffer := (buffer r)[unat (write r) := x], write := write r + 1,
    rcount := rcount r + 1\<rparr>"
  from Cons.prems have lt: "write r < lenght r" by (simp add: word_less_nat_alt)
  with Cons.prems(1) have "ring_enq x r = Inr ?r"
    by (simp add: ring_filling_def ring_enq_def ring_push_def Let_def word_less_nat_alt
        flip: linorder_not_less)
  moreover have "ring_filling ?r" using Cons.prems(1) by (simp add: ring_filling_def)
  moreover have "unat (write r + 1) = unat (write r) + 1" using lt by (rule unat_plus_1_less)
  ultimately show ?case using Cons.IH [of ?r] Cons.prems(2) by auto
qed

text \<open>A ring filled to its last byte this way pops one byte and then overruns on the next push.\<close>

lemma ring_full_then_pop:
  assumes "ring_filling r" "write r = lenght r" "1 < lenght r"
  shows "\<exists>x r'. ring_deq r = Inr (x, r') \<and> ring_is_full (Some r') = Inr 0 \<and>
     ring_push (Some r') d = Inl OutOfBounds"
proof -
  have n: "0 < unat (lenght r)" "lenght r \<noteq> 0" "\<not> lenght r \<le> 1"
    using assms(3) by (auto simp: word_less_nat_alt word_le_nat_alt)
  then have "lenght r - 1 < lenght r" by (simp add: word_less_nat_alt unat_minus_1)
  with n assms show ?thesis
    by (auto simp: ring_deq_def ring_pop_def ring_filling_def Let_def ring_is_full_def
        ring_push_def)
qed

section \<open>Properties\<close>

text \<open>
  On a ring initialised with a size above 1, up to \<open>size - 1\<close> bytes can be pushed and
  popping returns them in the order they were pushed, without a fault and leaving the ring
  empty and well formed (so the same holds for the next batch, wherever the indices stand).
\<close>

theorem ring_fifo:
  assumes "1 < sz" "length cells = unat sz" "length xs \<le> unat sz - 1"
  shows "\<exists>r1 r2. ring_init cells (Some r) sz = (TRUE8, Some r1) \<and>
     bindr (add_all ring_enq xs r1) (take_n ring_deq (length xs)) = Inr (xs, r2) \<and>
     ring_wf r2 \<and> ring_contents r2 = []"
proof -
  obtain r1 where r1: "ring_init cells (Some r) sz = (TRUE8, Some r1)" "ring_wf r1"
      "ring_contents r1 = []" "lenght r1 = sz"
    using ring_init_wf [OF assms(1,2)] by blast
  with rf.fifo_order [of r1 xs] assms(3) show ?thesis by auto
qed

theorem ring_fifo_witness:
  "\<exists>r1 r2. ring_init [0, 0, 0] (Some \<lparr>rmagic = 0, buffer = [], read = 0, write = 0, lenght = 0,
       rcount = 0\<rparr>) 3 = (TRUE8, Some r1) \<and>
     bindr (add_all ring_enq [7, 8] r1) (take_n ring_deq (Suc (Suc 0))) = Inr ([7, 8], r2) \<and>
     ring_wf r2 \<and> ring_contents r2 = []"
  using ring_fifo [of 3 "[0, 0, 0]" "[7, 8]" "\<lparr>rmagic = 0, buffer = [], read = 0, write = 0,
    lenght = 0, rcount = 0\<rparr>"]
  by simp

text \<open>
  Filling a new ring of any size above 1 to its last byte and then popping one byte leaves
  the write index at the length of the buffer, so the next push, which \<open>ring_is_full\<close> allows,
  writes one byte past the end of the buffer.
\<close>

theorem ring_overflow:
  assumes "1 < sz" "length cells = unat sz" "length xs = unat sz"
  shows "\<exists>r1 r2 x r3. ring_init cells (Some r) sz = (TRUE8, Some r1) \<and>
     add_all ring_enq xs r1 = Inr r2 \<and> ring_deq r2 = Inr (x, r3) \<and>
     ring_is_full (Some r3) = Inr 0 \<and> ring_push (Some r3) d = Inl OutOfBounds"
proof -
  obtain r1 where r1: "ring_init cells (Some r) sz = (TRUE8, Some r1)" "ring_filling r1"
      "lenght r1 = sz" "write r1 = 0"
    using assms by (auto simp: ring_init_def ring_filling_def linorder_not_le)
  then obtain r2 where r2: "add_all ring_enq xs r1 = Inr r2" "ring_filling r2" "lenght r2 = sz"
      "unat (write r2) = unat sz"
    using ring_fill [of r1 xs] assms by auto
  then have "write r2 = lenght r2" by (simp add: word_unat_eq_iff)
  with r2 assms(1) obtain x r3 where "ring_deq r2 = Inr (x, r3)"
      "ring_is_full (Some r3) = Inr 0" "ring_push (Some r3) d = Inl OutOfBounds"
    using ring_full_then_pop [of r2 d] by auto
  with r1 r2 show ?thesis by blast
qed

theorem ring_overflow_witness:
  "\<exists>r1 r2 x r3. ring_init [0, 0] (Some \<lparr>rmagic = 0, buffer = [], read = 0, write = 0, lenght = 0,
       rcount = 0\<rparr>) 2 = (TRUE8, Some r1) \<and>
     add_all ring_enq [7, 8] r1 = Inr r2 \<and> ring_deq r2 = Inr (x, r3) \<and>
     ring_is_full (Some r3) = Inr 0 \<and> ring_push (Some r3) 9 = Inl OutOfBounds"
  using ring_overflow [of 2 "[0, 0]" "[7, 8]" "\<lparr>rmagic = 0, buffer = [], read = 0, write = 0,
    lenght = 0, rcount = 0\<rparr>" 9]
  by simp

end
