(* ===== verification/Frame.thy ===== *)
theory Frame
  imports Prelude
begin

text \<open>
  kernel/memory/frame.c: the allocator of physical frames.

  The state holds the globals of the file. The bitmap is a function of the byte index; an
  index of \<open>BITMAP_SIZE\<close> or more is \<open>OutOfBounds\<close>. \<open>frame_set\<close> assigns the whole byte and the
  searches test the whole byte (\<open>&&\<close> where a mask is meant), and so does the model: one frame of
  each group of eight can be handed out. The lemmas show what this still guarantees: frames
  handed out are distinct, aligned, in range and not reserved; and what it loses: when every
  group has a frame in use, the search never ends although frames are counted free.
\<close>

section \<open>The code\<close>

definition FRAME_SIZE :: u32 where
  "FRAME_SIZE = 0x1000"

definition BITMAP_SIZE :: nat where
  "BITMAP_SIZE = 0x20000"

record frame_state =
  frames_count :: u32
  frame_idx :: u32
  frames_free :: u32
  physical_bitmap :: "nat \<Rightarrow> u8"

definition byte_of :: "u32 \<Rightarrow> nat" where
  "byte_of i = unat (i div 8)"

definition bit_mask :: "u32 \<Rightarrow> u8" where
  "bit_mask i = push_bit (unat (i mod 8)) 1"

definition frame_set :: "u32 \<Rightarrow> 'a frame_state_scheme \<Rightarrow> 'a frame_state_scheme result" where
  "frame_set i s =
     guardr (byte_of i < BITMAP_SIZE) OutOfBounds
       (Inr (s\<lparr>physical_bitmap := (physical_bitmap s)(byte_of i := bit_mask i),
              frames_free := frames_free s - 1\<rparr>))"

definition frame_set_address :: "u32 \<Rightarrow> 'a frame_state_scheme \<Rightarrow> 'a frame_state_scheme result" where
  "frame_set_address a s =
     (let i = a div FRAME_SIZE
      in guardr (byte_of i < BITMAP_SIZE) OutOfBounds
           (Inr (s\<lparr>physical_bitmap := (physical_bitmap s)(byte_of i := bit_mask i),
                  frames_free := frames_free s - 1\<rparr>)))"

definition frame_unset :: "u32 \<Rightarrow> 'a frame_state_scheme \<Rightarrow> 'a frame_state_scheme result" where
  "frame_unset i s =
     (if frames_count s < i then Inr s
      else guardr (byte_of i < BITMAP_SIZE) OutOfBounds
        (Inr (s\<lparr>physical_bitmap := (physical_bitmap s)
                  (byte_of i := physical_bitmap s (byte_of i) AND NOT (bit_mask i)),
               frames_free := frames_free s + 1\<rparr>)))"

definition frame_unset_address :: "u32 \<Rightarrow> 'a frame_state_scheme \<Rightarrow> 'a frame_state_scheme result" where
  "frame_unset_address a s =
     (let i = a div FRAME_SIZE
      in if frames_count s < i then Inr s
         else guardr (byte_of i < BITMAP_SIZE) OutOfBounds
           (Inr (s\<lparr>physical_bitmap := (physical_bitmap s)
                     (byte_of i := physical_bitmap s (byte_of i) AND NOT (bit_mask i)),
                  frames_free := frames_free s + 1\<rparr>)))"

text \<open>
  \<open>frame_setup\<close>: the loop over the reserved addresses. When \<open>reserved_end\<close> is in the last page
  of the address space, \<open>i\<close> wraps around and the loop never ends.
\<close>

fun reserve_loop :: "nat \<Rightarrow> u32 \<Rightarrow> u32 \<Rightarrow> 'a frame_state_scheme \<Rightarrow> 'a frame_state_scheme result" where
  "reserve_loop 0 i reserved_end s = Inl Diverge"
| "reserve_loop (Suc n) i reserved_end s =
     (if i < reserved_end then
        bindr (frame_set_address i s) (\<lambda>s.
          reserve_loop n (i + FRAME_SIZE) reserved_end (s\<lparr>frame_idx := frame_idx s + 1\<rparr>))
      else Inr s)"

definition frame_setup :: "u32 \<Rightarrow> u32 \<Rightarrow> u32 \<Rightarrow> 'a frame_state_scheme \<Rightarrow> 'a frame_state_scheme result" where
  "frame_setup mem_size reserved_start reserved_end s =
     reserve_loop addr_space reserved_start reserved_end
       (s\<lparr>frames_count := mem_size div FRAME_SIZE, frames_free := mem_size div FRAME_SIZE,
          frame_idx := 0\<rparr>)"

text \<open>
  The search of \<open>frame_get_blk\<close>. Its result is \<open>blk_start\<close>, which has no initial value in the
  code: it is the parameter \<open>junk\<close> when the search finds no free frame.
\<close>

function blk_search :: "'a frame_state_scheme \<Rightarrow> u32 \<Rightarrow> u32 \<Rightarrow> u32 \<Rightarrow> u32 \<Rightarrow> u32 result" where
  "blk_search s blk_sz i blk_left blk_start =
     (if i < frames_count s then
        if byte_of i < BITMAP_SIZE then
          if physical_bitmap s (byte_of i) \<noteq> 0 then
            blk_search s blk_sz (i + 1) (if blk_left < blk_sz then blk_sz else blk_left) blk_start
          else
            let blk_start = (if blk_left = blk_sz then i else blk_start);
                blk_left = blk_left - 1
            in if blk_left = 0 then Inr blk_start
               else blk_search s blk_sz (i + 1) blk_left blk_start
        else Inl OutOfBounds
      else Inr blk_start)"
  by pat_completeness auto
termination
  by (relation "measure (\<lambda>(s, blk_sz, i, blk_left, blk_start). unat (frames_count s) - unat i)")
    (auto simp: unat_plus_1_less word_less_nat_alt)

fun set_frames :: "nat \<Rightarrow> u32 \<Rightarrow> u32 \<Rightarrow> 'a frame_state_scheme \<Rightarrow> 'a frame_state_scheme result" where
  "set_frames 0 i end s = Inl Diverge"
| "set_frames (Suc n) i end s =
     (if i < end then bindr (frame_set i s) (set_frames n (i + 1) end) else Inr s)"

definition frame_get_blk :: "u32 \<Rightarrow> u32 \<Rightarrow> 'a frame_state_scheme \<Rightarrow> (u32 \<times> 'a frame_state_scheme) result" where
  "frame_get_blk junk blk_sz s =
     bindr (blk_search s blk_sz 0 blk_sz junk) (\<lambda>blk_start.
       bindr (set_frames addr_space blk_start (blk_start + blk_sz) s) (\<lambda>s.
         Inr (blk_start * FRAME_SIZE, s\<lparr>frame_idx := frame_idx s + blk_sz\<rparr>)))"

text \<open>
  \<open>frame_get\<close>: the loop looks for a frame from \<open>i\<close> on; when there is none, the function sets
  \<open>frame_idx\<close> to 0 and calls itself. From \<open>frame_idx = 0\<close> a further call finds the state it
  was called in, so two calls decide (lemma \<open>frame_get_rec_stable\<close>).
\<close>

function frame_scan :: "'a frame_state_scheme \<Rightarrow> u32 \<Rightarrow> u32 option result" where
  "frame_scan s i =
     (if i < frames_count s then
        if byte_of i < BITMAP_SIZE then
          if physical_bitmap s (byte_of i) \<noteq> 0 then frame_scan s (i + 1) else Inr (Some i)
        else Inl OutOfBounds
      else Inr None)"
  by pat_completeness auto
termination
  by (relation "measure (\<lambda>(s, i). unat (frames_count s) - unat i)")
    (auto simp: unat_plus_1_less word_less_nat_alt)

fun frame_get_rec :: "nat \<Rightarrow> 'a frame_state_scheme \<Rightarrow> (u32 \<times> 'a frame_state_scheme) result" where
  "frame_get_rec 0 s = Inl Diverge"
| "frame_get_rec (Suc n) s =
     (if frames_free s = 0 then Inr (0, s)
      else bindr (frame_scan s (frame_idx s)) (\<lambda>r.
        case r of
          Some i \<Rightarrow> bindr (frame_set i s) (\<lambda>s.
            Inr ((i div 8 * 8 + i mod 8) * FRAME_SIZE, s\<lparr>frame_idx := frame_idx s + 1\<rparr>))
        | None \<Rightarrow> frame_get_rec n (s\<lparr>frame_idx := 0\<rparr>)))"

definition frame_get :: "'a frame_state_scheme \<Rightarrow> (u32 \<times> 'a frame_state_scheme) result" where
  "frame_get s = frame_get_rec 2 s"

definition frame_free :: "u32 \<Rightarrow> 'a frame_state_scheme \<Rightarrow> 'a frame_state_scheme result" where
  "frame_free a s = frame_unset_address a s"

definition frame_count :: "'a frame_state_scheme \<Rightarrow> u32" where
  "frame_count s = frames_count s"

definition frame_free_count :: "'a frame_state_scheme \<Rightarrow> u32" where
  "frame_free_count s = frames_free s"

declare blk_search.simps [simp del] frame_scan.simps [simp del]

section \<open>Bits and bytes\<close>

lemma byte_of_nat: "byte_of i = unat i div 8"
  by (simp add: byte_of_def unat_div)

lemma bit_mask_neq_0 [simp]: "bit_mask i \<noteq> 0"
proof -
  have "unat (i mod 8) < 8" by (simp add: unat_mod)
  then have "bit (bit_mask i) (unat (i mod 8))"
    by (simp add: bit_mask_def bit_exp_iff)
  then show ?thesis by auto
qed

lemma unat_frame_of: "unat (a div FRAME_SIZE) = unat a div 4096"
  by (simp add: FRAME_SIZE_def unat_div)

lemma frame_index_recombine: "i div 8 * 8 + i mod 8 = i" for i :: u32
  by (rule div_mult_mod_eq)

section \<open>The search\<close>

text \<open>All frames fit the bitmap: \<open>frames_count\<close> is a number of bytes below \<open>2 ^ 32\<close> over 4096.\<close>

definition frame_wf :: "'a frame_state_scheme \<Rightarrow> bool" where
  "frame_wf s \<longleftrightarrow> unat (frames_count s) \<le> 2 ^ 20"

lemma byte_of_in_bitmap:
  "\<lbrakk>frame_wf s; i < frames_count s\<rbrakk> \<Longrightarrow> byte_of i < BITMAP_SIZE"
  by (simp add: frame_wf_def byte_of_nat BITMAP_SIZE_def word_less_nat_alt)

lemma frame_scan_cases:
  "frame_wf s \<Longrightarrow>
    (\<exists>j. frame_scan s i = Inr (Some j) \<and> i \<le> j \<and> j < frames_count s \<and>
       physical_bitmap s (byte_of j) = 0) \<or>
    (frame_scan s i = Inr None \<and>
       (\<forall>j. i \<le> j \<longrightarrow> j < frames_count s \<longrightarrow> physical_bitmap s (byte_of j) \<noteq> 0))"
proof (induction s i rule: frame_scan.induct)
  case (1 s i)
  show ?case
  proof (cases "i < frames_count s")
    case False
    then show ?thesis by (subst (1 2) frame_scan.simps) auto
  next
    case True
    note byte = byte_of_in_bitmap [OF 1(2) True]
    have next_le: "i + 1 \<le> j \<longleftrightarrow> i \<le> j \<and> i \<noteq> j" for j
      using unat_plus_1_less [OF True] by (auto simp: word_le_nat_alt word_unat_eq_iff)
    show ?thesis
    proof (cases "physical_bitmap s (byte_of i) = 0")
      case used: True
      with True byte show ?thesis by (subst frame_scan.simps) auto
    next
      case False
      with True byte have "frame_scan s i = frame_scan s (i + 1)" by (subst frame_scan.simps) simp
      with 1(1) [OF True byte False 1(2)] False show ?thesis unfolding next_le by auto
    qed
  qed
qed

lemma frame_scan_idx [simp]: "frame_scan (s\<lparr>frame_idx := k\<rparr>) i = frame_scan s i"
proof (induction s i rule: frame_scan.induct)
  case (1 s i)
  then show ?case by (subst (1 2) frame_scan.simps) simp
qed

text \<open>Further recursion changes nothing: two calls decide \<open>frame_get\<close>.\<close>

lemma frame_get_rec_stable: "frame_get_rec (Suc (Suc n)) s = frame_get s"
proof -
  have loop: "frame_get_rec n (s\<lparr>frame_idx := 0\<rparr>) = Inl Diverge"
    if "frames_free s \<noteq> 0" "frame_scan s 0 = Inr None" for n
    using that by (induction n) simp_all
  have "frame_get_rec (Suc n) (s\<lparr>frame_idx := 0\<rparr>) = frame_get_rec 1 (s\<lparr>frame_idx := 0\<rparr>)"
    if "frames_free s \<noteq> 0"
  proof (cases "frame_scan s 0 = Inr None")
    case True
    then show ?thesis using loop that by metis
  next
    case False
    then show ?thesis by (auto simp: bindr_def split: sum.splits option.splits)
  qed
  then show ?thesis
    by (simp add: frame_get_def numeral_2_eq_2 bindr_def split: sum.splits option.splits)
qed

section \<open>Free groups\<close>

text \<open>The groups of eight frames of which none is in use.\<close>

definition free_groups :: "'a frame_state_scheme \<Rightarrow> nat set" where
  "free_groups s =
     {b. b < (unat (frames_count s) + 7) div 8 \<and> physical_bitmap s b = 0}"

lemma finite_free_groups [simp]: "finite (free_groups s)"
  by (simp add: free_groups_def)

lemma free_group_frame:
  "b \<in> free_groups s \<Longrightarrow>
    \<exists>i. i < frames_count s \<and> byte_of i = b \<and> physical_bitmap s (byte_of i) = 0"
proof -
  assume b: "b \<in> free_groups s"
  then have lt: "8 * b < unat (frames_count s)" by (auto simp: free_groups_def)
  moreover have "unat (frames_count s) < 2 ^ 32"
    using unsigned_less [of "frames_count s"] by simp
  ultimately have "unat (of_nat (8 * b) :: u32) = 8 * b" by (simp add: unat_of_nat del: of_nat_mult)
  then show ?thesis using b lt
    by (intro exI [of _ "of_nat (8 * b)"])
      (simp add: byte_of_nat word_less_nat_alt free_groups_def del: of_nat_mult)
qed

lemma frame_in_group: "i < frames_count s \<Longrightarrow> physical_bitmap s (byte_of i) = 0 \<Longrightarrow>
    byte_of i \<in> free_groups s"
  by (auto simp: free_groups_def byte_of_nat word_less_nat_alt)

lemma frame_get_free:
  assumes wf: "frame_wf s" and ff: "frames_free s \<noteq> 0" and fg: "free_groups s \<noteq> {}"
  shows "\<exists>i k. i < frames_count s \<and> physical_bitmap s (byte_of i) = 0 \<and>
    frame_get s = Inr (i * FRAME_SIZE,
      s\<lparr>physical_bitmap := (physical_bitmap s)(byte_of i := bit_mask i),
        frames_free := frames_free s - 1, frame_idx := k\<rparr>)"
proof -
  obtain j where "j < frames_count s" "physical_bitmap s (byte_of j) = 0"
    using fg free_group_frame by blast
  then obtain i0 where i0: "frame_scan s 0 = Inr (Some i0)" "i0 < frames_count s"
      "physical_bitmap s (byte_of i0) = 0"
    using frame_scan_cases [OF wf, of 0] by fastforce
  have set: "frame_set i s' = Inr (s'\<lparr>physical_bitmap := (physical_bitmap s')(byte_of i := bit_mask i),
        frames_free := frames_free s' - 1\<rparr>)" if "i < frames_count s" for i and s' :: "'a frame_state_scheme"
    using byte_of_in_bitmap [OF wf that] by (simp add: frame_set_def)
  consider i where "frame_scan s (frame_idx s) = Inr (Some i)" "i < frames_count s"
      "physical_bitmap s (byte_of i) = 0"
    | "frame_scan s (frame_idx s) = Inr None"
    using frame_scan_cases [OF wf, of "frame_idx s"] by blast
  then show ?thesis
  proof cases
    case 1
    with ff set [of i s] show ?thesis
      by (auto simp: frame_get_def numeral_2_eq_2 frame_index_recombine)
  next
    case 2
    with ff i0 set [of i0 "s\<lparr>frame_idx := 0\<rparr>"] show ?thesis
      by (auto simp: frame_get_def numeral_2_eq_2 frame_index_recombine)
  qed
qed

lemma frame_get_stuck:
  assumes "frame_wf s" "frames_free s \<noteq> 0" "free_groups s = {}"
  shows "frame_get s = Inl Diverge"
proof -
  have "frame_scan s i = Inr None" for i
    using frame_scan_cases [OF assms(1), of i] frame_in_group assms(3) by blast
  then show ?thesis using assms(2) by (simp add: frame_get_def numeral_2_eq_2)
qed

section \<open>A sequence of allocations\<close>

fun get_frames :: "nat \<Rightarrow> 'a frame_state_scheme \<Rightarrow> (u32 list \<times> 'a frame_state_scheme) result" where
  "get_frames 0 s = Inr ([], s)"
| "get_frames (Suc n) s =
     bindr (frame_get s) (\<lambda>(f, s). bindr (get_frames n s) (\<lambda>(fs, s). Inr (f # fs, s)))"

definition frame_addr_ok :: "'a frame_state_scheme \<Rightarrow> u32 \<Rightarrow> bool" where
  "frame_addr_ok s f \<longleftrightarrow> (\<exists>i. f = i * FRAME_SIZE \<and> i < frames_count s \<and> byte_of i \<in> free_groups s)"

lemma unat_frame_addr:
  assumes "frame_wf s" "i < frames_count s"
  shows "unat (i * FRAME_SIZE) = unat i * 4096"
proof -
  have "unat i * 4096 < 2 ^ 32" using assms by (simp add: frame_wf_def word_less_nat_alt)
  then show ?thesis by (simp add: unat_word_ariths FRAME_SIZE_def)
qed

lemma get_frames_free:
  "\<lbrakk>frame_wf s; n \<le> card (free_groups s); card (free_groups s) \<le> unat (frames_free s)\<rbrakk> \<Longrightarrow>
    \<exists>fs s'. get_frames n s = Inr (fs, s') \<and> length fs = n \<and> distinct fs \<and>
      list_all (frame_addr_ok s) fs \<and> frame_wf s' \<and> frames_count s' = frames_count s \<and>
      card (free_groups s') = card (free_groups s) - n \<and>
      unat (frames_free s') = unat (frames_free s) - n"
proof (induction n arbitrary: s)
  case 0
  then show ?case by simp
next
  case (Suc n)
  let ?st = "\<lambda>i k. s\<lparr>physical_bitmap := (physical_bitmap s)(byte_of i := bit_mask i),
        frames_free := frames_free s - 1, frame_idx := k\<rparr>"
  have ff: "frames_free s \<noteq> 0" using Suc.prems by auto
  moreover have "free_groups s \<noteq> {}" using Suc.prems by auto
  ultimately obtain i k where i: "i < frames_count s" "physical_bitmap s (byte_of i) = 0"
      and get: "frame_get s = Inr (i * FRAME_SIZE, ?st i k)"
    using frame_get_free [OF Suc.prems(1)] by blast
  have fg: "free_groups (?st i k) = free_groups s - {byte_of i}"
    by (auto simp: free_groups_def)
  have bi: "byte_of i \<in> free_groups s" by (rule frame_in_group [OF i])
  have c: "card (free_groups (?st i k)) = card (free_groups s) - 1" using bi by (simp add: fg)
  have uf: "unat (frames_free (?st i k)) = unat (frames_free s) - 1" using ff by (simp add: unat_minus_1)
  have wf: "frame_wf (?st i k)" using Suc.prems(1) by (simp add: frame_wf_def)
  obtain fs s' where fs: "get_frames n (?st i k) = Inr (fs, s')" "length fs = n" "distinct fs"
      "list_all (frame_addr_ok (?st i k)) fs" "frame_wf s'" "frames_count s' = frames_count s"
      "card (free_groups s') = card (free_groups s) - 1 - n"
      "unat (frames_free s') = unat (frames_free s) - 1 - n"
    using Suc.IH [OF wf] Suc.prems(2,3) unfolding c uf by fastforce
  have "i * FRAME_SIZE \<notin> set fs"
  proof
    assume "i * FRAME_SIZE \<in> set fs"
    then obtain j where j: "i * FRAME_SIZE = j * FRAME_SIZE" "j < frames_count s"
        "byte_of j \<in> free_groups s - {byte_of i}"
      using fs(4) unfolding list_all_iff frame_addr_ok_def fg by auto
    have "unat i = unat j"
      using unat_frame_addr [OF Suc.prems(1) i(1)] unat_frame_addr [OF Suc.prems(1) j(2)] j(1) by simp
    with j(3) show False by (simp add: byte_of_nat)
  qed
  moreover have "list_all (frame_addr_ok s) fs"
    using fs(4) by (auto simp: list_all_iff frame_addr_ok_def fg)
  moreover have "frame_addr_ok s (i * FRAME_SIZE)" using i(1) bi by (auto simp: frame_addr_ok_def)
  ultimately show ?case using fs get by simp
qed

section \<open>Reserved frames\<close>

lemma reserve_loop_marks:
  "\<lbrakk>unat i = 4096 * j; unat e \<le> 2 ^ 32 - 4096; K = (unat e + 4095) div 4096; j \<le> K; K - j < n\<rbrakk> \<Longrightarrow>
    \<exists>s'. reserve_loop n i e s = Inr s' \<and> frames_count s' = frames_count s \<and>
      frames_free s' = frames_free s - of_nat (K - j) \<and>
      (\<forall>b. physical_bitmap s' b = 0 \<longleftrightarrow>
        physical_bitmap s b = 0 \<and> \<not> (\<exists>l. j \<le> l \<and> l < K \<and> l div 8 = b))"
proof (induction n arbitrary: i j s)
  case 0
  then show ?case by simp
next
  case (Suc n)
  have lt: "i < e \<longleftrightarrow> j < K" using Suc.prems by (auto simp: word_less_nat_alt)
  show ?case
  proof (cases "j < K")
    case False
    with lt Suc.prems show ?thesis by auto
  next
    case True
    let ?f = "i div FRAME_SIZE"
    have uf: "unat ?f = j" using Suc.prems(1) by (simp add: unat_frame_of)
    have byte: "byte_of ?f = j div 8" by (simp add: byte_of_nat uf)
    have "j < 2 ^ 20" using Suc.prems(1) unat_u32_less [of i] by simp
    then have "byte_of ?f < BITMAP_SIZE" unfolding byte by (simp add: BITMAP_SIZE_def)
    then have set: "frame_set_address i s = Inr (s\<lparr>physical_bitmap :=
        (physical_bitmap s)(j div 8 := bit_mask ?f), frames_free := frames_free s - 1\<rparr>)"
      (is "_ = Inr ?s") by (simp add: frame_set_address_def Let_def byte)
    have "unat (i + FRAME_SIZE) = 4096 * Suc j"
      using Suc.prems True lt by (auto simp: unat_word_ariths FRAME_SIZE_def word_less_nat_alt)
    moreover have "K - Suc j < n" using Suc.prems(5) True by linarith
    ultimately obtain s' where s': "reserve_loop n (i + FRAME_SIZE) e (?s\<lparr>frame_idx := frame_idx s + 1\<rparr>) = Inr s'"
        "frames_count s' = frames_count s" "frames_free s' = frames_free s - 1 - of_nat (K - Suc j)"
        "\<forall>b. physical_bitmap s' b = 0 \<longleftrightarrow> ((physical_bitmap s)(j div 8 := bit_mask ?f)) b = 0 \<and>
          \<not> (\<exists>l. Suc j \<le> l \<and> l < K \<and> l div 8 = b)"
      using Suc.IH [of "i + FRAME_SIZE" "Suc j" "?s\<lparr>frame_idx := frame_idx s + 1\<rparr>"] Suc.prems(2,3) True
      by auto
    have "(1 :: u32) + of_nat (K - Suc j) = of_nat (K - j)" using True by (simp add: of_nat_diff)
    then have "frames_free s' = frames_free s - of_nat (K - j)" using s'(3) by (simp add: algebra_simps)
    moreover have "(\<exists>l. j \<le> l \<and> l < K \<and> l div 8 = b) \<longleftrightarrow>
        b = j div 8 \<or> (\<exists>l. Suc j \<le> l \<and> l < K \<and> l div 8 = b)" for b
      using True by (metis Suc_le_eq le_eq_less_or_eq)
    ultimately show ?thesis using s' lt True set by auto
  qed
qed

text \<open>The number of frames \<open>frame_get\<close> can hand out: one for each group of eight not reserved.\<close>

definition frame_capacity :: "u32 \<Rightarrow> u32 \<Rightarrow> nat" where
  "frame_capacity mem_size reserved_end =
     (unat mem_size div 4096 + 7) div 8 - ((unat reserved_end + 4095) div 4096 + 7) div 8"

lemma frame_setup_groups:
  assumes "unat e \<le> 2 ^ 32 - 4096" "(unat e + 4095) div 4096 \<le> unat mem_size div 4096"
    and "physical_bitmap s = (\<lambda>_. 0)"
  shows "\<exists>s0. frame_setup mem_size 0 e s = Inr s0 \<and> frame_wf s0 \<and>
    unat (frames_count s0) = unat mem_size div 4096 \<and>
    unat (frames_free s0) = unat mem_size div 4096 - (unat e + 4095) div 4096 \<and>
    free_groups s0 =
      {((unat e + 4095) div 4096 + 7) div 8 ..< (unat mem_size div 4096 + 7) div 8}"
proof -
  define K where "K = (unat e + 4095) div 4096"
  let ?s = "s\<lparr>frames_count := mem_size div FRAME_SIZE, frames_free := mem_size div FRAME_SIZE,
          frame_idx := 0\<rparr>"
  have "K < addr_space" using assms(1) by (simp add: K_def addr_space_def)
  then obtain s0 where s0: "reserve_loop addr_space 0 e ?s = Inr s0"
      "frames_count s0 = mem_size div FRAME_SIZE" "frames_free s0 = mem_size div FRAME_SIZE - of_nat K"
      "\<forall>b. physical_bitmap s0 b = 0 \<longleftrightarrow> \<not> (\<exists>l. l < K \<and> l div 8 = b)"
    using reserve_loop_marks [of 0 0 e K addr_space ?s] assms(1,3) by (auto simp: K_def)
  have lt: "unat mem_size div 4096 < 2 ^ 20" using unat_u32_less [of mem_size] by simp
  have "(\<exists>l. l < K \<and> l div 8 = b) \<longleftrightarrow> b < (K + 7) div 8" for b
  proof
    assume "b < (K + 7) div 8"
    then have "8 * b < K" "8 * b div 8 = b" by simp_all
    then show "\<exists>l. l < K \<and> l div 8 = b" by blast
  qed auto
  then have "free_groups s0 = {(K + 7) div 8 ..< (unat mem_size div 4096 + 7) div 8}"
    using s0 by (auto simp: free_groups_def unat_frame_of)
  moreover have "unat (frames_free s0) = unat mem_size div 4096 - K"
  proof -
    have "of_nat K \<le> mem_size div FRAME_SIZE" "unat (of_nat K :: u32) = K"
      using assms(2) lt by (simp_all add: K_def word_le_nat_alt unat_of_nat unat_frame_of)
    then show ?thesis unfolding s0(3) by (simp add: unat_sub unat_frame_of)
  qed
  ultimately show ?thesis
    using s0 lt by (auto simp: frame_setup_def frame_wf_def unat_frame_of K_def)
qed

lemma frame_addr_ok_above:
  assumes "frame_wf s" "frame_addr_ok s f" "free_groups s = {(K + 7) div 8 ..< G}"
  shows "unat f mod 4096 = 0 \<and> K * 4096 \<le> unat f \<and> unat f + 4096 \<le> unat (frames_count s) * 4096"
proof -
  obtain i where i: "f = i * FRAME_SIZE" "i < frames_count s" "(K + 7) div 8 \<le> unat i div 8"
    using assms(2,3) by (auto simp: frame_addr_ok_def byte_of_nat)
  have "unat f = unat i * 4096" using unat_frame_addr [OF assms(1) i(2)] i(1) by simp
  moreover have "K \<le> unat i" using i(3) by linarith
  moreover have "unat i < unat (frames_count s)" using i(2) by (simp add: word_less_nat_alt)
  ultimately show ?thesis by simp
qed

lemma frame_setup_get:
  assumes "physical_bitmap s = (\<lambda>_. 0)" "unat reserved_end \<le> 2 ^ 32 - 4096"
    and "(unat reserved_end + 4095) div 4096 \<le> unat mem_size div 4096"
    and "n \<le> frame_capacity mem_size reserved_end"
  shows "\<exists>s0 fs s'. frame_setup mem_size 0 reserved_end s = Inr s0 \<and>
    get_frames n s0 = Inr (fs, s') \<and> length fs = n \<and> distinct fs \<and>
    list_all (\<lambda>f. unat f mod 4096 = 0 \<and> unat reserved_end \<le> unat f \<and>
      unat f + 4096 \<le> unat mem_size) fs \<and>
    frame_wf s' \<and> card (free_groups s') = frame_capacity mem_size reserved_end - n \<and>
    unat (frames_free s') = unat mem_size div 4096 - (unat reserved_end + 4095) div 4096 - n"
proof -
  define K where "K = (unat reserved_end + 4095) div 4096"
  obtain s0 where s0: "frame_setup mem_size 0 reserved_end s = Inr s0" "frame_wf s0"
      "unat (frames_count s0) = unat mem_size div 4096"
      "unat (frames_free s0) = unat mem_size div 4096 - K"
      "free_groups s0 = {(K + 7) div 8 ..< (unat mem_size div 4096 + 7) div 8}"
    using frame_setup_groups [OF assms(2,3,1)] K_def by blast
  have card: "card (free_groups s0) = frame_capacity mem_size reserved_end"
    by (simp add: s0(5) frame_capacity_def K_def)
  have "frame_capacity mem_size reserved_end \<le> unat (frames_free s0)"
    using assms(3) unfolding s0(4) frame_capacity_def K_def by linarith
  then obtain fs s' where fs: "get_frames n s0 = Inr (fs, s')" "length fs = n" "distinct fs"
      "list_all (frame_addr_ok s0) fs" "frame_wf s'"
      "card (free_groups s') = frame_capacity mem_size reserved_end - n"
      "unat (frames_free s') = unat mem_size div 4096 - K - n"
    using get_frames_free [OF s0(2), of n] assms(4) unfolding card s0(4) by blast
  have "unat f mod 4096 = 0 \<and> unat reserved_end \<le> unat f \<and> unat f + 4096 \<le> unat mem_size"
    if "frame_addr_ok s0 f" for f
    using frame_addr_ok_above [OF s0(2) that s0(5)] unfolding s0(3) K_def by auto
  with s0 fs show ?thesis by (auto simp: list_all_iff K_def)
qed

section \<open>Properties of the frame allocator\<close>

text \<open>
  C4: after \<open>frame_setup\<close> reserved the frames below \<open>reserved_end\<close>, the first
  \<open>frame_capacity\<close> calls of \<open>frame_get\<close> return, with pairwise distinct frames that are aligned,
  lie above the reserved memory and inside the memory.
\<close>

theorem frame_get_distinct:
  assumes "physical_bitmap s = (\<lambda>_. 0)" "unat reserved_end \<le> 2 ^ 32 - 4096"
    and "(unat reserved_end + 4095) div 4096 \<le> unat mem_size div 4096"
    and "n \<le> frame_capacity mem_size reserved_end"
  shows "\<exists>s0 fs s'. frame_setup mem_size 0 reserved_end s = Inr s0 \<and>
    get_frames n s0 = Inr (fs, s') \<and> length fs = n \<and> distinct fs \<and>
    list_all (\<lambda>f. unat f mod 4096 = 0 \<and> unat reserved_end \<le> unat f \<and>
      unat f + 4096 \<le> unat mem_size) fs"
  using frame_setup_get [OF assms] by blast

theorem frame_get_distinct_witness:
  "\<exists>s0 fs s'. frame_setup 0x40000 0 0x1000
      \<lparr>frames_count = 0, frame_idx = 0, frames_free = 0, physical_bitmap = \<lambda>_. 0\<rparr> = Inr s0 \<and>
    get_frames 7 s0 = Inr (fs, s') \<and> length fs = 7 \<and> distinct fs \<and>
    list_all (\<lambda>f. unat f mod 4096 = 0 \<and> unat (0x1000 :: u32) \<le> unat f \<and>
      unat f + 4096 \<le> unat (0x40000 :: u32)) fs"
  by (rule frame_get_distinct) (simp_all add: frame_capacity_def)

text \<open>
  C5: one frame of each group of eight is all that can be allocated: after
  \<open>frame_capacity\<close> calls, frames are still counted free but the next call of \<open>frame_get\<close> never
  returns.
\<close>

theorem frame_get_exhausts:
  assumes "physical_bitmap s = (\<lambda>_. 0)" "unat reserved_end \<le> 2 ^ 32 - 4096"
    and "(unat reserved_end + 4095) div 4096 + frame_capacity mem_size reserved_end <
      unat mem_size div 4096"
  shows "\<exists>s0 fs s'. frame_setup mem_size 0 reserved_end s = Inr s0 \<and>
    get_frames (frame_capacity mem_size reserved_end) s0 = Inr (fs, s') \<and>
    frame_free_count s' \<noteq> 0 \<and> frame_get s' = Inl Diverge"
proof -
  have "(unat reserved_end + 4095) div 4096 \<le> unat mem_size div 4096" using assms(3) by linarith
  from frame_setup_get [OF assms(1,2) this order_refl] obtain s0 fs s' where
      g: "frame_setup mem_size 0 reserved_end s = Inr s0"
      "get_frames (frame_capacity mem_size reserved_end) s0 = Inr (fs, s')"
      "frame_wf s'" "card (free_groups s') = 0"
      "unat (frames_free s') = unat mem_size div 4096 - (unat reserved_end + 4095) div 4096 -
        frame_capacity mem_size reserved_end"
    by auto
  have "frames_free s' \<noteq> 0" using g(5) assms(3) by (metis diff_diff_left unsigned_0 zero_less_diff less_nat_zero_code)
  moreover have "free_groups s' = {}" using g(4) by simp
  ultimately show ?thesis using g frame_get_stuck by (auto simp: frame_free_count_def)
qed

theorem frame_get_exhausts_witness:
  "\<exists>s0 fs s'. frame_setup 0x40000 0 0x1000
      \<lparr>frames_count = 0, frame_idx = 0, frames_free = 0, physical_bitmap = \<lambda>_. 0\<rparr> = Inr s0 \<and>
    get_frames (frame_capacity 0x40000 0x1000) s0 = Inr (fs, s') \<and>
    frame_free_count s' \<noteq> 0 \<and> frame_get s' = Inl Diverge"
  by (rule frame_get_exhausts) (simp_all add: frame_capacity_def)

text \<open>
  Whenever a group of eight is free and frames are counted free, \<open>frame_get\<close> returns a
  frame, and \<open>frame_free\<close> of that frame restores the bitmap and the count of free frames.
\<close>

theorem frame_free_roundtrip:
  assumes "frame_wf s" "frames_free s \<noteq> 0" "free_groups s \<noteq> {}"
  shows "\<exists>f s1 s2. frame_get s = Inr (f, s1) \<and> frame_free f s1 = Inr s2 \<and>
    physical_bitmap s2 = physical_bitmap s \<and> frames_free s2 = frames_free s"
proof -
  obtain i k where i: "i < frames_count s" "physical_bitmap s (byte_of i) = 0"
      and get: "frame_get s = Inr (i * FRAME_SIZE,
        s\<lparr>physical_bitmap := (physical_bitmap s)(byte_of i := bit_mask i),
          frames_free := frames_free s - 1, frame_idx := k\<rparr>)"
    using frame_get_free [OF assms] by blast
  have "unat (i * FRAME_SIZE div FRAME_SIZE) = unat i"
    using unat_frame_addr [OF assms(1) i(1)] by (simp add: unat_frame_of)
  then have "i * FRAME_SIZE div FRAME_SIZE = i" by (simp add: word_unat_eq_iff)
  then show ?thesis using get i byte_of_in_bitmap [OF assms(1) i(1)]
    by (auto simp: frame_free_def frame_unset_address_def Let_def fun_eq_iff)
qed

theorem frame_free_roundtrip_witness:
  "\<exists>f s1 s2. frame_get \<lparr>frames_count = 64, frame_idx = 3, frames_free = 64, physical_bitmap = \<lambda>_. 0\<rparr> =
      Inr (f, s1) \<and> frame_free f s1 = Inr s2 \<and>
    physical_bitmap s2 = physical_bitmap
      \<lparr>frames_count = 64, frame_idx = 3, frames_free = 64, physical_bitmap = \<lambda>_. 0\<rparr> \<and>
    frames_free s2 = frames_free
      \<lparr>frames_count = 64, frame_idx = 3, frames_free = 64, physical_bitmap = \<lambda>_. 0\<rparr>"
  by (rule frame_free_roundtrip) (auto simp: frame_wf_def free_groups_def intro: exI [of _ 0])

end
