(* ===== verification/Page.thy ===== *)
theory Page
  imports Frame
begin

text \<open>
  kernel/x86/page.c: two-level page tables.

  The state extends the frame allocator's with the register \<open>cr3\<close> and the physical memory as
  32-bit cells at aligned addresses. The code reaches the page directory and the tables through
  their physical addresses, which the boot code maps one to one; the model reads and writes
  \<open>pmem\<close> at those addresses. \<open>translate\<close> is the processor's walk of the tables. The lemmas show
  that \<open>page_map\<close> makes exactly the requested translation and keeps the others, and that
  \<open>page_map_until\<close> maps every page up to the new limit.
\<close>

section \<open>The code\<close>

definition PAGE_FLAG_PRESENT :: u32 where "PAGE_FLAG_PRESENT = 1"
definition PAGE_FLAG_RW :: u32 where "PAGE_FLAG_RW = 2"
definition KERNEL_BASE :: u32 where "KERNEL_BASE = 0xC0000000"
definition KERNEL_LIMIT :: u32 where "KERNEL_LIMIT = 0xDFFF0000"

record page_state = frame_state +
  cr3 :: addr
  pmem :: "addr \<Rightarrow> u32"

definition page_base :: "addr \<Rightarrow> addr" where
  "page_base a = a AND 0xFFFFF000"

text \<open>An element of an array of 32-bit entries.\<close>

definition entry :: "addr \<Rightarrow> u32 \<Rightarrow> addr" where
  "entry base idx = base + 4 * idx"

definition table_idx :: "addr \<Rightarrow> u32" where
  "table_idx v_addr = drop_bit 22 v_addr"

definition page_idx :: "addr \<Rightarrow> u32" where
  "page_idx v_addr = drop_bit 12 v_addr AND 0x3FF"

definition page_map :: "u32 \<Rightarrow> u32 \<Rightarrow> 'a page_state_scheme \<Rightarrow> 'a page_state_scheme result" where
  "page_map p_addr v_addr s =
     (let pd = page_base (cr3 s);
          t_idx = table_idx v_addr
      in bindr (if page_base (pmem s (entry pd t_idx)) = 0
                then bindr (frame_get s) (\<lambda>(f, s). Inr (s\<lparr>pmem := (pmem s)(entry pd t_idx := f)\<rparr>))
                else Inr s) (\<lambda>s.
         let s = s\<lparr>pmem := (pmem s)(entry pd t_idx :=
                    pmem s (entry pd t_idx) OR PAGE_FLAG_PRESENT OR PAGE_FLAG_RW)\<rparr>;
             table = page_base (pmem s (entry pd t_idx));
             p_idx = page_idx v_addr
         in Inr (s\<lparr>pmem := (pmem s)(entry table p_idx :=
                    page_base p_addr OR PAGE_FLAG_PRESENT OR PAGE_FLAG_RW)\<rparr>)))"

text \<open>The user variant differs in comments only.\<close>

definition page_map_user :: "u32 \<Rightarrow> u32 \<Rightarrow> 'a page_state_scheme \<Rightarrow> 'a page_state_scheme result" where
  "page_map_user p_addr v_addr s =
     (let pd = page_base (cr3 s);
          t_idx = table_idx v_addr
      in bindr (if page_base (pmem s (entry pd t_idx)) = 0
                then bindr (frame_get s) (\<lambda>(f, s). Inr (s\<lparr>pmem := (pmem s)(entry pd t_idx := f)\<rparr>))
                else Inr s) (\<lambda>s.
         let s = s\<lparr>pmem := (pmem s)(entry pd t_idx :=
                    pmem s (entry pd t_idx) OR PAGE_FLAG_PRESENT OR PAGE_FLAG_RW)\<rparr>;
             table = page_base (pmem s (entry pd t_idx));
             p_idx = page_idx v_addr
         in Inr (s\<lparr>pmem := (pmem s)(entry table p_idx :=
                    page_base p_addr OR PAGE_FLAG_PRESENT OR PAGE_FLAG_RW)\<rparr>)))"

definition page_unmap :: "u32 \<Rightarrow> 'a page_state_scheme \<Rightarrow> 'a page_state_scheme result" where
  "page_unmap v_addr s =
     (let pd = page_base (cr3 s);
          t_idx = table_idx v_addr;
          s = s\<lparr>pmem := (pmem s)(entry pd t_idx :=
                 pmem s (entry pd t_idx) OR PAGE_FLAG_PRESENT OR PAGE_FLAG_RW)\<rparr>;
          table = page_base (pmem s (entry pd t_idx));
          p_idx = page_idx v_addr
      in bindr (frame_free (page_base (pmem s (entry table p_idx))) s) (\<lambda>s.
           Inr (s\<lparr>pmem := (pmem s)(entry table p_idx := 0)\<rparr>)))"

function page_upper_loop :: "'a page_state_scheme \<Rightarrow> u32 \<Rightarrow> u32" where
  "page_upper_loop s v_addr =
     (if v_addr < KERNEL_LIMIT then
        let table = page_base (pmem s (entry (page_base (cr3 s)) (table_idx v_addr)))
        in if pmem s (entry table (page_idx v_addr)) = 0 then v_addr - 0x1000
           else page_upper_loop s (v_addr + 0x1000)
      else v_addr - 0x1000)"
  by pat_completeness auto
termination
proof (relation "measure (\<lambda>(s, v). unat KERNEL_LIMIT - unat v)", goal_cases)
  case (2 s v table)
  then have "unat v < unat KERNEL_LIMIT" by (simp add: word_less_nat_alt)
  moreover from this have "unat (v + 0x1000) = unat v + 0x1000"
    by (simp add: unat_word_ariths KERNEL_LIMIT_def)
  ultimately show ?case by simp
qed simp

definition page_upper :: "'a page_state_scheme \<Rightarrow> u32" where
  "page_upper s = page_upper_loop s KERNEL_BASE"

text \<open>
  The loop takes a frame in every iteration and ends when there is none, so it runs fewer than
  \<open>addr_space\<close> times.
\<close>

fun map_loop :: "nat \<Rightarrow> u32 \<Rightarrow> u32 \<Rightarrow> 'a page_state_scheme \<Rightarrow> (u32 \<times> 'a page_state_scheme) result" where
  "map_loop 0 old_limit new_limit s = Inl Diverge"
| "map_loop (Suc n) old_limit new_limit s =
     (if old_limit \<le> new_limit then
        bindr (frame_get s) (\<lambda>(p_addr, s).
          if p_addr = 0 then Inr (old_limit, s)
          else bindr (page_map p_addr old_limit s) (\<lambda>s.
            map_loop n (old_limit + 0x1000) new_limit s))
      else Inr (new_limit + 0x1000, s))"

definition page_map_until :: "u32 \<Rightarrow> 'a page_state_scheme \<Rightarrow> (u32 \<times> 'a page_state_scheme) result" where
  "page_map_until new_limit s = map_loop addr_space (page_upper s + 0x1000) (page_base new_limit) s"

fun unmap_loop :: "nat \<Rightarrow> u32 \<Rightarrow> u32 \<Rightarrow> 'a page_state_scheme \<Rightarrow> (u32 \<times> 'a page_state_scheme) result" where
  "unmap_loop 0 new_page_limit page_limit s = Inl Diverge"
| "unmap_loop (Suc n) new_page_limit page_limit s =
     (if new_page_limit \<le> page_limit then
        bindr (page_unmap new_page_limit s) (\<lambda>s. unmap_loop n (new_page_limit + 0x1000) page_limit s)
      else Inr (new_page_limit, s))"

definition page_free_above :: "u32 \<Rightarrow> 'a page_state_scheme \<Rightarrow> (u32 \<times> 'a page_state_scheme) result" where
  "page_free_above limit s = unmap_loop addr_space (page_base limit + 0x1000) (page_upper s) s"

text \<open>Here \<open>cr3\<close> is used unmasked.\<close>

definition page_table_set :: "u32 \<Rightarrow> addr \<Rightarrow> u32 \<Rightarrow> 'a page_state_scheme \<Rightarrow> 'a page_state_scheme" where
  "page_table_set virt_addr pg_table flags s =
     s\<lparr>pmem := (pmem s)(entry (cr3 s) (table_idx virt_addr) := pg_table OR flags)\<rparr>"

declare page_upper_loop.simps [simp del]

section \<open>The processor's walk\<close>

definition translate :: "'a page_state_scheme \<Rightarrow> addr \<Rightarrow> addr option" where
  "translate s v =
     (let pde = pmem s (entry (page_base (cr3 s)) (table_idx v));
          pte = pmem s (entry (page_base pde) (page_idx v))
      in if bit pde 0 \<and> bit pte 0 then Some (page_base pte OR (v AND 0xFFF)) else None)"

section \<open>Page arithmetic\<close>

lemma page_mask: "(0xFFFFF000 :: u32) = NOT (mask 12)"
  by code_simp

lemma page_base_shift: "page_base a = push_bit 12 (drop_bit 12 a)"
  unfolding page_base_def page_mask
  by (rule bit_word_eqI) (auto simp: bit_simps)

lemma bit_page_base: "bit (page_base a) n \<longleftrightarrow> 12 \<le> n \<and> bit a n"
  unfolding page_base_def page_mask by (auto simp: bit_simps dest: bit_imp_le_length)

lemma unat_page_base: "unat (page_base a) = unat a div 4096 * 4096"
proof -
  have "unat a div 4096 * 4096 < 2 ^ 32" using unat_u32_less [of a] by auto
  then show ?thesis
    by (simp add: page_base_shift push_bit_eq_mult unat_word_ariths unat_drop_bit_eq drop_bit_eq_div)
qed


lemma flags_mask: "PAGE_FLAG_PRESENT OR PAGE_FLAG_RW = mask 2"
  by (simp add: PAGE_FLAG_PRESENT_def PAGE_FLAG_RW_def mask_eq_exp_minus_1)

lemma page_base_flags [simp]: "page_base (a OR PAGE_FLAG_PRESENT OR PAGE_FLAG_RW) = page_base a"
  unfolding flags_mask by (rule bit_word_eqI) (auto simp: bit_page_base bit_simps)

lemma bit_0_flags [simp]: "bit (a OR PAGE_FLAG_PRESENT OR PAGE_FLAG_RW) 0"
  unfolding flags_mask by (simp add: bit_simps)

lemma page_base_idem [simp]: "page_base (page_base a) = page_base a"
  by (rule bit_word_eqI) (simp add: bit_page_base)

lemma unat_table_idx: "unat (table_idx v) = unat v div 4194304"
  by (simp add: table_idx_def drop_bit_eq_div unat_div)

lemma unat_page_idx: "unat (page_idx v) = unat v div 4096 mod 1024"
proof -
  have "(0x3FF :: u32) = mask 10" by (simp add: mask_eq_exp_minus_1)
  then have "page_idx v = take_bit 10 (drop_bit 12 v)" by (simp add: page_idx_def take_bit_eq_mask)
  then show ?thesis
    by (simp add: take_bit_eq_mod drop_bit_eq_div unat_mod unat_div)
qed

lemma table_idx_less: "unat (table_idx v) < 1024"
  using unat_u32_less [of v] by (simp add: unat_table_idx)

lemma page_idx_less: "unat (page_idx v) < 1024"
  by (simp add: unat_page_idx)

lemma unat_entry:
  assumes "unat i < 1024"
  shows "unat (entry (page_base b) i) = unat b div 4096 * 4096 + 4 * unat i"
proof -
  have "unat b div 4096 < 2 ^ 20" using unat_u32_less [of b] by (simp add: less_mult_imp_div_less)
  then have "unat b div 4096 * 4096 + 4096 \<le> 2 ^ 32" by simp
  then show ?thesis using assms by (simp add: entry_def unat_word_ariths unat_page_base)
qed

text \<open>Entries of one page: they stay in the page, and different indices are different entries.\<close>

lemma cell_eq_iff:
  fixes i j A B :: nat
  assumes "i < 1024" "j < 1024"
  shows "A * 4096 + 4 * i = B * 4096 + 4 * j \<longleftrightarrow> A = B \<and> i = j"
proof
  assume eq: "A * 4096 + 4 * i = B * 4096 + 4 * j"
  have "(A * 4096 + 4 * i) div 4096 = A" "(B * 4096 + 4 * j) div 4096 = B" using assms by simp_all
  with eq have "A = B" by simp
  with eq show "A = B \<and> i = j" by simp
qed simp

lemma entry_eq_iff:
  assumes "unat i < 1024" "unat j < 1024"
  shows "entry (page_base a) i = entry (page_base b) j \<longleftrightarrow> page_base a = page_base b \<and> i = j"
proof -
  have "unat (entry (page_base a) i) = unat (entry (page_base b) j) \<longleftrightarrow>
      unat (page_base a) = unat (page_base b) \<and> unat i = unat j"
    using assms by (simp add: unat_entry unat_page_base cell_eq_iff)
  then show ?thesis by (simp add: word_unat_eq_iff)
qed

lemma same_page_iff:
  "page_base v = page_base w \<longleftrightarrow> table_idx v = table_idx w \<and> page_idx v = page_idx w"
proof -
  have "unat v div 4096 = unat w div 4096 \<longleftrightarrow> unat v div 4194304 = unat w div 4194304 \<and>
      unat v div 4096 mod 1024 = unat w div 4096 mod 1024"
    using div_mult2_eq [of "unat v" 4096 1024] div_mult2_eq [of "unat w" 4096 1024]
    by simp (metis div_mult_mod_eq)
  then show ?thesis
    by (simp add: word_unat_eq_iff unat_page_base unat_table_idx unat_page_idx)
qed

section \<open>The invariant of the tables\<close>

definition pde_of :: "'a page_state_scheme \<Rightarrow> u32 \<Rightarrow> u32" where
  "pde_of s t = pmem s (entry (page_base (cr3 s)) t)"

definition table_of :: "'a page_state_scheme \<Rightarrow> u32 \<Rightarrow> addr" where
  "table_of s t = page_base (pde_of s t)"

definition frame_in_use :: "'a page_state_scheme \<Rightarrow> addr \<Rightarrow> bool" where
  "frame_in_use s a \<longleftrightarrow> physical_bitmap s (byte_of (a div FRAME_SIZE)) \<noteq> 0"

text \<open>
  The frame 0, the directory and the tables are in use; an entry of the directory is present
  exactly when it names a table; different entries name different tables, none the directory.
\<close>

definition page_wf :: "'a page_state_scheme \<Rightarrow> bool" where
  "page_wf s \<longleftrightarrow> frame_wf s \<and> frame_in_use s 0 \<and> frame_in_use s (page_base (cr3 s)) \<and>
     (\<forall>t. unat t < 1024 \<longrightarrow> (bit (pde_of s t) 0 \<longleftrightarrow> table_of s t \<noteq> 0)) \<and>
     (\<forall>t. unat t < 1024 \<longrightarrow> table_of s t \<noteq> 0 \<longrightarrow>
        frame_in_use s (table_of s t) \<and> table_of s t \<noteq> page_base (cr3 s)) \<and>
     (\<forall>t u. unat t < 1024 \<longrightarrow> unat u < 1024 \<longrightarrow> table_of s t \<noteq> 0 \<longrightarrow>
        table_of s t = table_of s u \<longrightarrow> t = u)"

lemma translate_alt:
  "translate s v =
     (let pte = pmem s (entry (table_of s (table_idx v)) (page_idx v))
      in if bit (pde_of s (table_idx v)) 0 \<and> bit pte 0
         then Some (page_base pte OR (v AND 0xFFF)) else None)"
  by (simp add: translate_def Let_def table_of_def pde_of_def)

lemma page_base_of_base [simp]: "page_base (table_of s t) = table_of s t"
  by (simp add: table_of_def)

text \<open>
  Writing a directory entry and an entry of the table it names: the tables and the
  translations afterwards.
\<close>

lemma install_tables:
  assumes pm: "pmem s' = (pmem s)(entry (page_base (cr3 s)) t := e, entry (page_base e) p := pte)"
    and c: "cr3 s' = cr3 s" and T: "page_base e \<noteq> page_base (cr3 s)"
    and lt: "unat t < 1024" "unat p < 1024" "unat u < 1024"
  shows "pde_of s' u = (if u = t then e else pde_of s u)"
    and "table_of s' u = (if u = t then page_base e else table_of s u)"
proof -
  have "entry (page_base e) p \<noteq> entry (page_base (cr3 s)) u" using T lt entry_eq_iff by blast
  moreover have "entry (page_base (cr3 s)) t = entry (page_base (cr3 s)) u \<longleftrightarrow> t = u"
    using lt entry_eq_iff by blast
  ultimately show "pde_of s' u = (if u = t then e else pde_of s u)"
    unfolding pde_of_def pm c by auto
  then show "table_of s' u = (if u = t then page_base e else table_of s u)"
    unfolding table_of_def by simp
qed

lemma install_translate:
  assumes pm: "pmem s' = (pmem s)(entry (page_base (cr3 s)) (table_idx v) := e,
      entry (page_base e) (page_idx v) := pte)"
    and c: "cr3 s' = cr3 s" and T: "page_base e \<noteq> page_base (cr3 s)" and e: "bit e 0"
  shows "bit pte 0 \<Longrightarrow> translate s' v = Some (page_base pte OR (v AND 0xFFF))"
    and "\<lbrakk>page_base w \<noteq> page_base v; table_idx w = table_idx v; page_base e = table_of s (table_idx v);
      bit (pde_of s (table_idx v)) 0\<rbrakk> \<Longrightarrow> translate s' w = translate s w"
    and "\<lbrakk>table_idx w \<noteq> table_idx v; bit (pde_of s (table_idx w)) 0 \<Longrightarrow>
      table_of s (table_idx w) \<noteq> page_base (cr3 s) \<and> table_of s (table_idx w) \<noteq> page_base e\<rbrakk> \<Longrightarrow>
      translate s' w = translate s w"
proof -
  note it = install_tables [OF pm c T table_idx_less page_idx_less table_idx_less]
  show "translate s' v = Some (page_base pte OR (v AND 0xFFF))" if "bit pte 0"
    using that e unfolding translate_alt it by (simp add: pm Let_def)
  show "translate s' w = translate s w"
    if "page_base w \<noteq> page_base v" "table_idx w = table_idx v"
      "page_base e = table_of s (table_idx v)" "bit (pde_of s (table_idx v)) 0"
  proof -
    have "page_idx w \<noteq> page_idx v" using that(1,2) same_page_iff by blast
    then have "entry (page_base e) (page_idx w) \<noteq> entry (page_base e) (page_idx v)"
      using entry_eq_iff page_idx_less by blast
    moreover have "entry (page_base e) (page_idx w) \<noteq> entry (page_base (cr3 s)) (table_idx v)"
      using entry_eq_iff T page_idx_less table_idx_less by blast
    ultimately show ?thesis using that(2-) e
      unfolding translate_alt it by (simp add: pm Let_def)
  qed
  show "translate s' w = translate s w"
    if "table_idx w \<noteq> table_idx v" "bit (pde_of s (table_idx w)) 0 \<Longrightarrow>
      table_of s (table_idx w) \<noteq> page_base (cr3 s) \<and> table_of s (table_idx w) \<noteq> page_base e"
  proof (cases "bit (pde_of s (table_idx w)) 0")
    case False
    then show ?thesis using that(1) unfolding translate_alt it by simp
  next
    case True
    let ?T = "table_of s (table_idx w)"
    have "entry (page_base ?T) (page_idx w) \<noteq> entry (page_base e) (page_idx v)"
      "entry (page_base ?T) (page_idx w) \<noteq> entry (page_base (cr3 s)) (table_idx v)"
      using entry_eq_iff page_idx_less table_idx_less that(2) [OF True]
      by (metis page_base_of_base)+
    then show ?thesis using that(1)
      unfolding translate_alt it by (simp add: pm Let_def)
  qed
qed

lemma page_wfD:
  assumes "page_wf s"
  shows "frame_wf s" "frame_in_use s 0" "frame_in_use s (page_base (cr3 s))"
    and "unat t < 1024 \<Longrightarrow> bit (pde_of s t) 0 \<longleftrightarrow> table_of s t \<noteq> 0"
    and "unat t < 1024 \<Longrightarrow> table_of s t \<noteq> 0 \<Longrightarrow> frame_in_use s (table_of s t)"
    and "unat t < 1024 \<Longrightarrow> table_of s t \<noteq> 0 \<Longrightarrow> table_of s t \<noteq> page_base (cr3 s)"
    and "\<lbrakk>unat t < 1024; unat u < 1024; table_of s t \<noteq> 0; table_of s t = table_of s u\<rbrakk> \<Longrightarrow> t = u"
  using assms unfolding page_wf_def by blast+

lemma install_wf:
  assumes wf: "page_wf s" and c: "cr3 s' = cr3 s"
    and pm: "pmem s' = (pmem s)(entry (page_base (cr3 s)) t := e, entry (page_base e) p := pte)"
    and fr: "frames_count s' = frames_count s" "\<And>a. frame_in_use s a \<Longrightarrow> frame_in_use s' a"
    and lt: "unat t < 1024" "unat p < 1024"
    and e: "page_base e \<noteq> page_base (cr3 s)" "bit e 0" "page_base e \<noteq> 0" "frame_in_use s' (page_base e)"
    and uniq: "\<And>u. unat u < 1024 \<Longrightarrow> table_of s u = page_base e \<Longrightarrow> u = t"
  shows "page_wf s'"
proof -
  note it = install_tables [OF pm c e(1) lt]
  show ?thesis
    unfolding page_wf_def c
  proof (intro conjI allI impI)
    show "frame_wf s'" using page_wfD(1) [OF wf] fr(1) by (simp add: frame_wf_def)
    show "frame_in_use s' 0" "frame_in_use s' (page_base (cr3 s))"
      using page_wfD(2,3) [OF wf] fr(2) by blast+
    show "bit (pde_of s' u) 0 \<longleftrightarrow> table_of s' u \<noteq> 0" if "unat u < 1024" for u
      using page_wfD(4) [OF wf that] e unfolding it [OF that] by simp
    show "frame_in_use s' (table_of s' u)" if "unat u < 1024" "table_of s' u \<noteq> 0" for u
      using that(2) page_wfD(5) [OF wf that(1)] e(4) fr(2) unfolding it [OF that(1)] by auto
    show "table_of s' u \<noteq> page_base (cr3 s)" if "unat u < 1024" "table_of s' u \<noteq> 0" for u
      using that(2) page_wfD(6) [OF wf that(1)] e(1) unfolding it [OF that(1)] by auto
    show "u = w" if "unat u < 1024" "unat w < 1024" "table_of s' u \<noteq> 0" "table_of s' u = table_of s' w" for u w
    proof (cases "u = t \<or> w = t")
      case True
      then show ?thesis
        using that(4) uniq [OF that(1)] uniq [OF that(2)] unfolding it [OF that(1)] it [OF that(2)]
        by (metis (full_types))
    next
      case False
      then show ?thesis
        using that(3,4) page_wfD(7) [OF wf that(1,2)] unfolding it [OF that(1)] it [OF that(2)] by auto
    qed
  qed
qed

section \<open>Mapping one page\<close>

definition page_available :: "'a page_state_scheme \<Rightarrow> u32 \<Rightarrow> bool" where
  "page_available s v \<longleftrightarrow> table_of s (table_idx v) \<noteq> 0 \<or> (frames_free s \<noteq> 0 \<and> free_groups s \<noteq> {})"

text \<open>
  What \<open>page_map\<close> does to the state: with a table present it writes two cells; without one it
  takes a frame that was not in use for the table. \<open>e\<close> is the new directory entry.
\<close>

definition page_map_post ::
    "'a page_state_scheme \<Rightarrow> u32 \<Rightarrow> u32 \<Rightarrow> 'a page_state_scheme \<Rightarrow> u32 \<Rightarrow> bool" where
  "page_map_post s p v s' e \<longleftrightarrow> cr3 s' = cr3 s \<and> frames_count s' = frames_count s \<and>
     pmem s' = (pmem s)(entry (page_base (cr3 s)) (table_idx v) := e,
       entry (page_base e) (page_idx v) := page_base p OR PAGE_FLAG_PRESENT OR PAGE_FLAG_RW) \<and>
     bit e 0 \<and> page_base e \<noteq> 0 \<and> page_base e \<noteq> page_base (cr3 s) \<and> frame_in_use s' (page_base e) \<and>
     (\<forall>a. frame_in_use s a \<longrightarrow> frame_in_use s' a) \<and>
     (\<forall>u. unat u < 1024 \<longrightarrow> table_of s u = page_base e \<longrightarrow> u = table_idx v) \<and>
     (table_of s (table_idx v) \<noteq> 0 \<longrightarrow> page_base e = table_of s (table_idx v)) \<and>
     card (free_groups s) \<le> card (free_groups s') + 1 \<and>
     (card (free_groups s) \<le> unat (frames_free s) \<longrightarrow>
        card (free_groups s') \<le> unat (frames_free s'))"

lemma page_map_effect:
  assumes wf: "page_wf s" and av: "page_available s v"
  shows "\<exists>s' e. page_map p v s = Inr s' \<and> page_map_post s p v s' e"
proof (cases "table_of s (table_idx v) = 0")
  case False
  let ?e = "pde_of s (table_idx v) OR PAGE_FLAG_PRESENT OR PAGE_FLAG_RW"
  let ?s = "s\<lparr>pmem := (pmem s)(entry (page_base (cr3 s)) (table_idx v) := ?e,
       entry (page_base ?e) (page_idx v) := page_base p OR PAGE_FLAG_PRESENT OR PAGE_FLAG_RW)\<rparr>"
  have T: "page_base ?e = table_of s (table_idx v)" by (simp add: table_of_def)
  have "page_map p v s = Inr ?s"
    using False by (simp add: page_map_def Let_def table_of_def pde_of_def)
  moreover have "frame_in_use ?s a = frame_in_use s a" for a by (simp add: frame_in_use_def)
  moreover have "u = table_idx v" if "unat u < 1024" "table_of s u = table_of s (table_idx v)" for u
    using page_wfD(7) [OF wf that(1) table_idx_less] that(2) False by simp
  ultimately show ?thesis
    using False T page_wfD(5,6) [OF wf table_idx_less False]
    by (intro exI [of _ ?s] exI [of _ ?e]) (simp add: page_map_post_def free_groups_def)
next
  case True
  then have ff: "frames_free s \<noteq> 0" and fg: "free_groups s \<noteq> {}"
    using av by (auto simp: page_available_def)
  obtain i k where i: "i < frames_count s" "physical_bitmap s (byte_of i) = 0"
      and get: "frame_get s = Inr (i * FRAME_SIZE,
        s\<lparr>physical_bitmap := (physical_bitmap s)(byte_of i := bit_mask i),
          frames_free := frames_free s - 1, frame_idx := k\<rparr>)"
    using frame_get_free [OF page_wfD(1) [OF wf] ff fg] by blast
  let ?e = "i * FRAME_SIZE OR PAGE_FLAG_PRESENT OR PAGE_FLAG_RW"
  let ?s = "s\<lparr>physical_bitmap := (physical_bitmap s)(byte_of i := bit_mask i),
      frames_free := frames_free s - 1, frame_idx := k,
      pmem := (pmem s)(entry (page_base (cr3 s)) (table_idx v) := ?e,
       entry (page_base ?e) (page_idx v) := page_base p OR PAGE_FLAG_PRESENT OR PAGE_FLAG_RW)\<rparr>"
  have "unat (i * FRAME_SIZE) = unat i * 4096" by (rule unat_frame_addr [OF page_wfD(1) [OF wf] i(1)])
  then have T: "page_base ?e = i * FRAME_SIZE" and idx: "i * FRAME_SIZE div FRAME_SIZE = i"
    by (simp_all add: word_unat_eq_iff unat_page_base unat_frame_of)
  then have free: "\<not> frame_in_use s (page_base ?e)" using i(2) by (simp add: frame_in_use_def)
  have ne: "page_base ?e \<noteq> 0" "page_base ?e \<noteq> page_base (cr3 s)"
    using free page_wfD(2,3) [OF wf] by metis+
  have fg': "free_groups ?s = free_groups s - {byte_of i}" by (auto simp: free_groups_def)
  have cd: "card (free_groups ?s) = card (free_groups s) - 1"
    unfolding fg' using frame_in_group [OF i] by simp
  have uf: "unat (frames_free ?s) = unat (frames_free s) - 1" using ff by (simp add: unat_minus_1)
  have "page_map_post s p v ?s ?e"
    unfolding page_map_post_def
  proof (intro conjI allI impI)
    show "page_base ?e \<noteq> 0" "page_base ?e \<noteq> page_base (cr3 s)" by (fact ne)+
    show "frame_in_use ?s (page_base ?e)" unfolding T by (simp add: frame_in_use_def idx)
    show "frame_in_use ?s a" if "frame_in_use s a" for a using that by (simp add: frame_in_use_def)
    show "u = table_idx v" if "unat u < 1024" "table_of s u = page_base ?e" for u
      using free ne(1) page_wfD(5) [OF wf that(1)] that(2) by metis
    show "page_base ?e = table_of s (table_idx v)" if "table_of s (table_idx v) \<noteq> 0"
      using that True by blast
    show "card (free_groups s) \<le> card (free_groups ?s) + 1" unfolding cd by simp
    show "card (free_groups ?s) \<le> unat (frames_free ?s)" if "card (free_groups s) \<le> unat (frames_free s)"
      unfolding cd uf using that by simp
  qed simp_all
  moreover have "page_map p v s = Inr ?s"
    using True get by (simp add: page_map_def Let_def table_of_def pde_of_def)
  ultimately show ?thesis by blast
qed

lemma page_map_maps:
  assumes wf: "page_wf s" and av: "page_available s v"
  shows "\<exists>s'. page_map p v s = Inr s' \<and> page_wf s' \<and>
    translate s' v = Some (page_base p OR (v AND 0xFFF)) \<and>
    (\<forall>w. page_base w \<noteq> page_base v \<longrightarrow>
       (table_idx w = table_idx v \<longrightarrow> table_of s (table_idx v) \<noteq> 0) \<longrightarrow>
       translate s' w = translate s w) \<and>
    card (free_groups s) \<le> card (free_groups s') + 1 \<and>
    (card (free_groups s) \<le> unat (frames_free s) \<longrightarrow>
       card (free_groups s') \<le> unat (frames_free s')) \<and>
    table_of s' (table_idx v) \<noteq> 0"
proof -
  obtain s' e where m: "page_map p v s = Inr s'" and post: "page_map_post s p v s' e"
    using page_map_effect [OF wf av] by blast
  have c: "cr3 s' = cr3 s" and fc: "frames_count s' = frames_count s"
    and pm: "pmem s' = (pmem s)(entry (page_base (cr3 s)) (table_idx v) := e,
        entry (page_base e) (page_idx v) := page_base p OR PAGE_FLAG_PRESENT OR PAGE_FLAG_RW)"
    and e: "bit e 0" "page_base e \<noteq> 0" "page_base e \<noteq> page_base (cr3 s)" "frame_in_use s' (page_base e)"
    using post by (simp_all add: page_map_post_def)
  have fu: "\<And>a. frame_in_use s a \<Longrightarrow> frame_in_use s' a"
    and uniq: "\<And>u. unat u < 1024 \<Longrightarrow> table_of s u = page_base e \<Longrightarrow> u = table_idx v"
    and old: "table_of s (table_idx v) \<noteq> 0 \<Longrightarrow> page_base e = table_of s (table_idx v)"
    and fr: "card (free_groups s) \<le> card (free_groups s') + 1"
      "card (free_groups s) \<le> unat (frames_free s) \<longrightarrow> card (free_groups s') \<le> unat (frames_free s')"
    using post unfolding page_map_post_def by blast+
  note tr = install_translate [OF pm c e(3,1)]
  have "page_wf s'"
    using install_wf [OF wf c pm fc fu table_idx_less page_idx_less e(3,1,2,4) uniq] .
  moreover have "translate s' v = Some (page_base p OR (v AND 0xFFF))" using tr(1) by simp
  moreover have "translate s' w = translate s w"
    if "page_base w \<noteq> page_base v" "table_idx w = table_idx v \<longrightarrow> table_of s (table_idx v) \<noteq> 0" for w
  proof (cases "table_idx w = table_idx v")
    case True
    with that have "table_of s (table_idx v) \<noteq> 0" by blast
    with old page_wfD(4) [OF wf table_idx_less] show ?thesis
      by (intro tr(2) [OF that(1) True]) auto
  next
    case False
    with uniq [OF table_idx_less] page_wfD(4,6) [OF wf table_idx_less] show ?thesis
      by (intro tr(3)) auto
  qed
  moreover have "table_of s' (table_idx v) \<noteq> 0"
    using install_tables(2) [OF pm c e(3) table_idx_less page_idx_less table_idx_less] e(2) by simp
  ultimately show ?thesis using m fr by blast
qed

section \<open>Mapping a range\<close>

lemma page_base_translated: "page_base (page_base f OR (v AND 0xFFF)) = page_base f"
proof -
  have low: "(0xFFF :: u32) = mask 12" by (simp add: mask_eq_exp_minus_1)
  show ?thesis unfolding low by (rule bit_word_eqI) (auto simp: bit_page_base bit_simps)
qed

lemma frame_get_page:
  assumes wf: "page_wf s" and ff: "frames_free s \<noteq> 0" and fg: "free_groups s \<noteq> {}"
  shows "\<exists>f s'. frame_get s = Inr (f, s') \<and> page_wf s' \<and> translate s' = translate s \<and> f \<noteq> 0 \<and>
    page_base f = f \<and> \<not> frame_in_use s f \<and> frame_in_use s' f \<and>
    (\<forall>a. frame_in_use s a \<longrightarrow> frame_in_use s' a) \<and>
    card (free_groups s') = card (free_groups s) - 1 \<and>
    unat (frames_free s') = unat (frames_free s) - 1"
proof -
  obtain i k where i: "i < frames_count s" "physical_bitmap s (byte_of i) = 0"
      and get: "frame_get s = Inr (i * FRAME_SIZE,
        s\<lparr>physical_bitmap := (physical_bitmap s)(byte_of i := bit_mask i),
          frames_free := frames_free s - 1, frame_idx := k\<rparr>)" (is "_ = Inr (?f, ?s)")
    using frame_get_free [OF page_wfD(1) [OF wf] ff fg] by blast
  have "unat ?f = unat i * 4096" by (rule unat_frame_addr [OF page_wfD(1) [OF wf] i(1)])
  then have T: "page_base ?f = ?f" and idx: "?f div FRAME_SIZE = i"
    by (simp_all add: word_unat_eq_iff unat_page_base unat_frame_of)
  have mono: "frame_in_use ?s a" if "frame_in_use s a" for a
    using that by (simp add: frame_in_use_def)
  have same: "pde_of ?s = pde_of s" "table_of ?s = table_of s"
    by (simp_all add: fun_eq_iff pde_of_def table_of_def)
  have "page_wf ?s"
    using wf mono unfolding page_wf_def same frame_wf_def by simp
  moreover have "translate ?s = translate s" by (simp add: fun_eq_iff translate_def)
  moreover have nu: "\<not> frame_in_use s ?f" "frame_in_use ?s ?f" using i by (simp_all add: frame_in_use_def idx)
  moreover have "?f \<noteq> 0" using nu(1) page_wfD(2) [OF wf] by metis
  moreover have "free_groups ?s = free_groups s - {byte_of i}" by (auto simp: free_groups_def)
  then have "card (free_groups ?s) = card (free_groups s) - 1" using frame_in_group [OF i] by simp
  moreover have "unat (frames_free ?s) = unat (frames_free s) - 1" using ff by (simp add: unat_minus_1)
  ultimately show ?thesis using get T mono by blast
qed

definition frame_behind :: "'a page_state_scheme \<Rightarrow> addr \<Rightarrow> addr option" where
  "frame_behind s v = map_option page_base (translate s v)"

definition in_pages :: "nat \<Rightarrow> nat \<Rightarrow> addr \<Rightarrow> bool" where
  "in_pages a b w \<longleftrightarrow> a \<le> unat w div 4096 \<and> unat w div 4096 \<le> b"

text \<open>One iteration: the page gets a frame that was free, defined translations stay.\<close>

lemma map_step:
  assumes wf: "page_wf s" and c2: "2 \<le> card (free_groups s)"
    and le: "card (free_groups s) \<le> unat (frames_free s)"
  shows "\<exists>f s1 s2. frame_get s = Inr (f, s1) \<and> f \<noteq> 0 \<and> page_map f v s1 = Inr s2 \<and> page_wf s2 \<and>
    frame_behind s2 v = Some f \<and> translate s2 v \<noteq> None \<and> \<not> frame_in_use s f \<and> frame_in_use s2 f \<and>
    (\<forall>a. frame_in_use s a \<longrightarrow> frame_in_use s2 a) \<and>
    (\<forall>w. page_base w \<noteq> page_base v \<longrightarrow> translate s w \<noteq> None \<longrightarrow> translate s2 w = translate s w) \<and>
    card (free_groups s) \<le> card (free_groups s2) + 2 \<and>
    card (free_groups s2) \<le> unat (frames_free s2)"
proof -
  have ne: "frames_free s \<noteq> 0" "free_groups s \<noteq> {}" using c2 le by auto
  from frame_get_page [OF wf this] obtain f s1 where
      g: "frame_get s = Inr (f, s1)" and wf1: "page_wf s1" and tr: "translate s1 = translate s"
      and f: "f \<noteq> 0" "page_base f = f" "\<not> frame_in_use s f" "frame_in_use s1 f"
      and mono: "\<forall>a. frame_in_use s a \<longrightarrow> frame_in_use s1 a"
      and cd: "card (free_groups s1) = card (free_groups s) - 1"
      and uf: "unat (frames_free s1) = unat (frames_free s) - 1"
    by (elim exE conjE) rule
  have "free_groups s1 \<noteq> {}" "frames_free s1 \<noteq> 0" using cd uf c2 le by auto
  then have av: "page_available s1 v" by (simp add: page_available_def)
  from page_map_maps [OF wf1 av, of f] obtain s2 where m: "page_map f v s1 = Inr s2"
      and mm: "page_wf s2" "translate s2 v = Some (page_base f OR (v AND 0xFFF))"
      "\<forall>w. page_base w \<noteq> page_base v \<longrightarrow>
       (table_idx w = table_idx v \<longrightarrow> table_of s1 (table_idx v) \<noteq> 0) \<longrightarrow> translate s2 w = translate s1 w"
      "card (free_groups s1) \<le> card (free_groups s2) + 1"
      "card (free_groups s1) \<le> unat (frames_free s1) \<longrightarrow> card (free_groups s2) \<le> unat (frames_free s2)"
    by (elim exE conjE) rule
  obtain e where post: "page_map_post s1 f v s2 e"
    using page_map_effect [OF wf1 av, of f] m by (metis sum.inject(2))
  have m2: "\<forall>a. frame_in_use s1 a \<longrightarrow> frame_in_use s2 a"
    using post unfolding page_map_post_def by blast
  have "translate s2 w = translate s w" if "page_base w \<noteq> page_base v" "translate s w \<noteq> None" for w
  proof -
    have "translate s1 w \<noteq> None" using that(2) by (simp add: tr)
    then have "bit (pde_of s1 (table_idx w)) 0"
      unfolding translate_alt Let_def by (simp split: if_splits)
    then have "table_of s1 (table_idx w) \<noteq> 0" using page_wfD(4) [OF wf1 table_idx_less] by blast
    then show ?thesis using mm(3) that(1) tr by metis
  qed
  moreover have "frame_behind s2 v = Some f" using mm(2) f(2) page_base_translated [of f v]
    by (simp add: frame_behind_def)
  moreover have "card (free_groups s) \<le> card (free_groups s2) + 2" using mm(4) cd by linarith
  moreover have "card (free_groups s2) \<le> unat (frames_free s2)" using mm(5) cd uf le by linarith
  moreover have "frame_in_use s2 f" "\<forall>a. frame_in_use s a \<longrightarrow> frame_in_use s2 a"
    using f(4) mono m2 by blast+
  ultimately show ?thesis using g f m mm(1,2) by (intro exI [of _ f] exI [of _ s1] exI [of _ s2]) simp
qed

lemma map_loop_maps:
  "\<lbrakk>page_wf s; unat old = 4096 * a; unat new = 4096 * b; b < 1048575; b + 1 - a < n;
    2 * (b + 1 - a) \<le> card (free_groups s); card (free_groups s) \<le> unat (frames_free s)\<rbrakk> \<Longrightarrow>
    \<exists>s'. map_loop n old new s = Inr (new + 0x1000, s') \<and> page_wf s' \<and>
      (\<forall>w. \<not> in_pages a b w \<longrightarrow> translate s w \<noteq> None \<longrightarrow> translate s' w = translate s w) \<and>
      (\<forall>w. in_pages a b w \<longrightarrow> (\<exists>f. frame_behind s' w = Some f \<and> \<not> frame_in_use s f)) \<and>
      (\<forall>w w'. in_pages a b w \<longrightarrow> in_pages a b w' \<longrightarrow> page_base w \<noteq> page_base w' \<longrightarrow>
         frame_behind s' w \<noteq> frame_behind s' w')"
proof (induction n arbitrary: s old a)
  case 0
  then show ?case by simp
next
  case (Suc n)
  have le: "old \<le> new \<longleftrightarrow> a \<le> b" using Suc.prems(2,3) by (simp add: word_le_nat_alt)
  show ?case
  proof (cases "a \<le> b")
    case False
    then show ?thesis using Suc.prems(1) le by (auto simp: in_pages_def)
  next
    case True
    have "2 \<le> card (free_groups s)" using Suc.prems(6) True by linarith
    from map_step [OF Suc.prems(1) this Suc.prems(7), of old] obtain f s1 s2 where
        g: "frame_get s = Inr (f, s1)" "f \<noteq> 0" "page_map f old s1 = Inr s2" and wf2: "page_wf s2"
        and fb: "frame_behind s2 old = Some f" "translate s2 old \<noteq> None"
        and fu: "\<not> frame_in_use s f" "frame_in_use s2 f" "\<forall>a. frame_in_use s a \<longrightarrow> frame_in_use s2 a"
        and keep: "\<forall>w. page_base w \<noteq> page_base old \<longrightarrow> translate s w \<noteq> None \<longrightarrow> translate s2 w = translate s w"
        and cd: "card (free_groups s) \<le> card (free_groups s2) + 2"
          "card (free_groups s2) \<le> unat (frames_free s2)"
      by (elim exE conjE) rule
    have step: "map_loop (Suc n) old new s = map_loop n (old + 0x1000) new s2"
      using True le g by simp
    have old': "unat (old + 0x1000) = 4096 * (a + 1)"
      using Suc.prems(2,4) True by (simp add: unat_word_ariths)
    have "b + 1 - (a + 1) < n" "2 * (b + 1 - (a + 1)) \<le> card (free_groups s2)"
      using Suc.prems(5,6) cd(1) True by linarith+
    from Suc.IH [OF wf2 old' Suc.prems(3,4) this cd(2)] obtain s' where
        s': "map_loop n (old + 0x1000) new s2 = Inr (new + 0x1000, s')" "page_wf s'"
        and k2: "\<forall>w. \<not> in_pages (a + 1) b w \<longrightarrow> translate s2 w \<noteq> None \<longrightarrow> translate s' w = translate s2 w"
        and n2: "\<forall>w. in_pages (a + 1) b w \<longrightarrow> (\<exists>f. frame_behind s' w = Some f \<and> \<not> frame_in_use s2 f)"
        and d2: "\<forall>w w'. in_pages (a + 1) b w \<longrightarrow> in_pages (a + 1) b w' \<longrightarrow> page_base w \<noteq> page_base w' \<longrightarrow>
           frame_behind s' w \<noteq> frame_behind s' w'"
      by (elim exE conjE) rule
    have page: "in_pages a b w \<longleftrightarrow> in_pages (a + 1) b w \<or> page_base w = page_base old" for w
      using True Suc.prems(2) by (auto simp: in_pages_def word_unat_eq_iff unat_page_base)
    have notin: "\<not> in_pages (a + 1) b w" if "page_base w = page_base old" for w
      using that Suc.prems(2) by (auto simp: in_pages_def word_unat_eq_iff unat_page_base)
    have same: "frame_behind s' w = Some f" if "page_base w = page_base old" for w
    proof -
      have ti: "table_idx w = table_idx old" "page_idx w = page_idx old" using that same_page_iff by blast+
      then have "translate s2 w \<noteq> None" "frame_behind s2 w = Some f"
        using fb unfolding frame_behind_def translate_alt ti
        by (auto simp: Let_def page_base_translated split: if_splits)
      then show ?thesis using k2 notin [OF that] by (simp add: frame_behind_def)
    qed
    have new: "\<exists>f'. frame_behind s' w = Some f' \<and> f' \<noteq> f \<and> \<not> frame_in_use s f'"
      if "in_pages (a + 1) b w" for w
      using n2 that fu by blast
    have "translate s' w = translate s w" if "\<not> in_pages a b w" "translate s w \<noteq> None" for w
      using that page k2 keep by metis
    moreover have "\<exists>f. frame_behind s' w = Some f \<and> \<not> frame_in_use s f" if "in_pages a b w" for w
      using that page same new fu(1) by metis
    moreover have "frame_behind s' w \<noteq> frame_behind s' w'"
      if "in_pages a b w" "in_pages a b w'" "page_base w \<noteq> page_base w'" for w w'
      using that page same new d2 by (metis option.inject)
    ultimately show ?thesis unfolding step using s' by blast
  qed
qed

section \<open>Unmapping\<close>

lemma frame_free_returns: "\<exists>s'. frame_free a s = Inr s' \<and> pmem s' = pmem s \<and> cr3 s' = cr3 s"
proof -
  have "byte_of (a div FRAME_SIZE) < BITMAP_SIZE"
    using unat_u32_less [of a] by (simp add: byte_of_nat unat_frame_of BITMAP_SIZE_def)
  then show ?thesis by (auto simp: frame_free_def frame_unset_address_def Let_def)
qed

lemma page_unmap_effect:
  assumes T: "table_of s (table_idx v) \<noteq> page_base (cr3 s)"
  shows "\<exists>s'. page_unmap v s = Inr s' \<and> cr3 s' = cr3 s \<and>
    pmem s' = (pmem s)(entry (page_base (cr3 s)) (table_idx v) :=
        pde_of s (table_idx v) OR PAGE_FLAG_PRESENT OR PAGE_FLAG_RW,
      entry (table_of s (table_idx v)) (page_idx v) := 0)"
proof -
  let ?s = "s\<lparr>pmem := (pmem s)(entry (page_base (cr3 s)) (table_idx v) :=
      pde_of s (table_idx v) OR PAGE_FLAG_PRESENT OR PAGE_FLAG_RW)\<rparr>"
  let ?f = "page_base (pmem ?s (entry (table_of s (table_idx v)) (page_idx v)))"
  obtain s1 where "frame_free ?f ?s = Inr s1" "pmem s1 = pmem ?s" "cr3 s1 = cr3 ?s"
    using frame_free_returns by blast
  then show ?thesis
    by (auto simp: page_unmap_def Let_def table_of_def pde_of_def)
qed

section \<open>Properties of the page tables\<close>


text \<open>A machine with 256 frames of which the first 8 are in use, and an empty directory.\<close>

definition empty_machine :: page_state where
  "empty_machine = \<lparr>frames_count = 256, frame_idx = 0, frames_free = 255,
     physical_bitmap = (\<lambda>_. 0)(0 := 1), cr3 = 0x1000, pmem = \<lambda>_. 0\<rparr>"

lemma empty_machine_tables [simp]:
  "pde_of empty_machine t = 0" "table_of empty_machine t = 0"
  by (simp_all add: empty_machine_def pde_of_def table_of_def page_base_def)

lemma empty_machine_groups: "free_groups empty_machine = {1 ..< 32}"
  by (auto simp: free_groups_def empty_machine_def)

lemma empty_machine_wf: "page_wf empty_machine"
  unfolding page_wf_def
  by (simp add: frame_wf_def frame_in_use_def byte_of_nat unat_frame_of unat_page_base)
    (simp add: empty_machine_def)




text \<open>
  \<open>page_unmap v\<close> returns; afterwards \<open>v\<close> does not translate and every other page
  translates as before, when the table of \<open>v\<close> exists.
\<close>

theorem page_unmap_unmaps:
  assumes wf: "page_wf s" and T: "table_of s (table_idx v) \<noteq> 0"
  shows "\<exists>s'. page_unmap v s = Inr s' \<and> translate s' v = None \<and>
    (\<forall>w. page_base w \<noteq> page_base v \<longrightarrow> translate s' w = translate s w)"
proof -
  let ?e = "pde_of s (table_idx v) OR PAGE_FLAG_PRESENT OR PAGE_FLAG_RW"
  have e: "page_base ?e = table_of s (table_idx v)" by (simp add: table_of_def)
  have ne: "page_base ?e \<noteq> page_base (cr3 s)" unfolding e by (rule page_wfD(6) [OF wf table_idx_less T])
  obtain s' where m: "page_unmap v s = Inr s'" and c: "cr3 s' = cr3 s"
      and pm: "pmem s' = (pmem s)(entry (page_base (cr3 s)) (table_idx v) := ?e,
        entry (page_base ?e) (page_idx v) := 0)"
    using page_unmap_effect ne unfolding e by blast
  note it = install_tables(2) [OF pm c ne table_idx_less page_idx_less table_idx_less]
  note tr = install_translate [OF pm c ne bit_0_flags]
  have "translate s' v = None"
    unfolding translate_alt it by (simp add: pm Let_def)
  moreover have "translate s' w = translate s w" if "page_base w \<noteq> page_base v" for w
  proof (cases "table_idx w = table_idx v")
    case True
    with that T page_wfD(4) [OF wf table_idx_less] e show ?thesis by (intro tr(2)) auto
  next
    case False
    have "table_of s (table_idx w) \<noteq> page_base (cr3 s) \<and> table_of s (table_idx w) \<noteq> page_base ?e"
      if "bit (pde_of s (table_idx w)) 0"
      using that False page_wfD(4,6) [OF wf table_idx_less]
        page_wfD(7) [OF wf table_idx_less [of w] table_idx_less [of v]] unfolding e by blast
    with False show ?thesis by (rule tr(3))
  qed
  ultimately show ?thesis using m by blast
qed

theorem page_unmap_unmaps_witness:
  "\<exists>s s'. page_map 0x5000 0xC0002000 empty_machine = Inr s \<and> page_unmap 0xC0002000 s = Inr s' \<and>
    translate s' 0xC0002000 = None"
proof -
  have "page_available empty_machine 0xC0002000"
    by (simp add: page_available_def empty_machine_groups) (simp add: empty_machine_def)
  from page_map_maps [OF empty_machine_wf this, of "0x5000"] obtain s where
      s: "page_map 0x5000 0xC0002000 empty_machine = Inr s" "page_wf s"
      "table_of s (table_idx 0xC0002000) \<noteq> 0" by blast
  from page_unmap_unmaps [OF s(2,3)] s(1) show ?thesis by blast
qed

end
