(* ===== verification/MM.thy ===== *)
theory MM
  imports Page
begin

text \<open>
  kernel/memory/mm.c: the kernel heap.

  The state extends the page tables' with the globals of the file and with the block headers, a
  typed heap from addresses to \<open>mblock\<close> structs. \<open>free\<close> has an empty body in the code, so no
  block ever becomes a hole and \<open>malloc\<close> only moves \<open>malloc_top\<close> up; the hole search and the split
  are modelled all the same.

  The invariant \<open>mm_wf\<close> says that the list from \<open>root_mblock\<close> tiles the heap up to
  \<open>malloc_top\<close> with used blocks and ends in \<open>last_block\<close>. The locale \<open>allocator\<close> is the contract
  clients of \<open>malloc\<close> rely on; it is interpreted on \<open>malloc\<close> here.
\<close>

section \<open>The code\<close>

definition MBLOCK_MAGIC :: u32 where
  "MBLOCK_MAGIC = 0xF4283F30"

record mblock =
  mb_magic :: u32
  mb_hole :: u32
  mb_size :: u32
  mb_addr :: u32
  mb_next :: addr

text \<open>\<open>sizeof(mblock_t)\<close>, five packed words.\<close>

definition sizeof_mblock :: u32 where
  "sizeof_mblock = 20"

record mm_state = page_state +
  malloc_top :: u32
  heap :: u32
  root_mblock :: addr
  last_block :: addr
  mblocks :: "addr \<Rightarrow> mblock option"

definition expand :: "u32 \<Rightarrow> 'a mm_state_scheme \<Rightarrow> (u32 \<times> 'a mm_state_scheme) result" where
  "expand requested_size s = page_map_until (malloc_top s + requested_size) s"

text \<open>\<open>constrict\<close>: \<open>last_used\<close> has no initial value in the code; it is the parameter \<open>junk\<close>.\<close>

fun last_used_loop :: "nat \<Rightarrow> (addr \<Rightarrow> mblock option) \<Rightarrow> addr \<Rightarrow> addr \<Rightarrow> addr result" where
  "last_used_loop 0 h b last_used = Inl Diverge"
| "last_used_loop (Suc n) h b last_used =
     (if b = NULL then Inr last_used
      else bindr (deref h b) (\<lambda>blk.
        last_used_loop n h (mb_next blk)
          (if mb_magic blk = MBLOCK_MAGIC \<and> mb_hole blk = 0 then b else last_used)))"

definition constrict :: "addr \<Rightarrow> 'a mm_state_scheme \<Rightarrow> (u32 \<times> 'a mm_state_scheme) result" where
  "constrict junk s =
     bindr (last_used_loop addr_space (mblocks s) (root_mblock s) junk) (\<lambda>last_used.
       bindr (deref (mblocks s) last_used) (\<lambda>blk. page_free_above (mb_addr blk + mb_size blk) s))"

definition split_hole :: "addr \<Rightarrow> u32 \<Rightarrow> 'a mm_state_scheme \<Rightarrow> (addr \<times> 'a mm_state_scheme) result" where
  "split_hole b sz s =
     bindr (deref (mblocks s) b) (\<lambda>blk.
       if mb_hole blk = 0 then Inr (NULL, s)
       else if mb_size blk - (sz + sizeof_mblock) < sizeof_mblock then
         Inr (b, s\<lparr>mblocks := (mblocks s)(b \<mapsto> blk\<lparr>mb_hole := 0\<rparr>)\<rparr>)
       else
         let new_hole = mb_addr blk + sz;
             hole = \<lparr>mb_magic = MBLOCK_MAGIC, mb_hole = 1, mb_size = mb_size blk - sizeof_mblock - sz,
                     mb_addr = mb_addr blk + sz + sizeof_mblock, mb_next = mb_next blk\<rparr>
         in Inr (b, s\<lparr>mblocks := (mblocks s)(new_hole \<mapsto> hole,
                   b \<mapsto> blk\<lparr>mb_hole := 0, mb_size := sz, mb_next := new_hole\<rparr>)\<rparr>))"

fun find_hole_loop :: "nat \<Rightarrow> addr \<Rightarrow> u32 \<Rightarrow> 'a mm_state_scheme \<Rightarrow> (addr \<times> 'a mm_state_scheme) result" where
  "find_hole_loop 0 b sz s = Inl Diverge"
| "find_hole_loop (Suc n) b sz s =
     (if b = NULL then Inr (NULL, s)
      else bindr (deref (mblocks s) b) (\<lambda>blk.
        if mb_magic blk \<noteq> MBLOCK_MAGIC then Inl Panic
        else if mb_hole blk \<noteq> 0 \<and> sz \<le> mb_size blk then split_hole b sz s
        else find_hole_loop n (mb_next blk) sz s))"

definition find_hole :: "u32 \<Rightarrow> 'a mm_state_scheme \<Rightarrow> (addr \<times> 'a mm_state_scheme) result" where
  "find_hole sz s = find_hole_loop addr_space (root_mblock s) sz s"

definition new_block :: "u32 \<Rightarrow> u32 \<Rightarrow> mblock" where
  "new_block b sz = \<lparr>mb_magic = MBLOCK_MAGIC, mb_hole = 0, mb_size = sz,
     mb_addr = b + sizeof_mblock, mb_next = NULL\<rparr>"

definition malloc :: "u32 \<Rightarrow> 'a mm_state_scheme \<Rightarrow> (addr \<times> 'a mm_state_scheme) result" where
  "malloc sz s =
     (if sz = 0 then Inr (NULL, s)
      else bindr (find_hole sz s) (\<lambda>(b, s).
        if b \<noteq> NULL then bindr (deref (mblocks s) b) (\<lambda>blk. Inr (mb_addr blk, s))
        else
          bindr (if heap s < malloc_top s + sz + sizeof_mblock
                 then bindr (expand sz s) (\<lambda>(new_heap, s). Inr (s\<lparr>heap := new_heap\<rparr>))
                 else Inr s) (\<lambda>s.
            let b = malloc_top s;
                blk = new_block b sz;
                s = s\<lparr>mblocks := (mblocks s)(b \<mapsto> blk)\<rparr>
            in bindr (deref (mblocks s) (last_block s)) (\<lambda>lb.
                 Inr (mb_addr blk,
                   s\<lparr>mblocks := (mblocks s)(last_block s \<mapsto> lb\<lparr>mb_next := b\<rparr>),
                     last_block := b, malloc_top := mb_addr blk + mb_size blk\<rparr>)))))"

text \<open>The body of \<open>free\<close> is commented out in the code.\<close>

definition free :: "addr \<Rightarrow> 'a mm_state_scheme \<Rightarrow> 'a mm_state_scheme" where
  "free address s = s"

text \<open>
  \<open>mm\<close>: \<open>vaddr_end\<close> is the linker's symbol, \<open>mods_count\<close>, \<open>mod_end\<close> and \<open>mem_upper\<close> come from the
  boot loader. The loop over the modules does not move to the next module: it reads the first
  one's \<open>mod_end\<close> each time. The variable \<open>heap\<close> of the function hides the global one, which
  stays as it was.
\<close>

fun module_loop :: "nat \<Rightarrow> u32 \<Rightarrow> u32 \<Rightarrow> u32" where
  "module_loop 0 mod_end h = h"
| "module_loop (Suc n) mod_end h =
     module_loop n mod_end
       (if h < KERNEL_BASE + mod_end - 0x100000 then KERNEL_BASE + mod_end - 0x100000 else h)"

fun kernel_map_loop :: "nat \<Rightarrow> u32 \<Rightarrow> u32 \<Rightarrow> u32 \<Rightarrow> 'a mm_state_scheme \<Rightarrow> 'a mm_state_scheme result" where
  "kernel_map_loop 0 p_addr p_addr_max v_addr s = Inl Diverge"
| "kernel_map_loop (Suc n) p_addr p_addr_max v_addr s =
     (if p_addr < p_addr_max then
        bindr (page_map p_addr v_addr s) (\<lambda>s.
          kernel_map_loop n (p_addr + 0x1000) p_addr_max (v_addr + 0x1000) s)
      else Inr s)"

definition mm :: "u32 \<Rightarrow> u32 \<Rightarrow> u32 \<Rightarrow> u32 \<Rightarrow> 'a mm_state_scheme \<Rightarrow> 'a mm_state_scheme result" where
  "mm vaddr_end mods_count mod_end mem_upper s =
     (if vaddr_end = 0 then Inl Panic
      else
        let local_heap = module_loop (unat mods_count) mod_end vaddr_end
        in bindr (frame_setup (mem_upper * 1024) 0 (local_heap - KERNEL_BASE + 0x100000) s) (\<lambda>s.
           bindr (kernel_map_loop addr_space 0x100000
                    (page_base (local_heap - KERNEL_BASE + 0x100000) + 0x1000) KERNEL_BASE s) (\<lambda>s.
           let b = local_heap;
               blk = new_block b 1
           in Inr (s\<lparr>mblocks := (mblocks s)(b \<mapsto> blk), root_mblock := b, last_block := b,
                     malloc_top := mb_addr blk + mb_size blk\<rparr>))))"

section \<open>The allocator contract\<close>

text \<open>
  What a client of an allocator relies on: while the room lasts, a request returns, the memory
  it gets lies above everything handed out before and below the new top, and the invariant
  holds again.
\<close>

fun alloc_all :: "(u32 \<Rightarrow> 's \<Rightarrow> (addr \<times> 's) result) \<Rightarrow> u32 list \<Rightarrow> 's \<Rightarrow> (addr list \<times> 's) result" where
  "alloc_all alloc [] s = Inr ([], s)"
| "alloc_all alloc (n # ns) s =
     bindr (alloc n s) (\<lambda>(p, s). bindr (alloc_all alloc ns s) (\<lambda>(ps, s). Inr (p # ps, s)))"

locale allocator =
  fixes alloc :: "u32 \<Rightarrow> 's \<Rightarrow> (addr \<times> 's) result"
    and inv :: "'s \<Rightarrow> bool"
    and used :: "'s \<Rightarrow> nat"
    and limit :: "'s \<Rightarrow> nat"
    and overhead :: nat
  assumes alloc_ok: "\<lbrakk>inv s; 0 < unat n; used s + overhead + unat n \<le> limit s\<rbrakk> \<Longrightarrow>
      \<exists>p s'. alloc n s = Inr (p, s') \<and> inv s' \<and> unat p = used s + overhead \<and>
        used s' = used s + overhead + unat n \<and> limit s' = limit s"
begin

text \<open>A run of requests: the regions handed out follow one another without overlap.\<close>

lemma alloc_all_disjoint:
  "\<lbrakk>inv s; list_all (\<lambda>n. 0 < unat n) ns;
    used s + (\<Sum>n\<leftarrow>ns. overhead + unat n) \<le> limit s\<rbrakk> \<Longrightarrow>
    \<exists>ps s'. alloc_all alloc ns s = Inr (ps, s') \<and> inv s' \<and> length ps = length ns \<and>
      used s' = used s + (\<Sum>n\<leftarrow>ns. overhead + unat n) \<and> limit s' = limit s \<and>
      list_all2 (\<lambda>p n. used s + overhead \<le> unat p \<and> unat p + unat n \<le> used s') ps ns \<and>
      (\<forall>i j. i < j \<longrightarrow> j < length ns \<longrightarrow> unat (ps ! i) + unat (ns ! i) + overhead \<le> unat (ps ! j))"
proof (induction ns arbitrary: s)
  case Nil
  then show ?case by simp
next
  case (Cons n ns)
  then obtain p s1 where 1: "alloc n s = Inr (p, s1)" "inv s1" "unat p = used s + overhead"
      "used s1 = used s + overhead + unat n" "limit s1 = limit s"
    using alloc_ok [of s n] by auto
  with Cons.prems obtain ps s2 where 2: "alloc_all alloc ns s1 = Inr (ps, s2)" "inv s2"
      "length ps = length ns" "used s2 = used s1 + (\<Sum>n\<leftarrow>ns. overhead + unat n)" "limit s2 = limit s1"
      "list_all2 (\<lambda>p n. used s1 + overhead \<le> unat p \<and> unat p + unat n \<le> used s2) ps ns"
      "\<forall>i j. i < j \<longrightarrow> j < length ns \<longrightarrow> unat (ps ! i) + unat (ns ! i) + overhead \<le> unat (ps ! j)"
    using Cons.IH [of s1] by auto
  have later: "used s1 + overhead \<le> unat (ps ! j)" if "j < length ns" for j
    using 2(3,6) that by (simp add: list_all2_conv_all_nth)
  have "list_all2 (\<lambda>p n. used s + overhead \<le> unat p \<and> unat p + unat n \<le> used s2) ps ns"
    using 2(6) 1(4) by (auto elim!: list_all2_mono)
  moreover have "unat ((p # ps) ! i) + unat ((n # ns) ! i) + overhead \<le> unat ((p # ps) ! j)"
    if "i < j" "j < length (n # ns)" for i j
    using that later 2(7) 1(3,4) by (cases i; cases j) auto
  ultimately show ?case using 1 2 by auto
qed

end

section \<open>The tiling invariant\<close>

definition used_block :: "(addr \<Rightarrow> mblock option) \<Rightarrow> addr \<Rightarrow> addr \<Rightarrow> nat \<Rightarrow> bool" where
  "used_block h b nxt e \<longleftrightarrow> b \<noteq> NULL \<and>
     (case h b of None \<Rightarrow> False
      | Some blk \<Rightarrow> mb_magic blk = MBLOCK_MAGIC \<and> mb_hole blk = 0 \<and> mb_addr blk = b + sizeof_mblock \<and>
          mb_next blk = nxt \<and> unat b + 20 + unat (mb_size blk) = e)"

fun tiles :: "(addr \<Rightarrow> mblock option) \<Rightarrow> nat \<Rightarrow> addr list \<Rightarrow> bool" where
  "tiles h e [] \<longleftrightarrow> False"
| "tiles h e [b] \<longleftrightarrow> used_block h b NULL e"
| "tiles h e (b # c # bs) \<longleftrightarrow> used_block h b c (unat c) \<and> tiles h e (c # bs)"

definition mm_wf :: "'a mm_state_scheme \<Rightarrow> bool" where
  "mm_wf s \<longleftrightarrow> (\<exists>bs. tiles (mblocks s) (unat (malloc_top s)) bs \<and> hd bs = root_mblock s \<and>
     last bs = last_block s)"

lemma used_block_le: "used_block h b nxt e \<Longrightarrow> unat b + 20 \<le> e"
  by (auto simp: used_block_def split: option.splits)

lemma tiles_bound: "tiles h e bs \<Longrightarrow> unat (hd bs) + 20 * length bs \<le> e"
  by (induction h e bs rule: tiles.induct) (auto dest: used_block_le)

lemma tiles_members: "tiles h e bs \<Longrightarrow> b \<in> set bs \<Longrightarrow> unat (hd bs) \<le> unat b \<and> unat b + 20 \<le> e"
proof (induction h e bs rule: tiles.induct)
  case (3 h e b' c bs)
  then show ?case using tiles_bound [of h e "c # bs"] used_block_le [of h b' c "unat c"] by auto
qed (auto dest: used_block_le)

lemma tiles_cong: "(\<And>b. b \<in> set bs \<Longrightarrow> h b = h' b) \<Longrightarrow> tiles h e bs = tiles h' e bs"
  by (induction h e bs rule: tiles.induct) (auto simp: used_block_def)

lemma tiles_last: "tiles h e bs \<Longrightarrow> used_block h (last bs) NULL e"
  by (induction h e bs rule: tiles.induct) auto

text \<open>The search finds no hole in a heap of used blocks.\<close>

lemma find_hole_tiles:
  "tiles (mblocks s) e bs \<Longrightarrow> length bs < n \<Longrightarrow> find_hole_loop n (hd bs) sz s = Inr (NULL, s)"
proof (induction "mblocks s" e bs arbitrary: n rule: tiles.induct)
  case (2 e b)
  then obtain k where k: "n = Suc k" "0 < k" by (cases n) auto
  then obtain k' where "k = Suc k'" by (cases k) auto
  with 2 k show ?case by (auto simp: used_block_def split: option.splits)
next
  case (3 e b c bs)
  then obtain k where "n = Suc k" by (cases n) auto
  with 3 show ?case by (auto simp: used_block_def split: option.splits)
qed auto

lemma find_hole_none: "mm_wf s \<Longrightarrow> find_hole sz s = Inr (NULL, s)"
proof -
  assume "mm_wf s"
  then obtain bs where bs: "tiles (mblocks s) (unat (malloc_top s)) bs" "hd bs = root_mblock s"
    by (auto simp: mm_wf_def)
  have "length bs < addr_space"
    using tiles_bound [OF bs(1)] unat_u32_less [of "malloc_top s"] by (simp add: addr_space_def)
  from find_hole_tiles [OF bs(1) this] show ?thesis by (simp add: find_hole_def bs(2))
qed

lemma tiles_snoc:
  assumes "tiles h e bs" "h (last bs) = Some lb" "unat t = e" "e + 20 + unat sz < 2 ^ 32"
  shows "tiles (h(t \<mapsto> new_block t sz, last bs \<mapsto> lb\<lparr>mb_next := t\<rparr>)) (e + 20 + unat sz) (bs @ [t])"
  using assms
proof (induction h e bs rule: tiles.induct)
  case (2 h e b)
  then have "t \<noteq> b" "t \<noteq> 0" by (auto dest: used_block_le)
  with 2 show ?case by (auto simp: used_block_def new_block_def split: option.splits)
next
  case (3 h e b c bs)
  have t: "tiles h e (c # bs)" using 3 by simp
  have "b \<noteq> t" "b \<noteq> last (c # bs)"
    using tiles_members [OF t, of "last (c # bs)"] tiles_bound [OF t] used_block_le [of h b c "unat c"] 3
    by auto
  with 3 show ?case by (simp add: used_block_def)
qed simp

section \<open>Allocation\<close>

definition malloc_room :: "'a mm_state_scheme \<Rightarrow> nat \<Rightarrow> bool" where
  "malloc_room s n \<longleftrightarrow> unat (malloc_top s) + n \<le> unat (heap s)"

definition malloced :: "u32 \<Rightarrow> 'a mm_state_scheme \<Rightarrow> mblock \<Rightarrow> 'a mm_state_scheme" where
  "malloced sz s lb = s\<lparr>
     mblocks := (mblocks s)(malloc_top s \<mapsto> new_block (malloc_top s) sz,
       last_block s \<mapsto> lb\<lparr>mb_next := malloc_top s\<rparr>),
     last_block := malloc_top s, malloc_top := malloc_top s + sizeof_mblock + sz\<rparr>"

text \<open>The state after the expansion, if any, is \<open>s1\<close>; the rest of \<open>malloc\<close> does not depend on it.\<close>

lemma malloc_tail:
  assumes wf: "mm_wf s" and nz: "sz \<noteq> 0"
    and ex: "(if heap s < malloc_top s + sz + sizeof_mblock
        then bindr (expand sz s) (\<lambda>(new_heap, s). Inr (s\<lparr>heap := new_heap\<rparr>)) else Inr s) = Inr s1"
    and keep: "malloc_top s1 = malloc_top s" "last_block s1 = last_block s" "mblocks s1 = mblocks s"
      "root_mblock s1 = root_mblock s"
    and fit: "unat (malloc_top s) + 20 + unat sz < 2 ^ 32"
  shows "\<exists>s'. malloc sz s = Inr (malloc_top s + sizeof_mblock, s') \<and> mm_wf s' \<and>
    unat (malloc_top s') = unat (malloc_top s) + 20 + unat sz \<and> heap s' = heap s1 \<and>
    (\<exists>lb. mblocks s (last_block s) = Some lb \<and> s' = malloced sz s1 lb)"
proof -
  obtain bs where bs: "tiles (mblocks s) (unat (malloc_top s)) bs" "hd bs = root_mblock s"
      "last bs = last_block s"
    using wf by (auto simp: mm_wf_def)
  obtain lb where lb: "mblocks s (last_block s) = Some lb"
    using tiles_last [OF bs(1)] bs(3) by (auto simp: used_block_def split: option.splits)
  have ne: "malloc_top s \<noteq> last_block s"
    using tiles_last [OF bs(1)] bs(3) used_block_le by fastforce
  have top: "unat (malloc_top s + sizeof_mblock + sz) = unat (malloc_top s) + 20 + unat sz"
    using fit by (simp add: sizeof_mblock_def unat_word_ariths)
  let ?s = "malloced sz s1 lb"
  have "malloc sz s = Inr (malloc_top s + sizeof_mblock, ?s)"
    using nz ex find_hole_none [OF wf, of sz] lb ne keep
    by (simp add: malloc_def Let_def malloced_def new_block_def)
  moreover have "tiles (mblocks ?s) (unat (malloc_top ?s)) (bs @ [malloc_top s])"
    using tiles_snoc [OF bs(1), of lb "malloc_top s" sz] lb bs(3) fit top keep
    by (simp add: malloced_def)
  moreover have "hd (bs @ [malloc_top s]) = root_mblock s" using bs by (cases bs) auto
  ultimately have "malloc sz s = Inr (malloc_top s + sizeof_mblock, ?s) \<and> mm_wf ?s"
    unfolding mm_wf_def using keep(1,4) by (auto simp: malloced_def intro!: exI [of _ "bs @ [malloc_top s]"])
  then show ?thesis using lb top keep(1) by (auto simp: malloced_def)
qed

lemma malloc_bump:
  assumes wf: "mm_wf s" and nz: "0 < unat sz" and room: "malloc_room s (20 + unat sz)"
  shows "\<exists>s' lb. malloc sz s = Inr (malloc_top s + sizeof_mblock, s') \<and> mm_wf s' \<and>
    unat (malloc_top s') = unat (malloc_top s) + 20 + unat sz \<and> heap s' = heap s \<and>
    mblocks s (last_block s) = Some lb \<and> s' = malloced sz s lb"
proof -
  have fit: "unat (malloc_top s) + 20 + unat sz < 2 ^ 32"
    using room unat_u32_less [of "heap s"] by (simp add: malloc_room_def)
  then have "unat (malloc_top s + sz + sizeof_mblock) = unat (malloc_top s) + 20 + unat sz"
    by (simp add: sizeof_mblock_def unat_word_ariths)
  then have "\<not> heap s < malloc_top s + sz + sizeof_mblock"
    using room by (simp add: malloc_room_def word_less_nat_alt)
  moreover have "sz \<noteq> 0" using nz by auto
  ultimately show ?thesis using malloc_tail [OF wf, of sz s] fit by auto
qed

text \<open>\<open>malloc\<close> meets the contract of its clients.\<close>

interpretation kmalloc: allocator malloc mm_wf
  "\<lambda>s. unat (malloc_top s)" "\<lambda>s. unat (heap s)" 20
proof
  fix s :: "'a mm_state_scheme" and n :: u32
  assume a: "mm_wf s" "0 < unat n" "unat (malloc_top s) + 20 + unat n \<le> unat (heap s)"
  then have "unat (malloc_top s + sizeof_mblock) = unat (malloc_top s) + 20"
    using unat_u32_less [of "heap s"] by (simp add: sizeof_mblock_def unat_word_ariths)
  then show "\<exists>p s'. malloc n s = Inr (p, s') \<and> mm_wf s' \<and> unat p = unat (malloc_top s) + 20 \<and>
      unat (malloc_top s') = unat (malloc_top s) + 20 + unat n \<and> unat (heap s') = unat (heap s)"
    using malloc_bump [of s n] a by (auto simp: malloc_room_def)
qed

section \<open>Expansion\<close>

lemma frame_get_rec_more: "frame_get_rec n s = Inr (f, s') \<Longrightarrow> frame_state.more s' = frame_state.more s"
proof (induction n arbitrary: s)
  case (Suc n)
  then show ?case
    by (auto simp: bindr_eq_Inr_iff frame_set_def guardr_def split: if_splits option.splits dest!: Suc.IH)
qed simp

lemma page_more_of_frame_more:
  fixes s s' :: "'a page_state_scheme"
  shows "frame_state.more s' = frame_state.more s \<Longrightarrow> page_state.more s' = page_state.more s"
  by (cases s; cases s') simp

lemma mm_fields_of_more:
  fixes s s' :: "'a mm_state_scheme"
  assumes "page_state.more s' = page_state.more s"
  shows "malloc_top s' = malloc_top s" "heap s' = heap s" "root_mblock s' = root_mblock s"
    "last_block s' = last_block s" "mblocks s' = mblocks s"
  using assms by (cases s; cases s'; simp)+

lemma frame_get_page_more:
  fixes s s' :: "'a page_state_scheme"
  shows "frame_get s = Inr (f, s') \<Longrightarrow> page_state.more s' = page_state.more s"
  by (auto simp: frame_get_def dest!: frame_get_rec_more intro: page_more_of_frame_more)

lemma page_map_more: "page_map p v s = Inr s' \<Longrightarrow> page_state.more s' = page_state.more s"
  by (auto simp: page_map_def Let_def bindr_eq_Inr_iff split: if_splits dest!: frame_get_page_more)

lemma map_loop_more: "map_loop n a b s = Inr (r, s') \<Longrightarrow> page_state.more s' = page_state.more s"
proof (induction n arbitrary: a s)
  case (Suc n)
  then show ?case
    by (auto simp: bindr_eq_Inr_iff split: if_splits dest!: Suc.IH page_map_more frame_get_page_more)
qed simp

lemma page_wf_heap [simp]: "page_wf (s\<lparr>heap := h\<rparr>) = page_wf s"
  by (simp add: page_wf_def frame_wf_def frame_in_use_def pde_of_def table_of_def)

lemma page_wf_malloced [simp]: "page_wf (malloced sz s lb) = page_wf s"
  by (simp add: malloced_def page_wf_def frame_wf_def frame_in_use_def pde_of_def table_of_def)

lemma translate_malloced [simp]: "translate (malloced sz s lb) = translate s"
  by (simp add: fun_eq_iff malloced_def translate_def)

lemma malloc_expand:
  assumes wf: "mm_wf s" and pwf: "page_wf s" and nz: "0 < unat sz"
    and full: "\<not> malloc_room s (20 + unat sz)"
    and fit: "unat (malloc_top s) + 20 + unat sz < 2 ^ 32"
    and a: "unat (page_upper s + 0x1000) = 4096 * a"
    and b: "(unat (malloc_top s) + unat sz) div 4096 = b" "b < 1048575"
    and frames: "2 * (b + 1 - a) \<le> card (free_groups s)" "card (free_groups s) \<le> unat (frames_free s)"
  shows "\<exists>s'. malloc sz s = Inr (malloc_top s + sizeof_mblock, s') \<and> mm_wf s' \<and> page_wf s' \<and>
    unat (malloc_top s') = unat (malloc_top s) + 20 + unat sz \<and> unat (heap s') = 4096 * (b + 1) \<and>
    (\<forall>w. in_pages a b w \<longrightarrow> translate s' w \<noteq> None)"
proof -
  let ?l = "malloc_top s + sz"
  have ul: "unat ?l = unat (malloc_top s) + unat sz" using fit by (simp add: unat_word_ariths)
  then have bl: "unat (page_base ?l) = 4096 * b" using b by (simp add: unat_page_base)
  have "b + 1 - a < addr_space" using b(2) by (simp add: addr_space_def)
  from map_loop_maps [OF pwf a bl b(2) this frames] obtain s1 where
      s1: "page_map_until ?l s = Inr (page_base ?l + 0x1000, s1)" "page_wf s1"
      "\<forall>w. in_pages a b w \<longrightarrow> (\<exists>f. frame_behind s1 w = Some f \<and> \<not> frame_in_use s f)"
    unfolding page_map_until_def by blast
  have mapped: "\<forall>w. in_pages a b w \<longrightarrow> translate s1 w \<noteq> None"
    using s1(3) by (auto simp: frame_behind_def)
  have uh: "unat (page_base ?l + 0x1000) = 4096 * (b + 1)"
    using bl b(2) by (simp add: unat_word_ariths)
  have "unat (?l + sizeof_mblock) = unat (malloc_top s) + 20 + unat sz"
    using ul fit by (simp add: sizeof_mblock_def unat_word_ariths)
  then have lt: "heap s < ?l + sizeof_mblock"
    using full by (simp add: malloc_room_def word_less_nat_alt)
  have "page_state.more s1 = page_state.more s"
    using s1(1) map_loop_more unfolding page_map_until_def by blast
  note keep = mm_fields_of_more [OF this]
  let ?s1 = "s1\<lparr>heap := page_base ?l + 0x1000\<rparr>"
  have "sz \<noteq> 0" using nz by auto
  moreover have "(if heap s < malloc_top s + sz + sizeof_mblock
        then bindr (expand sz s) (\<lambda>(new_heap, s). Inr (s\<lparr>heap := new_heap\<rparr>)) else Inr s) = Inr ?s1"
    using lt s1(1) by (simp add: expand_def)
  ultimately obtain s' lb where s': "malloc sz s = Inr (malloc_top s + sizeof_mblock, s')" "mm_wf s'"
      "unat (malloc_top s') = unat (malloc_top s) + 20 + unat sz" "heap s' = heap ?s1"
      "s' = malloced sz ?s1 lb"
    using malloc_tail [OF wf, of sz ?s1] keep fit by auto
  have tr: "translate s' = translate s1" unfolding s'(5) by (simp add: fun_eq_iff translate_def)
  show ?thesis
  proof (intro exI conjI)
    show "malloc sz s = Inr (malloc_top s + sizeof_mblock, s')" "mm_wf s'"
      "unat (malloc_top s') = unat (malloc_top s) + 20 + unat sz" by (fact s')+
    show "unat (heap s') = 4096 * (b + 1)" using s'(4) uh by simp
    show "page_wf s'" unfolding s'(5) by (simp add: s1(2))
    show "\<forall>w. in_pages a b w \<longrightarrow> translate s' w \<noteq> None" unfolding tr by (fact mapped)
  qed
qed

section \<open>Initialisation\<close>

lemma module_loop_max:
  "module_loop n mod_end h =
    (if n = 0 then h else max h (KERNEL_BASE + mod_end - 0x100000))"
proof (induction n arbitrary: h)
  case (Suc n)
  then show ?case by (auto simp: max_def)
qed simp

lemma kernel_map_loop_maps:
  "\<lbrakk>page_wf s; unat p = 4096 * i; unat v = 4096 * j; unat p_max = 4096 * (i + k);
    i + k < 1048576; j + k < 1048576; k < n; k \<le> card (free_groups s);
    card (free_groups s) \<le> unat (frames_free s)\<rbrakk> \<Longrightarrow>
    \<exists>s'. kernel_map_loop n p p_max v s = Inr s' \<and> page_wf s' \<and>
      page_state.more s' = page_state.more s \<and>
      (\<forall>w. unat w < 4096 * j \<longrightarrow> translate s w \<noteq> None \<longrightarrow> translate s' w = translate s w) \<and>
      (\<forall>m < k. translate s' (v + of_nat (4096 * m)) = Some (p + of_nat (4096 * m)))"
proof (induction n arbitrary: s p v i j k)
  case 0
  then show ?case by simp
next
  case (Suc n)
  show ?case
  proof (cases k)
    case 0
    then have "\<not> p < p_max" using Suc.prems by (simp add: word_less_nat_alt)
    then show ?thesis using 0 Suc.prems(1) by simp
  next
    case k: (Suc k')
    then have lt: "p < p_max" using Suc.prems by (simp add: word_less_nat_alt)
    have "free_groups s \<noteq> {}" "frames_free s \<noteq> 0" using Suc.prems(8,9) k by auto
    then have av: "page_available s v" by (simp add: page_available_def)
    from page_map_maps [OF Suc.prems(1) this, of p] obtain s1 where
        m: "page_map p v s = Inr s1" "page_wf s1"
        and tv: "translate s1 v = Some (page_base p OR (v AND 0xFFF))"
        and keep: "\<forall>w. page_base w \<noteq> page_base v \<longrightarrow>
          (table_idx w = table_idx v \<longrightarrow> table_of s (table_idx v) \<noteq> 0) \<longrightarrow> translate s1 w = translate s w"
        and cd: "card (free_groups s) \<le> card (free_groups s1) + 1"
          "card (free_groups s) \<le> unat (frames_free s) \<longrightarrow> card (free_groups s1) \<le> unat (frames_free s1)"
      by (elim exE conjE) rule
    have up: "unat (p + 0x1000) = 4096 * (i + 1)" "unat (v + 0x1000) = 4096 * (j + 1)"
      using Suc.prems(2-6) k by (simp_all add: unat_word_ariths)
    have "unat p_max = 4096 * (i + 1 + k')" "i + 1 + k' < 1048576" "j + 1 + k' < 1048576" "k' < n"
        "k' \<le> card (free_groups s1)"
      using Suc.prems(4-8) k cd(1) by simp_all
    moreover have "card (free_groups s1) \<le> unat (frames_free s1)" using cd(2) Suc.prems(9) by blast
    ultimately obtain s' where
        s': "kernel_map_loop n (p + 0x1000) p_max (v + 0x1000) s1 = Inr s'" "page_wf s'"
        "page_state.more s' = page_state.more s1"
        and k2: "\<forall>w. unat w < 4096 * (j + 1) \<longrightarrow> translate s1 w \<noteq> None \<longrightarrow> translate s' w = translate s1 w"
        and t2: "\<forall>m < k'. translate s' (v + 0x1000 + of_nat (4096 * m)) = Some (p + 0x1000 + of_nat (4096 * m))"
      using Suc.IH [OF m(2) up] by blast
    have "v AND 0xFFF = 0"
    proof -
      have "v AND 0xFFF = take_bit 12 v" by (simp add: take_bit_eq_mask mask_eq_exp_minus_1)
      moreover have "unat (take_bit 12 v) = 0"
        using Suc.prems(3) by (simp add: take_bit_eq_mod unat_mod)
      ultimately show ?thesis by (metis unat_eq_zero)
    qed
    moreover have "page_base p = p" using Suc.prems(2) by (simp add: word_unat_eq_iff unat_page_base)
    ultimately have "translate s1 v = Some p" using tv by simp
    then have tv': "translate s' v = Some p" using k2 Suc.prems(3) by simp
    have "translate s' (v + of_nat (4096 * m)) = Some (p + of_nat (4096 * m))" if "m < k" for m
    proof (cases m)
      case 0
      then show ?thesis using tv' by simp
    next
      case (Suc m')
      then have "translate s' (v + 0x1000 + of_nat (4096 * m')) = Some (p + 0x1000 + of_nat (4096 * m'))"
        using t2 that k by simp
      then show ?thesis by (simp add: Suc algebra_simps)
    qed
    moreover have "translate s' w = translate s w" if "unat w < 4096 * j" "translate s w \<noteq> None" for w
    proof -
      have "page_base w \<noteq> page_base v"
        using that(1) Suc.prems(3) by (auto simp: word_unat_eq_iff unat_page_base)
      moreover have "table_of s (table_idx w) \<noteq> 0"
        using that(2) page_wfD(4) [OF Suc.prems(1) table_idx_less]
        unfolding translate_alt Let_def by (auto split: if_splits)
      ultimately have "translate s1 w = translate s w" using keep by metis
      then show ?thesis using k2 that by simp
    qed
    ultimately show ?thesis
      using s' m(1) lt page_map_more [OF m(1)] by auto
  qed
qed

text \<open>
  What the boot code leaves: an empty frame bitmap, and page tables that lie in the memory the
  kernel reserves, with different entries for different tables.
\<close>

definition boot_tables :: "u32 \<Rightarrow> 'a page_state_scheme \<Rightarrow> bool" where
  "boot_tables e s \<longleftrightarrow> physical_bitmap s = (\<lambda>_. 0) \<and> 0 < unat e \<and> unat (page_base (cr3 s)) < unat e \<and>
     (\<forall>t. unat t < 1024 \<longrightarrow> (bit (pde_of s t) 0 \<longleftrightarrow> table_of s t \<noteq> 0)) \<and>
     (\<forall>t. unat t < 1024 \<longrightarrow> table_of s t \<noteq> 0 \<longrightarrow>
        unat (table_of s t) < unat e \<and> table_of s t \<noteq> page_base (cr3 s)) \<and>
     (\<forall>t u. unat t < 1024 \<longrightarrow> unat u < 1024 \<longrightarrow> table_of s t \<noteq> 0 \<longrightarrow>
        table_of s t = table_of s u \<longrightarrow> t = u)"

lemma reserve_loop_more:
  "reserve_loop n i e s = Inr s' \<Longrightarrow> frame_state.more s' = frame_state.more s"
proof (induction n arbitrary: i s)
  case (Suc n)
  then show ?case
    by (auto simp: bindr_eq_Inr_iff frame_set_address_def Let_def guardr_def split: if_splits
        dest!: Suc.IH)
qed simp

lemma page_fields_of_more:
  fixes s s' :: "'a page_state_scheme"
  assumes "frame_state.more s' = frame_state.more s"
  shows "cr3 s' = cr3 s" "pmem s' = pmem s"
  using assms by (cases s; cases s'; simp)+

lemma frame_setup_page_wf:
  assumes boot: "boot_tables e s" and e: "unat e \<le> 2 ^ 32 - 4096"
    and le: "(unat e + 4095) div 4096 \<le> unat mem_size div 4096"
    and st: "frame_setup mem_size 0 e s = Inr s0"
  shows "page_wf s0" "page_state.more s0 = page_state.more s"
proof -
  obtain s1 where s1: "frame_setup mem_size 0 e s = Inr s1" "frame_wf s1"
      "unat (frames_count s1) = unat mem_size div 4096"
      "free_groups s1 = {((unat e + 4095) div 4096 + 7) div 8 ..< (unat mem_size div 4096 + 7) div 8}"
    using frame_setup_groups [OF e le] boot unfolding boot_tables_def by blast
  then have eq: "s1 = s0" using st by simp
  have more: "frame_state.more s0 = frame_state.more s"
    using st reserve_loop_more unfolding frame_setup_def by fastforce
  then show "page_state.more s0 = page_state.more s" by (rule page_more_of_frame_more)
  have used: "frame_in_use s0 x" if "unat x < unat e" for x
  proof (rule ccontr)
    assume "\<not> frame_in_use s0 x"
    moreover have "x div FRAME_SIZE < frames_count s0"
      using s1(3) eq that le by (simp add: word_less_nat_alt unat_frame_of)
    ultimately have "byte_of (x div FRAME_SIZE) \<in> free_groups s0"
      using frame_in_group by (auto simp: frame_in_use_def)
    then have "((unat e + 4095) div 4096 + 7) div 8 \<le> unat x div 4096 div 8"
      using s1(4) eq by (simp add: byte_of_nat unat_frame_of)
    then show False using that by linarith
  qed
  note same = page_fields_of_more [OF more]
  have tab: "pde_of s0 = pde_of s" "table_of s0 = table_of s"
    by (simp_all add: fun_eq_iff pde_of_def table_of_def same)
  show "page_wf s0"
    unfolding page_wf_def tab same
    using boot s1(2) eq used unfolding boot_tables_def by auto
qed

lemma mm_boots:
  fixes vaddr_end mods_count mod_end mem_upper :: u32
  defines "h \<equiv> module_loop (unat mods_count) mod_end vaddr_end"
  defines "e \<equiv> h - KERNEL_BASE + 0x100000"
  defines "k \<equiv> unat e div 4096 + 1 - 256"
  assumes nz: "vaddr_end \<noteq> 0" and boot: "boot_tables e s"
    and h: "unat KERNEL_BASE \<le> unat h" "unat h < unat KERNEL_LIMIT"
    and mem: "(unat e + 4095) div 4096 \<le> unat (mem_upper * 1024) div 4096"
    and frames: "k \<le> frame_capacity (mem_upper * 1024) e"
  shows "\<exists>s'. mm vaddr_end mods_count mod_end mem_upper s = Inr s' \<and> mm_wf s' \<and> page_wf s' \<and>
    root_mblock s' = h \<and> unat (malloc_top s') = unat h + 21 \<and> heap s' = heap s \<and>
    (\<forall>m < k. translate s' (KERNEL_BASE + of_nat (4096 * m)) = Some (0x100000 + of_nat (4096 * m)))"
proof -
  have ue: "unat e = unat h - 0xC0000000 + 0x100000"
  proof -
    have "unat (h - KERNEL_BASE) = unat h - 0xC0000000"
      using h(1) by (simp add: unat_sub word_le_nat_alt KERNEL_BASE_def)
    then show ?thesis using h(2) by (simp add: e_def unat_word_ariths KERNEL_LIMIT_def)
  qed
  have ele: "unat e \<le> 2 ^ 32 - 4096" using ue h(2) by (simp add: KERNEL_LIMIT_def)
  obtain s0 where s0: "frame_setup (mem_upper * 1024) 0 e s = Inr s0"
      "unat (frames_free s0) = unat (mem_upper * 1024) div 4096 - (unat e + 4095) div 4096"
      "free_groups s0 = {((unat e + 4095) div 4096 + 7) div 8 ..< (unat (mem_upper * 1024) div 4096 + 7) div 8}"
    using frame_setup_groups [OF ele mem] boot unfolding boot_tables_def by blast
  note pwf = frame_setup_page_wf [OF boot ele mem s0(1)]
  have card: "card (free_groups s0) = frame_capacity (mem_upper * 1024) e"
    by (simp add: s0(3) frame_capacity_def)
  have cl: "card (free_groups s0) \<le> unat (frames_free s0)"
    using mem unfolding card s0(2) frame_capacity_def by linarith
  have ue2: "256 \<le> unat e div 4096" "unat e < 0x20200000" using ue h(2) by (simp_all add: KERNEL_LIMIT_def)
  have pm: "unat (page_base e + 0x1000) = 4096 * (256 + k)"
    using ue2 by (simp add: unat_word_ariths unat_page_base k_def)
  have v: "unat (0x100000 :: u32) = 4096 * 256" "unat KERNEL_BASE = 4096 * 0xC0000"
    by (simp_all add: KERNEL_BASE_def)
  have b: "256 + k < 1048576" "0xC0000 + k < 1048576" "k < addr_space" "k \<le> card (free_groups s0)"
    using ue2 frames by (simp_all add: k_def card addr_space_def)
  obtain s1 where s1: "kernel_map_loop addr_space 0x100000 (page_base e + 0x1000) KERNEL_BASE s0 = Inr s1"
      "page_wf s1" "page_state.more s1 = page_state.more s0"
      "\<forall>m < k. translate s1 (KERNEL_BASE + of_nat (4096 * m)) = Some (0x100000 + of_nat (4096 * m))"
    using kernel_map_loop_maps [OF pwf(1) v pm b cl] by blast
  have more: "page_state.more s1 = page_state.more s" using s1(3) pwf(2) by simp
  let ?s = "s1\<lparr>mblocks := (mblocks s1)(h \<mapsto> new_block h 1), root_mblock := h, last_block := h,
      malloc_top := mb_addr (new_block h 1) + mb_size (new_block h 1)\<rparr>"
  have run: "mm vaddr_end mods_count mod_end mem_upper s = Inr ?s"
    using nz s0(1) s1(1) by (simp add: mm_def Let_def h_def [symmetric] e_def [symmetric])
  have top: "unat (malloc_top ?s) = unat h + 21"
    using h(2) by (simp add: new_block_def sizeof_mblock_def unat_word_ariths KERNEL_LIMIT_def)
  have "h \<noteq> 0" using h(1) by (auto simp: KERNEL_BASE_def)
  then have "tiles (mblocks ?s) (unat (malloc_top ?s)) [h]"
    unfolding top by (simp add: used_block_def new_block_def)
  then have wf: "mm_wf ?s" unfolding mm_wf_def by (intro exI [of _ "[h]"]) simp
  have tr: "translate ?s = translate s1" by (simp add: fun_eq_iff translate_def)
  have "page_wf ?s"
    using s1(2) by (simp add: page_wf_def frame_wf_def frame_in_use_def pde_of_def table_of_def)
  moreover have "heap ?s = heap s" using mm_fields_of_more(2) [OF more] by simp
  ultimately show ?thesis using run wf top s1(4) unfolding tr [symmetric] by (intro exI [of _ ?s]) simp
qed

lemma page_crossed: "b * 4096 + r = t \<Longrightarrow> 4096 * (b + 1) < t + 20 \<longleftrightarrow> 4096 < r + 20" for b r t :: nat
  by presburger

section \<open>Properties of the kernel heap\<close>

text \<open>
  C8: while the mapped heap has room, any sequence of requests to \<open>malloc\<close> returns; the
  memory of different requests does not overlap and lies between the old and the new
  \<open>malloc_top\<close>, with room for a block header in front of each.
\<close>

theorem malloc_regions_disjoint:
  assumes "mm_wf s" "list_all (\<lambda>n. 0 < unat n) ns"
    and "unat (malloc_top s) + (\<Sum>n\<leftarrow>ns. 20 + unat n) \<le> unat (heap s)"
  shows "\<exists>ps s'. alloc_all malloc ns s = Inr (ps, s') \<and> mm_wf s' \<and> length ps = length ns \<and>
    unat (malloc_top s') = unat (malloc_top s) + (\<Sum>n\<leftarrow>ns. 20 + unat n) \<and>
    list_all2 (\<lambda>p n. unat (malloc_top s) + 20 \<le> unat p \<and> unat p + unat n \<le> unat (malloc_top s')) ps ns \<and>
    (\<forall>i j. i < j \<longrightarrow> j < length ns \<longrightarrow> unat (ps ! i) + unat (ns ! i) + 20 \<le> unat (ps ! j))"
  using kmalloc.alloc_all_disjoint [OF assms] by blast

text \<open>
  A heap whose root block is at \<open>KERNEL_BASE\<close>, with mapped limit \<open>h\<close>, on a machine with 256
  frames of which 8 are in use and with an empty page directory.
\<close>

definition small_heap :: "u32 \<Rightarrow> mm_state" where
  "small_heap h = \<lparr>frames_count = 256, frame_idx = 0, frames_free = 255,
     physical_bitmap = (\<lambda>_. 0)(0 := 1), cr3 = 0x1000, pmem = \<lambda>_. 0,
     malloc_top = 0xC0000015, heap = h, root_mblock = 0xC0000000, last_block = 0xC0000000,
     mblocks = Map.empty(0xC0000000 \<mapsto> new_block 0xC0000000 1)\<rparr>"

lemma small_heap_wf: "mm_wf (small_heap h)"
  unfolding mm_wf_def
  by (rule exI [of _ "[0xC0000000]"]) (simp add: small_heap_def used_block_def new_block_def)

theorem malloc_regions_disjoint_witness:
  "\<exists>ps s'. alloc_all malloc [16, 32] (small_heap 0xC0001000) = Inr (ps, s') \<and> mm_wf s' \<and> length ps = 2 \<and>
    unat (malloc_top s') = 0xC0000015 + 88 \<and> unat (ps ! 0) + 16 + 20 \<le> unat (ps ! 1)"
proof -
  have "list_all (\<lambda>n :: u32. 0 < unat n) [16, 32]" by simp
  moreover have "unat (malloc_top (small_heap 0xC0001000)) + (\<Sum>n\<leftarrow>[16, 32 :: u32]. 20 + unat n)
      \<le> unat (heap (small_heap 0xC0001000))"
    by (simp add: small_heap_def)
  moreover have "malloc_top (small_heap 0xC0001000) = 0xC0000015" by (simp add: small_heap_def)
  ultimately show ?thesis
    using malloc_regions_disjoint [OF small_heap_wf, of "[16, 32]" "0xC0001000"] by fastforce
qed

text \<open>
  When the heap has no room, \<open>malloc\<close> maps the pages up to that of \<open>malloc_top + size\<close> and
  returns the block behind the old top, the heap's limit moved to the end of the last mapped
  page. The header's 20 bytes are not counted in the request: the new block ends behind that
  limit, in a page that is not mapped, exactly when the last 20 bytes cross it.
\<close>

theorem malloc_expands:
  assumes "mm_wf s" "page_wf s" "0 < unat sz" "\<not> malloc_room s (20 + unat sz)"
    and "unat (malloc_top s) + 20 + unat sz < 2 ^ 32"
    and "unat (page_upper s + 0x1000) = 4096 * a"
    and "(unat (malloc_top s) + unat sz) div 4096 = b" "b < 1048575"
    and "2 * (b + 1 - a) \<le> card (free_groups s)" "card (free_groups s) \<le> unat (frames_free s)"
  shows "\<exists>s'. malloc sz s = Inr (malloc_top s + sizeof_mblock, s') \<and> mm_wf s' \<and> page_wf s' \<and>
    unat (malloc_top s') = unat (malloc_top s) + 20 + unat sz \<and> unat (heap s') = 4096 * (b + 1) \<and>
    (\<forall>w. in_pages a b w \<longrightarrow> translate s' w \<noteq> None) \<and>
    (unat (heap s') < unat (malloc_top s') \<longleftrightarrow> 4096 < (unat (malloc_top s) + unat sz) mod 4096 + 20)"
proof -
  obtain s' where s': "malloc sz s = Inr (malloc_top s + sizeof_mblock, s')" "mm_wf s'" "page_wf s'"
    "unat (malloc_top s') = unat (malloc_top s) + 20 + unat sz" "unat (heap s') = 4096 * (b + 1)"
    "\<forall>w. in_pages a b w \<longrightarrow> translate s' w \<noteq> None"
    using malloc_expand [OF assms] by blast
  moreover have "b * 4096 + (unat (malloc_top s) + unat sz) mod 4096 = unat (malloc_top s) + unat sz"
    using div_mult_mod_eq [of "unat (malloc_top s) + unat sz" 4096] unfolding assms(7) .
  from page_crossed [OF this] have "4096 * (b + 1) < unat (malloc_top s) + 20 + unat sz \<longleftrightarrow>
      4096 < (unat (malloc_top s) + unat sz) mod 4096 + 20"
    by (simp add: add.commute add.left_commute)
  ultimately show ?thesis by auto
qed

text \<open>A request of \<open>0xFEA\<close> bytes on a heap whose top is at offset \<open>0x15\<close>: the block crosses the limit.\<close>

theorem malloc_expands_witness:
  "\<exists>s'. malloc 0xFEA (small_heap 0) = Inr (0xC0000029, s') \<and> mm_wf s' \<and> page_wf s' \<and>
    unat (heap s') = 0xC0001000 \<and> unat (heap s') < unat (malloc_top s')"
proof -
  let ?s = "small_heap 0"
  have pwf: "page_wf ?s"
    unfolding page_wf_def
    by (simp add: frame_wf_def frame_in_use_def byte_of_nat unat_frame_of unat_page_base pde_of_def
        table_of_def small_heap_def page_base_def)
  have up: "page_upper ?s = KERNEL_BASE - 0x1000"
    unfolding page_upper_def
    by (subst page_upper_loop.simps) (simp add: small_heap_def KERNEL_BASE_def KERNEL_LIMIT_def)
  have fg: "free_groups ?s = {1 ..< 32}" by (auto simp: free_groups_def small_heap_def)
  have f: "frames_free ?s = 255" "malloc_top ?s = 0xC0000015" "heap ?s = 0" by (simp_all add: small_heap_def)
  from malloc_expands [OF small_heap_wf pwf, of "0xFEA" "0xC0000" "0xC0000"] show ?thesis
    by (auto simp: f fg up KERNEL_BASE_def malloc_room_def sizeof_mblock_def)
qed


text \<open>A kernel of two pages with 32 MB of memory and no modules, and an empty directory at 4 KB.\<close>

definition boot_state :: mm_state where
  "boot_state = \<lparr>frames_count = 0, frame_idx = 0, frames_free = 0, physical_bitmap = \<lambda>_. 0,
     cr3 = 0x1000, pmem = \<lambda>_. 0, malloc_top = 0, heap = 0, root_mblock = 0, last_block = 0,
     mblocks = Map.empty\<rparr>"


text \<open>
  A hole of exactly the requested size is not recognised as too small to split: the size
  of the remainder wraps around, and the hole left behind claims almost the whole address space.
\<close>

theorem split_exact_hole_wraps:
  assumes "mblocks s b = Some blk" "mb_hole blk \<noteq> 0" "mb_size blk = sz" "mb_addr blk + sz \<noteq> b"
  shows "\<exists>s' hole. split_hole b sz s = Inr (b, s') \<and>
    mblocks s' (mb_addr blk + sz) = Some hole \<and> mb_hole hole = 1 \<and> unat (mb_size hole) = 2 ^ 32 - 20"
  using assms by (simp add: split_hole_def Let_def sizeof_mblock_def word_less_nat_alt unat_word_ariths)

theorem split_exact_hole_wraps_witness:
  "\<exists>s' hole. split_hole 0xC0000000 64
      ((small_heap 0)\<lparr>mblocks := Map.empty(0xC0000000 \<mapsto> (new_block 0xC0000000 64)\<lparr>mb_hole := 1\<rparr>)\<rparr>) =
      Inr (0xC0000000, s') \<and>
    mblocks s' (mb_addr ((new_block 0xC0000000 64)\<lparr>mb_hole := 1\<rparr>) + 64) = Some hole \<and>
    mb_hole hole = 1 \<and> unat (mb_size hole) = 2 ^ 32 - 20"
  by (rule split_exact_hole_wraps) (simp_all add: new_block_def sizeof_mblock_def)

end
