(* ===== verification/CString.thy ===== *)
theory CString
  imports Prelude
begin

text \<open>
  lib/string/*.c over byte memory: strlen, strcpy, strncpy, strcmp, strncmp, memcpy, memset and
  itoa. (strdup and strcat, which allocate, are in the theory Alloc_String.)

  Memory is a function from addresses to bytes. A loop that ends only when it finds a NUL may
  never end: it is run for at most \<open>addr_space\<close> steps, after which it has visited every
  address, and not ending is \<open>Diverge\<close>. \<open>string_at m p xs\<close> says that the C string at \<open>p\<close> is
  \<open>xs\<close>. The lemmas give each routine's result on C strings: the length, the copy together with
  the bytes it leaves alone, equality of strings for a zero comparison, and the digits that
  itoa leaves in its buffer.
\<close>

type_synonym mem = "addr \<Rightarrow> u8"

section \<open>The code\<close>

text \<open>lib/string/strlen.c\<close>

fun strlen_loop :: "nat \<Rightarrow> mem \<Rightarrow> addr \<Rightarrow> u32 \<Rightarrow> u32 result" where
  "strlen_loop 0 m str cnt = Inl Diverge"
| "strlen_loop (Suc n) m str cnt =
     (if m (str + cnt) \<noteq> 0 then strlen_loop n m str (cnt + 1) else Inr cnt)"

definition strlen :: "mem \<Rightarrow> addr \<Rightarrow> u32 result" where
  "strlen m str = strlen_loop addr_space m str 0"

text \<open>Words of 16 and 32 bits in memory, low byte first.\<close>

definition load16 :: "mem \<Rightarrow> addr \<Rightarrow> u16" where
  "load16 m p = ucast (m p) OR push_bit 8 (ucast (m (p + 1)))"

definition load32 :: "mem \<Rightarrow> addr \<Rightarrow> u32" where
  "load32 m p = ucast (m p) OR push_bit 8 (ucast (m (p + 1))) OR push_bit 16 (ucast (m (p + 2))) OR
     push_bit 24 (ucast (m (p + 3)))"

definition store32 :: "mem \<Rightarrow> addr \<Rightarrow> u32 \<Rightarrow> mem" where
  "store32 m p v = m(p := ucast v, p + 1 := ucast (drop_bit 8 v), p + 2 := ucast (drop_bit 16 v), p + 3 := ucast (drop_bit 24 v))"

text \<open>lib/string/memcpy.c: the source comes first. \<open>n\<close> iterations are left.\<close>

fun memcpy_loop :: "nat \<Rightarrow> mem \<Rightarrow> addr \<Rightarrow> addr \<Rightarrow> u32 \<Rightarrow> mem" where
  "memcpy_loop 0 m src dst i = m"
| "memcpy_loop (Suc n) m src dst i = memcpy_loop n (m(dst + i := m (src + i))) src dst (i + 1)"

definition memcpy :: "mem \<Rightarrow> addr \<Rightarrow> addr \<Rightarrow> u32 \<Rightarrow> mem" where
  "memcpy m src dst sz = memcpy_loop (unat sz) m src dst 0"

text \<open>lib/string/memset.c\<close>

fun memset_loop :: "nat \<Rightarrow> mem \<Rightarrow> addr \<Rightarrow> u8 \<Rightarrow> u32 \<Rightarrow> mem" where
  "memset_loop 0 m src v i = m"
| "memset_loop (Suc n) m src v i = memset_loop n (m(src + i := v)) src v (i + 1)"

definition memset :: "mem \<Rightarrow> addr \<Rightarrow> u8 \<Rightarrow> u32 \<Rightarrow> mem" where
  "memset m src v sz = memset_loop (unat sz) m src v 0"

text \<open>lib/string/strcpy.c\<close>

fun strcpy_loop :: "nat \<Rightarrow> mem \<Rightarrow> addr \<Rightarrow> addr \<Rightarrow> u32 \<Rightarrow> mem result" where
  "strcpy_loop 0 m dest source i = Inl Diverge"
| "strcpy_loop (Suc n) m dest source i =
     (let m' = m(dest + i := m (source + i))
      in if m' (dest + i) = 0 then Inr m' else strcpy_loop n m' dest source (i + 1))"

definition strcpy :: "mem \<Rightarrow> addr \<Rightarrow> addr \<Rightarrow> mem result" where
  "strcpy m dest source = strcpy_loop addr_space m dest source 0"

text \<open>lib/string/strncpy.c: \<open>size\<close> and \<open>i\<close> are signed.\<close>

function strncpy_loop :: "mem \<Rightarrow> addr \<Rightarrow> addr \<Rightarrow> int \<Rightarrow> int \<Rightarrow> mem" where
  "strncpy_loop m dest source i sz =
     (let m' = m(dest + of_int i := m (source + of_int i))
      in if m' (dest + of_int i) = 0 then m'
         else if sz \<le> i then m'(dest + of_int i := 0)
         else strncpy_loop m' dest source (i + 1) sz)"
  by pat_completeness auto
termination
  by (relation "measure (\<lambda>(m, dest, source, i, sz). nat (sz - i))") auto

definition strncpy :: "mem \<Rightarrow> addr \<Rightarrow> addr \<Rightarrow> int \<Rightarrow> mem" where
  "strncpy m dest source sz = strncpy_loop m dest source 0 sz"

text \<open>lib/string/strcmp.c: \<open>char\<close> is signed, so the difference is of signed bytes.\<close>

fun strcmp_loop :: "nat \<Rightarrow> mem \<Rightarrow> addr \<Rightarrow> addr \<Rightarrow> int result" where
  "strcmp_loop 0 m c1 c2 = Inl Diverge"
| "strcmp_loop (Suc n) m c1 c2 =
     (if m c1 \<noteq> 0 then
        let i = sint (m c1) - sint (m c2)
        in if i \<noteq> 0 then Inr i else strcmp_loop n m (c1 + 1) (c2 + 1)
      else if m c2 \<noteq> 0 then Inr (- sint (m c2))
      else Inr 0)"

definition strcmp :: "mem \<Rightarrow> addr \<Rightarrow> addr \<Rightarrow> int result" where
  "strcmp m s1 s2 = strcmp_loop addr_space m s1 s2"

text \<open>lib/string/strncmp.c: \<open>n\<close> is the counter of the do-while loop.\<close>

fun strncmp_loop :: "nat \<Rightarrow> mem \<Rightarrow> addr \<Rightarrow> addr \<Rightarrow> int" where
  "strncmp_loop 0 m s1 s2 = 0"
| "strncmp_loop (Suc n) m s1 s2 =
     (if m s1 \<noteq> m s2 then uint (m s1) - uint (m s2)
      else if m s1 = 0 then 0
      else strncmp_loop n m (s1 + 1) (s2 + 1))"

definition strncmp :: "mem \<Rightarrow> addr \<Rightarrow> addr \<Rightarrow> u32 \<Rightarrow> int" where
  "strncmp m s1 s2 n = (if n = 0 then 0 else strncmp_loop (unat n) m s1 s2)"

text \<open>
  lib/string/itoa.c: the digit loop writes the least significant digit first, a NUL follows,
  and the second loop reverses the digits in place. \<open>d\<close> is unsigned, so the test \<open>d < 0\<close> of
  the code is never true.
\<close>

definition divisor :: "bool \<Rightarrow> u32" where
  "divisor hex = (if hex then 16 else 10)"

definition digit_char :: "u32 \<Rightarrow> u8" where
  "digit_char remainder =
     (if remainder < 10 then ucast (remainder + 48) else ucast (remainder + 97 - 10))"

lemma divisor_decreases: "ud div divisor hex \<noteq> 0 \<Longrightarrow> unat (ud div divisor hex) < unat ud"
proof -
  assume "ud div divisor hex \<noteq> 0"
  then have "ud \<noteq> 0" by auto
  then have "0 < unat ud" by (simp add: unat_gt_0)
  then show ?thesis by (cases hex) (simp_all add: divisor_def unat_div)
qed

function itoa_digits :: "mem \<Rightarrow> addr \<Rightarrow> u32 \<Rightarrow> bool \<Rightarrow> mem \<times> addr" where
  "itoa_digits m p ud hex =
     (let m' = m(p := digit_char (ud mod divisor hex));
          ud' = ud div divisor hex
      in if ud' \<noteq> 0 then itoa_digits m' (p + 1) ud' hex else (m', p + 1))"
  by pat_completeness auto
termination
  by (relation "measure (\<lambda>(m, p, ud, hex). unat ud)") (simp_all add: divisor_decreases)

function reverse_bytes :: "mem \<Rightarrow> addr \<Rightarrow> addr \<Rightarrow> mem" where
  "reverse_bytes m p1 p2 =
     (if p1 < p2 then reverse_bytes (m(p1 := m p2, p2 := m p1)) (p1 + 1) (p2 - 1) else m)"
  by pat_completeness auto
termination
proof (relation "measure (\<lambda>(m, p1, p2). unat p2 - unat p1)", goal_cases)
  case 1
  show ?case by simp
next
  case (2 m p1 p2)
  then have "unat p1 < unat p2" by (simp add: word_less_nat_alt)
  moreover from this have "p2 \<noteq> 0" by auto
  then have "unat (p2 - 1) = unat p2 - 1" by (rule unat_minus_1)
  moreover have "unat (p1 + 1) = unat p1 + 1" using 2 by (rule unat_plus_1_less)
  ultimately show ?case by simp
qed

definition itoa :: "mem \<Rightarrow> addr \<Rightarrow> u32 \<Rightarrow> u32 \<Rightarrow> mem" where
  "itoa m buf base d =
     (let (m0, p, buf', ud, hex) =
            (if base = 0x64 \<and> d < 0 then (m(buf := 0x2d), buf + 1, buf + 1, - d, False)
             else (m, buf, buf, d, base = 0x78));
          (m1, p') = itoa_digits m0 p ud hex;
          m2 = m1(p' := 0)
      in reverse_bytes m2 buf' (p' - 1))"

declare strncpy_loop.simps [simp del] itoa_digits.simps [simp del] reverse_bytes.simps [simp del]

section \<open>Words in memory\<close>

lemma word_offsets: "(p :: addr) + 1 \<noteq> p" "p + 2 \<noteq> p" "p + 3 \<noteq> p" "p + 2 \<noteq> p + 1" "p + 3 \<noteq> p + 1" "p + 3 \<noteq> p + 2"
  by simp_all

lemma load32_store32 [simp]: "load32 (store32 m p v) p = v"
proof (rule bit_word_eqI)
  fix n assume "n < LENGTH(32)"
  then have "n \<in> {0 ..< 8} \<or> n \<in> {8 ..< 16} \<or> n \<in> {16 ..< 24} \<or> n \<in> {24 ..< 32}" by auto
  then show "bit (load32 (store32 m p v) p) n = bit v n"
    by (auto simp: load32_def store32_def bit_simps)
qed

lemma store32_other: "a \<notin> {p, p + 1, p + 2, p + 3} \<Longrightarrow> store32 m p v a = m a"
  by (simp add: store32_def)

section \<open>C strings in memory\<close>

fun string_at :: "mem \<Rightarrow> addr \<Rightarrow> u8 list \<Rightarrow> bool" where
  "string_at m p [] \<longleftrightarrow> m p = 0"
| "string_at m p (x # xs) \<longleftrightarrow> x \<noteq> 0 \<and> m p = x \<and> string_at m (p + 1) xs"

fun bytes_at :: "mem \<Rightarrow> addr \<Rightarrow> u8 list \<Rightarrow> bool" where
  "bytes_at m p [] \<longleftrightarrow> True"
| "bytes_at m p (x # xs) \<longleftrightarrow> m p = x \<and> bytes_at m (p + 1) xs"

lemma addr_shift: "p + 1 + of_nat i = p + of_nat (Suc i)" for p :: addr
  by (simp add: algebra_simps)

lemma string_at_iff:
  "string_at m p xs \<longleftrightarrow>
    (\<forall>i < length xs. xs ! i \<noteq> 0 \<and> m (p + of_nat i) = xs ! i) \<and> m (p + of_nat (length xs)) = 0"
proof (induction xs arbitrary: p)
  case Nil
  then show ?case by simp
next
  case (Cons x xs)
  show ?case unfolding string_at.simps Cons.IH addr_shift
    by (auto simp: All_less_Suc2 nth_Cons' less_Suc_eq_0_disj simp del: of_nat_Suc)
qed

lemma bytes_at_iff:
  "bytes_at m p xs \<longleftrightarrow> (\<forall>i < length xs. m (p + of_nat i) = xs ! i)"
proof (induction xs arbitrary: p)
  case Nil
  then show ?case by simp
next
  case (Cons x xs)
  show ?case unfolding bytes_at.simps Cons.IH addr_shift
    by (auto simp: All_less_Suc2 nth_Cons' less_Suc_eq_0_disj simp del: of_nat_Suc)
qed

lemma of_nat_addr_mod: "(of_nat (n mod 2 ^ 32) :: addr) = of_nat n"
  by (rule word_unat_eq_iff [THEN iffD2]) (simp add: unat_of_nat)

text \<open>A C string is shorter than the address space.\<close>

lemma string_at_length:
  assumes "string_at m p xs"
  shows "length xs < 2 ^ 32"
proof (rule ccontr)
  assume "\<not> length xs < 2 ^ 32"
  then have "length xs mod 2 ^ 32 < length xs"
    by (intro order_less_le_trans [OF mod_less_divisor]) auto
  with assms have "m (p + of_nat (length xs mod 2 ^ 32)) \<noteq> 0"
    unfolding string_at_iff by metis
  moreover have "m (p + of_nat (length xs)) = 0" using assms unfolding string_at_iff by blast
  ultimately show False unfolding of_nat_addr_mod by simp
qed

text \<open>The C string at an address is unique.\<close>

lemma string_at_unique:
  "string_at m p xs \<Longrightarrow> string_at m p ys \<Longrightarrow> xs = ys"
proof (induction xs arbitrary: p ys)
  case Nil
  then show ?case by (cases ys) auto
next
  case (Cons x xs)
  then show ?case by (cases ys) auto
qed

section \<open>Regions of memory\<close>

text \<open>
  \<open>fits p n\<close>: the \<open>n\<close> bytes from \<open>p\<close> end before the address space does. \<open>apart p n q k\<close>: the
  \<open>n\<close> bytes from \<open>p\<close> and the \<open>k\<close> bytes from \<open>q\<close> do not overlap.
\<close>

definition fits :: "addr \<Rightarrow> nat \<Rightarrow> bool" where
  "fits p n \<longleftrightarrow> unat p + n < 2 ^ 32"

definition apart :: "addr \<Rightarrow> nat \<Rightarrow> addr \<Rightarrow> nat \<Rightarrow> bool" where
  "apart p n q k \<longleftrightarrow> unat p + n \<le> unat q \<or> unat q + k \<le> unat p"

definition within :: "addr \<Rightarrow> nat \<Rightarrow> addr \<Rightarrow> bool" where
  "within p n a \<longleftrightarrow> unat p \<le> unat a \<and> unat a < unat p + n"

lemma within_0 [simp]: "\<not> within p 0 a"
  by (simp add: within_def)

lemma unat_offset:
  assumes "fits p n" "i \<le> n"
  shows "unat (p + of_nat i) = unat p + i"
proof -
  have i: "i < 2 ^ 32" and s: "unat p + i < 2 ^ 32" using assms by (auto simp: fits_def)
  have "unat (p + of_nat i) = (unat p + unat (of_nat i :: addr)) mod 2 ^ 32"
    by (simp add: unat_word_ariths)
  also have "unat (of_nat i :: addr) = i" using i by (simp add: unat_of_nat)
  finally show ?thesis using s by simp
qed

lemma unat_next: "fits p (Suc n) \<Longrightarrow> unat (p + 1) = unat p + 1"
  using unat_offset [of p "Suc n" 1] by simp

lemma fits_next: "fits p (Suc n) \<Longrightarrow> fits (p + 1) n"
  by (simp add: fits_def unat_next [unfolded fits_def])

lemma fits_mono: "fits p n \<Longrightarrow> k \<le> n \<Longrightarrow> fits p k"
  by (simp add: fits_def)

lemma within_Suc:
  "fits p (Suc n) \<Longrightarrow> within p (Suc n) a \<longleftrightarrow> a = p \<or> within (p + 1) n a"
  using unat_next [of p n] by (auto simp: within_def word_unat_eq_iff)

lemma not_within_start: "fits p (Suc n) \<Longrightarrow> \<not> within (p + 1) n p"
  using unat_next [of p n] by (auto simp: within_def)

lemma apart_next:
  "\<lbrakk>apart p (Suc n) q (Suc k); fits p (Suc n); fits q (Suc k)\<rbrakk> \<Longrightarrow> apart (p + 1) n (q + 1) k"
  using unat_next [of p n] unat_next [of q k] by (auto simp: apart_def)

lemma apart_not_within:
  "\<lbrakk>apart p n q k; within q k a\<rbrakk> \<Longrightarrow> \<not> within p n a"
  by (auto simp: apart_def within_def)

lemma within_offset: "\<lbrakk>fits p n; i < n\<rbrakk> \<Longrightarrow> within p n (p + of_nat i)"
  by (simp add: within_def unat_offset [of p n i])

lemma string_at_cong:
  "\<lbrakk>fits p (length xs + 1); \<And>a. within p (length xs + 1) a \<Longrightarrow> m a = m' a\<rbrakk> \<Longrightarrow>
    string_at m p xs = string_at m' p xs"
proof (induction xs arbitrary: p)
  case Nil
  then show ?case by (simp add: within_def)
next
  case (Cons x xs)
  then have "m p = m' p" by (simp add: within_def)
  moreover have "string_at m (p + 1) xs = string_at m' (p + 1) xs"
    using Cons.prems Cons.IH [of "p + 1"] fits_next [of p "length xs + 1"]
    by (auto simp: within_Suc)
  ultimately show ?case by simp
qed

section \<open>Lengths and copies\<close>

lemma strlen_loop_string:
  "string_at m (str + c) xs \<Longrightarrow> length xs < n \<Longrightarrow>
    strlen_loop n m str c = Inr (c + of_nat (length xs))"
proof (induction xs arbitrary: c n)
  case Nil
  then show ?case by (cases n) auto
next
  case (Cons x xs)
  then obtain k where n: "n = Suc k" by (cases n) auto
  have "string_at m (str + (c + 1)) xs" using Cons.prems by (simp add: add.assoc)
  with Cons n have "strlen_loop k m str (c + 1) = Inr (c + 1 + of_nat (length xs))" by simp
  with Cons.prems n show ?case by (simp add: algebra_simps)
qed

lemma strlen_string: "string_at m p xs \<Longrightarrow> strlen m p = Inr (of_nat (length xs))"
  using strlen_loop_string [of m p 0 xs addr_space] string_at_length [of m p xs]
  by (simp add: strlen_def addr_space_def)

text \<open>A copy between regions that do not overlap: what it writes and what it leaves.\<close>

lemma memcpy_loop_apart:
  "\<lbrakk>src + i = s; dst + i = d; fits s n; fits d n; apart s n d n\<rbrakk> \<Longrightarrow>
    memcpy_loop n m src dst i a = (if within d n a then m (s + (a - d)) else m a)"
proof (induction n arbitrary: m i s d)
  case 0
  then show ?case by simp
next
  case (Suc n)
  let ?m = "m(d := m s)"
  have nx: "src + (i + 1) = s + 1" "dst + (i + 1) = d + 1" using Suc.prems by (auto simp: algebra_simps)
  have IH: "memcpy_loop n ?m src dst (i + 1) a =
      (if within (d + 1) n a then ?m (s + 1 + (a - (d + 1))) else ?m a)"
    using Suc.IH [OF nx, of ?m] Suc.prems(3-5) fits_next apart_next by blast
  have "s + 1 + (a - (d + 1)) = s + (a - d)" by simp
  moreover have "s + (a - d) \<noteq> d" if "within (d + 1) n a"
  proof
    assume eq: "s + (a - d) = d"
    have "within d (Suc n) a" using that Suc.prems by (simp add: within_Suc)
    then have "unat (a - d) < Suc n" by (auto simp: within_def unat_sub word_le_nat_alt)
    then have "within s (Suc n) (s + of_nat (unat (a - d)))"
      using Suc.prems by (intro within_offset)
    then have "within s (Suc n) d" using eq by simp
    moreover have "within d (Suc n) d" by (simp add: within_def)
    ultimately show False using Suc.prems(5) apart_not_within by blast
  qed
  ultimately have "memcpy_loop n ?m src dst (i + 1) a =
      (if within (d + 1) n a then m (s + (a - d)) else ?m a)"
    using IH by auto
  with Suc.prems show ?case by (auto simp: within_Suc not_within_start)
qed

lemma memcpy_apart:
  assumes "fits src (unat sz)" "fits dst (unat sz)" "apart src (unat sz) dst (unat sz)"
  shows "memcpy m src dst sz a =
    (if within dst (unat sz) a then m (src + (a - dst)) else m a)"
  using assms memcpy_loop_apart [of src 0 src dst dst "unat sz" m a] by (simp add: memcpy_def)

lemma memset_loop_eq:
  "\<lbrakk>src + i = s; fits s n\<rbrakk> \<Longrightarrow>
    memset_loop n m src v i a = (if within s n a then v else m a)"
proof (induction n arbitrary: m i s)
  case 0
  then show ?case by simp
next
  case (Suc n)
  have "src + (i + 1) = s + 1" using Suc.prems by (auto simp: algebra_simps)
  then have "memset_loop n (m(s := v)) src v (i + 1) a =
      (if within (s + 1) n a then v else (m(s := v)) a)"
    using Suc.prems fits_next by (intro Suc.IH) auto
  with Suc.prems show ?case by (auto simp: within_Suc)
qed

lemma memset_eq:
  "fits p (unat sz) \<Longrightarrow> memset m p v sz a = (if within p (unat sz) a then v else m a)"
  using memset_loop_eq [of p 0 p "unat sz" m v a] by (simp add: memset_def)

text \<open>A byte written at the destination leaves the rest of the source alone.\<close>

lemma copy_keeps_source:
  assumes "string_at m (s + 1) xs" "fits s (length xs + 2)"
    and "apart s (length xs + 2) d (length xs + 2)"
  shows "string_at (m(d := v)) (s + 1) xs"
proof -
  have "a \<noteq> d" if "within (s + 1) (length xs + 1) a" for a
  proof
    assume "a = d"
    with that assms(2) have "within s (length xs + 2) d" by (simp add: within_Suc)
    moreover have "within d (length xs + 2) d" by (simp add: within_def)
    ultimately show False using assms(3) apart_not_within by blast
  qed
  moreover have "fits (s + 1) (length xs + 1)" using assms(2) fits_next [of s "length xs + 1"] by simp
  ultimately show ?thesis using assms(1) by (subst string_at_cong [where m' = m]) auto
qed

text \<open>\<open>strcpy\<close> of a C string is \<open>memcpy\<close> of its bytes and the NUL.\<close>

lemma strcpy_loop_memcpy:
  "\<lbrakk>source + i = s; dest + i = d; string_at m s xs; length xs < n;
    fits s (length xs + 1); fits d (length xs + 1); apart s (length xs + 1) d (length xs + 1)\<rbrakk> \<Longrightarrow>
    strcpy_loop n m dest source i = Inr (memcpy_loop (length xs + 1) m source dest i)"
proof (induction xs arbitrary: m i s d n)
  case Nil
  then obtain k where "n = Suc k" by (cases n) auto
  with Nil show ?case by (simp add: Let_def fun_upd_def)
next
  case (Cons x xs)
  let ?m = "m(d := m s)"
  obtain k where n: "n = Suc k" using Cons.prems by (cases n) auto
  have nx: "source + (i + 1) = s + 1" "dest + (i + 1) = d + 1" using Cons.prems by (auto simp: algebra_simps)
  have f: "fits (s + 1) (length xs + 1)" "fits (d + 1) (length xs + 1)"
      "apart (s + 1) (length xs + 1) (d + 1) (length xs + 1)"
    using Cons.prems fits_next [of s "length xs + 1"] fits_next [of d "length xs + 1"]
      apart_next [of s "length xs + 1" d "length xs + 1"] by simp_all
  have "string_at ?m (s + 1) xs"
    using Cons.prems by (intro copy_keeps_source) auto
  then have "strcpy_loop k ?m dest source (i + 1) =
      Inr (memcpy_loop (length xs + 1) ?m source dest (i + 1))"
    using Cons.prems f n by (intro Cons.IH [OF nx]) (auto simp: fun_upd_def)
  with Cons.prems n show ?case by (simp only: strcpy_loop.simps Let_def) simp
qed

lemma strcpy_string:
  assumes "string_at m source xs" "fits source (length xs + 1)" "fits dest (length xs + 1)"
    and "apart source (length xs + 1) dest (length xs + 1)"
  shows "\<exists>m'. strcpy m dest source = Inr m' \<and> string_at m' dest xs \<and>
    (\<forall>a. \<not> within dest (length xs + 1) a \<longrightarrow> m' a = m a)"
proof -
  let ?m = "memcpy_loop (length xs + 1) m source dest 0"
  have eq: "?m a = (if within dest (length xs + 1) a then m (source + (a - dest)) else m a)" for a
    using assms memcpy_loop_apart [of source 0 source dest dest "length xs + 1" m a] by simp
  have "?m (dest + of_nat i) = m (source + of_nat i)" if "i < length xs + 1" for i
    unfolding eq using within_offset [OF assms(3) that] by simp
  then have "string_at ?m dest xs" using assms(1) by (auto simp: string_at_iff)
  moreover have "strcpy m dest source = Inr ?m"
    using assms strcpy_loop_memcpy [of source 0 source dest dest m xs addr_space]
      string_at_length [OF assms(1)] by (simp add: strcpy_def addr_space_def)
  ultimately show ?thesis using eq by auto
qed

section \<open>Comparison\<close>

text \<open>The comparison of two strings: the difference of the first signed bytes that differ.\<close>

fun cmp_spec :: "u8 list \<Rightarrow> u8 list \<Rightarrow> int" where
  "cmp_spec [] [] = 0"
| "cmp_spec [] (y # ys) = - sint y"
| "cmp_spec (x # xs) [] = sint x"
| "cmp_spec (x # xs) (y # ys) = (if x = y then cmp_spec xs ys else sint x - sint y)"

lemma sint_inject: "sint x = sint y \<longleftrightarrow> x = y" for x y :: "'a::len word"
  by (auto intro: signed_word_eqI)

lemma sint_eq_0: "sint x = 0 \<longleftrightarrow> x = 0" for x :: "'a::len word"
  using sint_inject [of x 0] by simp

lemma strcmp_loop_spec:
  "\<lbrakk>string_at m p xs; string_at m q ys; length xs < n\<rbrakk> \<Longrightarrow>
    strcmp_loop n m p q = Inr (cmp_spec xs ys)"
proof (induction xs ys arbitrary: p q n rule: cmp_spec.induct)
  case (4 x xs y ys)
  then obtain k where "n = Suc k" by (cases n) auto
  with 4 show ?case by (auto simp: Let_def sint_inject)
next
  case (3 x xs)
  then obtain k where "n = Suc k" by (cases n) auto
  with 3 show ?case by (auto simp: Let_def sint_eq_0)
qed (case_tac n; simp)+

lemma strcmp_spec:
  "\<lbrakk>string_at m p xs; string_at m q ys\<rbrakk> \<Longrightarrow> strcmp m p q = Inr (cmp_spec xs ys)"
  using strcmp_loop_spec [of m p xs q ys addr_space] string_at_length [of m p xs]
  by (simp add: strcmp_def addr_space_def)

lemma cmp_spec_eq_0:
  "\<lbrakk>0 \<notin> set xs; 0 \<notin> set ys\<rbrakk> \<Longrightarrow> cmp_spec xs ys = 0 \<longleftrightarrow> xs = ys"
  by (induction xs ys rule: cmp_spec.induct) (auto simp: sint_inject sint_eq_0)

lemma string_at_nonzero: "string_at m p xs \<Longrightarrow> 0 \<notin> set xs"
  by (induction xs arbitrary: p) auto

lemma strncmp_loop_take:
  "\<lbrakk>string_at m p xs; string_at m q ys\<rbrakk> \<Longrightarrow>
    strncmp_loop n m p q = 0 \<longleftrightarrow> take n xs = take n ys"
proof (induction n arbitrary: p q xs ys)
  case 0
  then show ?case by simp
next
  case (Suc n)
  then show ?case
    by (cases xs; cases ys) (auto simp: word_uint_eq_iff)
qed

section \<open>Bounded copy\<close>

text \<open>
  \<open>strncpy\<close> copies the first \<open>k\<close> bytes, \<open>k\<close> the smaller of the string's length and \<open>size\<close>, and
  puts a NUL behind them: when the string is not shorter than \<open>size\<close>, that NUL is byte
  number \<open>size\<close>, one past the \<open>size\<close> bytes of the destination.
\<close>

lemma strncpy_loop_eq:
  "\<lbrakk>source + of_int i = s; dest + of_int i = d; string_at m s xs; i \<le> sz;
    fits s (length xs + 1); fits d (length xs + 1); apart s (length xs + 1) d (length xs + 1);
    k = min (length xs) (nat (sz - i))\<rbrakk> \<Longrightarrow>
    strncpy_loop m dest source i sz =
      (memcpy_loop k m source dest (of_int i))(d + of_nat k := 0)"
proof (induction xs arbitrary: m i s d k)
  case Nil
  then show ?case by (subst strncpy_loop.simps) (auto simp: Let_def fun_eq_iff)
next
  case (Cons x xs)
  let ?m = "m(d := m s)"
  have f: "fits (s + 1) (length xs + 1)" "fits (d + 1) (length xs + 1)"
      "apart (s + 1) (length xs + 1) (d + 1) (length xs + 1)"
    using Cons.prems fits_next [of s "length xs + 1"] fits_next [of d "length xs + 1"]
      apart_next [of s "length xs + 1" d "length xs + 1"] by simp_all
  have x: "m s \<noteq> 0" using Cons.prems by auto
  show ?case
  proof (cases "sz \<le> i")
    case True
    then have "k = 0" using Cons.prems by simp
    with True x Cons.prems show ?thesis
      by (subst strncpy_loop.simps) (auto simp: Let_def fun_eq_iff)
  next
    case False
    define k' where "k' = min (length xs) (nat (sz - (i + 1)))"
    have k: "k = Suc k'" using False Cons.prems by (auto simp: k'_def min_def)
    have nx: "source + of_int (i + 1) = s + 1" "dest + of_int (i + 1) = d + 1"
      using Cons.prems by (auto simp: algebra_simps)
    have "string_at ?m (s + 1) xs"
      using Cons.prems by (intro copy_keeps_source) auto
    then have "strncpy_loop ?m dest source (i + 1) sz =
        (memcpy_loop k' ?m source dest (of_int (i + 1)))(d + 1 + of_nat k' := 0)"
      using Cons.prems f False k'_def by (intro Cons.IH [OF nx]) (auto simp: fun_upd_def)
    moreover have "d + 1 + of_nat k' = d + of_nat k" by (simp add: k algebra_simps)
    moreover have "memcpy_loop k m source dest (of_int i) =
        memcpy_loop k' ?m source dest (of_int (i + 1))"
      unfolding k using Cons.prems(1,2) by (simp add: algebra_simps)
    ultimately show ?thesis using False x Cons.prems(1,2)
      by (subst strncpy_loop.simps) (auto simp: Let_def fun_upd_def)
  qed
qed

lemma strncpy_string:
  assumes "string_at m source xs" "0 \<le> sz" "fits source (length xs + 1)"
    and "fits dest (length xs + 1)" "apart source (length xs + 1) dest (length xs + 1)"
  defines "k \<equiv> min (length xs) (nat sz)"
  shows "string_at (strncpy m dest source sz) dest (take k xs)"
    and "\<And>a. \<not> within dest (k + 1) a \<Longrightarrow> strncpy m dest source sz a = m a"
proof -
  let ?m = "memcpy_loop k m source dest 0"
  have eq: "strncpy m dest source sz = ?m(dest + of_nat k := 0)"
    using assms strncpy_loop_eq [of source 0 source dest dest m xs sz k] by (simp add: strncpy_def)
  have fit: "fits source k" "fits dest k" "apart source k dest k" "fits dest (k + 1)"
    using assms by (auto simp: fits_def apart_def)
  have cp: "?m a = (if within dest k a then m (source + (a - dest)) else m a)" for a
    using fit memcpy_loop_apart [of source 0 source dest dest k m a] by simp
  have neq: "dest + of_nat i \<noteq> dest + of_nat k" if "i < k" for i
    using that unat_offset [OF fit(4), of i] unat_offset [OF fit(4), of k] by auto
  have "k \<le> length xs" by (simp add: k_def)
  moreover have "?m (dest + of_nat i) = xs ! i" "xs ! i \<noteq> 0" if "i < k" for i
    using that calculation assms(1) within_offset [OF fit(2) that] by (auto simp: cp string_at_iff)
  ultimately show "string_at (strncpy m dest source sz) dest (take k xs)"
    using neq unfolding eq string_at_iff by (simp add: fun_upd_apply min_absorb2)
  show "strncpy m dest source sz a = m a" if "\<not> within dest (k + 1) a" for a
    using that unat_offset [OF fit(4), of k] unfolding eq cp fun_upd_apply
    by (auto simp: within_def)
qed

section \<open>Numbers in text\<close>

text \<open>
  The digits of a number, least significant first, and the value digits stand for.
\<close>

function digits_of :: "nat \<Rightarrow> nat \<Rightarrow> nat list" where
  "digits_of b n = (n mod b) # (if b < 2 \<or> n div b = 0 then [] else digits_of b (n div b))"
  by pat_completeness auto
termination
proof (relation "measure snd", goal_cases)
  case (2 b n)
  then have "0 < n" by (intro gr0I) auto
  with 2 show ?case by simp
qed simp

declare digits_of.simps [simp del]

fun value_of :: "nat \<Rightarrow> nat list \<Rightarrow> nat" where
  "value_of b [] = 0"
| "value_of b (d # ds) = d + b * value_of b ds"

lemma value_of_digits: "2 \<le> b \<Longrightarrow> value_of b (digits_of b n) = n"
proof (induction b n rule: digits_of.induct)
  case (1 b n)
  then show ?case using div_mult_mod_eq [of n b]
    by (cases "n div b = 0") (simp_all add: digits_of.simps [of b n] algebra_simps)
qed

lemma digits_of_less: "2 \<le> b \<Longrightarrow> d \<in> set (digits_of b n) \<Longrightarrow> d < b"
proof (induction b n rule: digits_of.induct)
  case (1 b n)
  then show ?case by (cases "n div b = 0") (auto simp: digits_of.simps [of b n])
qed

lemma digits_of_neq_Nil [simp]: "digits_of b n \<noteq> []"
  by (subst digits_of.simps) simp

lemma digits_of_length: "2 \<le> b \<Longrightarrow> n < b ^ Suc k \<Longrightarrow> length (digits_of b n) \<le> Suc k"
proof (induction k arbitrary: n)
  case 0
  then show ?case by (simp add: digits_of.simps)
next
  case (Suc k)
  then have "n div b < b ^ Suc k" by (simp add: less_mult_imp_div_less mult.commute)
  with Suc have "length (digits_of b (n div b)) \<le> Suc k" by simp
  then show ?case by (subst digits_of.simps) simp
qed

definition digit_text :: "nat \<Rightarrow> u8" where
  "digit_text d = of_nat (if d < 10 then 48 + d else 87 + d)"

lemma unat_digit_text: "d < 16 \<Longrightarrow> unat (digit_text d) = (if d < 10 then 48 + d else 87 + d)"
  by (simp add: digit_text_def unat_of_nat del: of_nat_add)

lemma digit_text_neq_0: "d < 16 \<Longrightarrow> digit_text d \<noteq> 0"
  using unat_digit_text [of d] by (auto split: if_splits)

lemma digit_char_text: "unat r < 16 \<Longrightarrow> digit_char r = digit_text (unat r)"
  by (rule word_unat_eq_iff [THEN iffD2], subst unat_digit_text)
    (auto simp: digit_char_def word_less_nat_alt unsigned_ucast_eq take_bit_eq_mod unat_word_ariths)

lemma itoa_digits_eq:
  assumes "fits p (length (digits_of (unat (divisor hex)) (unat ud)))"
  shows "itoa_digits m p ud hex =
    (\<lambda>a. if within p (length (digits_of (unat (divisor hex)) (unat ud))) a
         then digit_text (digits_of (unat (divisor hex)) (unat ud) ! (unat a - unat p)) else m a,
     p + of_nat (length (digits_of (unat (divisor hex)) (unat ud))))"
  using assms
proof (induction m p ud hex rule: itoa_digits.induct)
  case (1 m p ud hex)
  let ?b = "unat (divisor hex)" and ?ud = "ud div divisor hex"
  let ?ds = "digits_of ?b (unat ud)" and ?ds' = "digits_of ?b (unat ?ud)"
  let ?m = "m(p := digit_char (ud mod divisor hex))"
  have b: "2 \<le> ?b" "?b \<le> 16" by (auto simp: divisor_def)
  have "unat (ud mod divisor hex) < 16"
    using b mod_less_divisor [of ?b "unat ud"] unfolding unat_mod by linarith
  then have dc: "digit_char (ud mod divisor hex) = digit_text (unat ud mod ?b)"
    by (simp add: digit_char_text unat_mod)
  show ?case
  proof (cases "?ud = 0")
    case True
    then have "unat ud div ?b = 0" by (metis unat_div unsigned_0)
    then have "?ds = [unat ud mod ?b]" by (simp add: digits_of.simps)
    with True 1(2) show ?thesis
      by (subst itoa_digits.simps) (auto simp: Let_def dc fun_eq_iff within_Suc)
  next
    case False
    then have ne: "unat ud div ?b \<noteq> 0" by (metis unat_div unsigned_0 unsigned_word_eqI)
    then have ds: "?ds = (unat ud mod ?b) # ?ds'" using b by (subst digits_of.simps) (simp add: unat_div)
    have f: "fits (p + 1) (length ?ds')" using 1(2) fits_next unfolding ds by simp
    have IH: "itoa_digits ?m (p + 1) ?ud hex = (\<lambda>a. if within (p + 1) (length ?ds') a
         then digit_text (?ds' ! (unat a - unat (p + 1))) else ?m a, p + 1 + of_nat (length ?ds'))"
      using 1(1) [OF refl refl False f] by (simp add: fun_upd_def)
    have fp: "fits p (Suc (length ?ds'))" using 1(2) unfolding ds by simp
    have "itoa_digits m p ud hex = itoa_digits ?m (p + 1) ?ud hex"
      using False by (subst itoa_digits.simps) (simp add: Let_def)
    then show ?thesis unfolding IH ds using unat_next [OF fp]
      by (auto simp: fun_eq_iff within_Suc [OF fp] not_within_start [OF fp] dc nth_Cons' within_def word_unat_eq_iff add.assoc)
  qed
qed

lemma reverse_bytes_eq:
  "unat p1 \<le> unat p2 + 1 \<Longrightarrow> reverse_bytes m p1 p2 =
    (\<lambda>a. if p1 \<le> a \<and> a \<le> p2 then m (p1 + p2 - a) else m a)"
proof (induction m p1 p2 rule: reverse_bytes.induct)
  case (1 m p1 p2)
  show ?case
  proof (cases "p1 < p2")
    case False
    then have "p1 = p2 \<or> p2 < p1" by auto
    then show ?thesis using False
      by (subst reverse_bytes.simps) (auto simp: fun_eq_iff)
  next
    case True
    have n: "unat (p1 + 1) = unat p1 + 1" using True by (rule unat_plus_1_less)
    have "p2 \<noteq> 0" using True by auto
    then have n2: "unat (p2 - 1) = unat p2 - 1" by (rule unat_minus_1)
    have lt: "unat p1 < unat p2" using True by (simp add: word_less_nat_alt)
    have IH: "reverse_bytes (m(p1 := m p2, p2 := m p1)) (p1 + 1) (p2 - 1) =
       (\<lambda>a. if p1 + 1 \<le> a \<and> a \<le> p2 - 1 then (m(p1 := m p2, p2 := m p1)) (p1 + 1 + (p2 - 1) - a)
         else (m(p1 := m p2, p2 := m p1)) a)"
      using 1(1) [OF True] n n2 lt by (simp add: fun_upd_def)
    have "p1 + p2 - a \<noteq> p1 \<and> p1 + p2 - a \<noteq> p2" if "p1 + 1 \<le> a" "a \<le> p2 - 1" for a
      using that n n2 lt by (auto simp: word_le_nat_alt)
    moreover have "p1 + 1 \<le> a \<and> a \<le> p2 - 1 \<longleftrightarrow> p1 \<le> a \<and> a \<le> p2 \<and> a \<noteq> p1 \<and> a \<noteq> p2" for a
      using n n2 lt by (auto simp: word_le_nat_alt word_unat_eq_iff)
    moreover have "p1 \<le> p2" using True by simp
    ultimately show ?thesis using True
      by (subst reverse_bytes.simps) (auto simp: IH fun_eq_iff fun_upd_apply)
  qed
qed

definition itoa_radix :: "u32 \<Rightarrow> nat" where
  "itoa_radix base = (if base = 0x78 then 16 else 10)"

definition itoa_text :: "u32 \<Rightarrow> u32 \<Rightarrow> u8 list" where
  "itoa_text base d = rev (map digit_text (digits_of (itoa_radix base) (unat d)))"

lemma itoa_text_neq_0: "0 \<notin> set (itoa_text base d)"
proof -
  have "2 \<le> itoa_radix base" "itoa_radix base \<le> 16" by (auto simp: itoa_radix_def)
  then have "c < 16" if "c \<in> set (digits_of (itoa_radix base) (unat d))" for c
    using digits_of_less [OF _ that] by linarith
  then show ?thesis using digit_text_neq_0 by (fastforce simp: itoa_text_def)
qed

lemma itoa_text_length: "length (itoa_text base d) \<le> 10"
proof -
  have "unat d < 2 ^ LENGTH(32)" by (rule unsigned_less)
  then have "unat d < 16 ^ Suc 9" "unat d < 10 ^ Suc 9" by simp_all
  then show ?thesis using digits_of_length [of _ "unat d" 9]
    by (simp add: itoa_text_def itoa_radix_def)
qed

lemma itoa_string:
  assumes fit: "fits buf (length (itoa_text base d) + 1)"
  shows "string_at (itoa m buf base d) buf (itoa_text base d)"
    and "\<And>a. \<not> within buf (length (itoa_text base d) + 1) a \<Longrightarrow> itoa m buf base d a = m a"
proof -
  let ?ds = "digits_of (itoa_radix base) (unat d)"
  let ?n = "length ?ds"
  have len: "length (itoa_text base d) = ?n" by (simp add: itoa_text_def)
  have radix: "unat (divisor (base = 0x78)) = itoa_radix base"
    by (simp add: divisor_def itoa_radix_def)
  have n: "0 < ?n" by simp
  have fn: "fits buf (?n + 1)" "fits buf ?n" using fit by (simp_all add: len fits_def)
  let ?m = "(\<lambda>a. if within buf ?n a then digit_text (?ds ! (unat a - unat buf)) else m a)
     (buf + of_nat ?n := 0)"
  let ?e = "buf + of_nat ?n - 1"
  have ub: "unat (buf + of_nat ?n) = unat buf + ?n" using unat_offset [OF fn(1)] by simp
  then have "buf + of_nat ?n \<noteq> 0" using n by (metis add_gr_0 less_numeral_extra(3) unsigned_0)
  then have ue: "unat ?e = unat buf + ?n - 1" by (simp add: unat_minus_1 ub)
  have "itoa m buf base d = reverse_bytes ?m buf ?e"
    using itoa_digits_eq [of buf "base = 0x78" d m] fn(2) unfolding radix
    by (simp add: itoa_def Let_def fun_upd_def)
  also have "\<dots> = (\<lambda>a. if buf \<le> a \<and> a \<le> ?e then ?m (buf + ?e - a) else ?m a)"
    using ue by (intro reverse_bytes_eq) simp
  finally have it: "itoa m buf base d = \<dots>" .
  have in_it: "buf \<le> a \<and> a \<le> ?e \<longleftrightarrow> within buf ?n a" for a
    using n by (simp add: word_le_nat_alt ue within_def del: length_greater_0_conv) linarith
  have rv: "buf + ?e - (buf + of_nat i) = buf + of_nat (?n - 1 - i)" if "i < ?n" for i
  proof -
    have "of_nat (?n - 1 - i) = (of_nat ?n - 1 - of_nat i :: addr)"
      using that by (simp add: of_nat_diff)
    then show ?thesis by (simp add: algebra_simps)
  qed
  have "itoa m buf base d (buf + of_nat i) = itoa_text base d ! i" if i: "i < ?n" for i
  proof -
    have j: "?n - 1 - i < ?n" "?n - 1 - i \<noteq> ?n" using i by simp_all
    have "itoa m buf base d (buf + of_nat i) = ?m (buf + of_nat (?n - 1 - i))"
      unfolding it in_it rv [OF i] using within_offset [OF fn(2) i] by simp
    also have "\<dots> = digit_text (?ds ! (?n - 1 - i))"
      using within_offset [OF fn(2) j(1)] unat_offset [OF fn(2), of "?n - 1 - i"] j ub
      by (auto simp: fun_upd_apply simp del: diff_diff_left)
    finally show ?thesis using i by (simp add: itoa_text_def rev_nth)
  qed
  moreover have "itoa m buf base d (buf + of_nat ?n) = 0"
    unfolding it in_it using ub by (simp add: within_def)
  moreover have "itoa_text base d ! i \<noteq> 0" if "i < ?n" for i
    using that itoa_text_neq_0 [of base d] by (metis len nth_mem)
  ultimately show "string_at (itoa m buf base d) buf (itoa_text base d)"
    by (simp add: string_at_iff len)
  show "itoa m buf base d a = m a" if "\<not> within buf (length (itoa_text base d) + 1) a" for a
    using that unfolding it in_it len by (auto simp: within_def ub)
qed

section \<open>Properties of the string routines\<close>

text \<open>
  Copying a string that fits, to a place it does not overlap, leaves the string at the
  destination, keeps it at the source, and changes no byte outside the destination's; its
  length and its comparison with the copy are then the expected ones.
\<close>

theorem strcpy_copies:
  assumes "string_at m source xs" "fits source (length xs + 1)" "fits dest (length xs + 1)"
    and "apart source (length xs + 1) dest (length xs + 1)"
  shows "\<exists>m'. strcpy m dest source = Inr m' \<and> string_at m' dest xs \<and> string_at m' source xs \<and>
    (\<forall>a. \<not> within dest (length xs + 1) a \<longrightarrow> m' a = m a) \<and>
    strlen m' dest = Inr (of_nat (length xs)) \<and> strcmp m' dest source = Inr 0"
proof -
  obtain m' where m': "strcpy m dest source = Inr m'" "string_at m' dest xs"
      and same: "\<forall>a. \<not> within dest (length xs + 1) a \<longrightarrow> m' a = m a"
    using strcpy_string [OF assms] by blast
  have "m' a = m a" if "within source (length xs + 1) a" for a
    using that same assms(4) by (metis apart_not_within)
  then have "string_at m' source xs"
    using assms(1) string_at_cong [OF assms(2), of m m'] by simp
  moreover have "cmp_spec xs xs = 0" using cmp_spec_eq_0 string_at_nonzero [OF assms(1)] by blast
  ultimately show ?thesis using m' same strlen_string strcmp_spec by fastforce
qed

theorem strcpy_copies_witness:
  "\<exists>m'. strcpy ((\<lambda>a. 0)(16 := 72, 17 := 105)) 32 16 = Inr m' \<and> string_at m' 32 [72, 105] \<and>
    string_at m' 16 [72, 105] \<and> m' 35 = 0 \<and> strlen m' 32 = Inr 2 \<and> strcmp m' 32 16 = Inr 0"
proof -
  obtain m' where "strcpy ((\<lambda>a. 0)(16 := 72, 17 := 105)) 32 16 = Inr m'"
      "string_at m' 32 [72, 105]" "string_at m' 16 [72, 105]"
      "\<forall>a. \<not> within 32 3 a \<longrightarrow> m' a = ((\<lambda>a. 0)(16 := 72, 17 := 105)) a"
      "strlen m' 32 = Inr 2" "strcmp m' 32 16 = Inr 0"
    using strcpy_copies [of "(\<lambda>a. 0)(16 := 72, 17 := 105)" 16 "[72, 105]" 32]
    by (auto simp: fits_def apart_def numeral_3_eq_3)
  moreover have "\<not> within 32 3 35" by (simp add: within_def)
  ultimately show ?thesis by auto
qed

text \<open>
  \<open>strcmp\<close> returns on any two C strings, with zero exactly when they are equal, and
  \<open>strncmp\<close> returns zero exactly when their first \<open>n\<close> bytes are.
\<close>

theorem strcmp_decides_equality:
  assumes "string_at m p xs" "string_at m q ys"
  shows "(\<exists>r. strcmp m p q = Inr r \<and> (r = 0 \<longleftrightarrow> xs = ys)) \<and>
    (strncmp m p q n = 0 \<longleftrightarrow> take (unat n) xs = take (unat n) ys)"
  using assms strcmp_spec [OF assms] cmp_spec_eq_0 string_at_nonzero
    strncmp_loop_take [OF assms, of "unat n"]
  by (auto simp: strncmp_def)

theorem strcmp_decides_equality_witness:
  "(\<exists>r. strcmp ((\<lambda>a. 0)(16 := 72, 32 := 72, 33 := 200)) 16 32 = Inr r \<and> (r = 0 \<longleftrightarrow> [72] = [72 :: u8, 200])) \<and>
   (strncmp ((\<lambda>a. 0)(16 := 72, 32 := 72, 33 := 200)) 16 32 1 = 0 \<longleftrightarrow>
     take (unat (1 :: u32)) [72] = take (unat (1 :: u32)) [72 :: u8, 200])"
  by (rule strcmp_decides_equality) simp_all

text \<open>
  \<open>strncpy\<close> leaves at the destination the string cut to \<open>size\<close> bytes and ended by a NUL. That
  NUL is byte number \<open>size\<close>: a string of \<open>size\<close> bytes or more writes one byte past a
  destination of \<open>size\<close> bytes, and no more than that one.
\<close>

theorem strncpy_truncates:
  assumes "string_at m source xs" "0 \<le> sz" "fits source (length xs + 1)"
    and "fits dest (length xs + 1)" "apart source (length xs + 1) dest (length xs + 1)"
  shows "string_at (strncpy m dest source sz) dest (take (nat sz) xs) \<and>
    (\<forall>a. \<not> within dest (nat sz + 1) a \<longrightarrow> strncpy m dest source sz a = m a) \<and>
    (nat sz \<le> length xs \<longrightarrow> strncpy m dest source sz (dest + of_nat (nat sz)) = 0)"
proof -
  have tk: "take (min (length xs) (nat sz)) xs = take (nat sz) xs" by (simp add: min_def)
  have str: "string_at (strncpy m dest source sz) dest (take (nat sz) xs)"
    using strncpy_string(1) [OF assms] unfolding tk .
  moreover have "strncpy m dest source sz a = m a" if "\<not> within dest (nat sz + 1) a" for a
    using that strncpy_string(2) [OF assms, of a] by (auto simp: within_def)
  moreover have "strncpy m dest source sz (dest + of_nat (nat sz)) = 0" if "nat sz \<le> length xs"
    using that str unfolding string_at_iff by (simp add: min_absorb2)
  ultimately show ?thesis by blast
qed

theorem strncpy_truncates_witness:
  "string_at (strncpy ((\<lambda>a. 0)(16 := 72, 17 := 105)) 32 16 1) 32 [72] \<and>
   strncpy ((\<lambda>a. 0)(16 := 72, 17 := 105)) 32 16 1 17 = 105 \<and>
   strncpy ((\<lambda>a. 0)(16 := 72, 17 := 105)) 32 16 1 33 = 0"
  using strncpy_truncates [of "(\<lambda>a. 0)(16 := 72, 17 := 105)" 16 "[72, 105]" 1 32]
  by (simp add: fits_def apart_def within_def)

text \<open>
  C2: \<open>itoa\<close> leaves at \<open>buf\<close> the digits of \<open>d\<close>, most significant first, in base 16 for \<open>'x'\<close> and
  10 for any other conversion: their value is \<open>d\<close> read as an unsigned number, also for \<open>'d'\<close>.
  It writes at most 11 bytes and none outside them.
\<close>

theorem itoa_prints:
  fixes base d :: u32
  assumes "fits buf 11"
  defines "ds \<equiv> digits_of (if base = 0x78 then 16 else 10) (unat d)"
  shows "string_at (itoa m buf base d) buf (map digit_text (rev ds)) \<and>
    value_of (if base = 0x78 then 16 else 10) ds = unat d \<and>
    (\<forall>a. \<not> within buf 11 a \<longrightarrow> itoa m buf base d a = m a)"
proof -
  have len: "length (itoa_text base d) + 1 \<le> 11" using itoa_text_length [of base d] by simp
  then have fit: "fits buf (length (itoa_text base d) + 1)" using assms(1) by (rule fits_mono [rotated])
  have "string_at (itoa m buf base d) buf (map digit_text (rev ds))"
    using itoa_string(1) [OF fit] by (simp add: itoa_text_def itoa_radix_def rev_map ds_def)
  moreover have "itoa m buf base d a = m a" if "\<not> within buf 11 a" for a
    using that itoa_string(2) [OF fit, of a] len by (auto simp: within_def)
  ultimately show ?thesis by (simp add: value_of_digits ds_def)
qed

theorem itoa_prints_witness:
  "string_at (itoa (\<lambda>a. 0xFF) 16 0x64 42) 16 [0x34, 0x32] \<and> value_of 10 [2, 4] = unat (42 :: u32) \<and>
   itoa (\<lambda>a. 0xFF) 16 0x64 42 27 = 0xFF"
proof -
  have "digits_of 10 42 = [2, 4]" by (simp add: digits_of.simps)
  then show ?thesis using itoa_prints [where buf = 16 and m = "\<lambda>a. 0xFF" and base = "0x64" and d = 42]
    by (simp add: fits_def digit_text_def within_def)
qed

end
