(* ===== verification/Alloc_String.thy ===== *)
theory Alloc_String
  imports MM CString
begin

text \<open>
  lib/string/strdup.c and lib/string/strcat.c: the string routines that allocate.

  The state extends the kernel heap's with the bytes of memory. The block headers of the heap
  are objects of their own (MM) and are not part of these bytes; what a client owns are the bytes
  of the region \<open>malloc\<close> returned.
\<close>

section \<open>The code\<close>

record byte_state = mm_state +
  bytes :: mem

definition strdup :: "addr \<Rightarrow> 'a byte_state_scheme \<Rightarrow> (addr \<times> 'a byte_state_scheme) result" where
  "strdup str s =
     (if str = NULL then Inr (NULL, s)
      else bindr (strlen (bytes s) str) (\<lambda>n.
        bindr (malloc (n + 1) s) (\<lambda>(new_str, s).
          if new_str = NULL then Inr (NULL, s)
          else bindr (strcpy (bytes s) new_str str) (\<lambda>m. Inr (new_str, s\<lparr>bytes := m\<rparr>)))))"

definition strcat :: "addr \<Rightarrow> addr \<Rightarrow> 'a byte_state_scheme \<Rightarrow> (addr \<times> 'a byte_state_scheme) result" where
  "strcat str1 str2 s =
     bindr (strlen (bytes s) str1) (\<lambda>n1.
     bindr (strlen (bytes s) str2) (\<lambda>n2.
     bindr (malloc (n1 + n2 + 1) s) (\<lambda>(p, s).
     bindr (strcpy (bytes s) p str1) (\<lambda>m.
     bindr (strlen m str1) (\<lambda>n.
     bindr (strcpy m (p + n) str2) (\<lambda>m. Inr (p, s\<lparr>bytes := m\<rparr>)))))))"

section \<open>Fresh copies\<close>

text \<open>A string that lies below the top of the heap, where every allocated string does.\<close>

definition string_below :: "'a byte_state_scheme \<Rightarrow> addr \<Rightarrow> u8 list \<Rightarrow> bool" where
  "string_below s p xs \<longleftrightarrow> string_at (bytes s) p xs \<and> unat p + length xs + 1 \<le> unat (malloc_top s)"

lemma bytes_malloced [simp]: "bytes (malloced sz s lb) = bytes s"
  by (simp add: malloced_def)

lemma unat_of_nat_addr: "n < 2 ^ 32 \<Longrightarrow> unat (of_nat n :: addr) = n"
  by (simp add: unat_of_nat)

lemma string_below_fits: "string_below s p xs \<Longrightarrow> fits p (length xs + 1)"
  using unat_u32_less [of "malloc_top s"] by (simp add: string_below_def fits_def)

text \<open>Allocating \<open>n\<close> bytes: the region is above everything below the old top.\<close>

lemma malloc_bytes:
  assumes "mm_wf s" "0 < n" "malloc_room s (20 + n)"
  shows "\<exists>p s'. malloc (of_nat n) s = Inr (p, s') \<and> mm_wf s' \<and> p \<noteq> NULL \<and> bytes s' = bytes s \<and>
    unat p = unat (malloc_top s) + 20 \<and> fits p n \<and> unat (malloc_top s') = unat p + n \<and> heap s' = heap s \<and>
    (\<exists>lb. s' = malloced (of_nat n) s lb)"
proof -
  have top: "unat (malloc_top s) + 20 + n < 2 ^ 32"
    using assms(3) unat_u32_less [of "heap s"] by (simp add: malloc_room_def)
  then have n: "unat (of_nat n :: u32) = n" by (intro unat_of_nat_addr) simp
  have p: "unat (malloc_top s + sizeof_mblock) = unat (malloc_top s) + 20"
    using top by (simp add: sizeof_mblock_def unat_word_ariths)
  obtain s' lb where s': "malloc (of_nat n) s = Inr (malloc_top s + sizeof_mblock, s')" "mm_wf s'"
      "unat (malloc_top s') = unat (malloc_top s) + 20 + n" "heap s' = heap s" "s' = malloced (of_nat n) s lb"
    using malloc_bump [OF assms(1), of "of_nat n"] assms(2,3) unfolding n by blast
  moreover have "bytes s' = bytes s" unfolding s'(5) by simp
  moreover have "malloc_top s + sizeof_mblock \<noteq> 0" using p by auto
  moreover have "fits (malloc_top s + sizeof_mblock) n" using top p by (simp add: fits_def)
  ultimately show ?thesis using p by (intro exI [of _ "malloc_top s + sizeof_mblock"] exI [of _ s']) auto
qed

lemma strdup_copies:
  assumes wf: "mm_wf s" and str: "string_below s p xs" and nz: "p \<noteq> NULL"
    and room: "malloc_room s (20 + (length xs + 1))"
  shows "\<exists>q s'. strdup p s = Inr (q, s') \<and> q \<noteq> NULL \<and> mm_wf s' \<and> string_below s' q xs \<and>
    unat (malloc_top s) \<le> unat q \<and> unat (malloc_top s') = unat (malloc_top s) + 20 + length xs + 1 \<and>
    heap s' = heap s \<and> (\<forall>a. unat a < unat (malloc_top s) \<longrightarrow> bytes s' a = bytes s a) \<and>
    (\<exists>lb m. s' = (malloced (of_nat (length xs + 1)) s lb)\<lparr>bytes := m\<rparr>)"
proof -
  let ?n = "length xs + 1"
  have pos: "0 < ?n" by simp
  have at: "string_at (bytes s) p xs" using str by (simp add: string_below_def)
  obtain q s1 where m: "malloc (of_nat ?n) s = Inr (q, s1)" "mm_wf s1" "q \<noteq> NULL" "bytes s1 = bytes s"
      "unat q = unat (malloc_top s) + 20" "fits q ?n" "unat (malloc_top s1) = unat q + ?n" "heap s1 = heap s"
      "\<exists>lb. s1 = malloced (of_nat ?n) s lb"
    using malloc_bytes [OF wf pos room] by blast
  have ap: "apart p ?n q ?n" using str m(5) by (simp add: apart_def string_below_def)
  obtain m' where cp: "strcpy (bytes s) q p = Inr m'" "string_at m' q xs"
      "\<forall>a. \<not> within q ?n a \<longrightarrow> m' a = bytes s a"
    using strcpy_string [OF at string_below_fits [OF str] m(6) ap] by blast
  have "strdup p s = Inr (q, s1\<lparr>bytes := m'\<rparr>)"
    using nz m(1,3,4) cp(1) strlen_string [OF at] by (simp add: strdup_def add.commute)
  moreover have "m' a = bytes s a" if "unat a < unat (malloc_top s)" for a
    using that cp(3) m(5) by (simp add: within_def)
  moreover have "mm_wf (s1\<lparr>bytes := m'\<rparr>)" using m(2) by (simp add: mm_wf_def)
  moreover have "\<exists>lb m. s1\<lparr>bytes := m'\<rparr> = (malloced (of_nat ?n) s lb)\<lparr>bytes := m\<rparr>"
    using m(9) by blast
  ultimately show ?thesis using m cp(2) by (intro exI [of _ q] exI [of _ "s1\<lparr>bytes := m'\<rparr>"])
    (simp add: string_below_def)
qed

lemma string_at_join:
  "\<lbrakk>bytes_at m p xs; 0 \<notin> set xs; string_at m (p + of_nat (length xs)) ys\<rbrakk> \<Longrightarrow> string_at m p (xs @ ys)"
  by (induction xs arbitrary: p) (auto simp: algebra_simps)

lemma bytes_at_cong:
  "\<lbrakk>fits p (length xs); \<And>a. within p (length xs) a \<Longrightarrow> m a = m' a\<rbrakk> \<Longrightarrow> bytes_at m p xs = bytes_at m' p xs"
  by (simp add: bytes_at_iff within_offset)

lemma string_at_bytes: "string_at m p xs \<Longrightarrow> bytes_at m p xs"
  by (induction xs arbitrary: p) auto

lemma strcat_joins:
  assumes wf: "mm_wf s" and x: "string_below s p xs" and y: "string_below s q ys"
    and room: "malloc_room s (20 + (length xs + length ys + 1))"
  shows "\<exists>r s'. strcat p q s = Inr (r, s') \<and> mm_wf s' \<and> string_below s' r (xs @ ys) \<and>
    (\<forall>a. unat a < unat (malloc_top s) \<longrightarrow> bytes s' a = bytes s a)"
proof -
  let ?n = "length xs + length ys + 1" and ?nx = "length xs + 1" and ?ny = "length ys + 1"
  have at: "string_at (bytes s) p xs" "string_at (bytes s) q ys" using x y by (simp_all add: string_below_def)
  obtain r s1 where m: "malloc (of_nat ?n) s = Inr (r, s1)" "mm_wf s1" "bytes s1 = bytes s"
      "unat r = unat (malloc_top s) + 20" "fits r ?n" "unat (malloc_top s1) = unat r + ?n"
    using malloc_bytes [OF wf _ room] by auto
  let ?r = "r + of_nat (length xs)"
  have r: "unat ?r = unat r + length xs" using unat_offset [OF m(5), of "length xs"] by simp
  have f: "fits r ?nx" "fits ?r ?ny" "fits r (length xs)" using m(5) r by (simp_all add: fits_def)
  have ap: "apart p ?nx r ?nx" "apart q ?ny ?r ?ny" using x y m(4) r by (simp_all add: apart_def string_below_def)
  obtain m1 where c1: "strcpy (bytes s) r p = Inr m1" "string_at m1 r xs"
      "\<forall>a. \<not> within r ?nx a \<longrightarrow> m1 a = bytes s a"
    using strcpy_string [OF at(1) string_below_fits [OF x] f(1) ap(1)] by blast
  have below: "m1 a = bytes s a" if "unat a < unat (malloc_top s)" for a
    using that c1(3) m(4) by (simp add: within_def)
  have old: "string_at m1 p xs" "string_at m1 q ys"
    using at string_at_cong [OF string_below_fits [OF x], of "bytes s" m1]
      string_at_cong [OF string_below_fits [OF y], of "bytes s" m1] below x y
    by (simp_all add: within_def string_below_def)
  obtain m2 where c2: "strcpy m1 ?r q = Inr m2" "string_at m2 ?r ys"
      "\<forall>a. \<not> within ?r ?ny a \<longrightarrow> m2 a = m1 a"
    using strcpy_string [OF old(2) string_below_fits [OF y] f(2) ap(2)] by blast
  have run: "strcat p q s = Inr (r, s1\<lparr>bytes := m2\<rparr>)"
    using m(1,3) c1(1) c2(1) strlen_string [OF at(1)] strlen_string [OF at(2)] strlen_string [OF old(1)]
    by (simp add: strcat_def add.commute)
  have "bytes_at m2 r xs"
    using string_at_bytes [OF c1(2)] bytes_at_cong [OF f(3), of m1 m2] c2(3) r by (simp add: within_def)
  then have "string_at m2 r (xs @ ys)"
    using c2(2) string_at_nonzero [OF at(1)] by (intro string_at_join)
  moreover have "m2 a = bytes s a" if "unat a < unat (malloc_top s)" for a
    using that below c2(3) r m(4) by (simp add: within_def)
  moreover have "mm_wf (s1\<lparr>bytes := m2\<rparr>)" using m(2) by (simp add: mm_wf_def)
  ultimately show ?thesis using run m(6) by (intro exI [of _ r] exI [of _ "s1\<lparr>bytes := m2\<rparr>"])
    (simp add: string_below_def)
qed

section \<open>Properties of the allocating routines\<close>


text \<open>The strings \<open>"hi"\<close> and \<open>"!"\<close> in static memory, and a heap with one block and a page of room.\<close>

definition string_heap :: byte_state where
  "string_heap = \<lparr>frames_count = 256, frame_idx = 0, frames_free = 255,
     physical_bitmap = (\<lambda>_. 0)(0 := 1), cr3 = 0x1000, pmem = \<lambda>_. 0,
     malloc_top = 0xC0000015, heap = 0xC0001000, root_mblock = 0xC0000000, last_block = 0xC0000000,
     mblocks = Map.empty(0xC0000000 \<mapsto> new_block 0xC0000000 1),
     bytes = (\<lambda>_. 0)(0x1000 := 0x68, 0x1001 := 0x69, 0x1010 := 0x21)\<rparr>"

lemma string_heap_wf: "mm_wf string_heap"
  unfolding mm_wf_def
  by (rule exI [of _ "[0xC0000000]"]) (simp add: string_heap_def used_block_def new_block_def)


end
