(* ===== verification/Elf.thy ===== *)
theory Elf
  imports Alloc_String
begin

text \<open>
  kernel/elf.c, kernel/aspace.c and kernel/module.c: executables in memory.

  An image is bytes of memory; the packed structs of include/kernel/elf.h are read from it at
  their offsets, low byte first. A function that stores a pointer through an argument returns
  what it stored, \<open>None\<close> when it stored nothing. Address spaces and their arrays of sections are
  objects of typed heaps. A local variable that the code reads without having assigned it is a
  parameter, the junk it holds.
\<close>

section \<open>Fields in memory\<close>

text \<open>The header of the file.\<close>

definition e_magic :: "mem \<Rightarrow> addr \<Rightarrow> u32" where "e_magic m p = load32 m p"
definition e_bitness :: "mem \<Rightarrow> addr \<Rightarrow> u8" where "e_bitness m p = m (p + 4)"
definition e_endian :: "mem \<Rightarrow> addr \<Rightarrow> u8" where "e_endian m p = m (p + 5)"
definition e_elf_ver_1 :: "mem \<Rightarrow> addr \<Rightarrow> u8" where "e_elf_ver_1 m p = m (p + 6)"
definition e_file_type :: "mem \<Rightarrow> addr \<Rightarrow> u16" where "e_file_type m p = load16 m (p + 16)"
definition e_machine :: "mem \<Rightarrow> addr \<Rightarrow> u16" where "e_machine m p = load16 m (p + 18)"
definition e_elf_ver_2 :: "mem \<Rightarrow> addr \<Rightarrow> u32" where "e_elf_ver_2 m p = load32 m (p + 20)"
definition e_entry :: "mem \<Rightarrow> addr \<Rightarrow> u32" where "e_entry m p = load32 m (p + 24)"
definition e_phtab_offset :: "mem \<Rightarrow> addr \<Rightarrow> u32" where "e_phtab_offset m p = load32 m (p + 28)"
definition e_shtab_offset :: "mem \<Rightarrow> addr \<Rightarrow> u32" where "e_shtab_offset m p = load32 m (p + 32)"
definition e_ph_size :: "mem \<Rightarrow> addr \<Rightarrow> u16" where "e_ph_size m p = load16 m (p + 42)"
definition e_num_ph :: "mem \<Rightarrow> addr \<Rightarrow> u16" where "e_num_ph m p = load16 m (p + 44)"
definition e_sh_size :: "mem \<Rightarrow> addr \<Rightarrow> u16" where "e_sh_size m p = load16 m (p + 46)"
definition e_num_sects :: "mem \<Rightarrow> addr \<Rightarrow> u16" where "e_num_sects m p = load16 m (p + 48)"
definition e_shstrtab_index :: "mem \<Rightarrow> addr \<Rightarrow> u16" where "e_shstrtab_index m p = load16 m (p + 50)"

text \<open>The other structs, read as a whole.\<close>

record elf_sect =
  sh_name :: u32
  sh_type :: u32
  sh_flags :: u32
  sh_virt_adr :: u32
  sh_offset :: u32
  sh_sz :: u32
  sh_link :: u32
  sh_info :: u32
  sh_align :: u32
  sh_ent_size :: u32

definition elf_sect_at :: "mem \<Rightarrow> addr \<Rightarrow> elf_sect" where
  "elf_sect_at m p = \<lparr>sh_name = load32 m p, sh_type = load32 m (p + 4), sh_flags = load32 m (p + 8),
     sh_virt_adr = load32 m (p + 12), sh_offset = load32 m (p + 16), sh_sz = load32 m (p + 20),
     sh_link = load32 m (p + 24), sh_info = load32 m (p + 28), sh_align = load32 m (p + 32), sh_ent_size = load32 m (p + 36)\<rparr>"

record elf_sym =
  st_name :: u32
  st_value :: u32
  st_size :: u32
  st_type :: u32
  st_section :: u16

definition elf_sym_at :: "mem \<Rightarrow> addr \<Rightarrow> elf_sym" where
  "elf_sym_at m p = \<lparr>st_name = load32 m p, st_value = load32 m (p + 4), st_size = load32 m (p + 8),
     st_type = ucast (m (p + 12) AND 0x0F), st_section = load16 m (p + 14)\<rparr>"

record elf_reloc =
  r_adr :: u32
  r_type :: u8
  r_symtab_index :: u32

definition elf_reloc_at :: "mem \<Rightarrow> addr \<Rightarrow> elf_reloc" where
  "elf_reloc_at m p = \<lparr>r_adr = load32 m p, r_type = m (p + 4),
     r_symtab_index = ucast (load16 m (p + 5)) OR push_bit 16 (ucast (m (p + 7)))\<rparr>"

record elf_seg =
  p_type :: u32
  p_offset :: u32
  p_virt_adr :: u32
  p_disk_size :: u32
  p_mem_size :: u32
  p_flags :: u32

definition elf_seg_at :: "mem \<Rightarrow> addr \<Rightarrow> elf_seg" where
  "elf_seg_at m p = \<lparr>p_type = load32 m p, p_offset = load32 m (p + 4), p_virt_adr = load32 m (p + 8),
     p_disk_size = load32 m (p + 16), p_mem_size = load32 m (p + 20), p_flags = load32 m (p + 24)\<rparr>"

section \<open>Address spaces\<close>

record sect =
  s_addr :: u32
  s_size :: u32
  s_flags :: u32
  s_offset :: u32

record aspace =
  as_magic :: u32
  as_addr :: addr
  as_size :: u32
  as_sects :: u32
  as_sect :: addr
  as_sect_phys :: addr
  as_heap :: sect

record exec_state = byte_state +
  aspaces :: "addr \<Rightarrow> aspace option"
  sections :: "addr \<Rightarrow> sect option"

definition SF_ZERO :: u32 where "SF_ZERO = 0x10"
definition SF_LOAD :: u32 where "SF_LOAD = 0x08"

text \<open>\<open>sizeof(struct aspace)\<close> is 40 bytes, all set to 0 but the magic number.\<close>

definition aspace_create :: "'a exec_state_scheme \<Rightarrow> (addr \<times> 'a exec_state_scheme) result" where
  "aspace_create s =
     bindr (malloc 40 s) (\<lambda>(a, s).
       if a = NULL then Inr (NULL, s)
       else Inr (a, s\<lparr>aspaces := (aspaces s)(a \<mapsto>
         \<lparr>as_magic = 0x10C00FFE, as_addr = 0, as_size = 0, as_sects = 0, as_sect = NULL, as_sect_phys = NULL,
          as_heap = \<lparr>s_addr = 0, s_size = 0, s_flags = 0, s_offset = 0\<rparr>\<rparr>)\<rparr>))"

text \<open>\<open>memcpy\<close> of \<open>n\<close> sections, 16 bytes each.\<close>

fun copy_sects :: "nat \<Rightarrow> addr \<Rightarrow> addr \<Rightarrow> (addr \<Rightarrow> sect option) \<Rightarrow> (addr \<Rightarrow> sect option)" where
  "copy_sects 0 src dst h = h"
| "copy_sects (Suc n) src dst h = copy_sects n (src + 16) (dst + 16) (h(dst := h src))"

definition aspace_section_create :: "addr \<Rightarrow> u32 \<Rightarrow> u32 \<Rightarrow> u32 \<Rightarrow> u32 \<Rightarrow> 'a exec_state_scheme \<Rightarrow>
    (u8 \<times> 'a exec_state_scheme) result" where
  "aspace_section_create as adr sz flags offset s =
     bindr (deref (aspaces s) as) (\<lambda>a.
     bindr (malloc ((as_sects a + 1) * 16) s) (\<lambda>(p, s).
       if p = NULL then Inr (TRUE8, s)
       else
         let h = (if as_sect a \<noteq> NULL then copy_sects (unat (as_sects a)) (as_sect a) p (sections s) else sections s);
             h = h(p + 16 * as_sects a \<mapsto> \<lparr>s_addr = adr, s_size = sz, s_flags = flags, s_offset = offset\<rparr>)
         in Inr (FALSE8, s\<lparr>sections := h, aspaces := (aspaces s)(as \<mapsto> a\<lparr>as_sect := p, as_sects := as_sects a + 1\<rparr>)\<rparr>)))"

section \<open>Loading an executable\<close>

definition ELF_SIGNATURE :: u32 where "ELF_SIGNATURE = 0x464C457F"
definition ET_DYN :: u8 where "ET_DYN = 3"

text \<open>One iteration: \<open>Some v\<close> when the function returns \<open>v\<close> from it.\<close>

definition load_seg :: "addr \<Rightarrow> elf_seg \<Rightarrow> 'a exec_state_scheme \<Rightarrow> (int option \<times> 'a exec_state_scheme) result" where
  "load_seg as seg s =
     (if p_type seg = 2 \<or> p_type seg = 5 then Inr (Some 0, s)
      else if p_type seg = 1 then
        bindr (aspace_section_create as (p_virt_adr seg) (p_disk_size seg) (SF_LOAD OR (p_flags seg AND 7)) (p_offset seg) s)
          (\<lambda>(err, s).
            if err \<noteq> 0 then Inr (Some (uint err), s)
            else if p_disk_size seg < p_mem_size seg then
              bindr (aspace_section_create as (p_virt_adr seg + p_disk_size seg) (p_mem_size seg - p_disk_size seg)
                  (SF_ZERO OR (p_flags seg AND 7)) (p_offset seg) s)
                (\<lambda>(err, s). Inr (if err \<noteq> 0 then Some (uint err) else None, s))
            else Inr (None, s))
      else Inr (None, s))"

text \<open>The loop from segment \<open>i\<close> on, \<open>n\<close> segments left.\<close>

fun load_loop :: "nat \<Rightarrow> addr \<Rightarrow> addr \<Rightarrow> u32 \<Rightarrow> 'a exec_state_scheme \<Rightarrow> (int \<times> 'a exec_state_scheme) result" where
  "load_loop 0 elf as i s = Inr (0, s)"
| "load_loop (Suc n) elf as i s =
     (let m = bytes s; img = elf + e_phtab_offset m elf;
          seg = elf_seg_at m (img + ucast (e_ph_size m elf) * i)
      in bindr (load_seg as seg s) (\<lambda>(r, s).
           case r of Some v \<Rightarrow> Inr (v, s) | None \<Rightarrow> load_loop n elf as (i + 1) s))"

text \<open>The result, and what is stored in \<open>entry\<close>.\<close>

definition load_elf_exec :: "addr \<Rightarrow> addr \<Rightarrow> 'a exec_state_scheme \<Rightarrow> (int \<times> u32 option \<times> 'a exec_state_scheme) result" where
  "load_elf_exec img as s =
     (let m = bytes s
      in if e_magic m img \<noteq> 0x464C457F then Inr (1, None, s)
         else if e_bitness m img \<noteq> 1 \<or> e_endian m img \<noteq> 1 \<or> e_elf_ver_1 m img \<noteq> 1 \<or>
           e_file_type m img \<noteq> 2 \<or> e_machine m img \<noteq> 3 \<or> e_elf_ver_2 m img \<noteq> 1 then Inr (1, None, s)
         else bindr (load_loop (unat (e_num_ph m img)) img as 0 s) (\<lambda>(r, s). Inr (r, Some (e_entry m img), s)))"

section \<open>Sections and symbols\<close>

definition SHT_SYMTAB :: u32 where "SHT_SYMTAB = 2"
definition SHT_STRTAB :: u32 where "SHT_STRTAB = 3"
definition SHN_ABS :: u16 where "SHN_ABS = 0xFFF1"
definition SHN_COMMON :: u16 where "SHN_COMMON = 0xFFF2"
definition SHN_SOMBRA :: u16 where "SHN_SOMBRA = 0xABCD"

text \<open>The address of section header \<open>i\<close>.\<close>

definition sect_ptr :: "mem \<Rightarrow> addr \<Rightarrow> u32 \<Rightarrow> addr" where
  "sect_ptr m img i = img + e_shtab_offset m img + ucast (e_sh_size m img) * i"

fun section_name_loop :: "nat \<Rightarrow> mem \<Rightarrow> addr \<Rightarrow> addr \<Rightarrow> addr \<Rightarrow> u32 \<Rightarrow> (u8 \<times> addr option) result" where
  "section_name_loop 0 m img strings name i = Inr (0, None)"
| "section_name_loop (Suc n) m img strings name i =
     bindr (strcmp m (strings + sh_name (elf_sect_at m (sect_ptr m img i))) name) (\<lambda>c.
       if c = 0 then Inr (1, Some (sect_ptr m img i))
       else section_name_loop n m img strings name (i + 1))"

definition elf32_get_section_by_name :: "mem \<Rightarrow> addr \<Rightarrow> addr \<Rightarrow> (u8 \<times> addr option) result" where
  "elf32_get_section_by_name m img name =
     (let str_sect = elf_sect_at m (sect_ptr m img (ucast (e_shstrtab_index m img)))
      in if sh_type str_sect \<noteq> SHT_STRTAB then Inr (0, None)
         else section_name_loop (unat (e_num_sects m img)) m img (sh_offset str_sect + img) name 0)"

text \<open>A section of another flag than the one asked for ends the search with 0.\<close>

fun sections_loop :: "nat \<Rightarrow> mem \<Rightarrow> addr \<Rightarrow> u32 \<Rightarrow> int \<Rightarrow> u32 \<Rightarrow> int \<Rightarrow> int" where
  "sections_loop 0 m img typ flags i retval = retval"
| "sections_loop (Suc n) m img typ flags i retval =
     (let tmp = elf_sect_at m (sect_ptr m img i)
      in if sh_type tmp = typ then
           if 0 \<le> flags \<and> sh_flags tmp \<noteq> of_int flags then 0
           else sections_loop n m img typ flags (i + 1) (retval + 1)
         else sections_loop n m img typ flags (i + 1) retval)"

definition elf32_get_sections :: "mem \<Rightarrow> addr \<Rightarrow> u32 \<Rightarrow> int \<Rightarrow> int" where
  "elf32_get_sections m img typ flags = sections_loop (unat (e_num_sects m img)) m img typ flags 0 0"

fun sections_i_loop :: "nat \<Rightarrow> mem \<Rightarrow> addr \<Rightarrow> u32 \<Rightarrow> u32 \<Rightarrow> int \<Rightarrow> u32 \<Rightarrow> u8 \<times> addr option" where
  "sections_i_loop 0 m img index typ flags i = (0, None)"
| "sections_i_loop (Suc n) m img index typ flags i =
     (let p = sect_ptr m img i; tmp = elf_sect_at m p
      in if sh_type tmp = typ then
           if 0 \<le> flags \<and> sh_flags tmp \<noteq> of_int flags then (0, None)
           else if index = 0 then (1, Some p)
           else sections_i_loop n m img (index - 1) typ flags (i + 1)
         else sections_i_loop n m img index typ flags (i + 1))"

definition elf32_get_sections_i :: "mem \<Rightarrow> addr \<Rightarrow> u32 \<Rightarrow> u32 \<Rightarrow> int \<Rightarrow> u8 \<times> addr option" where
  "elf32_get_sections_i m img index typ flags = sections_i_loop (unat (e_num_sects m img)) m img index typ flags 0"

text \<open>The functions below are only called with a place for the result.\<close>

definition elf32_get_section_i :: "mem \<Rightarrow> addr \<Rightarrow> u32 \<Rightarrow> u8 \<times> addr option" where
  "elf32_get_section_i m img index =
     (if ucast (e_num_sects m img) < index then (0, None) else (1, Some (sect_ptr m img index)))"

definition elf32_get_symbol_i :: "mem \<Rightarrow> addr \<Rightarrow> u32 \<Rightarrow> addr \<Rightarrow> (u8 \<times> addr option) result" where
  "elf32_get_symbol_i m img sym_idx symtab =
     (let st = elf_sect_at m symtab
      in if sh_type st \<noteq> SHT_SYMTAB then Inr (0, None)
         else if sh_ent_size st = 0 then Inl DivideError
         else if sh_sz st div sh_ent_size st < sym_idx then Inr (0, None)
         else Inr (1, Some (img + sh_offset st + sh_ent_size st * sym_idx)))"

fun symbol_loop :: "nat \<Rightarrow> mem \<Rightarrow> addr \<Rightarrow> addr \<Rightarrow> addr \<Rightarrow> int \<Rightarrow> elf_sect \<Rightarrow> u32 \<Rightarrow> (u8 \<times> addr option) result" where
  "symbol_loop 0 m img strings name typ st i = Inr (0, None)"
| "symbol_loop (Suc n) m img strings name typ st i =
     (let p = img + sh_offset st + i * sh_ent_size st; sym = elf_sym_at m p
      in bindr (strcmp m (strings + st_name sym) name) (\<lambda>c.
           if c = 0 then
             if 0 < typ \<and> uint (st_type sym) \<noteq> typ then Inr (0, None) else Inr (1, Some p)
           else symbol_loop n m img strings name typ st (i + 1)))"

definition elf32_get_symbol_by_name :: "mem \<Rightarrow> addr \<Rightarrow> addr \<Rightarrow> int \<Rightarrow> addr \<Rightarrow> addr \<Rightarrow> (u8 \<times> addr option) result" where
  "elf32_get_symbol_by_name m img name typ symtab strtab =
     (let st = elf_sect_at m symtab; str = elf_sect_at m strtab
      in if sh_type st \<noteq> SHT_SYMTAB \<or> sh_type str \<noteq> SHT_STRTAB then Inr (0, None)
         else if sh_ent_size st = 0 then Inl DivideError
         else symbol_loop (unat (sh_sz st div sh_ent_size st)) m img (img + sh_offset str) name typ st 0)"

text \<open>The tables from number \<open>i\<close> on, \<open>n\<close> left.\<close>

fun search_loop :: "nat \<Rightarrow> mem \<Rightarrow> addr \<Rightarrow> addr \<Rightarrow> int \<Rightarrow> u32 \<Rightarrow> (u8 \<times> addr option) result" where
  "search_loop 0 m img name typ i = Inr (0, None)"
| "search_loop (Suc n) m img name typ i =
     (case elf32_get_sections_i m img i SHT_SYMTAB (- 1) of
        (_, None) \<Rightarrow> search_loop n m img name typ (i + 1)
      | (_, Some sect) \<Rightarrow>
         (case elf32_get_section_i m img (sh_link (elf_sect_at m sect)) of
            (_, None) \<Rightarrow> search_loop n m img name typ (i + 1)
          | (_, Some strtab) \<Rightarrow>
              bindr (elf32_get_symbol_by_name m img name typ sect strtab) (\<lambda>(r, sym).
                if r \<noteq> 0 then Inr (1, sym) else search_loop n m img name typ (i + 1))))"

definition elf32_search_symbol :: "mem \<Rightarrow> addr \<Rightarrow> addr \<Rightarrow> int \<Rightarrow> (u8 \<times> addr option) result" where
  "elf32_search_symbol m img name typ =
     search_loop (nat (elf32_get_sections m img SHT_SYMTAB (- 1))) m img name typ 0"

definition elf32_get_name :: "mem \<Rightarrow> addr \<Rightarrow> u32 \<Rightarrow> addr \<Rightarrow> u8 \<times> addr option" where
  "elf32_get_name m img index strtab =
     (let st = elf_sect_at m strtab
      in if sh_type st \<noteq> SHT_STRTAB then (0, None)
         else if sh_sz st < index then (0, None)
         else (1, Some (img + sh_offset st + index)))"

definition elf32_check :: "mem \<Rightarrow> addr \<Rightarrow> u8 \<Rightarrow> u8" where
  "elf32_check m img typ =
     (if e_magic m img \<noteq> ELF_SIGNATURE then 0
      else if e_bitness m img \<noteq> 1 \<or> e_endian m img \<noteq> 1 \<or> e_elf_ver_1 m img \<noteq> 1 \<or>
        e_file_type m img \<noteq> ucast typ \<or> e_machine m img \<noteq> 3 \<or> e_elf_ver_2 m img \<noteq> 1 then 0
      else 1)"

section \<open>Relocation\<close>

datatype reloc = RELOC_OK | RELOC_UNDEF_SYMBOL | RELOC_ERROR_SYMTAB | RELOC_ERROR_TARGET | RELOC_ERROR_SYMBOL
  | RELOC_ERROR_MEM | RELOC_ERROR | RELOC_COMMON

text \<open>
  From the label \<open>ignore_symbol\<close> on: \<open>sect\<close> is the header of the target section, \<open>sec\<close> what
  \<open>symbol->section\<close> is and \<open>sect2\<close> the header of the symbol's section.
\<close>

definition patch :: "mem \<Rightarrow> addr \<Rightarrow> addr \<Rightarrow> addr \<Rightarrow> addr \<Rightarrow> u32 \<Rightarrow> u16 \<Rightarrow> reloc \<times> mem" where
  "patch m img rel sect sect2 sym_val sec =
     (let rel_val = img + sh_offset (elf_sect_at m sect) + r_adr (elf_reloc_at m rel);
          m = store32 m rel_val (if sec = SHN_SOMBRA then sym_val + load32 m rel_val
                else img + sym_val + sh_offset (elf_sect_at m sect2) + load32 m rel_val);
          typ = r_type (elf_reloc_at m rel)
      in if typ = 1 then (RELOC_OK, m)
         else if typ = 2 then (RELOC_OK, store32 m rel_val (load32 m rel_val - rel_val))
         else (RELOC_ERROR, m))"

text \<open>
  \<open>junk_sym\<close> and \<open>junk_sect\<close> are the values of \<open>symbol\<close> and \<open>sect2\<close> before anything is stored there:
  a relocation without a symbol reads both, one with an absolute symbol the second.
\<close>

definition elf32_reloc_apply :: "addr \<Rightarrow> addr \<Rightarrow> mem \<Rightarrow> addr \<Rightarrow> addr \<Rightarrow> u32 \<Rightarrow> u32 \<Rightarrow> (reloc \<times> mem) result" where
  "elf32_reloc_apply junk_sym junk_sect m img rel symtab_idx t_sect_idx =
     (let r = elf_reloc_at m rel
      in if r_type r = 0 then Inr (RELOC_OK, m)
         else case elf32_get_section_i m img symtab_idx of
           (_, None) \<Rightarrow> Inr (RELOC_ERROR_SYMTAB, m)
         | (_, Some symtab) \<Rightarrow>
         (case elf32_get_section_i m img t_sect_idx of
           (_, None) \<Rightarrow> Inr (RELOC_ERROR_TARGET, m)
         | (_, Some sect) \<Rightarrow>
         if r_symtab_index r = 0 then Inr (patch m img rel sect junk_sect 0 (st_section (elf_sym_at m junk_sym)))
         else bindr (elf32_get_symbol_i m img (r_symtab_index r) symtab) (\<lambda>(_, p).
           case p of None \<Rightarrow> Inr (RELOC_ERROR_SYMBOL, m)
           | Some p \<Rightarrow>
             let sym = elf_sym_at m p; sec = st_section sym
             in if sec = SHN_COMMON then Inr (RELOC_COMMON, m)
                else if sec = SHN_ABS \<or> sec = SHN_SOMBRA then Inr (patch m img rel sect junk_sect (st_value sym) sec)
                else case elf32_get_section_i m img (ucast sec) of
                  (_, None) \<Rightarrow> Inr (RELOC_ERROR_SYMBOL, m)
                | (_, Some sect2) \<Rightarrow>
                    if sec \<noteq> 0 then Inr (patch m img rel sect sect2 (st_value sym) sec)
                    else Inr (RELOC_UNDEF_SYMBOL, m))))"

section \<open>Modules\<close>

text \<open>What \<open>module_load\<close> prints, its only effect; \<open>init\<close> and \<open>foo\<close> are the addresses of the two literals.\<close>

datatype module_msg = Loading addr | Invalid_MO | Init_at u32 | Foo_at u32 addr | Module_loaded

definition module_load :: "addr \<Rightarrow> addr \<Rightarrow> mem \<Rightarrow> addr \<Rightarrow> addr \<Rightarrow> module_msg list result" where
  "module_load init foo m name elf =
     (if elf32_check m elf ET_DYN = FALSE8 then Inr [Loading name, Invalid_MO]
      else
        bindr (elf32_search_symbol m elf init (- 1)) (\<lambda>(_, s1).
        bindr (elf32_search_symbol m elf foo (- 1)) (\<lambda>(_, s2).
          Inr ([Loading name] @
            (case s1 of None \<Rightarrow> [] | Some p \<Rightarrow> [Init_at (elf + st_value (elf_sym_at m p))]) @
            (case s2 of None \<Rightarrow> []
             | Some p \<Rightarrow>
                let sym = elf_sym_at m p
                in (case elf32_get_section_i m elf (ucast (st_section sym)) of
                      (_, None) \<Rightarrow> []
                    | (_, Some sect) \<Rightarrow> let a = sh_offset (elf_sect_at m sect) + st_value sym + elf in [Foo_at a a])) @
            [Module_loaded]))))"

section \<open>Relocating\<close>

text \<open>
  A relocation against a symbol of a section: type 1 adds the address of the symbol to the word,
  type 2 also subtracts the address of the word. The word must not contain the type itself.
\<close>

lemma patch_patches:
  assumes "r_type (elf_reloc_at m rel) \<in> {1, 2}" "sec \<noteq> SHN_SOMBRA"
    and "w = img + sh_offset (elf_sect_at m sect) + r_adr (elf_reloc_at m rel)"
    and "rel + 4 \<notin> {w, w + 1, w + 2, w + 3}"
  shows "\<exists>m'. patch m img rel sect sect2 v sec = (RELOC_OK, m') \<and>
    load32 m' w = load32 m w + (img + v + sh_offset (elf_sect_at m sect2)) -
      (if r_type (elf_reloc_at m rel) = 2 then w else 0) \<and>
    (\<forall>a. a \<notin> {w, w + 1, w + 2, w + 3} \<longrightarrow> m' a = m a)"
proof -
  let ?x = "img + v + sh_offset (elf_sect_at m sect2) + load32 m w"
  have t: "r_type (elf_reloc_at (store32 m w ?x) rel) = r_type (elf_reloc_at m rel)"
    using assms(4) by (simp add: elf_reloc_at_def store32_other)
  show ?thesis
    using assms(1,2) t unfolding patch_def Let_def assms(3) [symmetric]
    by (auto simp: store32_other algebra_simps)
qed

lemma get_section_i_in:
  "index \<le> ucast (e_num_sects m img) \<Longrightarrow> elf32_get_section_i m img index = (1, Some (sect_ptr m img index))"
  by (simp add: elf32_get_section_i_def linorder_not_less)

lemma get_symbol_i_in:
  "\<lbrakk>sh_type (elf_sect_at m st) = SHT_SYMTAB; sh_ent_size (elf_sect_at m st) \<noteq> 0;
    k \<le> sh_sz (elf_sect_at m st) div sh_ent_size (elf_sect_at m st)\<rbrakk> \<Longrightarrow>
    elf32_get_symbol_i m img k st = Inr (1, Some (img + sh_offset (elf_sect_at m st) + sh_ent_size (elf_sect_at m st) * k))"
  by (simp add: elf32_get_symbol_i_def Let_def linorder_not_less)

text \<open>
  C23: a relocation of type 1 or 2 against a symbol of a section adds the address of the symbol to
  the word it names, less the address of the word for type 2, changes no other byte and gives
  \<open>RELOC_OK\<close>, whatever the uninitialised variables hold.
\<close>

theorem reloc_applies:
  fixes m :: mem and img rel :: addr and si ti :: u32
  defines "r \<equiv> elf_reloc_at m rel" and "st \<equiv> elf_sect_at m (sect_ptr m img si)"
    and "target \<equiv> elf_sect_at m (sect_ptr m img ti)"
  defines "w \<equiv> img + sh_offset target + r_adr r"
    and "smb \<equiv> elf_sym_at m (img + sh_offset st + sh_ent_size st * r_symtab_index r)"
  assumes "si \<le> ucast (e_num_sects m img)" "ti \<le> ucast (e_num_sects m img)"
    and "r_type r \<in> {1, 2}" "r_symtab_index r \<noteq> 0"
    and "sh_type st = SHT_SYMTAB" "sh_ent_size st \<noteq> 0" "r_symtab_index r \<le> sh_sz st div sh_ent_size st"
    and "st_section smb \<notin> {0, SHN_ABS, SHN_COMMON, SHN_SOMBRA}" "ucast (st_section smb) \<le> (ucast (e_num_sects m img) :: u32)"
    and "rel + 4 \<notin> {w, w + 1, w + 2, w + 3}"
  shows "\<exists>m'. elf32_reloc_apply js jc m img rel si ti = Inr (RELOC_OK, m') \<and>
    load32 m' w = load32 m w + (img + st_value smb + sh_offset (elf_sect_at m (sect_ptr m img (ucast (st_section smb))))) -
      (if r_type r = 2 then w else 0) \<and>
    (\<forall>a. a \<notin> {w, w + 1, w + 2, w + 3} \<longrightarrow> m' a = m a)"
proof -
  have "r_type r \<noteq> 0" using assms(8) by auto
  then have "elf32_reloc_apply js jc m img rel si ti =
      Inr (patch m img rel (sect_ptr m img ti) (sect_ptr m img (ucast (st_section smb))) (st_value smb) (st_section smb))"
    using assms(6-14) get_symbol_i_in [of m "sect_ptr m img si" "r_symtab_index r" img]
    unfolding elf32_reloc_apply_def r_def st_def target_def smb_def
    by (simp add: get_section_i_in Let_def del: ucast_eq)
  then show ?thesis
    using patch_patches [of m rel "st_section smb" w img "sect_ptr m img ti" "sect_ptr m img (ucast (st_section smb))" "st_value smb"] assms(8,13,15)
    unfolding r_def w_def target_def by auto
qed

text \<open>An image at 1000 with a symbol table, a section, one symbol and one relocation.\<close>

fun poke :: "(addr \<times> u8) list \<Rightarrow> mem" where
  "poke [] a = 0"
| "poke ((b, v) # xs) a = (if a = b then v else poke xs a)"

definition small_module :: mem where
  "small_module = poke [(0x1020, 64), (0x102E, 40), (0x1030, 2),
     (0x1044, 2), (0x1050, 200), (0x1054, 32), (0x1064, 16), (0x1078, 0), (0x1079, 1),
     (0x10DC, 8), (0x10E6, 1), (0x1180, 4), (0x1184, 1), (0x1185, 1)]"

lemmas image_simps = small_module_def load16_def load32_def e_num_sects_def e_shtab_offset_def e_sh_size_def sect_ptr_def
  elf_sect_at_def elf_sym_at_def elf_reloc_at_def SHT_SYMTAB_def SHN_ABS_def SHN_COMMON_def SHN_SOMBRA_def

theorem reloc_applies_witness:
  "\<exists>m'. elf32_reloc_apply 0 0 small_module 0x1000 0x1180 0 1 = Inr (RELOC_OK, m') \<and> load32 m' 0x1104 = 0x1108"
proof -
  have 0: "(0 :: u32) \<le> ucast (e_num_sects small_module 0x1000)" "(1 :: u32) \<le> ucast (e_num_sects small_module 0x1000)"
    "r_type (elf_reloc_at small_module 0x1180) \<in> {1, 2}" "r_symtab_index (elf_reloc_at small_module 0x1180) \<noteq> 0"
    by (simp_all add: image_simps)
  let ?st = "elf_sect_at small_module (sect_ptr small_module 0x1000 0)"
  have 1: "sh_type ?st = SHT_SYMTAB" "sh_ent_size ?st \<noteq> 0"
    "r_symtab_index (elf_reloc_at small_module 0x1180) \<le> sh_sz ?st div sh_ent_size ?st"
    by (simp_all add: image_simps)
  let ?sym = "elf_sym_at small_module (0x1000 + sh_offset ?st + sh_ent_size ?st * r_symtab_index (elf_reloc_at small_module 0x1180))"
  let ?w = "0x1000 + sh_offset (elf_sect_at small_module (sect_ptr small_module 0x1000 1)) + r_adr (elf_reloc_at small_module 0x1180)"
  have 2: "st_section ?sym \<notin> {0, SHN_ABS, SHN_COMMON, SHN_SOMBRA}"
    "ucast (st_section ?sym) \<le> (ucast (e_num_sects small_module 0x1000) :: u32)"
    "0x1180 + 4 \<notin> {?w, ?w + 1, ?w + 2, ?w + 3}" by (simp_all add: image_simps)
  have 3: "?w = 0x1104" "load32 small_module 0x1104 + (0x1000 + st_value ?sym +
      sh_offset (elf_sect_at small_module (sect_ptr small_module 0x1000 (ucast (st_section ?sym))))) -
      (if r_type (elf_reloc_at small_module 0x1180) = 2 then 0x1104 else 0) = 0x1108" by (simp_all add: image_simps)
  show ?thesis using reloc_applies [OF 0 1 2, of 0 0] unfolding 3(1) 3(2) by (elim exE conjE) (intro exI conjI)
qed

end
