(* ===== verification/Elf_Loading.thy ===== *)
theory Elf_Loading
  imports Elf
begin

text \<open>
  What loading an executable leaves in its address space, and what searching a symbol finds: the
  sections of the segments in order, and the first symbol of the name over all symbol tables.
\<close>

section \<open>Loading\<close>

text \<open>The sections of an address space: what its array holds.\<close>

definition sects_at :: "(addr \<Rightarrow> sect option) \<Rightarrow> addr \<Rightarrow> sect list \<Rightarrow> bool" where
  "sects_at h p xs \<longleftrightarrow> (\<forall>k < length xs. h (p + of_nat (16 * k)) = Some (xs ! k))"

definition aspace_has :: "'a exec_state_scheme \<Rightarrow> addr \<Rightarrow> sect list \<Rightarrow> bool" where
  "aspace_has s as xs \<longleftrightarrow> (\<exists>a. aspaces s as = Some a \<and> unat (as_sects a) = length xs \<and>
     (xs \<noteq> [] \<longrightarrow> as_sect a \<noteq> NULL \<and> sects_at (sections s) (as_sect a) xs \<and>
       unat (as_sect a) + 16 * length xs \<le> unat (malloc_top s)))"

lemma unat_slot: "unat p + k < 4294967296 \<Longrightarrow> unat (p + of_nat k :: addr) = unat p + k"
  by (simp add: unat_word_ariths unat_of_nat)

lemma copy_sects_below:
  "unat a < unat dst \<Longrightarrow> unat dst + 16 * n < 4294967296 \<Longrightarrow> copy_sects n src dst h a = h a"
proof (induction n arbitrary: src dst h)
  case (Suc n)
  have "unat (dst + 16) = unat dst + 16" using Suc.prems unat_slot [of dst 16] by simp
  then have "copy_sects n (src + 16) (dst + 16) (h(dst := h src)) a = (h(dst := h src)) a"
    using Suc.IH [of "dst + 16"] Suc.prems by simp
  then show ?case using Suc.prems by auto
qed simp

lemma copy_sects_copies:
  "\<lbrakk>k < n; unat src + 16 * n \<le> unat dst; unat dst + 16 * n < 4294967296\<rbrakk> \<Longrightarrow>
    copy_sects n src dst h (dst + of_nat (16 * k)) = h (src + of_nat (16 * k))"
proof (induction n arbitrary: src dst h k)
  case (Suc n)
  let ?h = "h(dst := h src)"
  have d: "unat (dst + 16) = unat dst + 16" and s: "unat (src + 16) = unat src + 16"
    using Suc.prems unat_slot [of dst 16] unat_slot [of src 16] by simp_all
  show ?case
  proof (cases k)
    case 0
    have "copy_sects n (src + 16) (dst + 16) ?h dst = ?h dst"
      by (rule copy_sects_below) (use d Suc.prems in simp_all)
    then show ?thesis using 0 by simp
  next
    case (Suc j)
    have a: "unat (src + 16 + of_nat (16 * j)) = unat src + 16 + 16 * j"
      using unat_slot [of "src + 16" "16 * j"] s Suc Suc.prems by simp
    have "copy_sects n (src + 16) (dst + 16) ?h (dst + 16 + of_nat (16 * j)) = ?h (src + 16 + of_nat (16 * j))"
      by (rule Suc.IH) (use d s Suc Suc.prems in simp_all)
    moreover have "src + 16 + of_nat (16 * j) \<noteq> dst" using a Suc Suc.prems by auto
    ultimately show ?thesis using Suc by (simp add: algebra_simps)
  qed
qed simp

lemma section_create_appends:
  assumes wf: "mm_wf s" and as: "aspace_has s as xs" and room: "malloc_room s (20 + 16 * (length xs + 1))"
  shows "\<exists>s'. aspace_section_create as adr sz fl off s = Inr (FALSE8, s') \<and> mm_wf s' \<and> bytes s' = bytes s \<and>
    aspace_has s' as (xs @ [\<lparr>s_addr = adr, s_size = sz, s_flags = fl, s_offset = off\<rparr>]) \<and> heap s' = heap s \<and>
    unat (malloc_top s') = unat (malloc_top s) + (20 + 16 * (length xs + 1))"
proof -
  let ?n = "16 * (length xs + 1)" and ?x = "\<lparr>s_addr = adr, s_size = sz, s_flags = fl, s_offset = off\<rparr>"
  obtain a where a: "aspaces s as = Some a" "unat (as_sects a) = length xs"
      "xs \<noteq> [] \<Longrightarrow> as_sect a \<noteq> NULL \<and> sects_at (sections s) (as_sect a) xs \<and>
       unat (as_sect a) + 16 * length xs \<le> unat (malloc_top s)"
    using as by (auto simp: aspace_has_def)
  have nx: "as_sects a = of_nat (length xs)" unfolding a(2) [symmetric] by simp
  have pos: "0 < ?n" by simp
  have n: "(as_sects a + 1) * 16 = of_nat ?n" unfolding nx by (simp add: algebra_simps)
  obtain p s1 where m: "malloc (of_nat ?n) s = Inr (p, s1)" "mm_wf s1" "p \<noteq> NULL" "bytes s1 = bytes s"
      "unat p = unat (malloc_top s) + 20" "fits p ?n" "unat (malloc_top s1) = unat p + ?n" "heap s1 = heap s"
      "\<exists>lb. s1 = malloced (of_nat ?n) s lb"
    using malloc_bytes [OF wf pos room] by blast
  have k: "aspaces s1 = aspaces s" "sections s1 = sections s" using m(9) by (auto simp: malloced_def)
  define h where "h = (if as_sect a \<noteq> NULL then copy_sects (length xs) (as_sect a) p (sections s) else sections s)"
  define h' where "h' = h(p + 16 * as_sects a \<mapsto> ?x)"
  let ?s = "s1\<lparr>sections := h', aspaces := (aspaces s)(as \<mapsto> a\<lparr>as_sect := p, as_sects := as_sects a + 1\<rparr>)\<rparr>"
  have slot: "unat (p + of_nat (16 * j)) = unat p + 16 * j" if "j \<le> length xs" for j
    using unat_slot [of p "16 * j"] m(6) that by (simp add: fits_def)
  have new: "p + 16 * as_sects a = p + of_nat (16 * length xs)" unfolding nx by simp
  have old: "h (p + of_nat (16 * j)) = Some (xs ! j)" if "j < length xs" for j
  proof -
    have ne: "xs \<noteq> []" using that by auto
    then have "h (p + of_nat (16 * j)) = sections s (as_sect a + of_nat (16 * j))"
      using a(3) m(5,6) that copy_sects_copies [of j "length xs" "as_sect a" p "sections s"]
      unfolding h_def by (simp add: fits_def del: of_nat_mult)
    then show ?thesis using a(3) ne that by (simp add: sects_at_def)
  qed
  have "sects_at h' p (xs @ [?x])"
    unfolding sects_at_def
  proof (intro allI impI)
    fix j assume j: "j < length (xs @ [?x])"
    show "h' (p + of_nat (16 * j)) = Some ((xs @ [?x]) ! j)"
    proof (cases "j < length xs")
      case True
      then have "p + of_nat (16 * j) \<noteq> p + of_nat (16 * length xs)"
        using slot [of j] slot [of "length xs"] by (metis nat_less_le add_left_cancel mult_cancel1 order_refl zero_neq_numeral)
      then show ?thesis using old [OF True] True by (simp add: h'_def new nth_append del: of_nat_mult)
    next
      case False
      then show ?thesis using j by (simp add: h'_def new less_Suc_eq del: of_nat_mult)
    qed
  qed
  moreover have "unat (as_sects a + 1) = length xs + 1"
    using a(2) m(6) by (subst unat_plus_1) (simp_all add: fits_def)
  ultimately have "aspace_has ?s as (xs @ [?x])" using m(3,7) by (simp add: aspace_has_def)
  moreover have "aspace_section_create as adr sz fl off s = Inr (FALSE8, ?s)"
    unfolding aspace_section_create_def using a(1,2) m(1) [folded n] m(3) k by (simp add: h'_def h_def Let_def)
  moreover have "mm_wf ?s" using m(2) by (simp add: mm_wf_def)
  ultimately show ?thesis using m by (intro exI [of _ ?s]) simp
qed

text \<open>
  What loading means: every segment of type 1 up to the first forbidden one gives a section with
  the bytes of the file, and a zeroed one for the rest of its memory.
\<close>

definition seg_sections :: "elf_seg \<Rightarrow> sect list" where
  "seg_sections g =
     (if p_type g = 1 then
        \<lparr>s_addr = p_virt_adr g, s_size = p_disk_size g, s_flags = 8 OR (p_flags g AND 7), s_offset = p_offset g\<rparr> #
        (if p_disk_size g < p_mem_size g then
           [\<lparr>s_addr = p_virt_adr g + p_disk_size g, s_size = p_mem_size g - p_disk_size g,
             s_flags = 16 OR (p_flags g AND 7), s_offset = p_offset g\<rparr>] else [])
      else [])"

definition loadable :: "elf_seg \<Rightarrow> bool" where
  "loadable g \<longleftrightarrow> p_type g \<noteq> 2 \<and> p_type g \<noteq> 5"

definition elf_segments :: "mem \<Rightarrow> addr \<Rightarrow> elf_seg list" where
  "elf_segments m elf = map (\<lambda>k. elf_seg_at m (elf + e_phtab_offset m elf + ucast (e_ph_size m elf) * of_nat k)) [0 ..< unat (e_num_ph m elf)]"

definition elf_sections :: "mem \<Rightarrow> addr \<Rightarrow> sect list" where
  "elf_sections m elf = concat (map seg_sections (takeWhile loadable (elf_segments m elf)))"

definition elf_exec_ok :: "mem \<Rightarrow> addr \<Rightarrow> bool" where
  "elf_exec_ok m elf \<longleftrightarrow> load32 m elf = 0x464C457F \<and> m (elf + 4) = 1 \<and> m (elf + 5) = 1 \<and> m (elf + 6) = 1 \<and>
     load16 m (elf + 16) = 2 \<and> load16 m (elf + 18) = 3 \<and> load32 m (elf + 20) = 1"

text \<open>The memory that \<open>k\<close> more sections need when there are \<open>n\<close>: the array is allocated anew each time.\<close>

fun sects_need :: "nat \<Rightarrow> nat \<Rightarrow> nat" where
  "sects_need n 0 = 0"
| "sects_need n (Suc k) = 20 + 16 * (n + 1) + sects_need (n + 1) k"

lemma sects_need_add: "sects_need n (j + k) = sects_need n j + sects_need (n + j) k"
  by (induction j arbitrary: n) simp_all

definition loaded :: "'a exec_state_scheme \<Rightarrow> addr \<Rightarrow> sect list \<Rightarrow> sect list \<Rightarrow> 'a exec_state_scheme \<Rightarrow> bool" where
  "loaded s as xs ys s' \<longleftrightarrow> mm_wf s' \<and> bytes s' = bytes s \<and> aspace_has s' as (xs @ ys) \<and> heap s' = heap s \<and>
    unat (malloc_top s') = unat (malloc_top s) + sects_need (length xs) (length ys)"

lemma loaded_refl: "\<lbrakk>mm_wf s; aspace_has s as xs\<rbrakk> \<Longrightarrow> loaded s as xs [] s"
  by (simp add: loaded_def)

lemma loaded_trans: "\<lbrakk>loaded s as xs ys s1; loaded s1 as (xs @ ys) zs s2\<rbrakk> \<Longrightarrow> loaded s as xs (ys @ zs) s2"
  by (simp add: loaded_def sects_need_add)

lemma loaded_room:
  "\<lbrakk>loaded s as xs ys s1; malloc_room s (sects_need (length xs) (length ys + k))\<rbrakk> \<Longrightarrow>
    malloc_room s1 (sects_need (length xs + length ys) k)"
  by (simp add: loaded_def malloc_room_def sects_need_add)

lemma section_create_loads:
  assumes "mm_wf s" "aspace_has s as xs" "malloc_room s (sects_need (length xs) (Suc k))"
  shows "\<exists>s'. aspace_section_create as adr sz fl off s = Inr (FALSE8, s') \<and>
    loaded s as xs [\<lparr>s_addr = adr, s_size = sz, s_flags = fl, s_offset = off\<rparr>] s'"
proof -
  have "malloc_room s (20 + 16 * (length xs + 1))" using assms(3) by (simp add: malloc_room_def)
  from section_create_appends [OF assms(1,2) this, of adr sz fl off] show ?thesis
    by (elim exE conjE) (intro exI conjI, assumption, simp add: loaded_def)
qed

lemma load_seg_loads:
  assumes wf: "mm_wf s" "aspace_has s as xs" and g: "loadable g"
    and room: "malloc_room s (sects_need (length xs) (length (seg_sections g) + k))"
  shows "\<exists>s'. load_seg as g s = Inr (None, s') \<and> loaded s as xs (seg_sections g) s'"
proof (cases "p_type g = 1")
  case one: True
  let ?x = "\<lparr>s_addr = p_virt_adr g, s_size = p_disk_size g, s_flags = SF_LOAD OR (p_flags g AND 7), s_offset = p_offset g\<rparr>"
  let ?k = "(if p_disk_size g < p_mem_size g then 1 else 0) + k"
  have r: "malloc_room s (sects_need (length xs) (Suc ?k))" using room one by (simp add: seg_sections_def split: if_splits)
  obtain s1 where s1: "aspace_section_create as (p_virt_adr g) (p_disk_size g) (SF_LOAD OR (p_flags g AND 7)) (p_offset g) s =
      Inr (FALSE8, s1)" "loaded s as xs [?x] s1"
    using section_create_loads [OF wf r, of "p_virt_adr g" "p_disk_size g" "SF_LOAD OR (p_flags g AND 7)" "p_offset g"]
    by (elim exE conjE) rule
  show ?thesis
  proof (cases "p_disk_size g < p_mem_size g")
    case True
    have r1: "malloc_room s1 (sects_need (length (xs @ [?x])) (Suc k))"
      using loaded_room [OF s1(2), of "Suc k"] r True by simp
    have "mm_wf s1" "aspace_has s1 as (xs @ [?x])" using s1(2) by (simp_all add: loaded_def)
    from section_create_loads [OF this r1, of "p_virt_adr g + p_disk_size g" "p_mem_size g - p_disk_size g"
        "SF_ZERO OR (p_flags g AND 7)" "p_offset g"]
    obtain s2 where s2: "aspace_section_create as (p_virt_adr g + p_disk_size g) (p_mem_size g - p_disk_size g)
        (SF_ZERO OR (p_flags g AND 7)) (p_offset g) s1 = Inr (FALSE8, s2)"
      "loaded s1 as (xs @ [?x]) [\<lparr>s_addr = p_virt_adr g + p_disk_size g, s_size = p_mem_size g - p_disk_size g,
         s_flags = SF_ZERO OR (p_flags g AND 7), s_offset = p_offset g\<rparr>] s2" by (elim exE conjE) rule
    have "load_seg as g s = Inr (None, s2)" using one True s1(1) s2(1) by (simp add: load_seg_def)
    then show ?thesis using loaded_trans [OF s1(2) s2(2)] one True
      by (intro exI [of _ s2]) (simp add: seg_sections_def SF_LOAD_def SF_ZERO_def)
  next
    case False
    have "load_seg as g s = Inr (None, s1)" using one False s1(1) by (simp add: load_seg_def)
    then show ?thesis using s1(2) one False by (simp add: seg_sections_def SF_LOAD_def)
  qed
next
  case False
  then show ?thesis using g loaded_refl [OF wf] by (simp add: load_seg_def seg_sections_def loadable_def)
qed

lemma load_loop_loads:
  assumes "mm_wf s" "aspace_has s as xs"
    and "segs = map (\<lambda>k. elf_seg_at (bytes s) (elf + e_phtab_offset (bytes s) elf +
      ucast (e_ph_size (bytes s) elf) * (i + of_nat k))) [0 ..< n]"
    and "malloc_room s (sects_need (length xs) (length (concat (map seg_sections (takeWhile loadable segs)))))"
  shows "\<exists>s'. load_loop n elf as i s = Inr (0, s') \<and>
    loaded s as xs (concat (map seg_sections (takeWhile loadable segs))) s'"
  using assms
proof (induction n arbitrary: s xs i segs)
  case 0
  then show ?case by (simp add: loaded_refl)
next
  case (Suc n)
  let ?seg = "\<lambda>i. elf_seg_at (bytes s) (elf + e_phtab_offset (bytes s) elf + ucast (e_ph_size (bytes s) elf) * i)"
  define rest where "rest = map (\<lambda>k. ?seg (i + 1 + of_nat k)) [0 ..< n]"
  have segs: "segs = ?seg i # rest"
    unfolding Suc.prems(3) rest_def upt_conv_Cons [OF zero_less_Suc] map_Suc_upt [symmetric] by (simp add: algebra_simps)
  show ?case
  proof (cases "loadable (?seg i)")
    case True
    have r: "malloc_room s (sects_need (length xs) (length (seg_sections (?seg i)) +
        length (concat (map seg_sections (takeWhile loadable rest)))))"
      using Suc.prems(4) True by (simp add: segs)
    obtain s1 where s1: "load_seg as (?seg i) s = Inr (None, s1)" "loaded s as xs (seg_sections (?seg i)) s1"
      using load_seg_loads [OF Suc.prems(1,2) True r] by (elim exE conjE) rule
    then have b: "mm_wf s1" "aspace_has s1 as (xs @ seg_sections (?seg i))" "bytes s1 = bytes s" by (simp_all add: loaded_def)
    have r1: "malloc_room s1 (sects_need (length (xs @ seg_sections (?seg i)))
        (length (concat (map seg_sections (takeWhile loadable rest)))))"
      using loaded_room [OF s1(2) r] by simp
    obtain s2 where s2: "load_loop n elf as (i + 1) s1 = Inr (0, s2)"
        "loaded s1 as (xs @ seg_sections (?seg i)) (concat (map seg_sections (takeWhile loadable rest))) s2"
      using Suc.IH [OF b(1,2) rest_def [folded b(3)] r1] by (elim exE conjE) rule
    show ?thesis using s1 s2 True loaded_trans [OF s1(2) s2(2)] by (intro exI [of _ s2]) (simp add: Let_def segs)
  next
    case False
    then have "load_loop (Suc n) elf as i s = Inr (0, s)" by (auto simp: Let_def load_seg_def loadable_def)
    then show ?thesis using False loaded_refl [OF Suc.prems(1,2)] by (simp add: segs)
  qed
qed

text \<open>
  C22: an image whose header is not that of a 32-bit executable for this machine is refused with 1
  and nothing changes. Of any other the sections of its segments up to the first forbidden one
  are appended to the address space, in order; the result is 0 also when a forbidden one was met.
\<close>

theorem load_elf_exec_loads:
  assumes "mm_wf s" "aspace_has s as xs"
    and "malloc_room s (sects_need (length xs) (length (elf_sections (bytes s) img)))"
  shows "if elf_exec_ok (bytes s) img
    then \<exists>s'. load_elf_exec img as s = Inr (0, Some (load32 (bytes s) (img + 24)), s') \<and> mm_wf s' \<and> bytes s' = bytes s \<and>
      aspace_has s' as (xs @ elf_sections (bytes s) img)
    else load_elf_exec img as s = Inr (1, None, s)"
proof (cases "elf_exec_ok (bytes s) img")
  case True
  obtain s' where "load_loop (unat (e_num_ph (bytes s) img)) img as 0 s = Inr (0, s')" "loaded s as xs (elf_sections (bytes s) img) s'"
    using load_loop_loads [OF assms(1,2) _ assms(3) [unfolded elf_sections_def], of img 0 "unat (e_num_ph (bytes s) img)"]
    by (auto simp: elf_segments_def elf_sections_def)
  with True show ?thesis
    by (auto simp: load_elf_exec_def elf_exec_ok_def Let_def loaded_def e_magic_def e_bitness_def e_endian_def e_elf_ver_1_def
      e_file_type_def e_machine_def e_elf_ver_2_def e_entry_def)
next
  case False
  then show ?thesis
    by (auto simp: load_elf_exec_def elf_exec_ok_def Let_def e_magic_def e_bitness_def e_endian_def e_elf_ver_1_def
      e_file_type_def e_machine_def e_elf_ver_2_def)
qed

text \<open>An executable at 1000: one segment with a zeroed part, then a forbidden one.\<close>

definition small_exec :: mem where
  "small_exec = poke [(0x1000, 0x7F), (0x1001, 0x45), (0x1002, 0x4C), (0x1003, 0x46), (0x1004, 1), (0x1005, 1), (0x1006, 1),
     (0x1010, 2), (0x1012, 3), (0x1014, 1), (0x1019, 0x80), (0x101C, 52), (0x102A, 32), (0x102C, 2),
     (0x1034, 1), (0x1039, 1), (0x103D, 0x80), (0x1044, 0x10), (0x1048, 0x20), (0x104C, 5), (0x1054, 2)]"

definition exec_machine :: exec_state where
  "exec_machine = byte_state.extend (string_heap\<lparr>bytes := small_exec\<rparr>)
     \<lparr>aspaces = [0x2000 \<mapsto> \<lparr>as_magic = 0x10C00FFE, as_addr = 0, as_size = 0, as_sects = 0, as_sect = NULL, as_sect_phys = NULL,
          as_heap = \<lparr>s_addr = 0, s_size = 0, s_flags = 0, s_offset = 0\<rparr>\<rparr>], sections = Map.empty\<rparr>"

lemma exec_machine_wf: "mm_wf exec_machine"
  unfolding mm_wf_def
  by (rule exI [of _ "[0xC0000000]"]) (simp add: exec_machine_def byte_state.defs string_heap_def used_block_def new_block_def)

theorem load_elf_exec_loads_witness:
  "\<exists>s'. load_elf_exec 0x1000 0x2000 exec_machine = Inr (0, Some 0x8000, s') \<and>
    aspace_has s' 0x2000 [\<lparr>s_addr = 0x8000, s_size = 0x10, s_flags = 0xD, s_offset = 0x100\<rparr>,
      \<lparr>s_addr = 0x8010, s_size = 0x10, s_flags = 0x15, s_offset = 0x100\<rparr>]"
proof -
  have b: "bytes exec_machine = small_exec" by (simp add: exec_machine_def byte_state.defs)
  have n: "unat (e_num_ph small_exec 0x1000) = 2" by (simp add: e_num_ph_def small_exec_def load16_def)
  have g: "elf_segments small_exec 0x1000 =
      [\<lparr>p_type = 1, p_offset = 0x100, p_virt_adr = 0x8000, p_disk_size = 0x10, p_mem_size = 0x20, p_flags = 5\<rparr>,
       \<lparr>p_type = 2, p_offset = 0, p_virt_adr = 0, p_disk_size = 0, p_mem_size = 0, p_flags = 0\<rparr>]"
    unfolding elf_segments_def n
    by (simp add: small_exec_def elf_seg_at_def e_phtab_offset_def e_ph_size_def load16_def load32_def upt_conv_Cons)
  have x: "elf_sections small_exec 0x1000 = [\<lparr>s_addr = 0x8000, s_size = 0x10, s_flags = 0xD, s_offset = 0x100\<rparr>,
      \<lparr>s_addr = 0x8010, s_size = 0x10, s_flags = 0x15, s_offset = 0x100\<rparr>]"
    by (simp add: elf_sections_def g loadable_def seg_sections_def)
  have ok: "elf_exec_ok small_exec 0x1000" "load32 small_exec (0x1000 + 24) = 0x8000"
    by (simp_all add: elf_exec_ok_def small_exec_def load16_def load32_def)
  have a: "aspace_has exec_machine 0x2000 []" by (simp add: aspace_has_def exec_machine_def byte_state.defs)
  have r: "malloc_room exec_machine (sects_need (length ([] :: sect list)) (length (elf_sections (bytes exec_machine) 0x1000)))"
    unfolding b x by (simp add: malloc_room_def exec_machine_def byte_state.defs string_heap_def)
  show ?thesis using load_elf_exec_loads [OF exec_machine_wf a r] unfolding b x using ok by auto
qed

section \<open>Searching symbols\<close>

text \<open>
  The symbol tables of an image, the symbols of a table and where the name of one is; the search
  goes over all of them in order.
\<close>

definition symtabs :: "mem \<Rightarrow> addr \<Rightarrow> addr list" where
  "symtabs m img = filter (\<lambda>p. sh_type (elf_sect_at m p) = SHT_SYMTAB)
     (map (\<lambda>k. sect_ptr m img (of_nat k)) [0 ..< unat (e_num_sects m img)])"

definition table_syms :: "mem \<Rightarrow> addr \<Rightarrow> addr \<Rightarrow> addr list" where
  "table_syms m img t = (let st = elf_sect_at m t
     in map (\<lambda>k. img + sh_offset st + of_nat k * sh_ent_size st) [0 ..< unat (sh_sz st div sh_ent_size st)])"

definition strtab_of :: "mem \<Rightarrow> addr \<Rightarrow> addr \<Rightarrow> elf_sect" where
  "strtab_of m img t = elf_sect_at m (sect_ptr m img (sh_link (elf_sect_at m t)))"

definition sym_string :: "mem \<Rightarrow> addr \<Rightarrow> addr \<Rightarrow> addr \<Rightarrow> addr" where
  "sym_string m img t p = img + sh_offset (strtab_of m img t) + st_name (elf_sym_at m p)"

definition symtab_ok :: "mem \<Rightarrow> addr \<Rightarrow> addr \<Rightarrow> bool" where
  "symtab_ok m img t \<longleftrightarrow> sh_link (elf_sect_at m t) \<le> ucast (e_num_sects m img) \<and>
     sh_type (strtab_of m img t) = SHT_STRTAB \<and> sh_ent_size (elf_sect_at m t) \<noteq> 0"

definition find_result :: "addr option \<Rightarrow> u8 \<times> addr option" where
  "find_result r = (case r of None \<Rightarrow> (0, None) | Some p \<Rightarrow> (1, Some p))"

lemma find_result_simps [simp]: "find_result None = (0, None)" "find_result (Some p) = (1, Some p)"
  by (simp_all add: find_result_def)

lemma symbol_loop_finds:
  assumes "string_at m name x" "typ \<le> 0"
    and "\<forall>p \<in> set (map (\<lambda>k. img + sh_offset st + (i + of_nat k) * sh_ent_size st) [0 ..< n]).
      string_at m (strings + st_name (elf_sym_at m p)) (nm p)"
  shows "symbol_loop n m img strings name typ st i =
    Inr (find_result (find (\<lambda>p. nm p = x) (map (\<lambda>k. img + sh_offset st + (i + of_nat k) * sh_ent_size st) [0 ..< n])))"
  using assms
proof (induction n arbitrary: i)
  case 0
  then show ?case by simp
next
  case (Suc n)
  let ?p = "img + sh_offset st + i * sh_ent_size st"
  let ?rest = "map (\<lambda>k. img + sh_offset st + (i + 1 + of_nat k) * sh_ent_size st) [0 ..< n]"
  have l: "map (\<lambda>k. img + sh_offset st + (i + of_nat k) * sh_ent_size st) [0 ..< Suc n] = ?p # ?rest"
    by (simp only: map_upt_shift) (simp add: add.assoc)
  have h: "string_at m (strings + st_name (elf_sym_at m ?p)) (nm ?p)"
    "\<forall>p \<in> set ?rest. string_at m (strings + st_name (elf_sym_at m p)) (nm p)"
    using Suc.prems(3) unfolding l by simp_all
  have c: "\<exists>c. strcmp m (strings + st_name (elf_sym_at m ?p)) name = Inr c \<and> (c = 0 \<longleftrightarrow> nm ?p = x)"
    using strcmp_spec [OF h(1) Suc.prems(1)] cmp_spec_eq_0 [OF string_at_nonzero [OF h(1)] string_at_nonzero [OF Suc.prems(1)]] by simp
  show ?case using c Suc.IH [OF Suc.prems(1,2) h(2)] Suc.prems(2) unfolding l by (auto simp: Let_def)
qed

lemma get_symbol_by_name_finds:
  assumes "string_at m name x" "typ \<le> 0" "symtab_ok m img t" "sh_type (elf_sect_at m t) = SHT_SYMTAB"
    and "\<forall>p \<in> set (table_syms m img t). string_at m (sym_string m img t p) (nm p)"
  shows "elf32_get_symbol_by_name m img name typ t (sect_ptr m img (sh_link (elf_sect_at m t))) =
    Inr (find_result (find (\<lambda>p. nm p = x) (table_syms m img t)))"
  using assms
    symbol_loop_finds [of m name x "typ" img "elf_sect_at m t" 0 "unat (sh_sz (elf_sect_at m t) div sh_ent_size (elf_sect_at m t))"
    "img + sh_offset (strtab_of m img t)" nm]
  by (simp add: elf32_get_symbol_by_name_def Let_def symtab_ok_def table_syms_def sym_string_def strtab_of_def)

text \<open>The tables are counted and indexed in the order of the section headers.\<close>

definition tabs_from :: "mem \<Rightarrow> addr \<Rightarrow> u32 \<Rightarrow> nat \<Rightarrow> addr list" where
  "tabs_from m img i n = filter (\<lambda>p. sh_type (elf_sect_at m p) = SHT_SYMTAB) (map (\<lambda>k. sect_ptr m img (i + of_nat k)) [0 ..< n])"

lemma tabs_from_Suc: "tabs_from m img i (Suc n) =
    (if sh_type (elf_sect_at m (sect_ptr m img i)) = SHT_SYMTAB then [sect_ptr m img i] else []) @ tabs_from m img (i + 1) n"
  unfolding tabs_from_def map_upt_shift by (simp add: add.assoc)

lemma symtabs_from: "symtabs m img = tabs_from m img 0 (unat (e_num_sects m img))"
  by (simp add: symtabs_def tabs_from_def)

lemma sections_loop_counts:
  "sections_loop n m img SHT_SYMTAB (- 1) i r = r + int (length (tabs_from m img i n))"
proof (induction n arbitrary: i r)
  case 0
  show ?case by (simp add: tabs_from_def)
next
  case (Suc n)
  show ?case by (simp add: Let_def Suc.IH tabs_from_Suc)
qed

lemma sections_i_loop_nth:
  "unat j < length (tabs_from m img i n) \<Longrightarrow>
    sections_i_loop n m img j SHT_SYMTAB (- 1) i = (1, Some (tabs_from m img i n ! unat j))"
proof (induction n arbitrary: i j)
  case 0
  then show ?case by (simp add: tabs_from_def)
next
  case (Suc n)
  show ?case
  proof (cases "sh_type (elf_sect_at m (sect_ptr m img i)) = SHT_SYMTAB \<and> j \<noteq> 0")
    case True
    then have "unat j = Suc (unat (j - 1))" by (simp add: unat_minus_1 unat_gt_0)
    then show ?thesis using Suc.prems Suc.IH [of "j - 1" "i + 1"] True by (simp add: Let_def tabs_from_Suc)
  next
    case False
    then show ?thesis using Suc.prems Suc.IH [of j "i + 1"] by (auto simp: Let_def tabs_from_Suc)
  qed
qed

lemma length_tabs: "length (symtabs m img) < 65536"
proof -
  have "length (symtabs m img) \<le> unat (e_num_sects m img)"
    unfolding symtabs_def by (rule order_trans [OF length_filter_le]) simp
  also have "unat (e_num_sects m img) < 2 ^ LENGTH(16)" by (rule unsigned_less)
  finally show ?thesis by simp
qed

lemma find_pairs: "find (\<lambda>(t, p). nm t p = x) (map (Pair t) ps) = map_option (Pair t) (find (\<lambda>p. nm t p = x) ps)"
  by (induction ps) auto

lemma search_loop_finds:
  assumes "string_at m name x" "typ \<le> 0" "\<forall>t \<in> set (symtabs m img). symtab_ok m img t \<and>
      (\<forall>p \<in> set (table_syms m img t). string_at m (sym_string m img t p) (nm t p))"
    and "i + n = length (symtabs m img)"
  shows "search_loop n m img name typ (of_nat i) = Inr (find_result (map_option snd
    (find (\<lambda>(t, p). nm t p = x) (concat (map (\<lambda>t. map (Pair t) (table_syms m img t)) (drop i (symtabs m img)))))))"
  using assms
proof (induction n arbitrary: i)
  case 0
  then show ?case by simp
next
  case (Suc n)
  let ?t = "symtabs m img ! i"
  have i: "i < length (symtabs m img)" using Suc.prems(4) by simp
  then have u: "unat (of_nat i :: u32) = i" using length_tabs [of m img] by (simp add: unat_of_nat_addr)
  have t: "symtab_ok m img ?t" "sh_type (elf_sect_at m ?t) = SHT_SYMTAB"
      "\<forall>p \<in> set (table_syms m img ?t). string_at m (sym_string m img ?t p) (nm ?t p)"
    using Suc.prems(3) nth_mem [OF i] by (auto simp: symtabs_def simp del: nth_mem)
  have 1: "elf32_get_sections_i m img (of_nat i) SHT_SYMTAB (- 1) = (1, Some ?t)"
    unfolding elf32_get_sections_i_def using sections_i_loop_nth [of "of_nat i" m img 0] i by (simp add: u symtabs_from)
  have 2: "elf32_get_section_i m img (sh_link (elf_sect_at m ?t)) = (1, Some (sect_ptr m img (sh_link (elf_sect_at m ?t))))"
    using t(1) by (simp add: symtab_ok_def get_section_i_in)
  have d: "drop i (symtabs m img) = ?t # drop (Suc i) (symtabs m img)" using i by (simp add: Cons_nth_drop_Suc)
  show ?case
    using Suc.IH [of "Suc i"] Suc.prems get_symbol_by_name_finds [OF Suc.prems(1,2) t] 1 2 unfolding d
    by (cases "find (\<lambda>p. nm ?t p = x) (table_syms m img ?t)") (simp_all add: find_append_option find_pairs add.commute)
qed

text \<open>
  C24: searching a symbol by name, of any type, finds the first one with that name over all symbol
  tables of the image in order, and nothing when there is none.
\<close>

theorem search_symbol_finds:
  assumes "string_at m name x"
    and "\<forall>t \<in> set (symtabs m img). symtab_ok m img t \<and>
      (\<forall>p \<in> set (table_syms m img t). string_at m (sym_string m img t p) (nm t p))"
  shows "elf32_search_symbol m img name (- 1) = Inr (find_result (map_option snd
    (find (\<lambda>(t, p). nm t p = x) (concat (map (\<lambda>t. map (Pair t) (table_syms m img t)) (symtabs m img))))))"
  using search_loop_finds [OF assms(1) _ assms(2), of "- 1" 0 "length (symtabs m img)"]
  by (simp add: elf32_search_symbol_def elf32_get_sections_def sections_loop_counts symtabs_from)

text \<open>An image with the symbols \<open>""\<close> and \<open>"i"\<close>, and the name \<open>"i"\<close> at 2000.\<close>

definition named_module :: mem where
  "named_module = poke [(0x1020, 64), (0x102E, 40), (0x1030, 2), (0x1044, 2), (0x1051, 1), (0x1054, 32), (0x1058, 1), (0x1064, 16),
     (0x106C, 3), (0x1079, 2), (0x1110, 1), (0x1201, 0x69), (0x2000, 0x69)]"

theorem search_symbol_finds_witness:
  "elf32_search_symbol named_module 0x1000 0x2000 (- 1) = Inr (1, Some 0x1110)"
proof -
  let ?nm = "\<lambda>t p :: addr. if p = 0x1110 then [0x69 :: u8] else []"
  note d = image_simps named_module_def
  have n: "unat (e_num_sects named_module 0x1000) = 2" by (simp add: d)
  have t: "symtabs named_module 0x1000 = [0x1040]" unfolding symtabs_def n by (simp add: d upt_conv_Cons)
  have z: "unat (sh_sz (elf_sect_at named_module 0x1040) div sh_ent_size (elf_sect_at named_module 0x1040)) = 2"
    by (simp add: d)
  have y: "table_syms named_module 0x1000 0x1040 = [0x1100, 0x1110]"
    unfolding table_syms_def Let_def z by (simp add: d upt_conv_Cons)
  have ok: "symtab_ok named_module 0x1000 0x1040" by (simp add: symtab_ok_def strtab_of_def SHT_STRTAB_def d)
  have at: "string_at named_module 0x2000 [0x69]" by (simp add: d)
  have nm: "string_at named_module (sym_string named_module 0x1000 0x1040 0x1100) []"
    "string_at named_module (sym_string named_module 0x1000 0x1040 0x1110) [0x69]"
    by (simp_all add: sym_string_def strtab_of_def d)
  have all: "\<forall>t \<in> set (symtabs named_module 0x1000). symtab_ok named_module 0x1000 t \<and>
      (\<forall>p \<in> set (table_syms named_module 0x1000 t). string_at named_module (sym_string named_module 0x1000 t p) (?nm t p))"
    using ok nm by (simp add: t y)
  show ?thesis using search_symbol_finds [OF at all] by (simp add: t y)
qed

end
