(* ===== verification/LinkedList.thy ===== *)
theory LinkedList
  imports Alloc_String
begin

text \<open>
  lib/list.c: singly linked lists of pointers.

  The state extends the memory's with the list nodes, a typed heap. \<open>nodes_at h l as\<close> says that
  the list \<open>l\<close> is made of the nodes \<open>as\<close>; \<open>list_at\<close> adds the data it holds. A walk that does not
  end within \<open>addr_space\<close> steps is on a cycle and is \<open>Diverge\<close>.

  The locale \<open>list_visitor\<close> is the contract of a callback of \<open>list_foreach\<close>: it reads the node,
  says whether to stop and leaves the list alone. Its lemma gives the result of the walk; the
  clients of \<open>list_foreach\<close> interpret it.
\<close>

section \<open>The code\<close>

definition LIST_MAGIC :: u32 where
  "LIST_MAGIC = 0xC0FFBABE"

record lnode =
  l_magic :: u32
  l_data :: u32
  l_next :: addr

record list_state = byte_state +
  lnodes :: "addr \<Rightarrow> lnode option"

text \<open>\<open>while( last->next ) last = last->next;\<close>\<close>

fun last_node :: "nat \<Rightarrow> (addr \<Rightarrow> lnode option) \<Rightarrow> addr \<Rightarrow> addr result" where
  "last_node 0 h l = Inl Diverge"
| "last_node (Suc n) h l =
     bindr (deref h l) (\<lambda>nd. if l_next nd \<noteq> NULL then last_node n h (l_next nd) else Inr l)"

text \<open>\<open>sizeof(struct list)\<close> is 12.\<close>

definition list_add :: "addr \<Rightarrow> u32 \<Rightarrow> 'a list_state_scheme \<Rightarrow> (addr \<times> 'a list_state_scheme) result" where
  "list_add l d s =
     bindr (malloc 12 s) (\<lambda>(e, s).
       if e = NULL then Inr (l, s)
       else
         let s = s\<lparr>lnodes := (lnodes s)(e \<mapsto> \<lparr>l_magic = LIST_MAGIC, l_data = d, l_next = NULL\<rparr>)\<rparr>
         in if l = NULL then Inr (e, s)
            else bindr (deref (lnodes s) l) (\<lambda>nd.
              if l_magic nd \<noteq> LIST_MAGIC then Inr (e, s)
              else bindr (last_node addr_space (lnodes s) l) (\<lambda>p.
                bindr (deref (lnodes s) p) (\<lambda>lnd.
                  Inr (l, s\<lparr>lnodes := (lnodes s)(p \<mapsto> lnd\<lparr>l_next := e\<rparr>)\<rparr>)))))"

text \<open>\<open>list_get\<close>: \<open>n\<close> steps are left. The first access is to \<open>l->magic\<close>, so a NULL list is a fault.\<close>

fun get_loop :: "nat \<Rightarrow> (addr \<Rightarrow> lnode option) \<Rightarrow> addr \<Rightarrow> addr result" where
  "get_loop 0 h cur = Inr cur"
| "get_loop (Suc n) h cur =
     (if cur = NULL then Inr cur else bindr (deref h cur) (\<lambda>nd. get_loop n h (l_next nd)))"

definition list_get :: "addr \<Rightarrow> u32 \<Rightarrow> 'a list_state_scheme \<Rightarrow> addr result" where
  "list_get l idx s =
     bindr (deref (lnodes s) l) (\<lambda>nd.
       if l_magic nd \<noteq> LIST_MAGIC then Inr NULL else get_loop (unat idx) (lnodes s) l)"

text \<open>
  \<open>list_foreach\<close>: the callback may change the state; \<open>None\<close> is a NULL callback. A corrupt entry
  ends the function with a \<open>return\<close> that gives no value.
\<close>

type_synonym 's list_iterator = "addr \<Rightarrow> 's \<Rightarrow> (u8 \<times> 's) result"

fun foreach_nodes :: "nat \<Rightarrow> 'a list_state_scheme list_iterator \<Rightarrow> addr \<Rightarrow> 'a list_state_scheme \<Rightarrow>
    (addr \<times> 'a list_state_scheme) result" where
  "foreach_nodes 0 it e s = Inl Diverge"
| "foreach_nodes (Suc n) it e s =
     bindr (deref (lnodes s) e) (\<lambda>nd.
       if l_magic nd \<noteq> LIST_MAGIC then Inl NoValue
       else bindr (it e s) (\<lambda>(r, s).
         if r = FALSE8 then Inr (e, s)
         else bindr (deref (lnodes s) e) (\<lambda>nd.
           if l_next nd \<noteq> NULL then foreach_nodes n it (l_next nd) s else Inr (NULL, s))))"

definition list_foreach :: "addr \<Rightarrow> 'a list_state_scheme list_iterator option \<Rightarrow> 'a list_state_scheme \<Rightarrow>
    (addr \<times> 'a list_state_scheme) result" where
  "list_foreach l it s =
     (if l = NULL then Inr (NULL, s)
      else bindr (deref (lnodes s) l) (\<lambda>nd.
        if l_magic nd \<noteq> LIST_MAGIC then Inr (NULL, s)
        else case it of None \<Rightarrow> Inr (NULL, s)
             | Some f \<Rightarrow> foreach_nodes addr_space f l s))"

section \<open>Lists in the heap\<close>

fun nodes_at :: "(addr \<Rightarrow> lnode option) \<Rightarrow> addr \<Rightarrow> addr list \<Rightarrow> bool" where
  "nodes_at h l [] \<longleftrightarrow> l = NULL"
| "nodes_at h l (a # as) \<longleftrightarrow> l = a \<and> a \<noteq> NULL \<and>
     (case h a of None \<Rightarrow> False | Some nd \<Rightarrow> l_magic nd = LIST_MAGIC \<and> nodes_at h (l_next nd) as)"

definition node_data :: "(addr \<Rightarrow> lnode option) \<Rightarrow> addr \<Rightarrow> u32" where
  "node_data h a = (case h a of None \<Rightarrow> 0 | Some nd \<Rightarrow> l_data nd)"

definition list_at :: "(addr \<Rightarrow> lnode option) \<Rightarrow> addr \<Rightarrow> addr list \<Rightarrow> u32 list \<Rightarrow> bool" where
  "list_at h l as xs \<longleftrightarrow> nodes_at h l as \<and> map (node_data h) as = xs"

text \<open>Every node lies below the top of the kernel heap, so a new block is not a node.\<close>

definition list_wf :: "'a list_state_scheme \<Rightarrow> bool" where
  "list_wf s \<longleftrightarrow> mm_wf s \<and> (\<forall>a. lnodes s a \<noteq> None \<longrightarrow> unat a < unat (malloc_top s))"

lemma nodes_at_Cons:
  "nodes_at h l (a # as) \<longleftrightarrow> l = a \<and> a \<noteq> NULL \<and>
    (\<exists>nd. h a = Some nd \<and> l_magic nd = LIST_MAGIC \<and> nodes_at h (l_next nd) as)"
  by (auto split: option.splits)

declare nodes_at.simps(2) [simp del] nodes_at_Cons [simp]

lemma nodes_at_unique: "nodes_at h l as \<Longrightarrow> nodes_at h l bs \<Longrightarrow> as = bs"
proof (induction as arbitrary: l bs)
  case Nil
  then show ?case by (cases bs) auto
next
  case (Cons a as)
  then show ?case by (cases bs) auto
qed

lemma nodes_at_suffix: "nodes_at h l (as @ b # bs) \<Longrightarrow> nodes_at h b (b # bs)"
  by (induction as arbitrary: l) auto

lemma nodes_at_distinct: "nodes_at h l as \<Longrightarrow> distinct as"
proof (induction as arbitrary: l)
  case (Cons a as)
  then obtain nd where nd: "h a = Some nd" "nodes_at h (l_next nd) as" by auto
  have "a \<notin> set as"
  proof
    assume "a \<in> set as"
    then obtain us vs where as: "as = us @ a # vs" by (meson split_list)
    have "nodes_at h a (a # vs)" using nd(2) as nodes_at_suffix by blast
    with Cons.prems have "a # as = a # vs" using nodes_at_unique [of h a "a # as" "a # vs"] by auto
    with as show False by simp
  qed
  with Cons.IH [OF nd(2)] show ?case by simp
qed simp

lemma nodes_at_cong: "(\<And>a. a \<in> set as \<Longrightarrow> h a = h' a) \<Longrightarrow> nodes_at h l as = nodes_at h' l as"
  by (induction as arbitrary: l) auto

lemma node_data_cong: "h a = h' a \<Longrightarrow> node_data h a = node_data h' a"
  by (simp add: node_data_def)

lemma list_at_cong: "(\<And>a. a \<in> set as \<Longrightarrow> h a = h' a) \<Longrightarrow> list_at h l as xs = list_at h' l as xs"
  unfolding list_at_def using nodes_at_cong [of as h h' l] node_data_cong [of h _ h']
  by (auto intro!: map_cong)

lemma nodes_at_member: "nodes_at h l as \<Longrightarrow> a \<in> set as \<Longrightarrow> h a \<noteq> None \<and> a \<noteq> NULL"
  by (induction as arbitrary: l) auto

lemma nodes_at_length: "list_wf s \<Longrightarrow> nodes_at (lnodes s) l as \<Longrightarrow> length as < addr_space"
proof -
  assume "list_wf s" "nodes_at (lnodes s) l as"
  then have "set (map unat as) \<subseteq> {1 ..< unat (malloc_top s)}"
    using nodes_at_member by (fastforce simp: list_wf_def unat_gt_0 Suc_le_eq)
  moreover have "distinct (map unat as)"
    using nodes_at_distinct [OF \<open>nodes_at (lnodes s) l as\<close>] by (simp add: distinct_map inj_on_def word_unat_eq_iff)
  ultimately have "length as \<le> card {1 ..< unat (malloc_top s)}"
    by (metis card_mono distinct_card finite_atLeastLessThan length_map)
  then show ?thesis using unat_u32_less [of "malloc_top s"] by (simp add: addr_space_def)
qed

section \<open>Adding\<close>

lemma last_node_last:
  "nodes_at h l (as @ [a]) \<Longrightarrow> length as < n \<Longrightarrow> last_node n h l = Inr a"
proof (induction as arbitrary: l n)
  case Nil
  then show ?case by (cases n) auto
next
  case (Cons b as)
  then obtain k where "n = Suc k" by (cases n) auto
  moreover obtain nd where nd: "h b = Some nd" "nodes_at h (l_next nd) (as @ [a])" "b = l"
    using Cons.prems(1) unfolding append_Cons nodes_at_Cons by blast
  moreover have "l_next nd \<noteq> NULL" using nd(2) by (cases as) auto
  moreover have "length as < k" using Cons.prems(2) \<open>n = Suc k\<close> by simp
  ultimately show ?case using Cons.IH [of "l_next nd" k] by simp
qed

lemma nodes_at_snoc:
  "\<lbrakk>nodes_at h l (as @ [a]); h a = Some nd; e \<noteq> NULL; e \<notin> set (as @ [a]);
    h e = Some \<lparr>l_magic = LIST_MAGIC, l_data = d, l_next = NULL\<rparr>\<rbrakk> \<Longrightarrow>
    nodes_at (h(a \<mapsto> nd\<lparr>l_next := e\<rparr>)) l (as @ [a, e])"
proof (induction as arbitrary: l)
  case Nil
  then show ?case by auto
next
  case (Cons b as)
  then have "b \<noteq> a" using nodes_at_distinct [of h l "(b # as) @ [a]"] by auto
  with Cons show ?case by auto
qed

lemma lists_malloced [simp]: "lnodes (malloced sz s lb) = lnodes s"
  by (simp add: malloced_def)

lemma malloc_node:
  assumes "list_wf s" "malloc_room s 32"
  shows "\<exists>e s'. malloc 12 s = Inr (e, s') \<and> mm_wf s' \<and> e \<noteq> NULL \<and> lnodes s' = lnodes s \<and> lnodes s e = None \<and>
    unat (malloc_top s) < unat e \<and> unat e < unat (malloc_top s') \<and>
    unat (malloc_top s') = unat (malloc_top s) + 32 \<and> heap s' = heap s \<and>
    list_state.more s' = list_state.more s \<and> bytes s' = bytes s"
proof -
  obtain s' lb where s': "malloc 12 s = Inr (malloc_top s + sizeof_mblock, s')" "mm_wf s'"
      "unat (malloc_top s') = unat (malloc_top s) + 32" "heap s' = heap s" "s' = malloced 12 s lb"
    using malloc_bump [of s 12] assms by (auto simp: list_wf_def)
  have e: "unat (malloc_top s + sizeof_mblock) = unat (malloc_top s) + 20"
    using assms(2) unat_u32_less [of "heap s"]
    by (simp add: malloc_room_def sizeof_mblock_def unat_word_ariths)
  then have "lnodes s (malloc_top s + sizeof_mblock) = None"
    using assms(1) by (auto simp: list_wf_def)
  moreover have "malloc_top s + sizeof_mblock \<noteq> 0" using e by auto
  moreover have "lnodes s' = lnodes s" "list_state.more s' = list_state.more s" "bytes s' = bytes s"
    unfolding s'(5) by (simp_all add: malloced_def)
  ultimately show ?thesis using s' e
    by (intro exI [of _ "malloc_top s + sizeof_mblock"] exI [of _ s']) simp
qed

lemma list_add_appends:
  assumes wf: "list_wf s" and room: "malloc_room s 32" and at: "list_at (lnodes s) l as xs"
  shows "\<exists>l' e s'. list_add l d s = Inr (l', s') \<and> list_wf s' \<and> lnodes s e = None \<and>
    list_at (lnodes s') l' (as @ [e]) (xs @ [d]) \<and> (l \<noteq> NULL \<longrightarrow> l' = l) \<and>
    (\<forall>a. a \<noteq> e \<longrightarrow> a \<notin> set as \<longrightarrow> lnodes s' a = lnodes s a) \<and>
    unat (malloc_top s') = unat (malloc_top s) + 32 \<and> heap s' = heap s \<and>
    list_state.more s' = list_state.more s \<and> bytes s' = bytes s"
proof -
  obtain e s1 where m: "malloc 12 s = Inr (e, s1)" "mm_wf s1" "e \<noteq> NULL" "lnodes s1 = lnodes s" "lnodes s e = None"
      "unat e < unat (malloc_top s1)" "unat (malloc_top s1) = unat (malloc_top s) + 32" "heap s1 = heap s"
      "list_state.more s1 = list_state.more s" "bytes s1 = bytes s"
    using malloc_node [OF wf room] by blast
  let ?nd = "\<lparr>l_magic = LIST_MAGIC, l_data = d, l_next = NULL\<rparr>"
  let ?h = "(lnodes s)(e \<mapsto> ?nd)"
  have below: "unat a < unat (malloc_top s1)" if "lnodes s a \<noteq> None" for a
    using that wf m(7) by (fastforce simp: list_wf_def)
  have wf': "list_wf (s1\<lparr>lnodes := h\<rparr>)" if "\<And>a. h a \<noteq> None \<Longrightarrow> a = e \<or> lnodes s a \<noteq> None" for h
    using m(2,6) below that by (fastforce simp: list_wf_def mm_wf_def)
  show ?thesis
  proof (cases as rule: rev_cases)
    case Nil
    then have "l = NULL" "xs = []" using at by (simp_all add: list_at_def)
    then have "list_add l d s = Inr (e, s1\<lparr>lnodes := ?h\<rparr>)" using m by (simp add: list_add_def Let_def)
    moreover have "list_wf (s1\<lparr>lnodes := ?h\<rparr>)" by (rule wf') (auto split: if_splits)
    ultimately show ?thesis using Nil \<open>l = NULL\<close> \<open>xs = []\<close> m
      by (intro exI [of _ e] exI [of _ "s1\<lparr>lnodes := ?h\<rparr>"]) (simp add: list_at_def node_data_def)
  next
    case (snoc bs a)
    have nodes: "nodes_at (lnodes s) l (bs @ [a])" using at snoc by (simp add: list_at_def)
    have en: "e \<notin> set (bs @ [a])" using nodes_at_member [OF nodes] m(5) by metis
    obtain nd where nd: "lnodes s a = Some nd" using nodes_at_member [OF nodes, of a] by auto
    have ea: "e \<noteq> a" using en by auto
    have nodes': "nodes_at ?h l (bs @ [a])"
      by (rule nodes_at_cong [THEN iffD1, OF _ nodes]) (use en in auto)
    obtain n0 where n0: "?h l = Some n0" "l_magic n0 = LIST_MAGIC" "l \<noteq> NULL"
      using nodes' by (cases bs) (auto simp del: fun_upd_apply)
    have "length bs < addr_space" using nodes_at_length [OF wf nodes] by simp
    note ln = last_node_last [OF nodes' this]
    let ?h' = "?h(a \<mapsto> nd\<lparr>l_next := e\<rparr>)"
    have "list_add l d s = Inr (l, s1\<lparr>lnodes := ?h'\<rparr>)"
      using m n0 ln nd ea by (simp add: list_add_def Let_def del: fun_upd_apply) (simp add: nd ea [symmetric])
    moreover have "nodes_at ?h' l (bs @ [a, e])"
      using nodes_at_snoc [OF nodes', of nd e d] nd ea en m(3) by auto
    moreover have "map (node_data ?h') (bs @ [a, e]) = xs @ [d]"
    proof -
      have "node_data ?h' b = node_data (lnodes s) b" if "b \<in> set bs" for b
        using that en nodes_at_distinct [OF nodes] by (intro node_data_cong) auto
      moreover have "node_data ?h' a = node_data (lnodes s) a" by (simp add: node_data_def nd)
      moreover have "node_data ?h' e = d" using ea by (simp add: node_data_def)
      ultimately show ?thesis using at snoc by (auto simp: list_at_def)
    qed
    moreover have "list_wf (s1\<lparr>lnodes := ?h'\<rparr>)" by (rule wf') (use nd in \<open>auto split: if_splits\<close>)
    ultimately show ?thesis using snoc n0(3) m
      by (intro exI [of _ l] exI [of _ e] exI [of _ "s1\<lparr>lnodes := ?h'\<rparr>"]) (simp add: list_at_def)
  qed
qed

section \<open>Reading\<close>

lemma get_loop_nth:
  "nodes_at h l as \<Longrightarrow> get_loop n h l = Inr (if n < length as then as ! n else NULL)"
proof (induction n arbitrary: l as)
  case 0
  then show ?case by (cases as) auto
next
  case (Suc n)
  then show ?case by (cases as) auto
qed

text \<open>
  A callback of \<open>list_foreach\<close>: on a node holding \<open>d\<close> it returns FALSE exactly when \<open>stop d\<close> and
  changes the state by \<open>act d\<close>, without touching the nodes. \<open>ok d\<close> is what it needs of the
  state to visit \<open>d\<close>.
\<close>

locale list_visitor =
  fixes it :: "'a list_state_scheme list_iterator"
    and ok :: "u32 \<Rightarrow> 'a list_state_scheme \<Rightarrow> bool"
    and stop :: "u32 \<Rightarrow> 'a list_state_scheme \<Rightarrow> bool"
    and act :: "u32 \<Rightarrow> 'a list_state_scheme \<Rightarrow> 'a list_state_scheme"
  assumes visit: "\<lbrakk>lnodes s a = Some nd; ok (l_data nd) s\<rbrakk> \<Longrightarrow>
      \<exists>r. it a s = Inr (r, act (l_data nd) s) \<and> (r = FALSE8 \<longleftrightarrow> stop (l_data nd) s)"
    and keeps_ok: "\<lbrakk>ok d s; ok e s\<rbrakk> \<Longrightarrow> ok d (act e s)"
    and keeps_nodes: "ok d s \<Longrightarrow> lnodes (act d s) = lnodes s"

text \<open>The walk over the data of a list: the state after it, and the suffix from where it stopped.\<close>

fun walk :: "(u32 \<Rightarrow> 's \<Rightarrow> bool) \<Rightarrow> (u32 \<Rightarrow> 's \<Rightarrow> 's) \<Rightarrow> u32 list \<Rightarrow> 's \<Rightarrow> u32 list \<times> 's" where
  "walk stop act [] s = ([], s)"
| "walk stop act (x # xs) s =
     (if stop x s then (x # xs, act x s) else walk stop act xs (act x s))"

lemma walk_length: "walk stop act xs s = (ys, s') \<Longrightarrow> length ys \<le> length xs"
  by (induction xs arbitrary: s) (auto split: if_splits intro: le_SucI)

context list_visitor
begin

lemma foreach_nodes_walk:
  "\<lbrakk>nodes_at (lnodes s) l as; list_all (\<lambda>a. ok (node_data (lnodes s) a) s) as; as \<noteq> []; length as < n\<rbrakk> \<Longrightarrow>
    foreach_nodes n it l s =
      (let (ys, s') = walk stop act (map (node_data (lnodes s)) as) s
       in Inr (if ys = [] then NULL else as ! (length as - length ys), s'))"
proof (induction as arbitrary: l n s)
  case Nil
  then show ?case by simp
next
  case (Cons a as)
  obtain k where n: "n = Suc k" using Cons.prems(4) by (cases n) auto
  obtain nd where nd: "lnodes s a = Some nd" "l_magic nd = LIST_MAGIC" "nodes_at (lnodes s) (l_next nd) as"
      and l: "l = a"
    using Cons.prems(1) unfolding nodes_at_Cons by blast
  have dt: "node_data (lnodes s) a = l_data nd" by (simp add: node_data_def nd(1))
  have ok: "ok (l_data nd) s" using Cons.prems(2) dt by simp
  obtain r where r: "it a s = Inr (r, act (l_data nd) s)" "r = FALSE8 \<longleftrightarrow> stop (l_data nd) s"
    using visit [OF nd(1) ok] by blast
  let ?s = "act (l_data nd) s"
  have same: "lnodes ?s = lnodes s" by (rule keeps_nodes [OF ok])
  have ok': "list_all (\<lambda>a. ok (node_data (lnodes ?s) a) ?s) as"
    using Cons.prems(2) keeps_ok [OF _ ok] unfolding same by (simp add: list_all_iff)
  show ?case
  proof (cases "stop (l_data nd) s")
    case True
    then show ?thesis using n l nd r dt by simp
  next
    case stop: False
    show ?thesis
    proof (cases "as = []")
      case True
      then have "l_next nd = NULL" using nd(3) by simp
      then show ?thesis using n l nd r dt stop same True by simp
    next
      case False
      then have nx: "l_next nd \<noteq> NULL" using nd(3) by (cases as) auto
      have "foreach_nodes n it l s = foreach_nodes k it (l_next nd) ?s"
        using n l nd r stop same nx by simp
      also have "\<dots> = (let (ys, s') = walk stop act (map (node_data (lnodes ?s)) as) ?s
          in Inr (if ys = [] then NULL else as ! (length as - length ys), s'))"
        using Cons.prems(4) False n same nd(3) ok' by (intro Cons.IH) auto
      finally show ?thesis
        using stop dt same walk_length [of stop act "map (node_data (lnodes s)) as" ?s]
        by (auto simp: Let_def Suc_diff_le split: prod.splits)
    qed
  qed
qed

lemma list_foreach_walk:
  assumes "list_wf s" "list_at (lnodes s) l as xs" "list_all (\<lambda>x. ok x s) xs"
  shows "list_foreach l (Some it) s =
    (let (ys, s') = walk stop act xs s
     in Inr (if ys = [] then NULL else as ! (length as - length ys), s'))"
proof (cases as)
  case Nil
  then show ?thesis using assms(2) by (simp add: list_at_def list_foreach_def)
next
  case (Cons a as')
  have nodes: "nodes_at (lnodes s) l as" and xs: "map (node_data (lnodes s)) as = xs"
    using assms(2) by (simp_all add: list_at_def)
  have len: "length as < addr_space" by (rule nodes_at_length [OF assms(1) nodes])
  have ok: "list_all (\<lambda>a. ok (node_data (lnodes s) a) s) as"
    using assms(3) unfolding xs [symmetric] by (simp add: list_all_iff)
  from foreach_nodes_walk [OF nodes ok _ len] Cons
  have "foreach_nodes addr_space it l s = (let (ys, s') = walk stop act xs s
     in Inr (if ys = [] then NULL else as ! (length as - length ys), s'))"
    unfolding xs by blast
  then show ?thesis using nodes Cons by (auto simp: list_foreach_def)
qed

end

text \<open>A search: a walk that changes nothing and stops at the first element with a property.\<close>

lemma walk_search: "walk stop (\<lambda>x s. s) xs s = (dropWhile (\<lambda>x. \<not> stop x s) xs, s)"
  by (induction xs) auto

lemma search_node:
  assumes "list_at h l as xs" "dropWhile P xs = y # ys"
  shows "node_data h (as ! (length as - length (y # ys))) = y \<and> as ! (length as - length (y # ys)) \<in> set as"
proof -
  obtain us where xs: "xs = us @ y # ys" by (metis assms(2) takeWhile_dropWhile_id)
  have len: "length as = length xs" and mp: "map (node_data h) as = xs"
    using assms(1) by (auto simp: list_at_def)
  have i: "length as - length (y # ys) = length us" using len xs by simp
  have "length us < length as" using len xs by simp
  then have "node_data h (as ! length us) = xs ! length us" "as ! length us \<in> set as"
    using nth_map [of "length us" as "node_data h"] unfolding mp by simp_all
  then show ?thesis unfolding i using xs by simp
qed

lemma find_dropWhile: "find P xs = (case dropWhile (\<lambda>x. \<not> P x) xs of [] \<Rightarrow> None | y # ys \<Rightarrow> Some y)"
  by (induction xs) auto

text \<open>
  A search: a callback that changes nothing and stops at the first node whose data it looks for.
  It is a visitor, and what \<open>list_foreach\<close> returns is the node of the first such element.
\<close>

locale list_search =
  fixes it :: "'a list_state_scheme list_iterator"
    and ok :: "u32 \<Rightarrow> 'a list_state_scheme \<Rightarrow> bool"
    and found :: "u32 \<Rightarrow> 'a list_state_scheme \<Rightarrow> bool"
  assumes inspect: "\<lbrakk>lnodes s a = Some nd; ok (l_data nd) s\<rbrakk> \<Longrightarrow>
      \<exists>r. it a s = Inr (r, s) \<and> (r = FALSE8 \<longleftrightarrow> found (l_data nd) s)"

sublocale list_search \<subseteq> visitor: list_visitor it ok found "\<lambda>x s. s"
  by unfold_locales (auto dest: inspect)

context list_search
begin

lemma list_foreach_find:
  assumes "list_wf s" "list_at (lnodes s) l as xs" "list_all (\<lambda>x. ok x s) xs"
  shows "\<exists>e. list_foreach l (Some it) s = Inr (e, s) \<and>
    (case find (\<lambda>x. found x s) xs of None \<Rightarrow> e = NULL
     | Some x \<Rightarrow> e \<noteq> NULL \<and> (\<exists>nd. lnodes s e = Some nd \<and> l_data nd = x))"
proof -
  let ?ys = "dropWhile (\<lambda>x. \<not> found x s) xs"
  have fe: "list_foreach l (Some it) s = Inr (if ?ys = [] then NULL else as ! (length as - length ?ys), s)"
    unfolding visitor.list_foreach_walk [OF assms] walk_search by simp
  show ?thesis
  proof (cases ?ys)
    case Nil
    show ?thesis unfolding fe find_dropWhile Nil by simp
  next
    case (Cons y ys)
    let ?a = "as ! (length as - length ?ys)"
    have a: "node_data (lnodes s) ?a = y" "?a \<in> set as"
      using search_node [OF assms(2) Cons] unfolding Cons by blast+
    moreover have "nodes_at (lnodes s) l as" using assms(2) by (simp add: list_at_def)
    ultimately have "?a \<noteq> NULL" "\<exists>nd. lnodes s ?a = Some nd \<and> l_data nd = y"
      using nodes_at_member [of "lnodes s" l as ?a] by (auto simp: node_data_def simp del: dropWhile_eq_Nil_conv)
    then show ?thesis unfolding fe find_dropWhile Cons by simp
  qed
qed

end

section \<open>Properties of lists\<close>

text \<open>
  While the heap has room for a node, \<open>list_add\<close> returns the list with the element at its
  end, in a node that was not in use; \<open>list_get\<close> finds every element at its index and gives NULL
  behind the end; lists that share no node with this one stay as they were.
\<close>

theorem list_add_then_get:
  assumes "list_wf s" "malloc_room s 32" "list_at (lnodes s) l as xs"
  shows "\<exists>l' as' s'. list_add l d s = Inr (l', s') \<and> list_wf s' \<and>
    list_at (lnodes s') l' as' (xs @ [d]) \<and> (l \<noteq> NULL \<longrightarrow> l' = l) \<and>
    (\<forall>i. list_get l' i s' = Inr (if unat i < length xs + 1 then as' ! unat i else NULL)) \<and>
    (\<forall>m bs ys. list_at (lnodes s) m bs ys \<longrightarrow> set as \<inter> set bs = {} \<longrightarrow> list_at (lnodes s') m bs ys)"
proof -
  obtain l' e s' where add: "list_add l d s = Inr (l', s')" "list_wf s'" "lnodes s e = None"
      and at: "list_at (lnodes s') l' (as @ [e]) (xs @ [d])" and l': "l \<noteq> NULL \<longrightarrow> l' = l"
      and same: "\<forall>a. a \<noteq> e \<longrightarrow> a \<notin> set as \<longrightarrow> lnodes s' a = lnodes s a"
    using list_add_appends [OF assms, of d] by blast
  have nodes: "nodes_at (lnodes s') l' (as @ [e])" using at by (simp add: list_at_def)
  have len: "length as = length xs" using assms(3) by (auto simp: list_at_def)
  have "list_get l' i s' = Inr (if unat i < length xs + 1 then (as @ [e]) ! unat i else NULL)" for i
  proof -
    have "\<exists>nd. lnodes s' l' = Some nd \<and> l_magic nd = LIST_MAGIC" using nodes by (cases as) auto
    then show ?thesis using get_loop_nth [OF nodes, of "unat i"] len by (auto simp: list_get_def)
  qed
  moreover have "list_at (lnodes s') m bs ys" if "list_at (lnodes s) m bs ys" "set as \<inter> set bs = {}" for m bs ys
  proof (rule list_at_cong [THEN iffD1, OF _ that(1)])
    fix a assume "a \<in> set bs"
    moreover have "lnodes s a \<noteq> None"
      using that(1) calculation nodes_at_member by (auto simp: list_at_def)
    ultimately show "lnodes s a = lnodes s' a" using same add(3) that(2) by (metis disjoint_iff)
  qed
  ultimately show ?thesis using add(1,2) at l' by blast
qed

text \<open>A heap with one block, a page of room and no list node.\<close>

definition empty_lists :: list_state where
  "empty_lists = \<lparr>frames_count = 256, frame_idx = 0, frames_free = 255,
     physical_bitmap = (\<lambda>_. 0)(0 := 1), cr3 = 0x1000, pmem = \<lambda>_. 0,
     malloc_top = 0xC0000015, heap = 0xC0001000, root_mblock = 0xC0000000, last_block = 0xC0000000,
     mblocks = Map.empty(0xC0000000 \<mapsto> new_block 0xC0000000 1), bytes = \<lambda>_. 0, lnodes = Map.empty\<rparr>"

lemma empty_lists_wf: "list_wf empty_lists"
  unfolding list_wf_def mm_wf_def
  by (auto intro!: exI [of _ "[0xC0000000]"] simp: empty_lists_def used_block_def new_block_def)

theorem list_add_then_get_witness:
  "\<exists>l' as' s'. list_add NULL 42 empty_lists = Inr (l', s') \<and> list_wf s' \<and>
    list_at (lnodes s') l' as' [42] \<and> list_get l' 0 s' = Inr (as' ! 0) \<and> list_get l' 1 s' = Inr NULL"
proof -
  have "malloc_room empty_lists 32" "list_at (lnodes empty_lists) NULL [] []"
    by (simp_all add: malloc_room_def empty_lists_def list_at_def)
  from list_add_then_get [OF empty_lists_wf this, of 42] obtain l' as' s' where
      g: "list_add NULL 42 empty_lists = Inr (l', s')" "list_wf s'" "list_at (lnodes s') l' as' [42]"
      "\<forall>i. list_get l' i s' = Inr (if unat i < 1 then as' ! unat i else NULL)"
    by auto
  have "list_get l' 0 s' = Inr (as' ! 0)" "list_get l' 1 s' = Inr NULL"
    using g(4) [rule_format, of 0] g(4) [rule_format, of 1] by simp_all
  with g(1-3) show ?thesis by blast
qed

end
