(* ===== verification/Pic.thy ===== *)
theory Pic
  imports Prelude
begin

text \<open>
  lib/stdio/ioport.c and kernel/devices/pic.c: port writes and the interrupt controllers.

  A write to a port is an element of a log; an operation that writes ports returns the writes it
  makes, in order. The mask of the controllers, \<open>ocw1\<close>, is state.
\<close>

section \<open>The code\<close>

datatype port_write = Outb u32 u8 | Outw u32 u16 | Outl u32 u32

definition outportb :: "u32 \<Rightarrow> u8 \<Rightarrow> port_write list" where "outportb port v = [Outb port v]"
definition outportw :: "u32 \<Rightarrow> u16 \<Rightarrow> port_write list" where "outportw port v = [Outw port v]"
definition outportl :: "u32 \<Rightarrow> u32 \<Rightarrow> port_write list" where "outportl port v = [Outl port v]"

definition PIC_MASTER_CTRL :: u32 where "PIC_MASTER_CTRL = 0x20"
definition PIC_MASTER_DATA :: u32 where "PIC_MASTER_DATA = 0x21"
definition PIC_SLAVE_CTRL :: u32 where "PIC_SLAVE_CTRL = 0xA0"
definition PIC_SLAVE_DATA :: u32 where "PIC_SLAVE_DATA = 0xA1"

definition pic :: "port_write list" where
  "pic = outportb PIC_MASTER_CTRL 0x11 @ outportb PIC_SLAVE_CTRL 0x11 @
     outportb PIC_MASTER_DATA 0x20 @ outportb PIC_SLAVE_DATA 0x28 @
     outportb PIC_MASTER_DATA 0x04 @ outportb PIC_SLAVE_DATA 0x02 @
     outportb PIC_MASTER_DATA 0x01 @ outportb PIC_SLAVE_DATA 0x01 @
     outportb PIC_MASTER_DATA 0xFF @ outportb PIC_SLAVE_DATA 0xFF"

definition ocw1_init :: u16 where
  "ocw1_init = 0xFFFB"

definition irq_enable :: "u8 \<Rightarrow> u16 \<Rightarrow> u16 \<times> port_write list" where
  "irq_enable irq ocw1 =
     (let ocw1 = ocw1 AND NOT (push_bit (unat irq) 1)
      in (ocw1, if irq < 8 then outportb PIC_MASTER_DATA (ucast (ocw1 AND 0xFF))
                else outportb PIC_SLAVE_DATA (ucast (drop_bit 8 ocw1))))"

definition pic_acknowledge :: "u8 \<Rightarrow> port_write list" where
  "pic_acknowledge irq =
     (if 7 < irq then outportb PIC_SLAVE_CTRL 0x20 else []) @ outportb PIC_MASTER_CTRL 0x20"

section \<open>The mask\<close>

text \<open>The byte of the mask that one controller gets, and the line it masks.\<close>

lemma irq_enable_mask:
  "bit (fst (irq_enable irq m)) k \<longleftrightarrow> bit m k \<and> k \<noteq> unat irq" if "k < 16"
  using that by (auto simp: irq_enable_def Let_def bit_simps)

lemma irq_enable_written:
  assumes "irq < 16"
  shows "\<exists>port v. snd (irq_enable irq m) = [Outb port v] \<and>
    port = (if irq < 8 then PIC_MASTER_DATA else PIC_SLAVE_DATA) \<and>
    (\<forall>k < 8. bit v k \<longleftrightarrow> bit m (k + (if irq < 8 then 0 else 8)) \<and> k \<noteq> unat irq mod 8)"
proof -
  have lo: "(0xFF :: u16) = mask 8" by (simp add: mask_eq_exp_minus_1)
  have u: "unat irq < 16" using assms by (simp add: word_less_nat_alt)
  show ?thesis
  proof (cases "irq < 8")
    case True
    then have "unat irq < 8" by (simp add: word_less_nat_alt)
    then show ?thesis using True unfolding irq_enable_def Let_def lo outportb_def
      by (auto simp: bit_simps)
  next
    case False
    then have "8 \<le> unat irq" by (simp add: word_less_nat_alt)
    with u have "unat irq mod 8 = unat irq - 8" by (simp add: mod_if)
    then show ?thesis using False \<open>8 \<le> unat irq\<close> unfolding irq_enable_def Let_def outportb_def
      by (auto simp: bit_simps add.commute)
  qed
qed

end
