(* ===== verification/Task.thy ===== *)
theory Task
  imports LinkedList Queue Pic
begin

text \<open>
  kernel/task.c, kernel/thread.c, kernel/schedule.c, kernel/message.c, drivers/timer.c,
  lib/system/sleep.c: threads, the scheduler, messages, timeouts and wait queues.

  Task structs and messages are typed heaps beside the list nodes. \<open>switch_to\<close> is assembly; the
  model has its effect on the C state: it stores the stack pointer (a parameter) in the running
  task, loads the page directory of the next task and makes it the running one. A function
  that calls \<open>schedule\<close> and goes on after it is split at that point: the second half is what the
  task does when it runs again.
\<close>

section \<open>The data\<close>

datatype task_status = TS_READY | TS_BLOCKED | TS_DEAD

record task_file =
  tf_node :: addr
  tf_offset :: u32

record task =
  t_kstack :: addr
  t_as :: addr
  t_pagedir :: addr
  t_magic :: u16
  t_status :: task_status
  t_priority :: int
  t_exit_code :: int
  t_timeout :: u32
  t_kstack_mem :: addr
  t_files :: "task_file list"
  t_file_count :: u32
  t_wait4pid :: u8
  t_pid :: u32
  t_ppid :: u32
  t_name :: "u8 list"
  t_console :: "u8 list"
  t_message_queue :: queue
  t_listen :: u32

record message =
  m_from :: u32
  m_to :: u32
  m_data :: addr
  m_size :: u32

record task_state = list_state +
  running_task :: addr
  pid_n :: u32
  num_tasks :: u32
  task_list :: addr
  task_mem :: "addr \<Rightarrow> task option"
  messages :: "addr \<Rightarrow> message option"
  io_log :: "port_write list"

definition THREAD_MAGIC :: u32 where
  "THREAD_MAGIC = 0x1234C00F"

definition KERNEL_STACK_SIZE :: u32 where
  "KERNEL_STACK_SIZE = 0x1000"

definition update_task :: "addr \<Rightarrow> (task \<Rightarrow> task) \<Rightarrow> 'a task_state_scheme \<Rightarrow> 'a task_state_scheme result" where
  "update_task p f s = bindr (deref (task_mem s) p) (\<lambda>t. Inr (s\<lparr>task_mem := (task_mem s)(p \<mapsto> f t)\<rparr>))"

section \<open>kernel/task.c\<close>

definition task_get :: "'a task_state_scheme \<Rightarrow> addr" where
  "task_get s = running_task s"

definition task_add :: "addr \<Rightarrow> 'a task_state_scheme \<Rightarrow> 'a task_state_scheme result" where
  "task_add t s =
     bindr (list_add (task_list s) t s) (\<lambda>(l, s).
       Inr (s\<lparr>task_list := l, num_tasks := num_tasks s + 1\<rparr>))"

definition task_listen :: "u32 \<Rightarrow> 'a task_state_scheme \<Rightarrow> 'a task_state_scheme result" where
  "task_listen l s =
     guardr (running_task s \<noteq> NULL) Panic
       (update_task (running_task s) (\<lambda>t. t\<lparr>t_listen := t_listen t OR l\<rparr>) s)"

definition get_pid_it :: "u32 \<Rightarrow> 'a task_state_scheme list_iterator" where
  "get_pid_it p l s =
     bindr (deref (lnodes s) l) (\<lambda>nd.
       bindr (deref (task_mem s) (l_data nd)) (\<lambda>t.
         Inr (if t_pid t = p then FALSE8 else TRUE8, s)))"

definition task_from_pid :: "u32 \<Rightarrow> 'a task_state_scheme \<Rightarrow> (addr \<times> 'a task_state_scheme) result" where
  "task_from_pid p s =
     bindr (list_foreach (task_list s) (Some (get_pid_it p)) s) (\<lambda>(l, s).
       if l \<noteq> NULL then bindr (deref (lnodes s) l) (\<lambda>nd. Inr (l_data nd, s)) else Inr (NULL, s))"

definition pid_new :: "'a task_state_scheme \<Rightarrow> u32 \<times> 'a task_state_scheme" where
  "pid_new s = (pid_n s + 1, s\<lparr>pid_n := pid_n s + 1\<rparr>)"

definition pid :: "'a task_state_scheme \<Rightarrow> u32 result" where
  "pid s = guardr (running_task s \<noteq> NULL) Panic
     (bindr (deref (task_mem s) (running_task s)) (\<lambda>t. Inr (t_pid t)))"

text \<open>
  \<open>task_foreach\<close>: the callback gets the task and the user data, here a value threaded through
  the calls. \<open>None\<close> is the missing value when the function reaches its end.
\<close>

type_synonym ('u, 's) task_iterator = "addr \<Rightarrow> 'u \<Rightarrow> 's \<Rightarrow> (u8 \<times> 'u \<times> 's) result"

fun task_loop :: "nat \<Rightarrow> ('u, 'a task_state_scheme) task_iterator \<Rightarrow> addr \<Rightarrow> 'u \<Rightarrow> 'a task_state_scheme \<Rightarrow>
    (addr option \<times> 'u \<times> 'a task_state_scheme) result" where
  "task_loop 0 it item u s = Inl Diverge"
| "task_loop (Suc n) it item u s =
     bindr (deref (lnodes s) item) (\<lambda>nd.
       bindr (it (l_data nd) u s) (\<lambda>(r, u, s).
         bindr (deref (lnodes s) item) (\<lambda>nd.
           if r \<noteq> 0 then Inr (Some (l_data nd), u, s)
           else if l_next nd \<noteq> NULL then task_loop n it (l_next nd) u s
           else Inr (None, u, s))))"

definition task_foreach :: "('u, 'a task_state_scheme) task_iterator option \<Rightarrow> 'u \<Rightarrow> 'a task_state_scheme \<Rightarrow>
    (addr option \<times> 'u \<times> 'a task_state_scheme) result" where
  "task_foreach it u s =
     guardr (task_list s \<noteq> NULL) Panic
       (case it of None \<Rightarrow> Inr (None, u, s)
        | Some f \<Rightarrow> bindr (deref (lnodes s) (task_list s)) (\<lambda>nd.
            if l_magic nd \<noteq> LIST_MAGIC then Inl Panic
            else task_loop addr_space f (task_list s) u s))"

section \<open>kernel/schedule.c\<close>

definition find_higher_priority :: "(int, 'a task_state_scheme) task_iterator" where
  "find_higher_priority p u s =
     bindr (deref (task_mem s) p) (\<lambda>t.
       Inr (0, if t_status t = TS_READY \<and> u < t_priority t then t_priority t else u, s))"

definition higher_task :: "(int, 'a task_state_scheme) task_iterator" where
  "higher_task p u s =
     bindr (deref (task_mem s) p) (\<lambda>t.
       Inr (if t_status t = TS_READY \<and> t_priority t = u then 1 else 0, u, s))"

definition switch_to :: "addr \<Rightarrow> addr \<Rightarrow> 'a task_state_scheme \<Rightarrow> 'a task_state_scheme result" where
  "switch_to esp p s =
     (let s = (case task_mem s (running_task s) of
                 None \<Rightarrow> s
               | Some t \<Rightarrow> s\<lparr>task_mem := (task_mem s)(running_task s \<mapsto> t\<lparr>t_kstack := esp\<rparr>)\<rparr>)
      in bindr (deref (task_mem s) p) (\<lambda>t. Inr (s\<lparr>cr3 := t_pagedir t, running_task := p\<rparr>)))"

definition schedule :: "addr \<Rightarrow> 'a task_state_scheme \<Rightarrow> 'a task_state_scheme result" where
  "schedule esp s =
     bindr (task_foreach (Some find_higher_priority) (- 127) s) (\<lambda>(_, p, s).
       bindr (task_foreach (Some higher_task) p s) (\<lambda>(t, p, s).
         case t of None \<Rightarrow> Inl NoValue | Some t \<Rightarrow> switch_to esp t s))"

definition task_block :: "addr \<Rightarrow> 'a task_state_scheme \<Rightarrow> 'a task_state_scheme result" where
  "task_block esp s =
     bindr (update_task (running_task s) (\<lambda>t. t\<lparr>t_status := TS_BLOCKED\<rparr>) s) (schedule esp)"

section \<open>kernel/thread.c\<close>

text \<open>
  \<open>strncpy(t->name, name, 16)\<close>: the array \<open>name\<close> has 16 bytes and the two bytes of \<open>console\<close>
  follow it in the packed struct; byte number 16, when it is written, is the first of those.
\<close>

fun name_loop :: "nat \<Rightarrow> mem \<Rightarrow> addr \<Rightarrow> nat \<Rightarrow> u8 list \<Rightarrow> u8 list" where
  "name_loop 0 m src i area = area"
| "name_loop (Suc n) m src i area =
     (let area = area[i := m (src + of_nat i)]
      in if m (src + of_nat i) = 0 then area
         else if 16 \<le> i then area[i := 0]
         else name_loop n m src (i + 1) area)"

definition set_name :: "mem \<Rightarrow> addr \<Rightarrow> task \<Rightarrow> task" where
  "set_name m name t =
     (let area = name_loop 17 m name 0 (t_name t @ t_console t)
      in t\<lparr>t_name := take 16 area, t_console := drop 16 area\<rparr>)"

text \<open>
  \<open>raw\<close> is what the memory of the new struct holds before its fields are set, \<open>cells\<close> that of the
  queue's array. \<open>sizeof(task_t)\<close> is 209, \<open>sizeof(kregs_t)\<close> 24.
\<close>

definition thread_create :: "task \<Rightarrow> u32 list \<Rightarrow> u32 \<Rightarrow> int \<Rightarrow> u32 \<Rightarrow> addr \<Rightarrow> 'a task_state_scheme \<Rightarrow>
    (addr \<times> 'a task_state_scheme) result" where
  "thread_create raw cells init_ip priority ppid name s =
     bindr (malloc 209 s) (\<lambda>(t, s).
     bindr (malloc KERNEL_STACK_SIZE s) (\<lambda>(kstack_mem, s).
       if kstack_mem = NULL then Inr (NULL, free t s)
       else
         let tsk = set_name (bytes s) name raw;
             (p, s) = pid_new s;
             kstack = kstack_mem + KERNEL_STACK_SIZE - 24;
             s = s\<lparr>bytes := store32 (store32 (bytes s) (kstack + 16) init_ip) (kstack + 20) 0x202\<rparr>
         in bindr (malloc (4 * 32) s) (\<lambda>(d, s).
              let tsk = tsk\<lparr>t_kstack_mem := kstack_mem, t_wait4pid := FALSE8, t_ppid := ppid, t_pid := p,
                    t_status := TS_READY, t_priority := priority, t_magic := ucast THREAD_MAGIC,
                    t_pagedir := cr3 s, t_kstack := kstack, t_message_queue := queue_init cells 32,
                    t_file_count := 0\<rparr>
              in Inr (t, s\<lparr>task_mem := (task_mem s)(t \<mapsto> tsk)\<rparr>))))"

text \<open>\<open>tasking\<close>: \<open>idle_ip\<close> is the address of \<open>idle\<close>, \<open>idle_name\<close> that of the string \<open>"idle"\<close>.\<close>

definition tasking :: "task \<Rightarrow> u32 list \<Rightarrow> u32 \<Rightarrow> addr \<Rightarrow> 'a task_state_scheme \<Rightarrow> 'a task_state_scheme result" where
  "tasking raw cells idle_ip idle_name s =
     bindr (thread_create raw cells idle_ip (- 1) 100 idle_name s) (\<lambda>(t, s). task_add t s)"

text \<open>
  \<open>sleep_on_without_lock\<close> up to the call of \<open>schedule\<close>, and after it. The queue and the lock are
  variables of the caller; the lock, when there is one, is left by setting it to 0.
\<close>

definition sleep_on_enter :: "queue \<Rightarrow> u32 option \<Rightarrow> int option \<Rightarrow> addr \<Rightarrow> 'a task_state_scheme \<Rightarrow>
    (queue \<times> int option \<times> 'a task_state_scheme) result" where
  "sleep_on_enter q timeout lock esp s =
     (let t = task_get s
      in bindr (update_task t (\<lambda>tsk. tsk\<lparr>t_status := TS_BLOCKED\<rparr>) s) (\<lambda>s.
         bindr (queue_add q t) (\<lambda>q.
         bindr (update_task t (\<lambda>tsk. tsk\<lparr>t_timeout := (case timeout of Some n \<Rightarrow> n | None \<Rightarrow> 0)\<rparr>) s) (\<lambda>s.
           let lock = map_option (\<lambda>_. 0) lock
           in bindr (schedule esp s) (\<lambda>s. Inr (q, lock, s))))))"

definition sleep_on_resume :: "addr \<Rightarrow> u32 option \<Rightarrow> 'a task_state_scheme \<Rightarrow> (int \<times> u32 option) result" where
  "sleep_on_resume t timeout s =
     (case timeout of
        None \<Rightarrow> Inr (0, None)
      | Some _ \<Rightarrow> bindr (deref (task_mem s) t) (\<lambda>tsk.
          Inr (if t_timeout tsk = 0 then - 1 else 0, Some (t_timeout tsk))))"

definition wake_up :: "queue \<Rightarrow> 'a task_state_scheme \<Rightarrow> (queue \<times> 'a task_state_scheme) result" where
  "wake_up q s =
     bindr (queue_remove q) (\<lambda>(t, q).
       if t = NULL then Inr (q, s)
       else bindr (update_task t (\<lambda>tsk. tsk\<lparr>t_status := TS_READY\<rparr>) s) (\<lambda>s. Inr (q, s)))"

text \<open>
  \<open>task_wake_after_dead\<close> is a function without a value; \<open>task_foreach\<close> tests the value of its
  callback.
\<close>

definition task_wake_after_dead :: "addr \<Rightarrow> 'a task_state_scheme \<Rightarrow> 'a task_state_scheme result" where
  "task_wake_after_dead p s =
     bindr (deref (task_mem s) (task_get s)) (\<lambda>cur.
       if t_status cur \<noteq> TS_DEAD then Inr s
       else bindr (deref (task_mem s) p) (\<lambda>t.
         if t_pid t = t_ppid cur \<and> t_wait4pid t \<noteq> 0 then
           update_task p (\<lambda>t. t\<lparr>t_wait4pid := FALSE8, t_status := TS_READY\<rparr>) s
         else Inr s))"

definition wake_after_dead_it :: "(unit, 'a task_state_scheme) task_iterator" where
  "wake_after_dead_it p u s = bindr (task_wake_after_dead p s) (\<lambda>s. Inl NoValue)"

definition thread_destroy :: "addr \<Rightarrow> (addr \<Rightarrow> 'a task_state_scheme \<Rightarrow> 'a task_state_scheme result) \<Rightarrow>
    'a task_state_scheme \<Rightarrow> 'a task_state_scheme result" where
  "thread_destroy p list_remove s =
     bindr (deref (task_mem s) p) (\<lambda>t.
       if (ucast (t_magic t) :: u32) \<noteq> THREAD_MAGIC then Inr s
       else bindr (list_remove p s) (\<lambda>s. Inr (free p (free (t_kstack_mem t) s))))"

definition task_exit :: "int \<Rightarrow> addr \<Rightarrow> 'a task_state_scheme \<Rightarrow> 'a task_state_scheme result" where
  "task_exit code esp s =
     bindr (update_task (task_get s) (\<lambda>t. t\<lparr>t_exit_code := code, t_status := TS_DEAD\<rparr>) s) (\<lambda>s.
       bindr (task_foreach (Some wake_after_dead_it) () s) (\<lambda>(_, _, s). schedule esp s))"

section \<open>kernel/message.c\<close>

text \<open>\<open>sizeof(struct message)\<close> is 16.\<close>

definition message_to :: "u32 \<Rightarrow> addr \<Rightarrow> u32 \<Rightarrow> 'a task_state_scheme \<Rightarrow> 'a task_state_scheme result" where
  "message_to to d sz s =
     bindr (task_from_pid to s) (\<lambda>(t, s).
       if t = NULL then Inr s
       else
         bindr (malloc 16 s) (\<lambda>(msg, s).
         bindr (pid s) (\<lambda>from.
           let s = s\<lparr>messages := (messages s)(msg \<mapsto> \<lparr>m_from = from, m_to = to, m_data = d, m_size = sz\<rparr>)\<rparr>
           in bindr (deref (task_mem s) t) (\<lambda>tsk.
              bindr (queue_add (t_message_queue tsk) msg) (\<lambda>q.
                update_task t (\<lambda>tsk. tsk\<lparr>t_message_queue := q, t_status := TS_READY\<rparr>) s)))))"

definition message_get :: "'a task_state_scheme \<Rightarrow> (addr \<times> 'a task_state_scheme) result" where
  "message_get s =
     (let t = task_get s
      in if t = NULL then Inr (NULL, s)
         else bindr (deref (task_mem s) t) (\<lambda>tsk.
           bindr (queue_remove (t_message_queue tsk)) (\<lambda>(msg, q).
             bindr (update_task t (\<lambda>tsk. tsk\<lparr>t_message_queue := q\<rparr>) s) (\<lambda>s. Inr (msg, s)))))"

definition message_destroy :: "addr \<Rightarrow> 'a task_state_scheme \<Rightarrow> 'a task_state_scheme" where
  "message_destroy msg s = free msg s"

section \<open>drivers/timer.c and lib/system/sleep.c\<close>

definition HZ_FREQUENCY :: u32 where
  "HZ_FREQUENCY = 100"

definition tick_task :: "u32 \<Rightarrow> task \<Rightarrow> task" where
  "tick_task ms t =
     (if 0 < t_timeout t then
        let left = t_timeout t - ms
        in if left \<le> 0 then t\<lparr>t_status := TS_READY, t_timeout := 0\<rparr> else t\<lparr>t_timeout := left\<rparr>
      else t)"

definition update_timeout :: "(u32, 'a task_state_scheme) task_iterator" where
  "update_timeout p ms s = bindr (update_task p (tick_task ms) s) (\<lambda>s. Inr (0, ms, s))"

definition timer_handler :: "addr \<Rightarrow> 'a task_state_scheme \<Rightarrow> 'a task_state_scheme result" where
  "timer_handler esp s =
     bindr (task_foreach (Some update_timeout) (1000 div HZ_FREQUENCY)
       (s\<lparr>io_log := io_log s @ pic_acknowledge 0\<rparr>)) (\<lambda>(_, _, s). schedule esp s)"

definition timer_ports :: "port_write list" where
  "timer_ports =
     (let f = (1193181 div HZ_FREQUENCY :: u32)
      in outportb 0x43 0x36 @ outportb 0x40 (ucast (f AND 0xFF)) @ outportb 0x40 (ucast (drop_bit 8 f)))"

definition sleep :: "u32 \<Rightarrow> addr \<Rightarrow> 'a task_state_scheme \<Rightarrow> 'a task_state_scheme result" where
  "sleep ms esp s =
     guardr (task_get s \<noteq> NULL) Panic
       (bindr (update_task (task_get s) (\<lambda>t. t\<lparr>t_timeout := ms, t_status := TS_BLOCKED\<rparr>) s) (schedule esp))"

end
