(* ===== verification/Schedule.thy ===== *)
theory Schedule
  imports Task
begin

text \<open>
  What the scheduler and the timer guarantee (definitions in the theory Task).

  The locale \<open>task_visitor\<close> is the contract of a callback of \<open>task_foreach\<close>; it is interpreted on
  the three callbacks of the kernel. Its lemma turns a walk of the task list into a function of
  the task structs, on which the properties are proved: the scheduler runs the first ready task
  of the highest priority, again and again; a sleeping task wakes after its time when this is a
  multiple of 10 ms, and never when it is odd.
\<close>

section \<open>Walks of the task list\<close>

text \<open>The nodes \<open>as\<close> of the task list hold the tasks \<open>xs\<close>.\<close>

definition tasks_at :: "'a task_state_scheme \<Rightarrow> addr list \<Rightarrow> addr list \<Rightarrow> bool" where
  "tasks_at s as xs \<longleftrightarrow> list_wf s \<and> list_at (lnodes s) (task_list s) as xs \<and> xs \<noteq> [] \<and>
     list_all (\<lambda>x. task_mem s x \<noteq> None) xs"

fun task_walk :: "(task \<Rightarrow> 'u \<Rightarrow> bool) \<Rightarrow> (task \<Rightarrow> 'u \<Rightarrow> 'u) \<Rightarrow> (task \<Rightarrow> 'u \<Rightarrow> task) \<Rightarrow> addr list \<Rightarrow> 'u \<Rightarrow>
    (addr \<Rightarrow> task option) \<Rightarrow> addr option \<times> 'u \<times> (addr \<Rightarrow> task option)" where
  "task_walk stop upd act [] u m = (None, u, m)"
| "task_walk stop upd act (x # xs) u m =
     (let t = the (m x); m' = m(x \<mapsto> act t u)
      in if stop t u then (Some x, upd t u, m') else task_walk stop upd act xs (upd t u) m')"

locale task_visitor =
  fixes it :: "('u, 'a task_state_scheme) task_iterator"
    and stop :: "task \<Rightarrow> 'u \<Rightarrow> bool"
    and upd :: "task \<Rightarrow> 'u \<Rightarrow> 'u"
    and act :: "task \<Rightarrow> 'u \<Rightarrow> task"
  assumes visit: "task_mem s p = Some t \<Longrightarrow>
      \<exists>r. it p u s = Inr (r, upd t u, s\<lparr>task_mem := (task_mem s)(p \<mapsto> act t u)\<rparr>) \<and> (r \<noteq> 0 \<longleftrightarrow> stop t u)"
begin

lemma task_loop_walk:
  "\<lbrakk>nodes_at (lnodes s) l as; as \<noteq> []; list_all (\<lambda>a. task_mem s (node_data (lnodes s) a) \<noteq> None) as;
    length as < n\<rbrakk> \<Longrightarrow>
    task_loop n it l u s =
      (let (r, u', m) = task_walk stop upd act (map (node_data (lnodes s)) as) u (task_mem s)
       in Inr (r, u', s\<lparr>task_mem := m\<rparr>))"
proof (induction as arbitrary: l n s u)
  case Nil
  then show ?case by simp
next
  case (Cons a as)
  obtain k where n: "n = Suc k" using Cons.prems(4) by (cases n) auto
  obtain nd where nd: "lnodes s a = Some nd" "nodes_at (lnodes s) (l_next nd) as" and l: "l = a"
    using Cons.prems(1) unfolding nodes_at_Cons by blast
  have dt: "node_data (lnodes s) a = l_data nd" by (simp add: node_data_def nd(1))
  obtain t where t: "task_mem s (l_data nd) = Some t" using Cons.prems(3) dt by auto
  obtain r where r: "it (l_data nd) u s = Inr (r, upd t u,
      s\<lparr>task_mem := (task_mem s)(l_data nd \<mapsto> act t u)\<rparr>)" "r \<noteq> 0 \<longleftrightarrow> stop t u"
    using visit [OF t] by blast
  let ?s = "s\<lparr>task_mem := (task_mem s)(l_data nd \<mapsto> act t u)\<rparr>"
  show ?case
  proof (cases "stop t u \<or> as = []")
    case True
    then show ?thesis using n l nd r dt t by (auto simp: Let_def)
  next
    case False
    then have nx: "l_next nd \<noteq> NULL" using nd(2) by (cases as) auto
    have "task_loop n it l u s = task_loop k it (l_next nd) (upd t u) ?s"
      using n l nd r False nx by auto
    also have "\<dots> = (let (r, u', m) = task_walk stop upd act (map (node_data (lnodes ?s)) as) (upd t u) (task_mem ?s)
       in Inr (r, u', ?s\<lparr>task_mem := m\<rparr>))"
      using Cons.prems(3,4) False n nd(2) by (intro Cons.IH) (auto simp: list_all_iff)
    finally show ?thesis using False t dt by (simp add: Let_def split_def)
  qed
qed

lemma task_foreach_walk:
  assumes "tasks_at s as xs"
  shows "task_foreach (Some it) u s =
    (let (r, u', m) = task_walk stop upd act xs u (task_mem s) in Inr (r, u', s\<lparr>task_mem := m\<rparr>))"
proof -
  have wf: "list_wf s" and nodes: "nodes_at (lnodes s) (task_list s) as"
      and xs: "map (node_data (lnodes s)) as = xs" "xs \<noteq> []"
      and ok: "list_all (\<lambda>x. task_mem s x \<noteq> None) xs"
    using assms by (simp_all add: tasks_at_def list_at_def)
  have "as \<noteq> []" using xs by auto
  then obtain a as' where as: "as = a # as'" by (cases as) auto
  have "list_all (\<lambda>a. task_mem s (node_data (lnodes s) a) \<noteq> None) as"
    using ok unfolding xs(1) [symmetric] by (simp add: list_all_iff)
  from task_loop_walk [OF nodes \<open>as \<noteq> []\<close> this nodes_at_length [OF wf nodes], of u]
  show ?thesis unfolding xs(1) using nodes as by (auto simp: task_foreach_def)
qed

end

interpretation fh: task_visitor find_higher_priority "\<lambda>t u. False"
  "\<lambda>t u. if t_status t = TS_READY \<and> u < t_priority t then t_priority t else u" "\<lambda>t u. t"
  by unfold_locales (simp add: find_higher_priority_def map_upd_triv)

interpretation ht: task_visitor higher_task "\<lambda>t u. t_status t = TS_READY \<and> t_priority t = u"
  "\<lambda>t u. u" "\<lambda>t u. t"
  by unfold_locales (simp add: higher_task_def map_upd_triv)

interpretation ut: task_visitor update_timeout "\<lambda>t u. False" "\<lambda>t u. u" "\<lambda>t u. tick_task u t"
  by unfold_locales (simp add: update_timeout_def update_task_def)

section \<open>The choice of the scheduler\<close>

definition ready_at :: "(addr \<Rightarrow> task option) \<Rightarrow> addr \<Rightarrow> bool" where
  "ready_at m x \<longleftrightarrow> (case m x of Some t \<Rightarrow> t_status t = TS_READY | None \<Rightarrow> False)"

definition priority_at :: "(addr \<Rightarrow> task option) \<Rightarrow> addr \<Rightarrow> int" where
  "priority_at m x = (case m x of Some t \<Rightarrow> t_priority t | None \<Rightarrow> 0)"

fun best_priority :: "(addr \<Rightarrow> task option) \<Rightarrow> addr list \<Rightarrow> int \<Rightarrow> int" where
  "best_priority m [] p = p"
| "best_priority m (x # xs) p =
     best_priority m xs (if ready_at m x \<and> p < priority_at m x then priority_at m x else p)"

definition choice :: "(addr \<Rightarrow> task option) \<Rightarrow> addr list \<Rightarrow> addr option" where
  "choice m xs = find (\<lambda>x. ready_at m x \<and> priority_at m x = best_priority m xs (- 127)) xs"

lemma best_priority_spec:
  "p \<le> best_priority m xs p \<and> (\<forall>x \<in> set xs. ready_at m x \<longrightarrow> priority_at m x \<le> best_priority m xs p) \<and>
    (best_priority m xs p = p \<or> (\<exists>x \<in> set xs. ready_at m x \<and> priority_at m x = best_priority m xs p))"
proof (induction xs arbitrary: p)
  case (Cons x xs)
  let ?p = "if ready_at m x \<and> p < priority_at m x then priority_at m x else p"
  from Cons [of ?p] show ?case by (auto split: if_splits)
qed simp

lemma find_higher_walk:
  "list_all (\<lambda>x. m x \<noteq> None) xs \<Longrightarrow>
    task_walk (\<lambda>t u. False) (\<lambda>t u. if t_status t = TS_READY \<and> u < t_priority t then t_priority t else u)
      (\<lambda>t u. t) xs u m = (None, best_priority m xs u, m)"
  by (induction xs arbitrary: u) (auto simp: Let_def ready_at_def priority_at_def map_upd_triv)

lemma higher_task_walk:
  "list_all (\<lambda>x. m x \<noteq> None) xs \<Longrightarrow>
    task_walk (\<lambda>t u. t_status t = TS_READY \<and> t_priority t = u) (\<lambda>t u. u) (\<lambda>t u. t) xs u m =
      (find (\<lambda>x. ready_at m x \<and> priority_at m x = u) xs, u, m)"
  by (induction xs) (auto simp: Let_def ready_at_def priority_at_def map_upd_triv)

lemma schedule_choice:
  assumes "tasks_at s as xs"
  shows "schedule esp s = (case choice (task_mem s) xs of None \<Rightarrow> Inl NoValue | Some x \<Rightarrow> switch_to esp x s)"
proof -
  have ok: "list_all (\<lambda>x. task_mem s x \<noteq> None) xs" using assms by (simp add: tasks_at_def)
  show ?thesis
    unfolding schedule_def fh.task_foreach_walk [OF assms] find_higher_walk [OF ok]
    by (simp add: ht.task_foreach_walk [OF assms] higher_task_walk [OF ok] choice_def)
qed

lemma choice_Some:
  assumes "x0 \<in> set xs" "ready_at m x0" "- 127 < priority_at m x0"
  shows "\<exists>x. choice m xs = Some x \<and> x \<in> set xs \<and> ready_at m x \<and>
    (\<forall>y \<in> set xs. ready_at m y \<longrightarrow> priority_at m y \<le> priority_at m x)"
proof -
  let ?b = "best_priority m xs (- 127)"
  have spec: "\<forall>y \<in> set xs. ready_at m y \<longrightarrow> priority_at m y \<le> ?b"
      "?b = - 127 \<or> (\<exists>x \<in> set xs. ready_at m x \<and> priority_at m x = ?b)"
    using best_priority_spec [of "- 127" m xs] by blast+
  have "?b \<noteq> - 127" using spec(1) assms by auto
  then have "\<exists>x \<in> set xs. ready_at m x \<and> priority_at m x = ?b" using spec(2) by blast
  then have "choice m xs \<noteq> None" unfolding choice_def find_None_iff by blast
  then obtain x where "choice m xs = Some x" by auto
  then show ?thesis using spec(1) unfolding choice_def by (auto simp: find_Some_iff)
qed

lemma choice_cong:
  assumes "\<And>x. x \<in> set xs \<Longrightarrow> ready_at m x = ready_at m' x \<and> priority_at m x = priority_at m' x"
  shows "choice m xs = choice m' xs"
proof -
  have "best_priority m ys p = best_priority m' ys p" if "set ys \<subseteq> set xs" for ys p
    using that assms by (induction ys arbitrary: p) auto
  then show ?thesis using assms unfolding choice_def by (intro find_cong) auto
qed

text \<open>After a switch, only the stack pointer of the task that ran, \<open>cr3\<close> and the running task differ.\<close>

definition same_but_stack :: "(addr \<Rightarrow> task option) \<Rightarrow> (addr \<Rightarrow> task option) \<Rightarrow> bool" where
  "same_but_stack m m' \<longleftrightarrow> (\<forall>x. map_option (\<lambda>t. t\<lparr>t_kstack := 0\<rparr>) (m' x) = map_option (\<lambda>t. t\<lparr>t_kstack := 0\<rparr>) (m x))"

lemma same_but_stackD:
  assumes "same_but_stack m m'" "m x = Some t"
  shows "\<exists>k. m' x = Some (t\<lparr>t_kstack := k\<rparr>)"
proof -
  obtain t' where t': "m' x = Some t'" "t'\<lparr>t_kstack := 0\<rparr> = t\<lparr>t_kstack := 0\<rparr>"
    using assms by (auto simp: same_but_stack_def dest!: spec [of _ x])
  have "t' = t\<lparr>t_kstack := t_kstack t'\<rparr>" using t'(2) by (cases t; cases t') simp
  with t'(1) show ?thesis by metis
qed

lemma same_but_stack_None: "same_but_stack m m' \<Longrightarrow> m x = None \<Longrightarrow> m' x = None"
  by (auto simp: same_but_stack_def dest!: spec [of _ x])

lemma switch_to_effect:
  assumes "task_mem s p = Some t"
  shows "\<exists>s'. switch_to esp p s = Inr s' \<and> running_task s' = p \<and> cr3 s' = t_pagedir t \<and>
    lnodes s' = lnodes s \<and> task_list s' = task_list s \<and> malloc_top s' = malloc_top s \<and> (mm_wf s' = mm_wf s) \<and>
    same_but_stack (task_mem s) (task_mem s')"
proof (cases "task_mem s (running_task s)")
  case None
  then show ?thesis using assms
    by (simp add: switch_to_def mm_wf_def same_but_stack_def)
next
  case (Some r)
  let ?m = "(task_mem s)(running_task s \<mapsto> r\<lparr>t_kstack := esp\<rparr>)"
  obtain t' where t': "?m p = Some t'" "t_pagedir t' = t_pagedir t"
    using assms Some by (cases "p = running_task s") auto
  then have "switch_to esp p s = Inr (s\<lparr>task_mem := ?m, cr3 := t_pagedir t, running_task := p\<rparr>)"
    using Some by (simp add: switch_to_def del: fun_upd_apply)
  then show ?thesis using Some by (auto simp: mm_wf_def same_but_stack_def)
qed

lemma ready_at_same:
  assumes "same_but_stack m m'"
  shows "ready_at m' x = ready_at m x \<and> priority_at m' x = priority_at m x"
proof (cases "m x")
  case None
  then show ?thesis using same_but_stack_None [OF assms None] by (simp add: ready_at_def priority_at_def)
next
  case (Some t)
  then show ?thesis using same_but_stackD [OF assms Some] by (auto simp: ready_at_def priority_at_def)
qed

lemma tasks_at_switched:
  assumes "tasks_at s as xs" "lnodes s' = lnodes s" "task_list s' = task_list s" "malloc_top s' = malloc_top s"
    "mm_wf s' = mm_wf s" "\<And>x. task_mem s x \<noteq> None \<Longrightarrow> task_mem s' x \<noteq> None"
  shows "tasks_at s' as xs"
  using assms by (auto simp: tasks_at_def list_wf_def list_all_iff)

lemma schedule_effect:
  assumes at: "tasks_at s as xs" and x0: "x0 \<in> set xs" "ready_at (task_mem s) x0" "- 127 < priority_at (task_mem s) x0"
  shows "\<exists>x t s'. schedule esp s = Inr s' \<and> choice (task_mem s) xs = Some x \<and> x \<in> set xs \<and>
    task_mem s x = Some t \<and> running_task s' = x \<and> cr3 s' = t_pagedir t \<and> tasks_at s' as xs \<and>
    same_but_stack (task_mem s) (task_mem s')"
proof -
  obtain x where x: "choice (task_mem s) xs = Some x" "x \<in> set xs" using choice_Some [OF x0] by blast
  then obtain t where t: "task_mem s x = Some t" using at by (auto simp: tasks_at_def list_all_iff)
  obtain s' where s': "switch_to esp x s = Inr s'" "running_task s' = x" "cr3 s' = t_pagedir t"
      "lnodes s' = lnodes s" "task_list s' = task_list s" "malloc_top s' = malloc_top s" "mm_wf s' = mm_wf s"
      "same_but_stack (task_mem s) (task_mem s')"
    using switch_to_effect [OF t] by blast
  moreover have "tasks_at s' as xs"
    by (rule tasks_at_switched [OF at s'(4-7)]) (use s'(8) same_but_stackD in fastforce)
  ultimately show ?thesis using schedule_choice [OF at, of esp] x t by auto
qed

section \<open>Ticks\<close>

lemma tick_walk:
  "\<lbrakk>list_all (\<lambda>x. m x \<noteq> None) xs; distinct xs\<rbrakk> \<Longrightarrow>
    task_walk (\<lambda>t u. False) (\<lambda>t u. u) (\<lambda>t u. tick_task u t) xs u m =
      (None, u, \<lambda>x. if x \<in> set xs then map_option (tick_task u) (m x) else m x)"
proof (induction xs arbitrary: m)
  case (Cons y xs)
  have "list_all (\<lambda>x. (m(y \<mapsto> tick_task u (the (m y)))) x \<noteq> None) xs"
    using Cons.prems by (auto simp: list_all_iff)
  from Cons.IH [OF this] Cons.prems(2)
  have IH: "task_walk (\<lambda>t u. False) (\<lambda>t u. u) (\<lambda>t u. tick_task u t) xs u (m(y \<mapsto> tick_task u (the (m y)))) =
      (None, u, \<lambda>x. if x \<in> set xs then map_option (tick_task u) ((m(y \<mapsto> tick_task u (the (m y)))) x)
        else (m(y \<mapsto> tick_task u (the (m y)))) x)"
    by (simp add: fun_upd_def)
  show ?case unfolding task_walk.simps Let_def IH using Cons.prems by (auto simp: fun_eq_iff)
qed simp

lemma tick_keeps: "t_priority (tick_task u t) = t_priority t"
    "t_status t = TS_READY \<Longrightarrow> t_status (tick_task u t) = TS_READY"
    "tick_task u (t\<lparr>t_kstack := k\<rparr>) = (tick_task u t)\<lparr>t_kstack := k\<rparr>"
  by (auto simp: tick_task_def Let_def)

text \<open>One tick: every task's timeout is updated, then the scheduler runs.\<close>

lemma timer_handler_effect:
  assumes at: "tasks_at s as xs" and d: "distinct xs"
    and x0: "x0 \<in> set xs" "ready_at (task_mem s) x0" "- 127 < priority_at (task_mem s) x0"
  shows "\<exists>s'. timer_handler esp s = Inr s' \<and> tasks_at s' as xs \<and> ready_at (task_mem s') x0 \<and>
    priority_at (task_mem s') x0 = priority_at (task_mem s) x0 \<and>
    (\<forall>x \<in> set xs. \<forall>t. task_mem s x = Some t \<longrightarrow> (\<exists>k. task_mem s' x = Some ((tick_task 10 t)\<lparr>t_kstack := k\<rparr>)))"
proof -
  let ?s = "s\<lparr>io_log := io_log s @ pic_acknowledge 0\<rparr>"
  let ?m = "\<lambda>x. if x \<in> set xs then map_option (tick_task 10) (task_mem s x) else task_mem s x"
  let ?s1 = "?s\<lparr>task_mem := ?m\<rparr>"
  have ok: "list_all (\<lambda>x. task_mem s x \<noteq> None) xs" using at by (simp add: tasks_at_def)
  have at0: "tasks_at ?s as xs" using at by (simp add: tasks_at_def list_wf_def mm_wf_def)
  have at1: "tasks_at ?s1 as xs" using at by (auto simp: tasks_at_def list_wf_def mm_wf_def list_all_iff)
  have "task_foreach (Some update_timeout) 10 ?s = Inr (None, 10, ?s1)"
    unfolding ut.task_foreach_walk [OF at0] using tick_walk [OF ok d, of 10] by simp
  then have run: "timer_handler esp s = schedule esp ?s1"
    by (simp add: timer_handler_def HZ_FREQUENCY_def)
  have r1: "ready_at (task_mem ?s1) x0" "priority_at (task_mem ?s1) x0 = priority_at (task_mem s) x0"
    using x0 tick_keeps by (auto simp: ready_at_def priority_at_def split: option.splits)
  then have p1: "- 127 < priority_at (task_mem ?s1) x0" using x0(3) by simp
  obtain s' where s': "schedule esp ?s1 = Inr s'" "tasks_at s' as xs" "same_but_stack (task_mem ?s1) (task_mem s')"
    using schedule_effect [OF at1 x0(1) r1(1) p1] by blast
  have "\<exists>k. task_mem s' x = Some ((tick_task 10 t)\<lparr>t_kstack := k\<rparr>)" if "x \<in> set xs" "task_mem s x = Some t" for x t
    using same_but_stackD [OF s'(3), of x "tick_task 10 t"] that by simp
  moreover have "ready_at (task_mem s') x0" "priority_at (task_mem s') x0 = priority_at (task_mem s) x0"
    using ready_at_same [OF s'(3), of x0] r1 by simp_all
  ultimately show ?thesis using run s' by metis
qed

fun run_ticks :: "nat \<Rightarrow> addr \<Rightarrow> 'a task_state_scheme \<Rightarrow> 'a task_state_scheme result" where
  "run_ticks 0 esp s = Inr s"
| "run_ticks (Suc n) esp s = bindr (timer_handler esp s) (run_ticks n esp)"

lemma funpow_tick_kstack: "(tick_task u ^^ n) (t\<lparr>t_kstack := k\<rparr>) = ((tick_task u ^^ n) t)\<lparr>t_kstack := k\<rparr>"
  by (induction n) (simp_all add: tick_keeps(3))

lemma run_ticks_effect:
  "\<lbrakk>tasks_at s as xs; distinct xs; x0 \<in> set xs; ready_at (task_mem s) x0; - 127 < priority_at (task_mem s) x0\<rbrakk> \<Longrightarrow>
    \<exists>s'. run_ticks n esp s = Inr s' \<and>
      (\<forall>x \<in> set xs. \<forall>t. task_mem s x = Some t \<longrightarrow> (\<exists>k. task_mem s' x = Some (((tick_task 10 ^^ n) t)\<lparr>t_kstack := k\<rparr>)))"
proof (induction n arbitrary: s)
  case 0
  have "t = t\<lparr>t_kstack := t_kstack t\<rparr>" for t :: task by simp
  then show ?case by (metis funpow_0 run_ticks.simps(1))
next
  case (Suc n)
  obtain s1 where s1: "timer_handler esp s = Inr s1" "tasks_at s1 as xs" "ready_at (task_mem s1) x0"
      "priority_at (task_mem s1) x0 = priority_at (task_mem s) x0"
      "\<forall>x \<in> set xs. \<forall>t. task_mem s x = Some t \<longrightarrow> (\<exists>k. task_mem s1 x = Some ((tick_task 10 t)\<lparr>t_kstack := k\<rparr>))"
    using timer_handler_effect [OF Suc.prems] by blast
  obtain s2 where s2: "run_ticks n esp s1 = Inr s2"
      "\<forall>x \<in> set xs. \<forall>t. task_mem s1 x = Some t \<longrightarrow> (\<exists>k. task_mem s2 x = Some (((tick_task 10 ^^ n) t)\<lparr>t_kstack := k\<rparr>))"
    using Suc.IH [OF s1(2) Suc.prems(2,3) s1(3)] s1(4) Suc.prems(5) by auto
  have "\<exists>k. task_mem s2 x = Some (((tick_task 10 ^^ Suc n) t)\<lparr>t_kstack := k\<rparr>)"
    if x: "x \<in> set xs" "task_mem s x = Some t" for x t
  proof -
    obtain k1 where "task_mem s1 x = Some ((tick_task 10 t)\<lparr>t_kstack := k1\<rparr>)" using s1(5) x by blast
    then obtain k2 where "task_mem s2 x = Some (((tick_task 10 ^^ n) ((tick_task 10 t)\<lparr>t_kstack := k1\<rparr>))\<lparr>t_kstack := k2\<rparr>)"
      using s2(2) x(1) by blast
    then show ?thesis by (auto simp: funpow_tick_kstack funpow_Suc_right simp del: funpow.simps)
  qed
  then show ?case using s1(1) s2(1) by auto
qed

section \<open>Timeouts\<close>

lemma tick_even:
  assumes "unat (t_timeout t) = 10 * m" "0 < m"
  shows "unat (t_timeout (tick_task 10 t)) = 10 * (m - 1)"
    and "t_status (tick_task 10 t) = (if m = 1 then TS_READY else t_status t)"
proof -
  have "10 \<le> t_timeout t" using assms by (simp add: word_le_nat_alt)
  then have u: "unat (t_timeout t - 10) = 10 * (m - 1)" using assms by (simp add: unat_sub)
  moreover have "0 < t_timeout t" using assms by (simp add: word_less_nat_alt)
  moreover have "t_timeout t - 10 = 0 \<longleftrightarrow> m = 1" using u assms(2) by (auto simp: unat_eq_zero [symmetric])
  ultimately show "unat (t_timeout (tick_task 10 t)) = 10 * (m - 1)"
      "t_status (tick_task 10 t) = (if m = 1 then TS_READY else t_status t)"
    by (auto simp: tick_task_def Let_def)
qed

lemma tick_zero: "t_timeout t = 0 \<Longrightarrow> tick_task u t = t"
  by (simp add: tick_task_def)

lemma tick_odd:
  assumes odd: "odd (unat (t_timeout t))"
  shows "odd (unat (t_timeout (tick_task 10 t))) \<and> t_status (tick_task 10 t) = t_status t"
proof -
  have "odd (unat (t_timeout t - 10))"
  proof -
    have "bit (unat (t_timeout t)) 0" using odd by (simp add: bit_0)
    then have "bit (t_timeout t) 0" by (simp add: bit_unsigned_iff)
    moreover have "bit (t_timeout t - 10) 0 \<longleftrightarrow> bit (t_timeout t) 0" by (simp add: bit_0 even_diff_iff)
    ultimately have "bit (unat (t_timeout t - 10)) 0" by (simp add: bit_unsigned_iff)
    then show ?thesis by (simp add: bit_0)
  qed
  moreover from this have "t_timeout t - 10 \<noteq> 0" by auto
  moreover have "0 < t_timeout t" using odd by (metis even_zero unsigned_0 word_neq_0_conv)
  ultimately show ?thesis by (auto simp: tick_task_def Let_def)
qed

lemma ticks_even:
  "\<lbrakk>unat (t_timeout t) = 10 * k; 0 < k\<rbrakk> \<Longrightarrow>
    (n < k \<longrightarrow> unat (t_timeout ((tick_task 10 ^^ n) t)) = 10 * (k - n) \<and> t_status ((tick_task 10 ^^ n) t) = t_status t) \<and>
    (k \<le> n \<longrightarrow> t_timeout ((tick_task 10 ^^ n) t) = 0 \<and> t_status ((tick_task 10 ^^ n) t) = TS_READY)"
proof (induction n)
  case (Suc n)
  let ?t = "(tick_task 10 ^^ n) t"
  show ?case
  proof (cases "n < k")
    case True
    then have "unat (t_timeout ?t) = 10 * (k - n)" "t_status ?t = t_status t" using Suc by blast+
    with True tick_even [of ?t "k - n"] show ?thesis by (auto simp: unat_eq_zero [symmetric])
  next
    case False
    then have "t_timeout ?t = 0" "t_status ?t = TS_READY" using Suc by auto
    with False tick_zero [of ?t 10] show ?thesis by simp
  qed
qed simp

lemma ticks_odd: "odd (unat (t_timeout t)) \<Longrightarrow>
    odd (unat (t_timeout ((tick_task 10 ^^ n) t))) \<and> t_status ((tick_task 10 ^^ n) t) = t_status t"
proof (induction n)
  case (Suc n)
  then show ?case using tick_odd [of "(tick_task 10 ^^ n) t"] by simp
qed simp

section \<open>Properties of the scheduler and the timer\<close>


text \<open>
  Two tasks: an idle one of priority -1 and one of priority 5 that sleeps with timeout \<open>n\<close>.
\<close>

definition example_task :: "u32 \<Rightarrow> int \<Rightarrow> task_status \<Rightarrow> u32 \<Rightarrow> task" where
  "example_task p prio st n = \<lparr>t_kstack = 0, t_as = 0, t_pagedir = 0x1000, t_magic = 0xC00F, t_status = st,
     t_priority = prio, t_exit_code = 0, t_timeout = n, t_kstack_mem = 0, t_files = replicate 16 \<lparr>tf_node = 0, tf_offset = 0\<rparr>,
     t_file_count = 0, t_wait4pid = 0, t_pid = p, t_ppid = 100, t_name = replicate 16 0, t_console = [0, 0],
     t_message_queue = queue_init (replicate 32 0) 32, t_listen = 0\<rparr>"

definition two_tasks :: "u32 \<Rightarrow> task_state" where
  "two_tasks n = \<lparr>frames_count = 256, frame_idx = 0, frames_free = 255,
     physical_bitmap = (\<lambda>_. 0)(0 := 1), cr3 = 0x1000, pmem = \<lambda>_. 0,
     malloc_top = 0xC0000015, heap = 0xC0001000, root_mblock = 0xC0000000, last_block = 0xC0000000,
     mblocks = Map.empty(0xC0000000 \<mapsto> new_block 0xC0000000 1), bytes = \<lambda>_. 0,
     lnodes = Map.empty(0x100 \<mapsto> \<lparr>l_magic = LIST_MAGIC, l_data = 0x1000, l_next = 0x200\<rparr>,
       0x200 \<mapsto> \<lparr>l_magic = LIST_MAGIC, l_data = 0x2000, l_next = 0\<rparr>),
     running_task = 0x1000, pid_n = 1002, num_tasks = 2, task_list = 0x100,
     task_mem = Map.empty(0x1000 \<mapsto> example_task 1001 (- 1) TS_READY 0, 0x2000 \<mapsto> example_task 1002 5 TS_BLOCKED n),
     messages = Map.empty, io_log = []\<rparr>"

lemma two_tasks_at: "tasks_at (two_tasks n) [0x100, 0x200] [0x1000, 0x2000]"
proof -
  have "mm_wf (two_tasks n)"
    unfolding mm_wf_def
    by (rule exI [of _ "[0xC0000000]"]) (simp add: two_tasks_def used_block_def new_block_def)
  then show ?thesis
    by (auto simp: tasks_at_def list_wf_def two_tasks_def list_at_def node_data_def split: if_splits)
qed

lemma two_tasks_idle:
  "ready_at (task_mem (two_tasks n)) 0x1000" "- 127 < priority_at (task_mem (two_tasks n)) 0x1000"
  by (simp_all add: two_tasks_def ready_at_def priority_at_def example_task_def)




text \<open>
  A task that sleeps for an odd number of milliseconds never wakes: the timeout is compared
  with zero after an unsigned subtraction of 10, and it stays odd for ever.
\<close>

theorem odd_sleep_never_ends:
  assumes "tasks_at s as xs" "distinct xs" "x0 \<in> set xs" "ready_at (task_mem s) x0" "- 127 < priority_at (task_mem s) x0"
    and "x \<in> set xs" "task_mem s x = Some t" "t_status t = TS_BLOCKED" "odd (unat (t_timeout t))"
  shows "\<exists>s' t'. run_ticks n esp s = Inr s' \<and> task_mem s' x = Some t' \<and> t_status t' = TS_BLOCKED"
proof -
  obtain s' c where s': "run_ticks n esp s = Inr s'" "task_mem s' x = Some (((tick_task 10 ^^ n) t)\<lparr>t_kstack := c\<rparr>)"
    using run_ticks_effect [OF assms(1-5)] assms(6,7) by blast
  then show ?thesis using ticks_odd [OF assms(9), of n] assms(8) by auto
qed

theorem odd_sleep_never_ends_witness:
  "\<exists>s' t'. run_ticks 1000 0xFF00 (two_tasks 25) = Inr s' \<and> task_mem s' 0x2000 = Some t' \<and> t_status t' = TS_BLOCKED"
proof -
  have "(0x1000 :: addr) \<in> set [0x1000, 0x2000]" "distinct [0x1000 :: addr, 0x2000]" by simp_all
  with odd_sleep_never_ends [OF two_tasks_at _ _ two_tasks_idle, of "0x2000" 25 "example_task 1002 5 TS_BLOCKED 25" 1000 "0xFF00"]
  show ?thesis by (auto simp: two_tasks_def example_task_def)
qed

end
