(* ===== verification/Threads.thy ===== *)
theory Threads
  imports Schedule
begin

text \<open>
  What thread creation, the lookup by process number and the messages guarantee (definitions
  in the theory Task).

  \<open>thread_wf\<close> says that task structs lie below the top of the heap, so that a new struct is at
  an address that holds none. The lookup is a visitor of \<open>list_foreach\<close>; a message goes through
  the queue of the theory Queue, whose interface (interpretation \<open>qf\<close>) gives the order.
\<close>

section \<open>Creating a thread\<close>

definition thread_wf :: "'a task_state_scheme \<Rightarrow> bool" where
  "thread_wf s \<longleftrightarrow> list_wf s \<and> (\<forall>a. task_mem s a \<noteq> None \<longrightarrow> unat a < unat (malloc_top s))"

lemma malloced_fields [simp]:
  "task_mem (malloced sz s lb) = task_mem s" "task_list (malloced sz s lb) = task_list s"
  "running_task (malloced sz s lb) = running_task s" "pid_n (malloced sz s lb) = pid_n s"
  "messages (malloced sz s lb) = messages s" "num_tasks (malloced sz s lb) = num_tasks s"
  "io_log (malloced sz s lb) = io_log s" "cr3 (malloced sz s lb) = cr3 s" "heap (malloced sz s lb) = heap s"
  by (simp_all add: malloced_def)

text \<open>An allocation in a state with task structs: the block is new, the rest is as before.\<close>

lemma malloc_thread:
  assumes wf: "thread_wf s" and n: "0 < unat sz" and room: "malloc_room s (20 + unat sz)"
  shows "\<exists>p lb. malloc sz s = Inr (p, malloced sz s lb) \<and> thread_wf (malloced sz s lb) \<and> p \<noteq> NULL \<and>
    task_mem s p = None \<and> unat (malloc_top s) \<le> unat p \<and> unat p < unat (malloc_top (malloced sz s lb)) \<and>
    unat (malloc_top (malloced sz s lb)) = unat (malloc_top s) + 20 + unat sz"
proof -
  let ?p = "malloc_top s + sizeof_mblock"
  obtain lb where m: "malloc sz s = Inr (?p, malloced sz s lb)" "mm_wf (malloced sz s lb)"
      "unat (malloc_top (malloced sz s lb)) = unat (malloc_top s) + 20 + unat sz"
    using malloc_bump [OF _ n room] wf by (auto simp: thread_wf_def list_wf_def)
  have p: "unat ?p = unat (malloc_top s) + 20"
    using room unat_u32_less [of "heap s"] by (simp add: malloc_room_def sizeof_mblock_def unat_word_ariths)
  moreover have "thread_wf (malloced sz s lb)"
    using wf m(2,3) by (fastforce simp: thread_wf_def list_wf_def)
  moreover have "task_mem s ?p = None" using wf p by (auto simp: thread_wf_def)
  moreover have "?p \<noteq> 0" using p by auto
  ultimately show ?thesis using m n by (intro exI [of _ ?p] exI [of _ lb]) simp
qed

lemma thread_wf_frame [simp]:
  "thread_wf (s\<lparr>pid_n := k\<rparr>) = thread_wf s" "thread_wf (s\<lparr>bytes := b\<rparr>) = thread_wf s"
  by (simp_all add: thread_wf_def list_wf_def mm_wf_def)

lemma malloc_room_frame [simp]:
  "malloc_room (s\<lparr>pid_n := k\<rparr>) n = malloc_room s n" "malloc_room (s\<lparr>bytes := b\<rparr>) n = malloc_room s n"
  by (simp_all add: malloc_room_def)

lemma thread_create_ready:
  assumes wf: "thread_wf s" and room: "malloc_room s 4493"
  shows "\<exists>p t s'. thread_create raw cells ip prio ppid name s = Inr (p, s') \<and> thread_wf s' \<and> p \<noteq> NULL \<and>
    task_mem s p = None \<and> task_mem s' = (task_mem s)(p \<mapsto> t) \<and>
    t_status t = TS_READY \<and> t_pid t = pid_n s + 1 \<and> t_ppid t = ppid \<and> t_priority t = prio \<and>
    t_message_queue t = queue_init cells 32 \<and> t_file_count t = 0 \<and> t_pagedir t = cr3 s \<and>
    pid_n s' = pid_n s + 1 \<and> lnodes s' = lnodes s \<and> task_list s' = task_list s \<and> running_task s' = running_task s \<and>
    unat (malloc_top s') = unat (malloc_top s) + 4493 \<and> heap s' = heap s"
proof -
  let ?s1 = "malloced 209 s"
  obtain p lb1 where m1: "malloc 209 s = Inr (p, ?s1 lb1)"
      and wf1: "thread_wf (?s1 lb1)" and p: "p \<noteq> NULL" "task_mem s p = None" "unat p < unat (malloc_top (?s1 lb1))"
      and t1: "unat (malloc_top (?s1 lb1)) = unat (malloc_top s) + 229"
    using malloc_thread [OF wf, of 209] room by (auto simp: malloc_room_def)
  have r1: "malloc_room (?s1 lb1) (20 + unat KERNEL_STACK_SIZE)"
    using room t1 by (simp add: malloc_room_def KERNEL_STACK_SIZE_def)
  let ?s2 = "malloced KERNEL_STACK_SIZE (?s1 lb1)"
  obtain k lb2 where m2: "malloc KERNEL_STACK_SIZE (?s1 lb1) = Inr (k, ?s2 lb2)"
      and wf2: "thread_wf (?s2 lb2)" and k: "k \<noteq> NULL"
      and t2: "unat (malloc_top (?s2 lb2)) = unat (malloc_top (?s1 lb1)) + 20 + unat KERNEL_STACK_SIZE"
    using malloc_thread [OF wf1 _ r1] by (auto simp: KERNEL_STACK_SIZE_def)
  let ?ks = "k + KERNEL_STACK_SIZE - 24"
  let ?s3 = "(?s2 lb2)\<lparr>pid_n := pid_n s + 1,
      bytes := store32 (store32 (bytes (?s2 lb2)) (?ks + 16) ip) (?ks + 20) 0x202\<rparr>"
  have top2: "unat (malloc_top (?s2 lb2)) = unat (malloc_top s) + 4345"
    using t1 t2 by (simp add: KERNEL_STACK_SIZE_def)
  have r3: "malloc_room ?s3 (20 + unat (128 :: u32))" using room top2 by (simp add: malloc_room_def)
  let ?s4 = "malloced 128 ?s3"
  obtain d lb3 where m3: "malloc 128 ?s3 = Inr (d, ?s4 lb3)"
      and wf4: "thread_wf (?s4 lb3)" and t4: "unat (malloc_top (?s4 lb3)) = unat (malloc_top ?s3) + 148"
    using malloc_thread [OF _ _ r3] wf2 by auto
  define t where "t = (set_name (bytes (?s2 lb2)) name raw)\<lparr>t_kstack_mem := k, t_wait4pid := FALSE8, t_ppid := ppid,
      t_pid := pid_n s + 1, t_status := TS_READY, t_priority := prio, t_magic := ucast THREAD_MAGIC,
      t_pagedir := cr3 s, t_kstack := ?ks, t_message_queue := queue_init cells 32, t_file_count := 0\<rparr>"
  have run: "thread_create raw cells ip prio ppid name s = Inr (p, (?s4 lb3)\<lparr>task_mem := (task_mem s)(p \<mapsto> t)\<rparr>)"
    using m1 m2 m3 k by (simp add: thread_create_def Let_def pid_new_def t_def)
  have top4: "unat (malloc_top (?s4 lb3)) = unat (malloc_top s) + 4493" using t4 top2 by simp
  have "thread_wf ((?s4 lb3)\<lparr>task_mem := (task_mem s)(p \<mapsto> t)\<rparr>)"
    using wf4 wf p(3) t1 top4 by (auto simp: thread_wf_def list_wf_def mm_wf_def)
  then show ?thesis using run p(1,2) top4
    by (intro exI [of _ p] exI [of _ t] exI [of _ "(?s4 lb3)\<lparr>task_mem := (task_mem s)(p \<mapsto> t)\<rparr>"]) (simp add: t_def)
qed

section \<open>The task list\<close>

lemma task_fields_of_more:
  fixes s s' :: "'a task_state_scheme"
  assumes "list_state.more s' = list_state.more s"
  shows "task_mem s' = task_mem s" "task_list s' = task_list s" "running_task s' = running_task s"
    "pid_n s' = pid_n s" "messages s' = messages s"
  using assms by (cases s; cases s'; simp)+

lemma task_add_at:
  assumes wf: "thread_wf s" and room: "malloc_room s 32" and at: "list_at (lnodes s) (task_list s) as xs"
    and ts: "list_all (\<lambda>x. task_mem s x \<noteq> None) xs" and t: "task_mem s p \<noteq> None"
  shows "\<exists>e s'. task_add p s = Inr s' \<and> thread_wf s' \<and> tasks_at s' (as @ [e]) (xs @ [p]) \<and>
    task_mem s' = task_mem s \<and> running_task s' = running_task s \<and> pid_n s' = pid_n s \<and>
    unat (malloc_top s') = unat (malloc_top s) + 32 \<and> heap s' = heap s"
proof -
  have lw: "list_wf s" using wf by (simp add: thread_wf_def)
  obtain l' e s1 where s1: "list_add (task_list s) p s = Inr (l', s1)" "list_wf s1"
      "list_at (lnodes s1) l' (as @ [e]) (xs @ [p])" "unat (malloc_top s1) = unat (malloc_top s) + 32" "heap s1 = heap s"
      "list_state.more s1 = list_state.more s"
    using list_add_appends [OF lw room at, of p] by blast
  note same = task_fields_of_more [OF s1(6)]
  let ?s = "s1\<lparr>task_list := l', num_tasks := num_tasks s1 + 1\<rparr>"
  have "task_add p s = Inr ?s" using s1(1) by (simp add: task_add_def)
  moreover have "tasks_at ?s (as @ [e]) (xs @ [p])"
    using s1(2,3) ts t same by (simp add: tasks_at_def list_wf_def mm_wf_def)
  moreover have "thread_wf ?s"
    using s1(2,4) same wf by (fastforce simp: thread_wf_def list_wf_def mm_wf_def)
  ultimately show ?thesis using s1(4,5) same by (intro exI [of _ e] exI [of _ ?s]) simp
qed

interpretation gp: list_search "get_pid_it p" "\<lambda>x s. task_mem s x \<noteq> None"
  "\<lambda>x s. t_pid (the (task_mem s x)) = p" for p
  by unfold_locales (auto simp: get_pid_it_def)

lemma task_from_pid_find:
  assumes "tasks_at s as xs"
  shows "task_from_pid p s =
    Inr (case find (\<lambda>x. t_pid (the (task_mem s x)) = p) xs of None \<Rightarrow> NULL | Some x \<Rightarrow> x, s)"
proof -
  obtain e where "list_foreach (task_list s) (Some (get_pid_it p)) s = Inr (e, s)"
      "case find (\<lambda>x. t_pid (the (task_mem s x)) = p) xs of None \<Rightarrow> e = NULL
       | Some x \<Rightarrow> e \<noteq> NULL \<and> (\<exists>nd. lnodes s e = Some nd \<and> l_data nd = x)"
    using gp.list_foreach_find [of s "task_list s" as xs p] assms unfolding tasks_at_def by blast
  then show ?thesis by (auto simp: task_from_pid_def split: option.splits)
qed

section \<open>Messages\<close>

lemma update_task_Some: "task_mem s p = Some t \<Longrightarrow> update_task p f s = Inr (s\<lparr>task_mem := (task_mem s)(p \<mapsto> f t)\<rparr>)"
  by (simp add: update_task_def)

lemma message_to_delivers:
  assumes wf: "thread_wf s" and at: "tasks_at s as xs" and room: "malloc_room s 36"
    and find: "find (\<lambda>x. t_pid (the (task_mem s x)) = p) xs = Some x" and nz: "x \<noteq> NULL"
    and t: "task_mem s x = Some t" and run: "running_task s \<noteq> NULL" "task_mem s (running_task s) = Some r"
    and q: "queue_wf (t_message_queue t)" "length (queue_contents (t_message_queue t)) < unat (qsize (t_message_queue t))"
  shows "\<exists>msg q' s'. message_to p d sz s = Inr s' \<and> thread_wf s' \<and> tasks_at s' as xs \<and> msg \<noteq> NULL \<and>
    messages s' = (messages s)(msg \<mapsto> \<lparr>m_from = t_pid r, m_to = p, m_data = d, m_size = sz\<rparr>) \<and>
    queue_wf q' \<and> queue_contents q' = queue_contents (t_message_queue t) @ [msg] \<and>
    qsize q' = qsize (t_message_queue t) \<and>
    task_mem s' = (task_mem s)(x \<mapsto> t\<lparr>t_message_queue := q', t_status := TS_READY\<rparr>) \<and>
    running_task s' = running_task s \<and> unat (malloc_top s) \<le> unat msg \<and> unat msg < unat (malloc_top s') \<and>
    unat (malloc_top s') = unat (malloc_top s) + 36 \<and> heap s' = heap s"
proof -
  obtain msg lb where m: "malloc 16 s = Inr (msg, malloced 16 s lb)" "thread_wf (malloced 16 s lb)" "msg \<noteq> NULL"
      "unat (malloc_top s) \<le> unat msg" "unat msg < unat (malloc_top (malloced 16 s lb))"
      "unat (malloc_top (malloced 16 s lb)) = unat (malloc_top s) + 36"
    using malloc_thread [OF wf, of 16] room by auto
  obtain q' where q': "queue_add (t_message_queue t) msg = Inr q'" "queue_wf q'"
      "queue_contents q' = queue_contents (t_message_queue t) @ [msg]" "qsize q' = qsize (t_message_queue t)"
    using queue_add_room [OF q(1), of msg] q(2) by auto
  let ?t = "t\<lparr>t_message_queue := q', t_status := TS_READY\<rparr>"
  let ?s = "(malloced 16 s lb)\<lparr>messages := (messages s)(msg \<mapsto> \<lparr>m_from = t_pid r, m_to = p, m_data = d, m_size = sz\<rparr>),
      task_mem := (task_mem s)(x \<mapsto> ?t)\<rparr>"
  have fp: "task_from_pid p s = Inr (x, s)" by (simp add: task_from_pid_find [OF at] find)
  have "message_to p d sz s = Inr ?s"
    using fp nz m(1) run t q'(1) by (simp add: message_to_def pid_def Let_def update_task_def)
  moreover have "thread_wf ?s"
    using m(2) t by (auto simp: thread_wf_def list_wf_def mm_wf_def)
  moreover have "tasks_at ?s as xs"
    using at m(2) by (auto simp: tasks_at_def thread_wf_def list_wf_def mm_wf_def list_all_iff)
  ultimately show ?thesis using q' m(3-6)
    by (intro exI [of _ msg] exI [of _ q'] exI [of _ ?s]) simp
qed

lemma message_get_first:
  assumes "running_task s \<noteq> NULL" "task_mem s (running_task s) = Some t" "queue_wf (t_message_queue t)"
    and "queue_contents (t_message_queue t) = msg # ms"
  shows "\<exists>q'. message_get s = Inr (msg, s\<lparr>task_mem := (task_mem s)(running_task s \<mapsto> t\<lparr>t_message_queue := q'\<rparr>)\<rparr>) \<and>
    queue_wf q' \<and> queue_contents q' = ms"
proof -
  obtain q' where "queue_remove (t_message_queue t) = Inr (msg, q')" "queue_wf q'" "queue_contents q' = ms"
    using queue_remove_some [OF assms(3,4)] by blast
  then show ?thesis using assms(1,2) by (auto simp: message_get_def task_get_def Let_def update_task_def)
qed

fun send_all :: "u32 \<Rightarrow> (addr \<times> u32) list \<Rightarrow> 'a task_state_scheme \<Rightarrow> 'a task_state_scheme result" where
  "send_all p [] s = Inr s"
| "send_all p ((d, sz) # ms) s = bindr (message_to p d sz s) (send_all p ms)"

fun receive_all :: "nat \<Rightarrow> 'a task_state_scheme \<Rightarrow> (addr list \<times> 'a task_state_scheme) result" where
  "receive_all 0 s = Inr ([], s)"
| "receive_all (Suc n) s =
     bindr (message_get s) (\<lambda>(m, s). bindr (receive_all n s) (\<lambda>(ms, s). Inr (m # ms, s)))"

lemma send_all_queued:
  "\<lbrakk>thread_wf s; tasks_at s as xs; malloc_room s (36 * length ms);
    find (\<lambda>x. t_pid (the (task_mem s x)) = p) xs = Some x; x \<noteq> NULL; task_mem s x = Some t;
    running_task s \<noteq> NULL; task_mem s (running_task s) = Some r; t_pid r = from;
    queue_wf (t_message_queue t);
    length (queue_contents (t_message_queue t)) + length ms \<le> unat (qsize (t_message_queue t))\<rbrakk> \<Longrightarrow>
    \<exists>msgs t' s'. send_all p ms s = Inr s' \<and> task_mem s' x = Some t' \<and> (ms \<noteq> [] \<longrightarrow> t_status t' = TS_READY) \<and>
      queue_wf (t_message_queue t') \<and>
      queue_contents (t_message_queue t') = queue_contents (t_message_queue t) @ msgs \<and>
      list_all2 (\<lambda>a (d, sz). messages s' a = Some \<lparr>m_from = from, m_to = p, m_data = d, m_size = sz\<rparr>) msgs ms \<and>
      list_all (\<lambda>a. unat (malloc_top s) \<le> unat a) msgs \<and>
      (\<forall>a. unat a < unat (malloc_top s) \<longrightarrow> messages s' a = messages s a)"
proof (induction ms arbitrary: s t r)
  case Nil
  then show ?case by (intro exI [of _ "[]"]) auto
next
  case (Cons m ms)
  obtain d sz where m: "m = (d, sz)" by (cases m)
  have room: "malloc_room s 36" using Cons.prems(3) by (simp add: malloc_room_def)
  have ql: "length (queue_contents (t_message_queue t)) < unat (qsize (t_message_queue t))" using Cons.prems(11) by simp
  obtain msg q' s1 where s1: "message_to p d sz s = Inr s1" "thread_wf s1" "tasks_at s1 as xs"
      "messages s1 = (messages s)(msg \<mapsto> \<lparr>m_from = from, m_to = p, m_data = d, m_size = sz\<rparr>)"
      and q': "queue_wf q'" "queue_contents q' = queue_contents (t_message_queue t) @ [msg]"
        "qsize q' = qsize (t_message_queue t)"
      and tm: "task_mem s1 = (task_mem s)(x \<mapsto> t\<lparr>t_message_queue := q', t_status := TS_READY\<rparr>)"
        "running_task s1 = running_task s"
      and top: "unat (malloc_top s) \<le> unat msg" "unat msg < unat (malloc_top s1)"
        "unat (malloc_top s1) = unat (malloc_top s) + 36" "heap s1 = heap s"
    using message_to_delivers [OF Cons.prems(1,2) room Cons.prems(4-8,10) ql, of d sz] Cons.prems(9) by blast
  let ?t1 = "t\<lparr>t_message_queue := q', t_status := TS_READY\<rparr>"
  have f: "find (\<lambda>y. t_pid (the (task_mem s1 y)) = p) xs = Some x"
    unfolding Cons.prems(4) [symmetric] using Cons.prems(6) tm(1) by (intro find_cong) auto
  obtain r1 where r1: "task_mem s1 (running_task s1) = Some r1" "t_pid r1 = from"
    using Cons.prems(6,8,9) tm by (cases "running_task s = x") auto
  have room1: "malloc_room s1 (36 * length ms)" using Cons.prems(3) top by (simp add: malloc_room_def)
  have q1: "queue_wf (t_message_queue ?t1)"
      "length (queue_contents (t_message_queue ?t1)) + length ms \<le> unat (qsize (t_message_queue ?t1))"
    using q' Cons.prems(11) by (simp_all del: length_queue_contents)
  have x1: "task_mem s1 x = Some ?t1" using tm(1) by simp
  have run1: "running_task s1 \<noteq> NULL" using tm(2) Cons.prems(7) by simp
  obtain msgs t' s' where IH: "send_all p ms s1 = Inr s'" "task_mem s' x = Some t'"
      "ms \<noteq> [] \<longrightarrow> t_status t' = TS_READY" "queue_wf (t_message_queue t')"
      "queue_contents (t_message_queue t') = queue_contents (t_message_queue ?t1) @ msgs"
      "list_all2 (\<lambda>a (d, sz). messages s' a = Some \<lparr>m_from = from, m_to = p, m_data = d, m_size = sz\<rparr>) msgs ms"
      "list_all (\<lambda>a. unat (malloc_top s1) \<le> unat a) msgs"
      "\<forall>a. unat a < unat (malloc_top s1) \<longrightarrow> messages s' a = messages s1 a"
    using Cons.IH [OF s1(2,3) room1 f Cons.prems(5) x1 run1 r1 q1] by blast
  have "t_status t' = TS_READY" using IH(1-3) x1 by (cases ms) auto
  moreover have "messages s' msg = Some \<lparr>m_from = from, m_to = p, m_data = d, m_size = sz\<rparr>"
    using IH(8) top(2) s1(4) by simp
  moreover have "list_all (\<lambda>a. unat (malloc_top s) \<le> unat a) msgs" using IH(7) top(3) by (auto simp: list_all_iff)
  moreover have "messages s' a = messages s a" if "unat a < unat (malloc_top s)" for a
    using that IH(8) s1(4) top by (auto simp: fun_upd_def)
  ultimately show ?case using IH s1(1) m top(1) q'(2)
    by (intro exI [of _ "msg # msgs"] exI [of _ t'] exI [of _ s']) simp
qed

lemma receive_all_queued:
  "\<lbrakk>running_task s \<noteq> NULL; task_mem s (running_task s) = Some t; queue_wf (t_message_queue t);
    queue_contents (t_message_queue t) = ms\<rbrakk> \<Longrightarrow>
    \<exists>s'. receive_all (length ms) s = Inr (ms, s') \<and> messages s' = messages s"
proof (induction ms arbitrary: s t)
  case (Cons m ms)
  obtain q' where q': "message_get s = Inr (m, s\<lparr>task_mem := (task_mem s)(running_task s \<mapsto> t\<lparr>t_message_queue := q'\<rparr>)\<rparr>)"
      "queue_wf q'" "queue_contents q' = ms"
    using message_get_first [OF Cons.prems] by blast
  let ?s = "s\<lparr>task_mem := (task_mem s)(running_task s \<mapsto> t\<lparr>t_message_queue := q'\<rparr>)\<rparr>"
  obtain s' where "receive_all (length ms) ?s = Inr (ms, s')" "messages s' = messages ?s"
    using Cons.IH [of ?s "t\<lparr>t_message_queue := q'\<rparr>"] Cons.prems(1) q' by auto
  then show ?case using q'(1) by simp
qed simp

lemma find_snoc: "find P xs = None \<Longrightarrow> P y \<Longrightarrow> find P (xs @ [y]) = Some y"
  by (induction xs) (auto split: if_splits)

section \<open>Properties of threads and messages\<close>

text \<open>
  With memory for it, \<open>thread_create\<close> and \<open>task_add\<close> return a new ready task with the next
  process number and an empty message queue at the end of the task list, and \<open>task_from_pid\<close>
  then finds it under that number, unless an older task has it; all other tasks stay as they
  were.
\<close>

theorem new_thread_found:
  assumes "thread_wf s" "malloc_room s 4525" "list_at (lnodes s) (task_list s) as xs"
    and "list_all (\<lambda>x. task_mem s x \<noteq> None) xs" "list_all (\<lambda>x. t_pid (the (task_mem s x)) \<noteq> pid_n s + 1) xs"
    and "length cells = 32"
  shows "\<exists>p t s1 s2 as'. thread_create raw cells ip prio ppid name s = Inr (p, s1) \<and> task_add p s1 = Inr s2 \<and>
    thread_wf s2 \<and> tasks_at s2 as' (xs @ [p]) \<and> task_mem s p = None \<and> task_mem s2 = (task_mem s)(p \<mapsto> t) \<and>
    t_status t = TS_READY \<and> t_pid t = pid_n s + 1 \<and> t_priority t = prio \<and>
    queue_wf (t_message_queue t) \<and> queue_contents (t_message_queue t) = [] \<and>
    task_from_pid (pid_n s + 1) s2 = Inr (p, s2)"
proof -
  have "malloc_room s 4493" using assms(2) by (simp add: malloc_room_def)
  from thread_create_ready [OF assms(1) this, of raw cells ip prio ppid name] obtain p t s1 where
      c: "thread_create raw cells ip prio ppid name s = Inr (p, s1)" "thread_wf s1" "task_mem s p = None"
      "task_mem s1 = (task_mem s)(p \<mapsto> t)" "t_status t = TS_READY" "t_pid t = pid_n s + 1" "t_priority t = prio"
      "t_message_queue t = queue_init cells 32" "lnodes s1 = lnodes s" "task_list s1 = task_list s"
      "unat (malloc_top s1) = unat (malloc_top s) + 4493" "heap s1 = heap s"
    by blast
  have room: "malloc_room s1 32" using assms(2) c by (simp add: malloc_room_def)
  have at: "list_at (lnodes s1) (task_list s1) as xs" using assms(3) c by simp
  have ok: "list_all (\<lambda>x. task_mem s1 x \<noteq> None) xs" "task_mem s1 p \<noteq> None"
    using assms(4) c(4) by (auto simp: list_all_iff)
  obtain e s2 where s2: "task_add p s1 = Inr s2" "thread_wf s2" "tasks_at s2 (as @ [e]) (xs @ [p])" "task_mem s2 = task_mem s1"
    using task_add_at [OF c(2) room at ok] by blast
  have "x \<noteq> p" if "x \<in> set xs" for x using that assms(4) c(3) by (auto simp: list_all_iff)
  then have "find (\<lambda>x. t_pid (the (task_mem s2 x)) = pid_n s + 1) (xs @ [p]) = Some p"
    using assms(5) s2(4) c(4,6) by (intro find_snoc) (auto simp: find_None_iff list_all_iff)
  then have "task_from_pid (pid_n s + 1) s2 = Inr (p, s2)" by (simp add: task_from_pid_find [OF s2(3)])
  moreover have "queue_wf (t_message_queue t)" "queue_contents (t_message_queue t) = []"
    using queue_init_wf [of 32 cells] assms(6) c(8) by simp_all
  ultimately show ?thesis using c s2 by metis
qed

text \<open>A kernel without tasks and with 64 KB of heap.\<close>

definition no_tasks :: task_state where
  "no_tasks = (two_tasks 0)\<lparr>heap := 0xC0010000, lnodes := Map.empty, task_mem := Map.empty, task_list := NULL,
     running_task := NULL\<rparr>"

lemma two_tasks_wf: "thread_wf (two_tasks n)"
  using two_tasks_at [of n] by (auto simp: thread_wf_def tasks_at_def two_tasks_def)

lemma no_tasks_wf: "thread_wf no_tasks"
  using two_tasks_wf [of 0] by (auto simp: thread_wf_def list_wf_def mm_wf_def no_tasks_def)

theorem new_thread_found_witness:
  "\<exists>p t s1 s2 as'. thread_create (example_task 0 0 TS_DEAD 7) (replicate 32 0) 0x1234 (- 1) 100 0 no_tasks = Inr (p, s1) \<and>
    task_add p s1 = Inr s2 \<and> tasks_at s2 as' ([] @ [p]) \<and> task_mem s2 = (task_mem no_tasks)(p \<mapsto> t) \<and>
    t_status t = TS_READY \<and> task_from_pid (pid_n no_tasks + 1) s2 = Inr (p, s2)"
proof -
  have "malloc_room no_tasks 4525" "list_at (lnodes no_tasks) (task_list no_tasks) [] []"
    by (simp_all add: malloc_room_def no_tasks_def two_tasks_def list_at_def)
  from new_thread_found [OF no_tasks_wf this, where cells = "replicate 32 0" and raw = "example_task 0 0 TS_DEAD 7"
      and ip = "0x1234" and prio = "- 1" and ppid = 100 and name = 0]
  show ?thesis by fastforce
qed

text \<open>
  C13: messages sent to a task, up to the room of its queue, are received by that task in the
  order they were sent, each with its sender, receiver, data and size; the receiver is ready.
\<close>

theorem messages_in_order:
  assumes "thread_wf s" "tasks_at s as xs" "malloc_room s (36 * length ms)"
    and "find (\<lambda>x. t_pid (the (task_mem s x)) = p) xs = Some x" "x \<noteq> NULL" "task_mem s x = Some t"
    and "running_task s \<noteq> NULL" "task_mem s (running_task s) = Some r"
    and "queue_wf (t_message_queue t)" "queue_contents (t_message_queue t) = []"
    and "length ms \<le> unat (qsize (t_message_queue t))"
  shows "\<exists>msgs s1 s2. send_all p ms s = Inr s1 \<and> (ms \<noteq> [] \<longrightarrow> ready_at (task_mem s1) x) \<and>
    receive_all (length ms) (s1\<lparr>running_task := x\<rparr>) = Inr (msgs, s2) \<and>
    list_all2 (\<lambda>a (d, sz). messages s2 a = Some \<lparr>m_from = t_pid r, m_to = p, m_data = d, m_size = sz\<rparr>) msgs ms"
proof -
  have "length (queue_contents (t_message_queue t)) + length ms \<le> unat (qsize (t_message_queue t))"
    using assms(10,11) by simp
  from send_all_queued [OF assms(1-8) refl assms(9) this] obtain msgs t' s1 where
      s1: "send_all p ms s = Inr s1" "task_mem s1 x = Some t'" "ms \<noteq> [] \<longrightarrow> t_status t' = TS_READY"
      "queue_wf (t_message_queue t')" "queue_contents (t_message_queue t') = msgs"
      "list_all2 (\<lambda>a (d, sz). messages s1 a = Some \<lparr>m_from = t_pid r, m_to = p, m_data = d, m_size = sz\<rparr>) msgs ms"
    unfolding assms(10) append_Nil by blast
  have len: "length msgs = length ms" using s1(6) by (rule list_all2_lengthD)
  obtain s2 where "receive_all (length msgs) (s1\<lparr>running_task := x\<rparr>) = Inr (msgs, s2)" "messages s2 = messages s1"
    using receive_all_queued [of "s1\<lparr>running_task := x\<rparr>" t' msgs] assms(5) s1(2,4,5) by auto
  then show ?thesis using s1 unfolding len by (auto simp: ready_at_def)
qed

theorem messages_in_order_witness:
  "\<exists>msgs s1 s2. send_all 1002 [(0x50, 1), (0x60, 2)] (two_tasks 0) = Inr s1 \<and> ready_at (task_mem s1) 0x2000 \<and>
    receive_all 2 (s1\<lparr>running_task := 0x2000\<rparr>) = Inr (msgs, s2) \<and>
    messages s2 (msgs ! 0) = Some \<lparr>m_from = 1001, m_to = 1002, m_data = 0x50, m_size = 1\<rparr> \<and>
    messages s2 (msgs ! 1) = Some \<lparr>m_from = 1001, m_to = 1002, m_data = 0x60, m_size = 2\<rparr>"
proof -
  let ?ms = "[(0x50, 1), (0x60, 2)] :: (addr \<times> u32) list"
  have f: "find (\<lambda>x. t_pid (the (task_mem (two_tasks 0) x)) = 1002) [0x1000, 0x2000] = Some 0x2000"
      "task_mem (two_tasks 0) 0x2000 = Some (example_task 1002 5 TS_BLOCKED 0)"
      "running_task (two_tasks 0) \<noteq> NULL"
      "task_mem (two_tasks 0) (running_task (two_tasks 0)) = Some (example_task 1001 (- 1) TS_READY 0)"
      "malloc_room (two_tasks 0) (36 * length ?ms)"
    by (simp_all add: two_tasks_def example_task_def malloc_room_def)
  have q: "queue_wf (t_message_queue (example_task 1002 5 TS_BLOCKED 0))"
      "queue_contents (t_message_queue (example_task 1002 5 TS_BLOCKED 0)) = []"
      "length ?ms \<le> unat (qsize (t_message_queue (example_task 1002 5 TS_BLOCKED 0)))"
    using queue_init_wf [of 32 "replicate 32 0"] by (simp_all add: example_task_def)
  have p: "t_pid (example_task 1001 (- 1) TS_READY 0) = 1001" by (simp add: example_task_def)
  obtain msgs s1 s2 where m: "send_all 1002 ?ms (two_tasks 0) = Inr s1" "ready_at (task_mem s1) 0x2000"
      "receive_all (length ?ms) (s1\<lparr>running_task := 0x2000\<rparr>) = Inr (msgs, s2)"
      "list_all2 (\<lambda>a (d, sz). messages s2 a = Some \<lparr>m_from = 1001, m_to = 1002, m_data = d, m_size = sz\<rparr>) msgs ?ms"
    using messages_in_order [OF two_tasks_wf two_tasks_at f(5) f(1) _ f(2-4) q] unfolding p by auto
  then show ?thesis by (auto simp: list_all2_Cons2 numeral_2_eq_2)
qed

text \<open>
  The constant \<open>THREAD_MAGIC\<close> does not fit the 16-bit field it is stored in:
  \<open>thread_destroy\<close> takes every task, also one fresh from \<open>thread_create\<close>, for something else and
  never destroys it.
\<close>

theorem thread_destroy_never:
  assumes "task_mem s p = Some t"
  shows "thread_destroy p list_remove s = Inr s"
proof -
  have "unat (ucast (t_magic t) :: u32) < 2 ^ 16"
    using unsigned_less [of "t_magic t"] by (simp add: unat_ucast_up)
  then have "(ucast (t_magic t) :: u32) \<noteq> THREAD_MAGIC" by (auto simp: THREAD_MAGIC_def)
  then show ?thesis using assms by (simp add: thread_destroy_def)
qed

theorem thread_destroy_never_witness:
  "thread_destroy 0x1000 (\<lambda>p s. Inl Panic) (two_tasks 0) = Inr (two_tasks 0)"
  by (rule thread_destroy_never [where t = "example_task 1001 (- 1) TS_READY 0"]) (simp add: two_tasks_def)

end
