(* ===== verification/Console.thy ===== *)
theory Console
  imports Threads Ring
begin

text \<open>
  kernel/terminal.c and kernel/console.c: terminals and consoles, objects of typed heaps.

  A field that is not assigned keeps what the memory held: \<open>junk\<close> is that content. Neither is used
  by the rest of the system yet; \<open>terminal_cursor_update\<close> is empty.
\<close>

section \<open>Terminals\<close>

record terminal =
  term_id :: u8
  term_buffer :: addr
  term_rows :: u8
  term_cols :: u8
  term_row :: u8
  term_col :: u8
  term_color :: u8

record terminal_state = task_state +
  terminal_id :: u8
  term0 :: addr
  terminals :: "addr \<Rightarrow> terminal option"

text \<open>\<open>sizeof(struct terminal)\<close> is 10, the structs are packed; the buffer has 25 * 80 * 2 * 4 bytes.\<close>

definition terminal :: "(addr \<Rightarrow> terminal) \<Rightarrow> 'a terminal_state_scheme \<Rightarrow> (addr \<times> 'a terminal_state_scheme) result" where
  "terminal junk s =
     bindr (malloc 10 s) (\<lambda>(trm, s).
       if trm = NULL then Inr (NULL, s)
       else
         let t = (junk trm)\<lparr>term_cols := 25, term_rows := 80, term_color := 0x7 OR 0x0\<rparr>
         in bindr (malloc (25 * 80 * 2 * 4) s) (\<lambda>(b, s).
              if b = NULL then Inr (NULL, free trm s)
              else
                let t = t\<lparr>term_buffer := b, term_id := terminal_id s\<rparr>;
                    s = s\<lparr>terminals := (terminals s)(trm \<mapsto> t), terminal_id := terminal_id s + 1\<rparr>
                in Inr (trm, if term0 s = NULL then s\<lparr>term0 := trm\<rparr> else s)))"

definition update_term :: "addr \<Rightarrow> (terminal \<Rightarrow> terminal) \<Rightarrow> 'a terminal_state_scheme \<Rightarrow> 'a terminal_state_scheme result" where
  "update_term p f s = bindr (deref (terminals s) p) (\<lambda>t. Inr (s\<lparr>terminals := (terminals s)(p \<mapsto> f t)\<rparr>))"

definition terminal_goto :: "addr \<Rightarrow> u8 \<Rightarrow> u8 \<Rightarrow> 'a terminal_state_scheme \<Rightarrow> 'a terminal_state_scheme result" where
  "terminal_goto p row col =
     update_term p (\<lambda>t.
       let t = (if term_col t < term_cols t then t\<lparr>term_col := col\<rparr> else t\<lparr>term_col := term_cols t - 1\<rparr>)
       in if term_row t < term_rows t then t\<lparr>term_row := row\<rparr> else t\<lparr>term_row := term_rows t - 1\<rparr>)"

definition terminal_color :: "addr \<Rightarrow> u8 \<Rightarrow> 'a terminal_state_scheme \<Rightarrow> 'a terminal_state_scheme result" where
  "terminal_color p c = update_term p (\<lambda>t. t\<lparr>term_color := c\<rparr>)"

text \<open>The pointers given are \<open>None\<close> when they are NULL.\<close>

definition terminal_getpos :: "addr \<Rightarrow> u8 option \<Rightarrow> u8 option \<Rightarrow> 'a terminal_state_scheme \<Rightarrow> (u8 option \<times> u8 option) result" where
  "terminal_getpos p row col s =
     bindr (deref (terminals s) p) (\<lambda>t. Inr (map_option (\<lambda>_. term_row t) row, map_option (\<lambda>_. term_col t) col))"

definition terminal_get_color :: "addr \<Rightarrow> u8 option \<Rightarrow> 'a terminal_state_scheme \<Rightarrow> u8 option result" where
  "terminal_get_color p c s = bindr (deref (terminals s) p) (\<lambda>t. Inr (map_option (\<lambda>_. term_color t) c))"

section \<open>Consoles\<close>

record console =
  con_in :: ring
  con_out :: ring

record console_state = terminal_state +
  consoles :: "addr \<Rightarrow> console option"

text \<open>The field is a 16-bit number, two bytes of the task; as a pointer it is extended with its sign.\<close>

definition console_get :: "'a console_state_scheme \<Rightarrow> addr result" where
  "console_get s =
     (if task_get s = NULL then Inl Panic
      else bindr (deref (task_mem s) (task_get s)) (\<lambda>t.
        bindr (array_get (t_console t) 0) (\<lambda>lo.
        bindr (array_get (t_console t) 1) (\<lambda>hi.
          Inr (scast (ucast lo OR push_bit 8 (ucast hi) :: u16))))))"

text \<open>\<open>sizeof(console_t)\<close> is 48; \<open>c1\<close> and \<open>c2\<close> are the memory of the two rings, \<open>junk\<close> that of the console.\<close>

definition console_create :: "u8 list \<Rightarrow> u8 list \<Rightarrow> console \<Rightarrow> 'a console_state_scheme \<Rightarrow> (addr \<times> 'a console_state_scheme) result" where
  "console_create c1 c2 junk s =
     bindr (malloc 48 s) (\<lambda>(con, s).
       if con = NULL then Inr (NULL, s)
       else
         bindr (malloc (2 * (80 * 25 * 2)) s) (\<lambda>(_, s).
         bindr (malloc 64 s) (\<lambda>(_, s).
           let out = (case ring_init c1 (Some (con_out junk)) (2 * (80 * 25 * 2)) of (_, Some r) \<Rightarrow> r | (_, None) \<Rightarrow> con_out junk);
               inp = (case ring_init c2 (Some (con_in junk)) 64 of (_, Some r) \<Rightarrow> r | (_, None) \<Rightarrow> con_in junk)
           in Inr (con, s\<lparr>consoles := (consoles s)(con \<mapsto> \<lparr>con_in = inp, con_out = out\<rparr>)\<rparr>))))"

section \<open>Positions\<close>

text \<open>
  The code tests the old position: from inside the terminal any position is accepted, and the
  next call, whatever its arguments, puts the cursor at the border.
\<close>

lemma terminal_goto_late:
  assumes "terminals s p = Some t" "term_col t < term_cols t" "term_row t < term_rows t" "term_cols t \<le> c" "term_rows t \<le> r"
  shows "\<exists>s'. bindr (terminal_goto p r c s) (terminal_goto p r' c') = Inr s' \<and>
    terminals s' p = Some (t\<lparr>term_col := term_cols t - 1, term_row := term_rows t - 1\<rparr>)"
proof -
  have "\<not> c < term_cols t" "\<not> r < term_rows t" using assms(4,5) by (simp_all add: linorder_not_less)
  then show ?thesis using assms(1-3) by (simp add: terminal_goto_def update_term_def Let_def)
qed

end
