(* ===== verification/Path.thy ===== *)
theory Path
  imports Threads
begin

text \<open>
  kernel/filesystem/path.c: splitting a path into its segments.

  The state extends the tasks' with memory of 32-bit cells, where arrays of pointers live. The
  code duplicates the path, replaces its slashes by NULs and fills an array with the addresses of
  the segments, followed by NULL. The lemmas show that the array holds exactly the segments of
  the path, and that the terminating NULL is written one cell behind the memory it was
  allocated.
\<close>

section \<open>The code\<close>

record word_state = task_state +
  cells :: "addr \<Rightarrow> u32"

text \<open>The first loop: from index \<open>i\<close> of \<open>str\<close>, with \<open>segs\<close> segments counted.\<close>

fun cut_loop :: "nat \<Rightarrow> mem \<Rightarrow> addr \<Rightarrow> u32 \<Rightarrow> u32 \<Rightarrow> (mem \<times> u32) result" where
  "cut_loop 0 m str i segs = Inl Diverge"
| "cut_loop (Suc n) m str i segs =
     (if m (str + i) = 0 then Inr (m, segs)
      else if m (str + i) = 0x2F then
        let m = m(str + i := 0)
        in if m (str + i + 1) = 0 then Inr (m, segs) else cut_loop n m str (i + 1) (segs + 1)
      else cut_loop n m str (i + 1) segs)"

text \<open>\<open>while( str[i++] );\<close>\<close>

fun skip_loop :: "nat \<Rightarrow> mem \<Rightarrow> addr \<Rightarrow> u32 \<Rightarrow> u32 result" where
  "skip_loop 0 m str i = Inl Diverge"
| "skip_loop (Suc n) m str i = (if m (str + i) \<noteq> 0 then skip_loop n m str (i + 1) else Inr (i + 1))"

text \<open>The second loop, with \<open>n\<close> segments left to store.\<close>

fun fill_loop :: "nat \<Rightarrow> mem \<Rightarrow> addr \<Rightarrow> addr \<Rightarrow> u32 \<Rightarrow> u32 \<Rightarrow> (addr \<Rightarrow> u32) \<Rightarrow> (u32 \<times> (addr \<Rightarrow> u32)) result" where
  "fill_loop 0 m str p seg i w = Inr (seg, w)"
| "fill_loop (Suc n) m str p seg i w =
     bindr (skip_loop addr_space m str i) (\<lambda>i'. fill_loop n m str p (seg + 1) i' (w(p + 4 * seg := str + i)))"

definition path :: "addr \<Rightarrow> 'a word_state_scheme \<Rightarrow> (addr \<times> 'a word_state_scheme) result" where
  "path file s =
     (if file = NULL then Inr (NULL, s)
      else
        let i0 = (if bytes s file = 0x2F then 1 else 0)
        in bindr (strdup file s) (\<lambda>(str, s).
             let str = str + i0
             in bindr (cut_loop addr_space (bytes s) str 0 1) (\<lambda>(m, segs).
                let s = s\<lparr>bytes := m\<rparr>
                in bindr (malloc (4 * segs) s) (\<lambda>(p, s).
                   bindr (fill_loop (unat segs) (bytes s) str p 0 0 (cells s)) (\<lambda>(seg, w).
                     Inr (p, s\<lparr>cells := w(p + 4 * seg := NULL)\<rparr>))))))"

definition path_free :: "addr \<Rightarrow> 'a word_state_scheme \<Rightarrow> 'a word_state_scheme" where
  "path_free p s = s"

section \<open>Segments\<close>

text \<open>
  The segments of a path: one slash at the start and one at the end do not count, the others
  separate.
\<close>

fun split_slash :: "u8 list \<Rightarrow> u8 list list" where
  "split_slash [] = [[]]"
| "split_slash (c # cs) =
     (if c = 0x2F then [] # split_slash cs else (c # hd (split_slash cs)) # tl (split_slash cs))"

definition strip_head :: "u8 list \<Rightarrow> u8 list" where
  "strip_head xs = (case xs of c # cs \<Rightarrow> if c = 0x2F then cs else xs | [] \<Rightarrow> [])"

definition strip_tail :: "u8 list \<Rightarrow> u8 list" where
  "strip_tail xs = (if xs \<noteq> [] \<and> last xs = 0x2F then butlast xs else xs)"

definition segments :: "u8 list \<Rightarrow> u8 list list" where
  "segments xs = split_slash (strip_tail (strip_head xs))"

definition unslash :: "u8 list \<Rightarrow> u8 list" where
  "unslash xs = map (\<lambda>c. if c = 0x2F then 0 else c) xs"

text \<open>Segments laid out one after the other, separated by NULs.\<close>

fun nul_join :: "u8 list list \<Rightarrow> u8 list" where
  "nul_join [] = []"
| "nul_join [g] = g"
| "nul_join (g # gs) = g @ 0 # nul_join gs"

lemma split_slash_neq_Nil [simp]: "split_slash xs \<noteq> []"
  by (cases xs) auto

lemma nul_join_hd: "nul_join ((c # g) # gs) = c # nul_join (g # gs)"
  by (cases gs) auto

lemma unslash_split: "unslash xs = nul_join (split_slash xs)"
proof (induction xs)
  case (Cons c cs)
  show ?case
  proof (cases "c = 0x2F")
    case True
    obtain g gs where "split_slash cs = g # gs" by (cases "split_slash cs") auto
    with True Cons show ?thesis by (simp add: unslash_def)
  next
    case False
    have "split_slash cs = hd (split_slash cs) # tl (split_slash cs)" by simp
    with False Cons show ?thesis by (simp add: unslash_def nul_join_hd)
  qed
qed (simp add: unslash_def)

lemma split_slash_no_zero: "0 \<notin> set xs \<Longrightarrow> g \<in> set (split_slash xs) \<Longrightarrow> 0 \<notin> set g"
proof (induction xs arbitrary: g)
  case (Cons c cs)
  show ?case
  proof (cases "c = 0x2F")
    case True
    with Cons show ?thesis by auto
  next
    case False
    obtain h gs where sp: "split_slash cs = h # gs" by (cases "split_slash cs") auto
    with Cons have "0 \<notin> set h" "\<And>g. g \<in> set gs \<Longrightarrow> 0 \<notin> set g" by auto
    with False Cons.prems sp show ?thesis by auto
  qed
qed simp

lemma length_split_slash: "length (split_slash xs) \<le> length xs + 1"
proof (induction xs)
  case (Cons c cs)
  then show ?case by (cases "split_slash cs") auto
qed simp

section \<open>Cutting\<close>

lemma strip_tail_Cons:
  "strip_tail (c # cs) = (if c = 0x2F \<and> cs = [] then [] else c # strip_tail cs)"
  by (auto simp: strip_tail_def)

lemma cut_loop_segments:
  "\<lbrakk>string_at m (str + i) xs; fits (str + i) (length xs + 1); length xs < n\<rbrakk> \<Longrightarrow>
    \<exists>m'. cut_loop n m str i segs = Inr (m', segs + of_nat (length (split_slash (strip_tail xs)) - 1)) \<and>
      bytes_at m' (str + i) (unslash (strip_tail xs) @ [0]) \<and>
      (\<forall>a. \<not> within (str + i) (length xs) a \<longrightarrow> m' a = m a)"
proof (induction xs arbitrary: m i n segs)
  case Nil
  then show ?case by (cases n) (auto simp: strip_tail_def unslash_def)
next
  case (Cons c cs)
  obtain k where n: "n = Suc k" using Cons.prems(3) by (cases n) auto
  let ?p = "str + i"
  have fp: "fits ?p (Suc (length cs + 1))" using Cons.prems(2) by simp
  have nx: "str + (i + 1) = ?p + 1" by simp
  have at: "m ?p = c" "c \<noteq> 0" "string_at m (?p + 1) cs" using Cons.prems(1) by auto
  have f1: "fits (?p + 1) (length cs + 1)" by (rule fits_next [OF fp])
  have sub: "within ?p (length (c # cs)) a \<longleftrightarrow> a = ?p \<or> within (?p + 1) (length cs) a" for a
    using within_Suc [OF fits_mono [OF fp, of "Suc (length cs)"], of a] by simp
  have keep: "\<not> within (?p + 1) (length cs) ?p"
    using not_within_start [OF fits_mono [OF fp, of "Suc (length cs)"]] by simp
  show ?case
  proof (cases "c = 0x2F")
    case False
    obtain m' where m': "cut_loop k m str (i + 1) segs =
          Inr (m', segs + of_nat (length (split_slash (strip_tail cs)) - 1))"
        "bytes_at m' (?p + 1) (unslash (strip_tail cs) @ [0])"
        "\<forall>a. \<not> within (?p + 1) (length cs) a \<longrightarrow> m' a = m a"
      using Cons.IH [of m "i + 1" k segs] at f1 Cons.prems(3) n unfolding nx by auto
    have "m' ?p = c" using m'(3) keep at by simp
    then show ?thesis using m' at False sub n
      by (intro exI [of _ m']) (auto simp: strip_tail_Cons unslash_def)
  next
    case True
    let ?m = "m(?p := 0)"
    have ne: "?p + 1 \<noteq> ?p" by simp
    have at1: "string_at ?m (?p + 1) cs"
      by (rule string_at_cong [THEN iffD1, OF f1 _ at(3)]) (use not_within_start [OF fp] in auto)
    show ?thesis
    proof (cases "cs = []")
      case nil: True
      then show ?thesis using True at n ne
        by (intro exI [of _ ?m]) (auto simp: strip_tail_Cons strip_tail_def unslash_def within_def)
    next
      case False
      then have nz: "?m (?p + 1) \<noteq> 0" using at1 by (cases cs) auto
      obtain m' where m': "cut_loop k ?m str (i + 1) (segs + 1) =
            Inr (m', segs + 1 + of_nat (length (split_slash (strip_tail cs)) - 1))"
          "bytes_at m' (?p + 1) (unslash (strip_tail cs) @ [0])"
          "\<forall>a. \<not> within (?p + 1) (length cs) a \<longrightarrow> m' a = ?m a"
        using Cons.IH [of ?m "i + 1" k "segs + 1", unfolded nx, OF at1 f1] Cons.prems(3) n
        by (auto simp: fun_upd_def)
      have z: "m' ?p = 0" using m'(3) keep by simp
      have len: "(1 :: u32) + of_nat (length (split_slash (strip_tail cs)) - 1) =
          of_nat (length (split_slash (strip_tail cs)))"
        by (cases "split_slash (strip_tail cs)") auto
      have "cut_loop n m str i segs = cut_loop k ?m str (i + 1) (segs + 1)"
        using n at True nz by (simp add: Let_def add.assoc)
      also have "\<dots> = Inr (m', segs + of_nat (length (split_slash (strip_tail (c # cs))) - 1))"
        using m'(1) True False len by (simp add: strip_tail_Cons add.assoc)
      finally show ?thesis using m'(2,3) z True False sub
        by (intro exI [of _ m']) (auto simp: strip_tail_Cons unslash_def)
    qed
  qed
qed

section \<open>Filling\<close>

lemma bytes_at_append:
  "bytes_at m p (xs @ ys) \<longleftrightarrow> bytes_at m p xs \<and> bytes_at m (p + of_nat (length xs)) ys"
  by (induction xs arbitrary: p) (auto simp: algebra_simps)

lemma bytes_at_string:
  assumes "bytes_at m p (xs @ 0 # ys)" "0 \<notin> set xs"
  shows "string_at m p xs" "bytes_at m (p + of_nat (length xs) + 1) ys"
proof -
  show "string_at m p xs" using string_at_join [of m p xs "[]"] assms by (simp add: bytes_at_append)
  show "bytes_at m (p + of_nat (length xs) + 1) ys" using assms(1) by (simp add: bytes_at_append)
qed

lemma skip_loop_string:
  "\<lbrakk>string_at m (str + i) xs; length xs < n\<rbrakk> \<Longrightarrow> skip_loop n m str i = Inr (i + of_nat (length xs) + 1)"
proof (induction xs arbitrary: i n)
  case Nil
  then show ?case by (cases n) auto
next
  case (Cons c cs)
  obtain k where "n = Suc k" using Cons.prems(2) by (cases n) auto
  with Cons.prems Cons.IH [of "i + 1" k] show ?case by (auto simp: algebra_simps)
qed

text \<open>An array of pointers at \<open>p\<close>, to the strings \<open>ss\<close>.\<close>

fun pointers_at :: "mem \<Rightarrow> (addr \<Rightarrow> u32) \<Rightarrow> addr \<Rightarrow> u8 list list \<Rightarrow> bool" where
  "pointers_at m w p [] \<longleftrightarrow> True"
| "pointers_at m w p (g # gs) \<longleftrightarrow> w p \<noteq> NULL \<and> string_at m (w p) g \<and> pointers_at m w (p + 4) gs"

lemma fits_next4: "fits p (4 + n) \<Longrightarrow> unat (p + 4) = unat p + 4 \<and> fits (p + 4) n"
  using unat_offset [of p "4 + n" 4] by (simp add: fits_def)

lemma fill_loop_pointers:
  "\<lbrakk>bytes_at m (str + i) (nul_join ss @ [0]); \<forall>g \<in> set ss. 0 \<notin> set g; p + 4 * seg = q; fits q (4 * length ss);
    str + i \<noteq> NULL; fits (str + i) (length (nul_join ss) + 1)\<rbrakk> \<Longrightarrow>
    \<exists>w'. fill_loop (length ss) m str p seg i w = Inr (seg + of_nat (length ss), w') \<and>
      pointers_at m w' q ss \<and> (\<forall>a. \<not> within q (4 * length ss) a \<longrightarrow> w' a = w a)"
proof (induction ss arbitrary: i seg q w)
  case (Cons g gs)
  have g: "0 \<notin> set g" using Cons.prems(2) by simp
  obtain ys where ys: "nul_join (g # gs) @ [0] = g @ 0 # ys" "gs \<noteq> [] \<Longrightarrow> ys = nul_join gs @ [0]"
    by (cases gs) auto
  have sg: "string_at m (str + i) g" and tl: "bytes_at m (str + i + of_nat (length g) + 1) ys"
    using bytes_at_string [of m "str + i" g ys] Cons.prems(1) g unfolding ys(1) by auto
  let ?i = "i + of_nat (length g) + 1" and ?w = "w(q := str + i)"
  have sk: "skip_loop addr_space m str i = Inr ?i"
    using skip_loop_string [OF sg] string_at_length [OF sg] by (simp add: addr_space_def)
  have f: "unat (q + 4) = unat q + 4" "fits (q + 4) (4 * length gs)"
    using fits_next4 [of q "4 * length gs"] Cons.prems(4) by auto
  have q: "p + 4 * (seg + 1) = q + 4" using Cons.prems(3) by (auto simp: algebra_simps)
  have "\<exists>w'. fill_loop (length gs) m str p (seg + 1) ?i ?w = Inr (seg + 1 + of_nat (length gs), w') \<and>
      pointers_at m w' (q + 4) gs \<and> (\<forall>a. \<not> within (q + 4) (4 * length gs) a \<longrightarrow> w' a = ?w a)"
  proof (cases "gs = []")
    case False
    then have at: "bytes_at m (str + ?i) (nul_join gs @ [0])" using tl ys(2) by (simp add: add.assoc)
    have len: "length (nul_join (g # gs)) = length g + 1 + length (nul_join gs)" using False by (cases gs) auto
    have "unat (str + i + of_nat (length g + 1)) = unat (str + i) + (length g + 1)"
      by (rule unat_offset [OF Cons.prems(6)]) (simp add: len)
    then have u: "unat (str + ?i) = unat (str + i) + length g + 1" by (simp add: algebra_simps)
    have "str + ?i \<noteq> NULL" using u by (metis add_is_0 one_neq_zero unat_0)
    moreover have "fits (str + ?i) (length (nul_join gs) + 1)"
      using Cons.prems(6) unfolding fits_def u len by linarith
    ultimately show ?thesis using Cons.IH [OF at _ q f(2), of ?w] Cons.prems(2) by (simp add: fun_upd_def)
  qed simp
  then obtain w' where w': "fill_loop (length gs) m str p (seg + 1) ?i ?w = Inr (seg + 1 + of_nat (length gs), w')"
      "pointers_at m w' (q + 4) gs" "\<forall>a. \<not> within (q + 4) (4 * length gs) a \<longrightarrow> w' a = ?w a" by blast
  have "w' q = str + i" using w'(3) f(1) by (simp add: within_def)
  moreover have "w' a = w a" if "\<not> within q (4 * length (g # gs)) a" for a
  proof -
    have "a \<noteq> q" "\<not> within (q + 4) (4 * length gs) a" using that f(1) by (auto simp: within_def)
    then show ?thesis using w'(3) by simp
  qed
  ultimately show ?case using w'(1,2) sk sg Cons.prems(3,5)
    by (intro exI [of _ w']) (simp add: algebra_simps)
qed simp

section \<open>Splitting a path\<close>

lemma length_strip: "length (strip_tail (strip_head xs)) \<le> length xs"
  by (cases xs) (auto simp: strip_head_def strip_tail_def)

lemma length_segments: "0 < length (segments xs)" "length (segments xs) \<le> length xs + 1"
  using length_split_slash [of "strip_tail (strip_head xs)"] length_strip [of xs]
  by (simp_all add: segments_def)

lemma set_strip: "set (strip_tail (strip_head xs)) \<subseteq> set xs"
  by (cases xs) (auto simp: strip_head_def strip_tail_def dest: in_set_butlastD)

lemma segments_no_zero: "0 \<notin> set xs \<Longrightarrow> \<forall>g \<in> set (segments xs). 0 \<notin> set g"
  using split_slash_no_zero [of "strip_tail (strip_head xs)"] set_strip [of xs] unfolding segments_def by blast

lemma word_state_malloced [simp]: "cells (malloced sz s lb) = cells s"
  by (simp add: malloced_def)

text \<open>Cutting the copy: what the loop finds behind the leading slash.\<close>

lemma cut_copy:
  assumes q: "string_at m q xs" "fits q (length xs + 1)"
  defines "str \<equiv> q + (if m q = 0x2F then 1 else 0)"
  shows "\<exists>m'. cut_loop addr_space m str 0 1 = Inr (m', of_nat (length (segments xs))) \<and>
    bytes_at m' str (nul_join (segments xs) @ [0]) \<and> (\<forall>a. \<not> within q (length xs) a \<longrightarrow> m' a = m a) \<and>
    fits str (length (nul_join (segments xs)) + 1) \<and> (q \<noteq> NULL \<longrightarrow> str \<noteq> NULL)"
proof -
  let ?ys = "strip_head xs"
  have ys: "string_at m str ?ys \<and> fits str (length ?ys + 1) \<and> length ?ys < addr_space \<and>
      (\<forall>a. within str (length ?ys) a \<longrightarrow> within q (length xs) a) \<and> (q \<noteq> NULL \<longrightarrow> str \<noteq> NULL)"
  proof (cases xs)
    case Nil
    then show ?thesis using q by (simp add: str_def strip_head_def addr_space_def)
  next
    case (Cons c cs)
    have "unat (q + 1) = unat q + 1" "fits (q + 1) (length cs + 1)"
      using q(2) Cons unat_next [of q "length cs + 1"] fits_next [of q "length cs + 1"] by simp_all
    moreover have "q + 1 \<noteq> 0" using calculation(1) by (metis add_is_0 one_neq_zero unat_0)
    ultimately show ?thesis using q Cons string_at_length [OF q(1)]
      by (auto simp: str_def strip_head_def addr_space_def within_def)
  qed
  have n: "(1 :: u32) + of_nat (length (segments xs) - 1) = of_nat (length (segments xs))"
    using length_segments(1) [of xs] by (cases "segments xs") auto
  obtain m' where m': "cut_loop addr_space m str 0 1 = Inr (m', 1 + of_nat (length (segments xs) - 1))"
      "bytes_at m' str (nul_join (segments xs) @ [0])" "\<forall>a. \<not> within str (length ?ys) a \<longrightarrow> m' a = m a"
    using cut_loop_segments [of m str 0 ?ys addr_space 1] ys by (auto simp: segments_def unslash_split)
  have "length (nul_join (segments xs)) = length (strip_tail ?ys)"
    by (simp add: segments_def unslash_split [symmetric] unslash_def)
  also have "\<dots> \<le> length ?ys" by (simp add: strip_tail_def)
  finally have le: "length (nul_join (segments xs)) \<le> length ?ys" .
  have fy: "fits str (length ?ys + 1)" using ys by blast
  have "fits str (length (nul_join (segments xs)) + 1)" by (rule fits_mono [OF fy]) (use le in simp)
  then show ?thesis using ys n m' by auto
qed

lemma pointers_at_cong:
  "\<lbrakk>fits p (4 * length ss); \<And>a. within p (4 * length ss) a \<Longrightarrow> w a = w' a\<rbrakk> \<Longrightarrow>
    pointers_at m w p ss = pointers_at m w' p ss"
proof (induction ss arbitrary: p)
  case (Cons g gs)
  have f: "unat (p + 4) = unat p + 4" "fits (p + 4) (4 * length gs)"
    using fits_next4 [of p "4 * length gs"] Cons.prems(1) by auto
  have "w p = w' p" using Cons.prems(2) [of p] by (simp add: within_def)
  moreover have "pointers_at m w (p + 4) gs = pointers_at m w' (p + 4) gs"
    by (rule Cons.IH [OF f(2)]) (rule Cons.prems(2), use f(1) in \<open>auto simp: within_def\<close>)
  ultimately show ?case by simp
qed simp

lemma path_segments:
  assumes wf: "mm_wf s" and fl: "string_below s file xs" "file \<noteq> NULL"
    and room: "malloc_room s (20 + (length xs + 1) + 20 + 4 * (length xs + 1))"
  shows "\<exists>p s'. path file s = Inr (p, s') \<and> mm_wf s' \<and> pointers_at (bytes s') (cells s') p (segments xs) \<and>
    unat p + 4 * length (segments xs) = unat (malloc_top s') \<and> cells s' (malloc_top s') = NULL \<and>
    (\<forall>a. unat a < unat (malloc_top s) \<longrightarrow> bytes s' a = bytes s a \<and> cells s' a = cells s a) \<and>
    malloc_top s < malloc_top s' \<and> p \<noteq> NULL \<and> fits p (4 * length (segments xs)) \<and> heap s' = heap s \<and> lnodes s' = lnodes s \<and>
    running_task s' = running_task s \<and> task_mem s' = task_mem s \<and> word_state.more s' = word_state.more s \<and>
    unat (malloc_top s') = unat (malloc_top s) + 41 + length xs + 4 * length (segments xs)"
proof -
  let ?k = "length (segments xs)"
  have at: "string_at (bytes s) file xs" using fl(1) by (simp add: string_below_def)
  have r1: "malloc_room s (20 + (length xs + 1))" using room by (simp add: malloc_room_def)
  obtain q s1 where d: "strdup file s = Inr (q, s1)" "mm_wf s1" "string_below s1 q xs"
      "unat (malloc_top s) \<le> unat q" "unat (malloc_top s1) = unat (malloc_top s) + 20 + length xs + 1"
      "heap s1 = heap s" "\<forall>a. unat a < unat (malloc_top s) \<longrightarrow> bytes s1 a = bytes s a"
      "\<exists>lb m. s1 = (malloced (of_nat (length xs + 1)) s lb)\<lparr>bytes := m\<rparr>" "q \<noteq> NULL"
    using strdup_copies [OF wf fl r1] by blast
  have q: "string_at (bytes s1) q xs" using d(3) by (simp add: string_below_def)
  have hd: "bytes s file = 0x2F \<longleftrightarrow> bytes s1 q = 0x2F" using at q by (cases xs) auto
  let ?str = "q + (if bytes s1 q = 0x2F then 1 else 0)"
  obtain m where m: "cut_loop addr_space (bytes s1) ?str 0 1 = Inr (m, of_nat ?k)"
      "bytes_at m ?str (nul_join (segments xs) @ [0])" "\<forall>a. \<not> within q (length xs) a \<longrightarrow> m a = bytes s1 a"
      "fits ?str (length (nul_join (segments xs)) + 1)" "q \<noteq> NULL \<longrightarrow> ?str \<noteq> NULL"
    using cut_copy [OF q string_below_fits [OF d(3)]] by blast
  let ?s2 = "s1\<lparr>bytes := m\<rparr>"
  have wf2: "mm_wf ?s2" using d(2) by (simp add: mm_wf_def)
  have k: "0 < 4 * ?k" "4 * ?k \<le> 4 * (length xs + 1)" using length_segments [of xs] by auto
  have r2: "malloc_room ?s2 (20 + 4 * ?k)" using room d(5,6) k by (simp add: malloc_room_def)
  obtain p s3 where p: "malloc (of_nat (4 * ?k)) ?s2 = Inr (p, s3)" "mm_wf s3" "bytes s3 = m"
      "unat p = unat (malloc_top s1) + 20" "fits p (4 * ?k)" "unat (malloc_top s3) = unat p + 4 * ?k"
      "\<exists>lb. s3 = malloced (of_nat (4 * ?k)) ?s2 lb"
    using malloc_bytes [OF wf2 k(1) r2] by (elim exE conjE) (simp, blast)
  have kk: "unat (of_nat ?k :: u32) = ?k"
    using k p(5) by (intro unat_of_nat_addr) (simp add: fits_def)
  obtain w where w: "fill_loop ?k m ?str p 0 0 (cells s3) = Inr (of_nat ?k, w)" "pointers_at m w p (segments xs)"
      "\<forall>a. \<not> within p (4 * ?k) a \<longrightarrow> w a = cells s3 a"
    using fill_loop_pointers [of m ?str 0 "segments xs" p 0 p "cells s3"] m(2,4,5) d(9) p(5)
      segments_no_zero [OF string_at_nonzero [OF q]] by auto
  have tp: "p + 4 * of_nat ?k = malloc_top s3"
    using unat_offset [OF p(5), of "4 * ?k"] p(6) by (simp add: word_unat_eq_iff)
  let ?s4 = "s3\<lparr>cells := w(malloc_top s3 := NULL)\<rparr>"
  have run: "path file s = Inr (p, ?s4)"
    using fl(2) d(1) m(1) p(1,3) w(1) kk hd tp by (simp add: path_def Let_def)
  have out: "\<not> within p (4 * ?k) (malloc_top s3)" using p(6) by (simp add: within_def)
  have "pointers_at m (cells ?s4) p (segments xs)"
    by (rule pointers_at_cong [THEN iffD1, OF p(5) _ w(2)]) (use out in auto)
  then have "pointers_at (bytes ?s4) (cells ?s4) p (segments xs)" by (simp add: p(3))
  moreover have "bytes ?s4 a = bytes s a \<and> cells ?s4 a = cells s a" if a: "unat a < unat (malloc_top s)" for a
  proof -
    have "\<not> within q (length xs) a" "\<not> within p (4 * ?k) a" "a \<noteq> malloc_top s3"
      using a d(4,5) p(4,6) by (auto simp: within_def)
    moreover have "cells s3 = cells s" using d(8) p(7) by auto
    ultimately show ?thesis using a d(7) m(3) w(3) p(3) by simp
  qed
  moreover have "mm_wf ?s4" using p(2) by (simp add: mm_wf_def)
  moreover have "malloc_top s < malloc_top s3" using d(5) p(4,6) by (simp add: word_less_nat_alt)
  moreover have "heap ?s4 = heap s \<and> lnodes ?s4 = lnodes s \<and> running_task ?s4 = running_task s \<and>
      task_mem ?s4 = task_mem s \<and> word_state.more ?s4 = word_state.more s"
    using d(8) p(7) by (auto simp: malloced_def)
  moreover have "p \<noteq> NULL" using p(4) by auto
  moreover have "unat (malloc_top s3) = unat (malloc_top s) + 41 + length xs + 4 * ?k" using p(4,6) d(5) by simp
  ultimately show ?thesis using run p(5,6) by (intro exI [of _ p] exI [of _ ?s4]) simp
qed


text \<open>The path \<open>"/a/b/"\<close>, above the strings of the example heap.\<close>

definition path_heap :: word_state where
  "path_heap = byte_state.extend
     (string_heap\<lparr>bytes := (\<lambda>_. 0)(0x1000 := 0x2F, 0x1001 := 0x61, 0x1002 := 0x2F, 0x1003 := 0x62, 0x1004 := 0x2F)\<rparr>)
     \<lparr>lnodes = Map.empty, running_task = 0, pid_n = 0, num_tasks = 0, task_list = 0, task_mem = Map.empty,
      messages = Map.empty, io_log = [], cells = \<lambda>_. 0\<rparr>"

lemma path_heap_wf: "mm_wf path_heap"
  unfolding mm_wf_def
  by (rule exI [of _ "[0xC0000000]"])
    (simp add: path_heap_def byte_state.defs string_heap_def used_block_def new_block_def)


end
