(* ===== verification/Printf.thy ===== *)
theory Printf
  imports CString
begin

text \<open>
  lib/stdio/printf.c and kernel/debug_printf.c (the same formatter over another \<open>putchar\<close>),
  and lib/stdlib/rand.c.

  The model returns the characters handed to \<open>putchar\<close>, in order. \<open>buf\<close> is the address of the
  formatter's 20-byte buffer, where itoa works; the arguments are the words behind the format
  pointer on the stack, as a list, and reading past them is \<open>OutOfBounds\<close>. The main lemma
  renders a format built from directives: each literal, padded number, string and character
  prints as it should.
\<close>

section \<open>The code\<close>

text \<open>\<open>for (p2 = p; *p2; p2++);\<close> and \<open>while (*p) putchar (*p++);\<close>\<close>

fun find_end :: "nat \<Rightarrow> mem \<Rightarrow> addr \<Rightarrow> addr result" where
  "find_end 0 m p2 = Inl Diverge"
| "find_end (Suc n) m p2 = (if m p2 \<noteq> 0 then find_end n m (p2 + 1) else Inr p2)"

fun put_string :: "nat \<Rightarrow> mem \<Rightarrow> addr \<Rightarrow> u8 list \<Rightarrow> u8 list result" where
  "put_string 0 m p out = Inl Diverge"
| "put_string (Suc n) m p out =
     (if m p \<noteq> 0 then put_string n m (p + 1) (out @ [m p]) else Inr out)"

text \<open>The code at the label \<open>string\<close>: padding, then the string.\<close>

definition print_string :: "mem \<Rightarrow> addr \<Rightarrow> bool \<Rightarrow> u32 \<Rightarrow> u8 list \<Rightarrow> u8 list result" where
  "print_string m p pad0 pad out =
     bindr (find_end addr_space m p) (\<lambda>p2.
       put_string addr_space m p
         (out @ replicate (unat (p + pad) - unat p2) (if pad0 then 0x30 else 0x20)))"

text \<open>The literal the code substitutes for a null string.\<close>

definition null_literal :: "u8 list" where
  "null_literal = [0x28, 0x6e, 0x75, 0x6c, 0x6c, 0x29]"

definition print_null :: "bool \<Rightarrow> u32 \<Rightarrow> u8 list \<Rightarrow> u8 list" where
  "print_null pad0 pad out =
     out @ replicate (unat pad - length null_literal) (if pad0 then 0x30 else 0x20) @ null_literal"

text \<open>The character, the flags and the position after a \<open>%\<close>.\<close>

definition parse_flags :: "mem \<Rightarrow> addr \<Rightarrow> bool \<times> u32 \<times> u8 \<times> addr" where
  "parse_flags m format =
     (let c = m format; format = format + 1;
          (pad0, c, format) =
            (if c = 0x30 then (True, m format, format + 1) else (False, c, format));
          (pad, c, format) =
            (if 0x30 \<le> c \<and> c \<le> 0x39 then (ucast c - 0x30 :: u32, m format, format + 1)
             else (0, c, format))
      in (pad0, pad, c, format))"

text \<open>The switch: new memory, remaining arguments, output.\<close>

definition print_conversion ::
    "mem \<Rightarrow> addr \<Rightarrow> bool \<Rightarrow> u32 \<Rightarrow> u8 \<Rightarrow> u32 list \<Rightarrow> u8 list \<Rightarrow> (mem \<times> u32 list \<times> u8 list) result" where
  "print_conversion m buf pad0 pad c args out =
     (case args of
        [] \<Rightarrow> Inl OutOfBounds
      | a # args' \<Rightarrow>
          if c = 0x58 \<or> c = 0x64 \<or> c = 0x75 \<or> c = 0x78 then
            let m' = itoa m buf (ucast c) a
            in bindr (print_string m' buf pad0 pad out) (\<lambda>out'. Inr (m', args', out'))
          else if c = 0x73 then
            if a = 0 then Inr (m, args', print_null pad0 pad out)
            else bindr (print_string m a pad0 pad out) (\<lambda>out'. Inr (m, args', out'))
          else Inr (m, args', out @ [ucast a]))"

fun printf_loop :: "nat \<Rightarrow> mem \<Rightarrow> addr \<Rightarrow> addr \<Rightarrow> u32 list \<Rightarrow> u8 list \<Rightarrow> u8 list result" where
  "printf_loop 0 m buf format args out = Inl Diverge"
| "printf_loop (Suc n) m buf format args out =
     (let c = m format; format = format + 1
      in if c = 0 then Inr out
         else if c \<noteq> 0x25 then printf_loop n m buf format args (out @ [c])
         else
           let (pad0, pad, c, format) = parse_flags m format
           in bindr (print_conversion m buf pad0 pad c args out)
                (\<lambda>(m, args, out). printf_loop n m buf format args out))"

definition printf :: "mem \<Rightarrow> addr \<Rightarrow> addr \<Rightarrow> u32 list \<Rightarrow> u8 list result" where
  "printf m buf format args = printf_loop addr_space m buf format args []"

text \<open>
  lib/stdlib/rand.c: \<open>next\<close> is a 32-bit unsigned long; the functions return the new state.
\<close>

definition srand :: "u32 \<Rightarrow> u32" where
  "srand seed = seed"

definition rand :: "u32 \<Rightarrow> u32 \<times> int" where
  "rand next =
     (let next' = next * 1103515245 + 12345
      in (next', uint ((next' div 65536) mod 32768)))"

section \<open>Formats as directives\<close>

datatype directive =
    Lit u8
  | Num bool nat u8      \<comment> \<open>zero padding, width, conversion: one of \<open>X d u x\<close>\<close>
  | Str bool nat
  | Chr u8               \<comment> \<open>any other conversion character prints its argument as a character\<close>

definition numeric :: "u8 \<Rightarrow> bool" where
  "numeric c \<longleftrightarrow> c = 0x58 \<or> c = 0x64 \<or> c = 0x75 \<or> c = 0x78"

fun directive_ok :: "directive \<Rightarrow> bool" where
  "directive_ok (Lit c) \<longleftrightarrow> c \<noteq> 0 \<and> c \<noteq> 0x25"
| "directive_ok (Num pad0 pad c) \<longleftrightarrow> pad < 10 \<and> numeric c"
| "directive_ok (Str pad0 pad) \<longleftrightarrow> pad < 10"
| "directive_ok (Chr c) \<longleftrightarrow> c \<noteq> 0 \<and> \<not> numeric c \<and> c \<noteq> 0x73 \<and> \<not> (0x30 \<le> c \<and> c \<le> 0x39)"

definition flags_text :: "bool \<Rightarrow> nat \<Rightarrow> u8 list" where
  "flags_text pad0 pad =
     (if pad0 then [0x30] else []) @ (if pad = 0 then [] else [of_nat (48 + pad)])"

fun directive_text :: "directive \<Rightarrow> u8 list" where
  "directive_text (Lit c) = [c]"
| "directive_text (Num pad0 pad c) = 0x25 # flags_text pad0 pad @ [c]"
| "directive_text (Str pad0 pad) = 0x25 # flags_text pad0 pad @ [0x73]"
| "directive_text (Chr c) = [0x25, c]"

definition pad_left :: "bool \<Rightarrow> nat \<Rightarrow> u8 list \<Rightarrow> u8 list" where
  "pad_left pad0 pad xs = replicate (pad - length xs) (if pad0 then 0x30 else 0x20) @ xs"

text \<open>
  What directives print. \<open>str a\<close> is the C string at address \<open>a\<close>; \<open>None\<close>: an argument is missing.
\<close>

fun render :: "(addr \<Rightarrow> u8 list) \<Rightarrow> directive list \<Rightarrow> u32 list \<Rightarrow> u8 list option" where
  "render str [] args = Some []"
| "render str (Lit c # ds) args = map_option ((#) c) (render str ds args)"
| "render str (Num pad0 pad c # ds) (a # args) =
     map_option ((@) (pad_left pad0 pad (itoa_text (ucast c) a))) (render str ds args)"
| "render str (Str pad0 pad # ds) (a # args) =
     map_option ((@) (pad_left pad0 pad (if a = 0 then null_literal else str a)))
       (render str ds args)"
| "render str (Chr c # ds) (a # args) = map_option ((#) (ucast a)) (render str ds args)"
| "render str ds args = None"

text \<open>The string arguments of a list of directives.\<close>

fun string_args :: "directive list \<Rightarrow> u32 list \<Rightarrow> addr list" where
  "string_args [] args = []"
| "string_args (Lit c # ds) args = string_args ds args"
| "string_args (Num pad0 pad c # ds) args = string_args ds (tl args)"
| "string_args (Str pad0 pad # ds) args =
     (if args = [] \<or> hd args = 0 then [] else [hd args]) @ string_args ds (tl args)"
| "string_args (Chr c # ds) args = string_args ds (tl args)"

section \<open>Printing one directive\<close>

lemma find_end_string:
  "\<lbrakk>string_at m p xs; length xs < n\<rbrakk> \<Longrightarrow> find_end n m p = Inr (p + of_nat (length xs))"
proof (induction xs arbitrary: p n)
  case Nil
  then show ?case by (cases n) auto
next
  case (Cons x xs)
  then show ?case by (cases n) (auto simp: algebra_simps)
qed

lemma put_string_string:
  "\<lbrakk>string_at m p xs; length xs < n\<rbrakk> \<Longrightarrow> put_string n m p out = Inr (out @ xs)"
proof (induction xs arbitrary: p n out)
  case Nil
  then show ?case by (cases n) auto
next
  case (Cons x xs)
  then show ?case by (cases n) auto
qed

lemma print_string_string:
  assumes str: "string_at m p xs" and fit: "fits p (length xs + 10)" and pad: "pad < 10"
  shows "print_string m p pad0 (of_nat pad) out = Inr (out @ pad_left pad0 pad xs)"
proof -
  have len: "length xs < addr_space" using string_at_length [OF str] by (simp add: addr_space_def)
  have "unat (p + of_nat (length xs)) = unat p + length xs" "unat (p + of_nat pad) = unat p + pad"
    using pad by (simp_all add: unat_offset [OF fit])
  then show ?thesis
    by (simp add: print_string_def find_end_string [OF str len] put_string_string [OF str len]
        pad_left_def)
qed

lemma string_at_append:
  "string_at m p (xs @ ys) \<longleftrightarrow>
    bytes_at m p xs \<and> 0 \<notin> set xs \<and> string_at m (p + of_nat (length xs)) ys"
  by (induction xs arbitrary: p) (auto simp: algebra_simps)

lemma width_char:
  assumes "pad < 10" "pad \<noteq> 0"
  shows "(0x30 :: u8) \<le> of_nat (48 + pad)" "(of_nat (48 + pad) :: u8) \<le> 0x39"
    "(of_nat (48 + pad) :: u8) \<noteq> 0x30" "ucast (of_nat (48 + pad) :: u8) - 0x30 = (of_nat pad :: u32)"
proof -
  have u: "unat (of_nat (48 + pad) :: u8) = 48 + pad"
    using assms by (simp add: unat_of_nat del: of_nat_add)
  show "(0x30 :: u8) \<le> of_nat (48 + pad)" "(of_nat (48 + pad) :: u8) \<le> 0x39"
    "(of_nat (48 + pad) :: u8) \<noteq> 0x30"
    using assms u by (auto simp: word_le_nat_alt word_unat_eq_iff simp del: of_nat_add)
  have "unat (ucast (of_nat (48 + pad) :: u8) :: u32) = 48 + pad"
    by (simp only: unat_ucast_up [where 'a = 8 and 'b = 32, simplified] u)
  then have "(ucast (of_nat (48 + pad) :: u8) :: u32) = of_nat (48 + pad)"
    using assms by (simp add: word_unat_eq_iff unat_of_nat del: of_nat_add)
  then show "ucast (of_nat (48 + pad) :: u8) - 0x30 = (of_nat pad :: u32)" by simp
qed

lemma parse_flags_text:
  assumes "bytes_at m format (flags_text pad0 pad @ [c])" "pad < 10"
    and "\<not> (0x30 \<le> c \<and> c \<le> 0x39)"
  shows "parse_flags m format =
    (pad0, of_nat pad, c, format + of_nat (length (flags_text pad0 pad) + 1))"
proof -
  have c: "c \<noteq> 0x30" using assms(3) by auto
  show ?thesis
  proof (cases "pad = 0")
    case True
    with assms(1,3) c show ?thesis
      by (cases pad0) (auto simp: parse_flags_def flags_text_def Let_def)
  next
    case False
    note w = width_char [OF assms(2) False]
    show ?thesis using assms(1) False w
      by (cases pad0) (auto simp: parse_flags_def flags_text_def Let_def simp del: of_nat_add)
  qed
qed

lemma numeric_not_digit: "numeric c \<Longrightarrow> \<not> (0x30 \<le> c \<and> c \<le> 0x39)"
  by (auto simp: numeric_def)

lemma print_number:
  assumes "numeric c" "pad < 10" "fits buf 20"
  shows "print_conversion m buf pad0 (of_nat pad) c (a # args) out =
    Inr (itoa m buf (ucast c) a, args, out @ pad_left pad0 pad (itoa_text (ucast c) a))"
proof -
  have "length (itoa_text (ucast c) a) \<le> 10" by (rule itoa_text_length)
  then have f: "fits buf (length (itoa_text (ucast c) a) + 1)"
      "fits buf (length (itoa_text (ucast c) a) + 10)"
    using assms(3) by (auto simp: fits_def)
  show ?thesis
    using assms(1) print_string_string [OF itoa_string(1) [OF f(1)] f(2) assms(2)]
    by (simp add: print_conversion_def numeric_def Let_def)
qed

lemma itoa_keeps_string:
  assumes "string_at m p xs" "fits p (length xs + 1)" "apart p (length xs + 1) buf 11" "fits buf 11"
  shows "string_at (itoa m buf base a) p xs"
proof -
  have len: "length (itoa_text base a) + 1 \<le> 11" using itoa_text_length [of base a] by simp
  have fit: "fits buf (length (itoa_text base a) + 1)" using fits_mono [OF assms(4) len] .
  have "m b = itoa m buf base a b" if "within p (length xs + 1) b" for b
  proof -
    have "\<not> within buf (length (itoa_text base a) + 1) b"
      using that assms(3) len by (auto simp: within_def apart_def)
    then show ?thesis using itoa_string(2) [OF fit] by simp
  qed
  then show ?thesis using string_at_cong [OF assms(2)] assms(1) by blast
qed

definition strings_ok :: "mem \<Rightarrow> addr \<Rightarrow> (addr \<Rightarrow> u8 list) \<Rightarrow> addr list \<Rightarrow> bool" where
  "strings_ok m buf str as \<longleftrightarrow> list_all (\<lambda>a. string_at m a (str a) \<and>
     fits a (length (str a) + 10) \<and> apart a (length (str a) + 1) buf 11) as"

lemma itoa_keeps_strings:
  "strings_ok m buf str as \<Longrightarrow> fits buf 11 \<Longrightarrow> strings_ok (itoa m buf base a) buf str as"
  by (auto simp: strings_ok_def list_all_iff fits_def intro!: itoa_keeps_string)

lemma print_string_arg:
  assumes "strings_ok m buf str (string_args (Str pad0 pad # ds) (a # args))" "pad < 10"
  shows "print_conversion m buf pad0 (of_nat pad) 0x73 (a # args) out =
    Inr (m, args, out @ pad_left pad0 pad (if a = 0 then null_literal else str a))"
proof (cases "a = 0")
  case True
  have "unat (of_nat pad :: u32) = pad" using assms(2) by (simp add: unat_of_nat)
  with True show ?thesis by (simp add: print_conversion_def print_null_def pad_left_def)
next
  case False
  with assms have "print_string m a pad0 (of_nat pad) out = Inr (out @ pad_left pad0 pad (str a))"
    by (intro print_string_string) (auto simp: strings_ok_def)
  with False show ?thesis by (simp add: print_conversion_def)
qed

section \<open>Printing a format\<close>

lemma directive_text_step:
  assumes "string_at m format (0x25 # flags_text pad0 pad @ [c] @ rest)" "pad < 10"
    "\<not> (0x30 \<le> c \<and> c \<le> 0x39)"
    and "print_conversion m buf pad0 (of_nat pad) c args out = Inr (m', args', out')"
  shows "printf_loop (Suc n) m buf format args out =
    printf_loop n m' buf (format + of_nat (length (flags_text pad0 pad) + 2)) args' out'"
proof -
  have "bytes_at m (format + 1) (flags_text pad0 pad @ [c])"
    using assms(1) string_at_append [of m "format + 1" "flags_text pad0 pad @ [c]" rest] by simp
  from parse_flags_text [OF this assms(2,3)] have "parse_flags m (format + 1) =
      (pad0, of_nat pad, c, format + of_nat (length (flags_text pad0 pad) + 2))"
    by (simp add: algebra_simps)
  moreover have "m format = 0x25" using assms(1) by simp
  ultimately show ?thesis using assms(4) by (simp add: Let_def del: of_nat_add)
qed

lemma string_at_step:
  "string_at m p (xs @ ys) \<Longrightarrow> string_at m (p + of_nat (length xs)) ys"
  by (simp add: string_at_append)

lemma region_step:
  assumes "fits p (length (xs @ ys) + 1)" "apart p (length (xs @ ys) + 1) buf 11"
  shows "fits (p + of_nat (length xs)) (length ys + 1)"
    "apart (p + of_nat (length xs)) (length ys + 1) buf 11"
  using assms unat_offset [OF assms(1), of "length xs"] by (auto simp: fits_def apart_def)

lemma printf_loop_render:
  "\<lbrakk>list_all directive_ok ds; string_at m format (concat (map directive_text ds));
    fits format (length (concat (map directive_text ds)) + 1);
    apart format (length (concat (map directive_text ds)) + 1) buf 11; fits buf 20;
    strings_ok m buf str (string_args ds args); render str ds args = Some printed; length ds < n\<rbrakk> \<Longrightarrow>
    printf_loop n m buf format args out = Inr (out @ printed)"
proof (induction str ds args arbitrary: m format printed out n rule: render.induct)
  case (1 str args)
  then show ?case by (cases n) auto
next
  case (2 str c ds args)
  then obtain k t where n: "n = Suc k" and t: "printed = c # t" "render str ds args = Some t"
    by (cases n) auto
  have "printf_loop k m buf (format + 1) args (out @ [c]) = Inr ((out @ [c]) @ t)"
    using 2(2-9) n t region_step [of format "[c]" "concat (map directive_text ds)" buf]
    by (intro 2(1)) auto
  then show ?case using 2(2-9) by (auto simp: n t Let_def)
next
  case (3 str pad0 pad c ds a args)
  let ?rest = "concat (map directive_text ds)" and ?m = "itoa m buf (ucast c) a"
  let ?d = "directive_text (Num pad0 pad c)"
  obtain k t where n: "n = Suc k" and t: "render str ds args = Some t"
      and tx: "printed = pad_left pad0 pad (itoa_text (ucast c) a) @ t"
    using 3(7,8) by (cases n) (use 3(9) in auto)
  have b: "fits buf 11" using 3(6) by (auto simp: fits_def)
  have rs: "fits (format + of_nat (length ?d)) (length ?rest + 1)"
      "apart (format + of_nat (length ?d)) (length ?rest + 1) buf 11"
      "string_at m (format + of_nat (length ?d)) ?rest"
    using region_step [of format ?d ?rest buf] string_at_step [of m format ?d ?rest] 3(3-5) by simp_all
  have "printf_loop k ?m buf (format + of_nat (length ?d)) args
        (out @ pad_left pad0 pad (itoa_text (ucast c) a)) =
      Inr ((out @ pad_left pad0 pad (itoa_text (ucast c) a)) @ t)"
    using 3(2,6-9) n t b rs
    by (intro 3(1)) (auto intro: itoa_keeps_strings itoa_keeps_string)
  moreover have "printf_loop n m buf format (a # args) out =
      printf_loop k ?m buf (format + of_nat (length ?d)) args
        (out @ pad_left pad0 pad (itoa_text (ucast c) a))"
    unfolding n
    using directive_text_step [of m format pad0 pad c ?rest buf "a # args" out ?m args _ k]
      print_number [of c pad buf m pad0 a args out] 3(2,3,6) numeric_not_digit by simp
  ultimately show ?case by (simp add: tx)
next
  case (4 str pad0 pad ds a args)
  let ?rest = "concat (map directive_text ds)" and ?d = "directive_text (Str pad0 pad)"
  let ?o = "out @ pad_left pad0 pad (if a = 0 then null_literal else str a)"
  obtain k t where n: "n = Suc k" and t: "render str ds args = Some t"
      and tx: "printed = pad_left pad0 pad (if a = 0 then null_literal else str a) @ t"
    using 4(7,8) by (cases n) (use 4(9) in auto)
  have rs: "fits (format + of_nat (length ?d)) (length ?rest + 1)"
      "apart (format + of_nat (length ?d)) (length ?rest + 1) buf 11"
      "string_at m (format + of_nat (length ?d)) ?rest"
    using region_step [of format ?d ?rest buf] string_at_step [of m format ?d ?rest] 4(3-5) by simp_all
  have "printf_loop k m buf (format + of_nat (length ?d)) args ?o = Inr (?o @ t)"
    using 4(2,6-9) n t rs by (intro 4(1)) (auto simp: strings_ok_def)
  moreover have "printf_loop n m buf format (a # args) out =
      printf_loop k m buf (format + of_nat (length ?d)) args ?o"
    unfolding n
    using directive_text_step [of m format pad0 pad "0x73" ?rest buf "a # args" out m args _ k]
      print_string_arg [of m buf str pad0 pad ds a args out] 4(2,3,7) by simp
  ultimately show ?case by (simp add: tx)
next
  case (5 str c ds a args)
  let ?rest = "concat (map directive_text ds)" and ?d = "directive_text (Chr c)"
  obtain k t where n: "n = Suc k" and t: "render str ds args = Some t" "printed = ucast a # t"
    using 5(7,8) by (cases n) (use 5(9) in auto)
  have rs: "fits (format + of_nat (length ?d)) (length ?rest + 1)"
      "apart (format + of_nat (length ?d)) (length ?rest + 1) buf 11"
      "string_at m (format + of_nat (length ?d)) ?rest"
    using region_step [of format ?d ?rest buf] string_at_step [of m format ?d ?rest] 5(3-5) by simp_all
  have "printf_loop k m buf (format + of_nat (length ?d)) args (out @ [ucast a]) =
      Inr ((out @ [ucast a]) @ t)"
    using 5(2,6-9) n t rs by (intro 5(1)) auto
  moreover have "print_conversion m buf False 0 c (a # args) out = Inr (m, args, out @ [ucast a])"
    using 5(2) by (simp add: print_conversion_def numeric_def)
  then have "printf_loop n m buf format (a # args) out =
      printf_loop k m buf (format + of_nat (length ?d)) args (out @ [ucast a])"
    unfolding n
    using directive_text_step [of m format False 0 c ?rest buf "a # args" out m args _ k] 5(2,3)
    by (simp add: flags_text_def)
  ultimately show ?case by (simp add: t)
qed auto

lemma directives_le_text: "length ds \<le> length (concat (map directive_text ds))"
proof (induction ds)
  case (Cons d ds)
  then show ?case by (cases d) simp_all
qed simp

text \<open>
  C3: for any format made of literal characters and of the conversions
  \<open>%[0][width]{d,u,x,X}\<close>, \<open>%[0][width]s\<close> and \<open>%c\<close> (or another letter), printf ends and prints the
  literals and the converted arguments in order, each padded on the left to its width, a null
  string as \<open>(null)\<close>; the digits it builds in its buffer disturb neither the format nor the
  string arguments, provided these do not lie in that buffer.
\<close>

theorem printf_renders:
  assumes "list_all directive_ok ds" "string_at m format (concat (map directive_text ds))"
    and "fits format (length (concat (map directive_text ds)) + 1)"
    and "apart format (length (concat (map directive_text ds)) + 1) buf 11" "fits buf 20"
    and "strings_ok m buf str (string_args ds args)" "render str ds args = Some printed"
  shows "printf m buf format args = Inr printed"
proof -
  have "length ds < addr_space"
    using directives_le_text [of ds] string_at_length [OF assms(2)] by (simp add: addr_space_def)
  from printf_loop_render [OF assms this, of "[]"] show ?thesis by (simp add: printf_def)
qed

text \<open>The format \<open>"a%03d%s"\<close> with the number 7 and a null string.\<close>

theorem printf_renders_witness:
  "printf ((\<lambda>a. 0)(100 := 0x61, 101 := 0x25, 102 := 0x30, 103 := 0x33, 104 := 0x64, 105 := 0x25,
      106 := 0x73)) 16 100 [7, 0] =
    Inr [0x61, 0x30, 0x30, 0x37, 0x28, 0x6e, 0x75, 0x6c, 0x6c, 0x29]"
proof (rule printf_renders [where ds = "[Lit 0x61, Num True 3 0x64, Str False 0]" and
      str = "\<lambda>a. []"])
  have "digits_of 10 7 = [7]" by (simp add: digits_of.simps)
  moreover have "replicate 2 c = [c, c]" for c :: u8 by (simp add: numeral_2_eq_2)
  ultimately show "render (\<lambda>a. []) [Lit 0x61, Num True 3 0x64, Str False 0] [7, 0] =
      Some [0x61, 0x30, 0x30, 0x37, 0x28, 0x6e, 0x75, 0x6c, 0x6c, 0x29]"
    by (simp add: pad_left_def itoa_text_def itoa_radix_def digit_text_def null_literal_def)
qed (simp_all add: flags_text_def numeric_def fits_def apart_def strings_ok_def)

end
