(* ===== verification/Fs.thy ===== *)
theory Fs
  imports Path Printf
begin

text \<open>
  kernel/filesystem/fs.c, fs_root.c, devfs.c, dev/one.c, dev/zero.c, dev/random.c, the reading part
  of ramfs.c, drivers/serial.c and the system calls of lib/system.

  A node of the file system is an object of a typed heap, except for its name: the 128 bytes of
  \<open>name\<close> are the bytes of memory at the node's address, so that the string routines work on
  them. The function pointers of a node are values of datatypes with one constructor per function
  the sources store there, \<open>None\<close> for 0; nothing is ever stored in \<open>open\<close> and \<open>close\<close>, which stay
  addresses. The answers of the input ports are the list \<open>port_in\<close>: each read consumes one, and
  code that waits for an answer that does not come waits for ever. What \<open>printf\<close> shows is not
  part of the state.
\<close>

section \<open>The data\<close>

datatype read_fn = Dev_one_read | Dev_zero_read | Dev_rand_read | Ramfs_read
datatype write_fn = Serial_write_fs
datatype readdir_fn = Root_fs_readdir | Devfs_readdir | Ramfs_readdir
datatype finddir_fn = Root_fs_finddir | Devfs_finddir | Ramfs_finddir

definition FS_FILE :: u32 where "FS_FILE = 0x01"
definition FS_DIRECTORY :: u32 where "FS_DIRECTORY = 0x02"

record fs_node =
  n_flags :: u32
  n_inode :: u32
  n_length :: u32
  n_read :: "read_fn option"
  n_write :: "write_fn option"
  n_open :: addr
  n_close :: addr
  n_readdir :: "readdir_fn option"
  n_finddir :: "finddir_fn option"
  n_link :: addr

record dirent =
  d_inode :: u32
  d_offset :: u32
  d_flags :: u32

record fs_state = word_state +
  fnodes :: "addr \<Rightarrow> fs_node option"
  dirents :: "addr \<Rightarrow> dirent option"
  root_nodes :: addr
  root_files :: u32
  root_node :: addr
  dev_nodes :: addr
  dev_files :: u32
  devfs_root_node :: addr
  ramfs_root_node :: addr
  headers :: "addr list"
  files :: u32
  rand_next :: u32
  SERIAL_PORT :: "u16 list"
  port_in :: "u8 list"

text \<open>The bytes of a string literal, and \<open>strcpy\<close> from a literal.\<close>

definition lit :: "string \<Rightarrow> u8 list" where
  "lit str = map of_char str"

fun strcpy_lit :: "mem \<Rightarrow> addr \<Rightarrow> u8 list \<Rightarrow> mem" where
  "strcpy_lit m p [] = m(p := 0)"
| "strcpy_lit m p (x # xs) = strcpy_lit (m(p := x)) (p + 1) xs"

text \<open>\<open>strcpy\<close> into an array of 128 bytes.\<close>

definition strcpy128 :: "addr \<Rightarrow> addr \<Rightarrow> 'a fs_state_scheme \<Rightarrow> 'a fs_state_scheme result" where
  "strcpy128 dest source s =
     bindr (strlen (bytes s) source) (\<lambda>n.
       guardr (unat n < 128) OutOfBounds
         (bindr (strcpy (bytes s) dest source) (\<lambda>m. Inr (s\<lparr>bytes := m\<rparr>))))"

section \<open>Searching a directory\<close>

definition fs_find :: "addr \<Rightarrow> 'a fs_state_scheme list_iterator" where
  "fs_find udata ent s =
     bindr (deref (lnodes s) ent) (\<lambda>nd.
     bindr (deref (fnodes s) (l_data nd)) (\<lambda>_.
     bindr (strcmp (bytes s) (l_data nd) udata) (\<lambda>c.
       Inr (if c = 0 then FALSE8 else TRUE8, s))))"

definition devfs_find :: "addr \<Rightarrow> 'a fs_state_scheme list_iterator" where
  "devfs_find = fs_find"

definition find_name :: "addr \<Rightarrow> 'a fs_state_scheme list_iterator" where
  "find_name = fs_find"

text \<open>\<open>if( entry ) ... (fs_node_t*)entry->data\<close>, NULL otherwise.\<close>

definition entry_node :: "addr \<times> 'a fs_state_scheme \<Rightarrow> (addr \<times> 'a fs_state_scheme) result" where
  "entry_node = (\<lambda>(ent, s).
     if ent \<noteq> NULL then bindr (deref (lnodes s) ent) (\<lambda>nd. Inr (l_data nd, s)) else Inr (NULL, s))"

definition devfs_finddir :: "addr \<Rightarrow> addr \<Rightarrow> 'a fs_state_scheme \<Rightarrow> (addr \<times> 'a fs_state_scheme) result" where
  "devfs_finddir node name s =
     (if name = NULL then Inr (NULL, s)
      else if node = devfs_root_node s then
        bindr (list_foreach (dev_nodes s) (Some (devfs_find name)) s) entry_node
      else Inr (NULL, s))"

definition ramfs_finddir :: "addr \<Rightarrow> addr \<Rightarrow> 'a fs_state_scheme \<Rightarrow> (addr \<times> 'a fs_state_scheme) result" where
  "ramfs_finddir node name s =
     (if name = NULL then Inr (NULL, s)
      else bindr (deref (fnodes s) node) (\<lambda>nd.
        if n_flags nd AND FS_DIRECTORY \<noteq> 0 then
          bindr (list_foreach (n_inode nd) (Some (find_name name)) s) entry_node
        else Inr (NULL, s)))"

text \<open>
  \<open>root_fs_finddir\<close> calls \<open>finddir_fs\<close>, which may call it again: \<open>fd\<close> is the \<open>finddir_fs\<close> it
  calls. The loop over the segments has the number of iterations left; the array of segments is
  read through a pointer that comes back to its start after all addresses.
\<close>

fun find_segs :: "nat \<Rightarrow> (addr \<Rightarrow> addr \<Rightarrow> 'a fs_state_scheme \<Rightarrow> (addr \<times> 'a fs_state_scheme) result) \<Rightarrow>
    addr \<Rightarrow> u32 \<Rightarrow> addr \<Rightarrow> 'a fs_state_scheme \<Rightarrow> (addr \<times> 'a fs_state_scheme) result" where
  "find_segs 0 fd p i i_node s = Inl Diverge"
| "find_segs (Suc n) fd p i i_node s =
     (if cells s (p + 4 * i) \<noteq> NULL then
        bindr (fd i_node (cells s (p + 4 * i)) s) (\<lambda>(nd, s).
          if nd = NULL then Inr (NULL, path_free p s) else find_segs n fd p (i + 1) nd s)
      else Inr (i_node, path_free p s))"

definition root_fs_finddir :: "(addr \<Rightarrow> addr \<Rightarrow> 'a fs_state_scheme \<Rightarrow> (addr \<times> 'a fs_state_scheme) result) \<Rightarrow>
    addr \<Rightarrow> addr \<Rightarrow> 'a fs_state_scheme \<Rightarrow> (addr \<times> 'a fs_state_scheme) result" where
  "root_fs_finddir fd node name s =
     (if name = NULL then Inr (NULL, s)
      else if string_at (bytes s) name (lit ''/'') then Inr (root_node s, s)
      else if node = root_node s then
        bindr (path name s) (\<lambda>(p, s).
          if p = NULL then Inr (NULL, s)
          else bindr (list_foreach (root_nodes s) (Some (fs_find (cells s p))) s) (\<lambda>(ent, s).
            if ent \<noteq> NULL then
              bindr (deref (lnodes s) ent) (\<lambda>nd. find_segs addr_space fd p 1 (l_data nd) s)
            else Inr (NULL, path_free p s)))
      else Inr (NULL, s))"

fun finddir_rec :: "nat \<Rightarrow> addr \<Rightarrow> addr \<Rightarrow> 'a fs_state_scheme \<Rightarrow> (addr \<times> 'a fs_state_scheme) result" where
  "finddir_rec 0 node name s = Inl Diverge"
| "finddir_rec (Suc n) node name s =
     bindr (deref (fnodes s) node) (\<lambda>nd.
       if n_flags nd AND 7 = FS_DIRECTORY then
         case n_finddir nd of
           None \<Rightarrow> Inr (NULL, s)
         | Some Root_fs_finddir \<Rightarrow> root_fs_finddir (finddir_rec n) node name s
         | Some Devfs_finddir \<Rightarrow> devfs_finddir node name s
         | Some Ramfs_finddir \<Rightarrow> ramfs_finddir node name s
       else Inr (NULL, s))"

definition finddir_fs :: "addr \<Rightarrow> addr \<Rightarrow> 'a fs_state_scheme \<Rightarrow> (addr \<times> 'a fs_state_scheme) result" where
  "finddir_fs node name s = finddir_rec addr_space node name s"

section \<open>Reading a directory\<close>

text \<open>\<open>sizeof(struct dirent)\<close> is 140. The directory entry of the node \<open>nd\<close> with number \<open>index\<close>.\<close>

definition new_dirent :: "addr \<Rightarrow> u32 \<Rightarrow> u32 \<Rightarrow> u32 \<Rightarrow> 'a fs_state_scheme \<Rightarrow> (addr \<times> 'a fs_state_scheme) result" where
  "new_dirent nd inode index flags s =
     bindr (malloc 140 s) (\<lambda>(d, s).
       if d = NULL then Inr (NULL, s)
       else bindr (strcpy128 d nd s) (\<lambda>s.
         Inr (d, s\<lparr>dirents := (dirents s)(d \<mapsto> \<lparr>d_inode = inode, d_offset = index, d_flags = flags\<rparr>)\<rparr>)))"

definition root_fs_readdir :: "addr \<Rightarrow> u32 \<Rightarrow> 'a fs_state_scheme \<Rightarrow> (addr \<times> 'a fs_state_scheme) result" where
  "root_fs_readdir node index s =
     (if root_files s \<le> index then Inr (NULL, s)
      else bindr (list_get (root_nodes s) index s) (\<lambda>ent.
        bindr (deref (lnodes s) ent) (\<lambda>e.
          if l_data e \<noteq> NULL then
            bindr (deref (fnodes s) (l_data e)) (\<lambda>nd. new_dirent (l_data e) (l_data e) index (n_flags nd) s)
          else Inr (NULL, s))))"

definition devfs_readdir :: "addr \<Rightarrow> u32 \<Rightarrow> 'a fs_state_scheme \<Rightarrow> (addr \<times> 'a fs_state_scheme) result" where
  "devfs_readdir node index s =
     (if dev_files s \<le> index then Inr (NULL, s)
      else bindr (list_get (dev_nodes s) index s) (\<lambda>ent.
        bindr (deref (lnodes s) ent) (\<lambda>e.
          if l_data e \<noteq> NULL then
            bindr (deref (fnodes s) (l_data e)) (\<lambda>nd. new_dirent (l_data e) (l_data e) index (n_flags nd) s)
          else Inr (NULL, s))))"

definition ramfs_readdir :: "addr \<Rightarrow> u32 \<Rightarrow> 'a fs_state_scheme \<Rightarrow> (addr \<times> 'a fs_state_scheme) result" where
  "ramfs_readdir node index s =
     (if node = NULL then Inr (NULL, s)
      else bindr (deref (fnodes s) node) (\<lambda>dir.
        if n_flags dir AND FS_DIRECTORY \<noteq> 0 then
          bindr (list_get (n_inode dir) index s) (\<lambda>ent.
            if ent = NULL then Inr (NULL, s)
            else bindr (deref (lnodes s) ent) (\<lambda>e.
              bindr (deref (fnodes s) (l_data e)) (\<lambda>nd.
                new_dirent (l_data e) (n_inode nd) index (n_flags nd) s)))
        else Inr (NULL, s)))"

definition readdir_fs :: "addr \<Rightarrow> u32 \<Rightarrow> 'a fs_state_scheme \<Rightarrow> (addr \<times> 'a fs_state_scheme) result" where
  "readdir_fs node index s =
     bindr (deref (fnodes s) node) (\<lambda>nd.
       if n_flags nd AND 7 = FS_DIRECTORY then
         case n_readdir nd of
           None \<Rightarrow> Inr (NULL, s)
         | Some Root_fs_readdir \<Rightarrow> root_fs_readdir node index s
         | Some Devfs_readdir \<Rightarrow> devfs_readdir node index s
         | Some Ramfs_readdir \<Rightarrow> ramfs_readdir node index s
       else Inr (NULL, s))"

section \<open>Reading and writing files\<close>

definition dev_one_read :: "u32 \<Rightarrow> u32 \<Rightarrow> addr \<Rightarrow> 'a fs_state_scheme \<Rightarrow> u32 \<times> 'a fs_state_scheme" where
  "dev_one_read offset sz buffer s =
     (if sz < offset then (0, s) else (sz, s\<lparr>bytes := memset (bytes s) buffer 1 sz\<rparr>))"

definition dev_zero_read :: "u32 \<Rightarrow> u32 \<Rightarrow> addr \<Rightarrow> 'a fs_state_scheme \<Rightarrow> u32 \<times> 'a fs_state_scheme" where
  "dev_zero_read offset sz buffer s =
     (if sz < offset then (0, s) else (sz, s\<lparr>bytes := memset (bytes s) buffer 0 sz\<rparr>))"

text \<open>The loop of \<open>dev_rand_read\<close>: \<open>n\<close> bytes are left, \<open>next\<close> is the state of the generator.\<close>

fun rand_loop :: "nat \<Rightarrow> mem \<Rightarrow> addr \<Rightarrow> u32 \<Rightarrow> u32 \<Rightarrow> mem \<times> u32" where
  "rand_loop 0 m buffer i next = (m, next)"
| "rand_loop (Suc n) m buffer i next =
     (let (_, r) = rand next;
          m = m(buffer + i := of_int r)
      in rand_loop n m buffer (i + 1) (srand (ucast (m (buffer + i)))))"

text \<open>\<open>frame\<close> is the address of the parameter \<open>buffer\<close> itself, which seeds the generator.\<close>

definition dev_rand_read :: "addr \<Rightarrow> u32 \<Rightarrow> u32 \<Rightarrow> addr \<Rightarrow> 'a fs_state_scheme \<Rightarrow> u32 \<times> 'a fs_state_scheme" where
  "dev_rand_read frame offset sz buffer s =
     (if sz < offset then (0, s)
      else
        let (m, next) = rand_loop (unat sz) (bytes s) buffer 0 (srand frame)
        in (sz, s\<lparr>bytes := m, rand_next := next\<rparr>))"

text \<open>
  \<open>tar_getsize\<close>: \<open>j\<close> goes from 11 down to 1; \<open>char\<close> is signed and the product is computed
  modulo \<open>2 ^ 32\<close>.
\<close>

fun getsize_loop :: "nat \<Rightarrow> mem \<Rightarrow> addr \<Rightarrow> u32 \<Rightarrow> u32 \<Rightarrow> u32" where
  "getsize_loop 0 m inp sz cnt = sz"
| "getsize_loop (Suc j) m inp sz cnt =
     getsize_loop j m inp (sz + (scast (m (inp + of_nat j)) - 0x30) * cnt) (cnt * 8)"

definition tar_getsize :: "mem \<Rightarrow> addr \<Rightarrow> u32" where
  "tar_getsize m inp = getsize_loop 11 m inp 0 1"

text \<open>The field \<open>size\<close> of a tar header is at offset 124.\<close>

definition ramfs_read :: "addr \<Rightarrow> u32 \<Rightarrow> u32 \<Rightarrow> addr \<Rightarrow> 'a fs_state_scheme \<Rightarrow> (u32 \<times> 'a fs_state_scheme) result" where
  "ramfs_read node offset sz buffer s =
     bindr (deref (fnodes s) node) (\<lambda>nd.
     bindr (array_get (headers s) (unat (n_inode nd))) (\<lambda>h.
       let file_sz = tar_getsize (bytes s) (h + 124)
       in if file_sz < offset then Inr (0, s)
          else
            let sz = (if file_sz < offset + sz then file_sz - offset else sz)
            in Inr (sz, s\<lparr>bytes := memcpy (bytes s) (h + 512) buffer sz\<rparr>)))"

definition read_fs :: "addr \<Rightarrow> addr \<Rightarrow> u32 \<Rightarrow> u32 \<Rightarrow> addr \<Rightarrow> 'a fs_state_scheme \<Rightarrow> (u32 \<times> 'a fs_state_scheme) result" where
  "read_fs frame node offset sz buffer s =
     bindr (deref (fnodes s) node) (\<lambda>nd.
       case n_read nd of
         None \<Rightarrow> Inr (0, s)
       | Some Dev_one_read \<Rightarrow> Inr (dev_one_read offset sz buffer s)
       | Some Dev_zero_read \<Rightarrow> Inr (dev_zero_read offset sz buffer s)
       | Some Dev_rand_read \<Rightarrow> Inr (dev_rand_read frame offset sz buffer s)
       | Some Ramfs_read \<Rightarrow> ramfs_read node offset sz buffer s)"

text \<open>
  \<open>write_serial\<close> polls the line status until bit 5 is set: the answers are taken from the list.
\<close>

fun wait_serial :: "u8 list \<Rightarrow> u8 list result" where
  "wait_serial [] = Inl Diverge"
| "wait_serial (x # xs) = (if x AND 0x20 = 0 then wait_serial xs else Inr xs)"

definition write_serial :: "u8 \<Rightarrow> u8 \<Rightarrow> 'a fs_state_scheme \<Rightarrow> 'a fs_state_scheme result" where
  "write_serial com c s =
     bindr (array_get (SERIAL_PORT s) (unat com)) (\<lambda>port.
     bindr (wait_serial (port_in s)) (\<lambda>inp.
       Inr (s\<lparr>port_in := inp, io_log := io_log s @ outportb (ucast port) c\<rparr>)))"

fun serial_loop :: "nat \<Rightarrow> u8 \<Rightarrow> addr \<Rightarrow> u32 \<Rightarrow> 'a fs_state_scheme \<Rightarrow> 'a fs_state_scheme result" where
  "serial_loop 0 com buffer i s = Inr s"
| "serial_loop (Suc n) com buffer i s =
     bindr (write_serial com (bytes s (buffer + i)) s) (serial_loop n com buffer (i + 1))"

definition serial_write_fs :: "addr \<Rightarrow> u32 \<Rightarrow> u32 \<Rightarrow> addr \<Rightarrow> 'a fs_state_scheme \<Rightarrow> (u32 \<times> 'a fs_state_scheme) result" where
  "serial_write_fs node offset sz buffer s =
     bindr (deref (fnodes s) node) (\<lambda>nd.
     bindr (serial_loop (unat sz) (ucast (n_inode nd)) buffer 0 s) (\<lambda>s. Inr (sz, s)))"

definition write_fs :: "addr \<Rightarrow> u32 \<Rightarrow> u32 \<Rightarrow> addr \<Rightarrow> 'a fs_state_scheme \<Rightarrow> (u32 \<times> 'a fs_state_scheme) result" where
  "write_fs node offset sz buffer s =
     bindr (deref (fnodes s) node) (\<lambda>nd.
       case n_write nd of
         None \<Rightarrow> Inr (0, s)
       | Some Serial_write_fs \<Rightarrow> serial_write_fs node offset sz buffer s)"

text \<open>\<open>call\<close> is the call of a function at an address.\<close>

definition open_fs :: "(addr \<Rightarrow> addr \<Rightarrow> 'a fs_state_scheme \<Rightarrow> 'a fs_state_scheme result) \<Rightarrow> addr \<Rightarrow> 'a fs_state_scheme \<Rightarrow>
    'a fs_state_scheme result" where
  "open_fs call node s =
     bindr (deref (fnodes s) node) (\<lambda>nd. if n_open nd \<noteq> 0 then call (n_open nd) node s else Inr s)"

definition close_fs :: "(addr \<Rightarrow> addr \<Rightarrow> 'a fs_state_scheme \<Rightarrow> 'a fs_state_scheme result) \<Rightarrow> addr \<Rightarrow> 'a fs_state_scheme \<Rightarrow>
    'a fs_state_scheme result" where
  "close_fs call node s =
     bindr (deref (fnodes s) node) (\<lambda>nd. if n_close nd \<noteq> 0 then call (n_close nd) node s else Inr s)"

section \<open>Building the tree\<close>

definition fs_register :: "addr \<Rightarrow> 'a fs_state_scheme \<Rightarrow> 'a fs_state_scheme result" where
  "fs_register node s =
     bindr (list_add (root_nodes s) node s) (\<lambda>(l, s).
       Inr (s\<lparr>root_nodes := l, root_files := root_files s + 1\<rparr>))"

definition devfs_register :: "addr \<Rightarrow> 'a fs_state_scheme \<Rightarrow> 'a fs_state_scheme result" where
  "devfs_register node s =
     bindr (list_add (dev_nodes s) node s) (\<lambda>(l, s).
       Inr (s\<lparr>dev_nodes := l, dev_files := dev_files s + 1\<rparr>))"

definition fs_root_get :: "'a fs_state_scheme \<Rightarrow> addr" where
  "fs_root_get s = root_node s"

text \<open>
  \<open>malloc(sizeof(fs_node_t))\<close>, 168 bytes, and the assignments to the fields. \<open>junk p\<close> is what the
  memory of the node at \<open>p\<close> holds before: the fields that are not assigned keep it.
\<close>

definition new_node :: "(addr \<Rightarrow> fs_node) \<Rightarrow> u8 list \<Rightarrow> (fs_node \<Rightarrow> fs_node) \<Rightarrow> 'a fs_state_scheme \<Rightarrow>
    (addr \<times> 'a fs_state_scheme) result" where
  "new_node junk name f s =
     bindr (malloc 168 s) (\<lambda>(p, s).
       Inr (p, s\<lparr>bytes := strcpy_lit (bytes s) p name, fnodes := (fnodes s)(p \<mapsto> f (junk p))\<rparr>))"

definition dev_node :: "read_fn option \<Rightarrow> write_fn option \<Rightarrow> fs_node \<Rightarrow> fs_node" where
  "dev_node r w nd = nd\<lparr>n_flags := FS_FILE, n_read := r, n_write := w, n_open := 0, n_close := 0,
     n_readdir := None, n_finddir := None\<rparr>"

definition dir_node :: "readdir_fn \<Rightarrow> finddir_fn \<Rightarrow> fs_node \<Rightarrow> fs_node" where
  "dir_node r f nd = nd\<lparr>n_flags := FS_DIRECTORY, n_read := None, n_write := None, n_open := 0, n_close := 0,
     n_readdir := Some r, n_finddir := Some f\<rparr>"

definition dev_one :: "(addr \<Rightarrow> fs_node) \<Rightarrow> 'a fs_state_scheme \<Rightarrow> 'a fs_state_scheme result" where
  "dev_one junk s =
     bindr (new_node junk (lit ''one'') (dev_node (Some Dev_one_read) None) s) (\<lambda>(p, s). devfs_register p s)"

definition dev_zero :: "(addr \<Rightarrow> fs_node) \<Rightarrow> 'a fs_state_scheme \<Rightarrow> 'a fs_state_scheme result" where
  "dev_zero junk s =
     bindr (new_node junk (lit ''zero'') (dev_node (Some Dev_zero_read) None) s) (\<lambda>(p, s). devfs_register p s)"

definition dev_rand :: "(addr \<Rightarrow> fs_node) \<Rightarrow> 'a fs_state_scheme \<Rightarrow> 'a fs_state_scheme result" where
  "dev_rand junk s =
     bindr (new_node junk (lit ''random'') (dev_node (Some Dev_rand_read) None) s) (\<lambda>(p, s). devfs_register p s)"

definition devfs :: "(addr \<Rightarrow> fs_node) \<Rightarrow> 'a fs_state_scheme \<Rightarrow> (addr \<times> 'a fs_state_scheme) result" where
  "devfs junk s =
     bindr (new_node junk (lit ''dev'') (dir_node Devfs_readdir Devfs_finddir) s) (\<lambda>(p, s).
     bindr (dev_one junk (s\<lparr>devfs_root_node := p\<rparr>)) (\<lambda>s.
     bindr (dev_zero junk s) (\<lambda>s.
     bindr (dev_rand junk s) (\<lambda>s.
     bindr (fs_register (devfs_root_node s) s) (\<lambda>s. Inr (devfs_root_node s, s))))))"

definition fs_root :: "(addr \<Rightarrow> fs_node) \<Rightarrow> 'a fs_state_scheme \<Rightarrow> (addr \<times> 'a fs_state_scheme) result" where
  "fs_root junk s =
     bindr (new_node junk (lit ''/'') (dir_node Root_fs_readdir Root_fs_finddir) s) (\<lambda>(p, s).
     bindr (devfs junk (s\<lparr>root_node := p\<rparr>)) (\<lambda>(_, s). Inr (root_node s, s)))"

section \<open>System calls\<close>

text \<open>A result of \<open>- 1\<close> is the failure of \<open>open\<close>. The array \<open>files\<close> of a task has 16 elements.\<close>

definition sys_open :: "addr \<Rightarrow> 'a fs_state_scheme \<Rightarrow> (int \<times> 'a fs_state_scheme) result" where
  "sys_open name s =
     bindr (finddir_fs (fs_root_get s) name s) (\<lambda>(file, s).
       if file \<noteq> NULL then
         bindr (deref (task_mem s) (task_get s)) (\<lambda>t.
         bindr (array_get (t_files t) (unat (t_file_count t))) (\<lambda>f.
         bindr (array_set (t_files t) (unat (t_file_count t)) (f\<lparr>tf_node := file\<rparr>)) (\<lambda>fs.
           Inr (sint (t_file_count t), s\<lparr>task_mem := (task_mem s)(task_get s \<mapsto>
             t\<lparr>t_files := fs, t_file_count := t_file_count t + 1\<rparr>)\<rparr>))))
       else Inr (- 1, s))"

definition sys_read :: "addr \<Rightarrow> u32 \<Rightarrow> addr \<Rightarrow> u32 \<Rightarrow> 'a fs_state_scheme \<Rightarrow> (u32 \<times> 'a fs_state_scheme) result" where
  "sys_read frame fd buffer sz s =
     bindr (deref (task_mem s) (task_get s)) (\<lambda>t.
       if t_file_count t \<le> fd then Inr (0, s)
       else bindr (array_get (t_files t) (unat fd)) (\<lambda>f. read_fs frame (tf_node f) 0 sz buffer s))"

definition sys_write :: "u32 \<Rightarrow> addr \<Rightarrow> u32 \<Rightarrow> 'a fs_state_scheme \<Rightarrow> (u32 \<times> 'a fs_state_scheme) result" where
  "sys_write fd buffer sz s =
     bindr (deref (task_mem s) (task_get s)) (\<lambda>t.
       if t_file_count t < fd then Inr (0, s)
       else bindr (array_get (t_files t) (unat fd)) (\<lambda>f. write_fs (tf_node f) 0 sz buffer s))"

definition sys_readdir :: "addr \<Rightarrow> addr \<Rightarrow> 'a fs_state_scheme \<Rightarrow> (addr \<times> 'a fs_state_scheme) result" where
  "sys_readdir pth dir s =
     bindr (if dir \<noteq> NULL then bindr (deref (dirents s) dir) (\<lambda>d. Inr (d_offset d)) else Inr 0) (\<lambda>offset.
     bindr (finddir_fs (fs_root_get s) pth s) (\<lambda>(node, s).
       if node \<noteq> NULL then
         bindr (readdir_fs node offset s) (\<lambda>(d, s).
           if d = NULL then Inr (NULL, s)
           else bindr (deref (dirents s) d) (\<lambda>e.
             let s = s\<lparr>dirents := (dirents s)(d \<mapsto> e\<lparr>d_offset := offset + 1\<rparr>)\<rparr>
             in Inr (d, if dir \<noteq> NULL then free dir s else s)))
       else Inr (NULL, s)))"

text \<open>\<open>seek\<close> has no statement: it changes nothing and has no value.\<close>

definition sys_seek :: "u32 \<Rightarrow> u32 \<Rightarrow> u8 \<Rightarrow> 'a fs_state_scheme \<Rightarrow> u32 option \<times> 'a fs_state_scheme" where
  "sys_seek fd offset what s = (None, s)"

end
