(* ===== verification/FsTree.thy ===== *)
theory FsTree
  imports Fs
begin

text \<open>
  The file system as a tree.

  A tree gives every directory its entries, a list of names and nodes; \<open>fs_tree\<close> says that the
  heap holds such a tree. The lemmas show that \<open>finddir_fs\<close> finds in the heap what the walk along
  the segments of the path finds in the tree, and what \<open>open\<close>, \<open>read\<close>, \<open>write\<close> and \<open>readdir\<close> do on top
  of it.
\<close>

section \<open>Trees\<close>

type_synonym tree = "addr \<Rightarrow> (u8 list \<times> addr) list"

fun resolve :: "tree \<Rightarrow> addr \<Rightarrow> u8 list list \<Rightarrow> addr option" where
  "resolve T p [] = Some p"
| "resolve T p (g # gs) = (case map_of (T p) g of None \<Rightarrow> None | Some d \<Rightarrow> resolve T d gs)"

abbreviation node_of :: "addr option \<Rightarrow> addr" where
  "node_of r \<equiv> (case r of None \<Rightarrow> NULL | Some d \<Rightarrow> d)"

text \<open>A directory entry: a node other than NULL with this name below the top of the heap.\<close>

definition is_entry :: "'a fs_state_scheme \<Rightarrow> u8 list \<times> addr \<Rightarrow> bool" where
  "is_entry s e \<longleftrightarrow> snd e \<noteq> NULL \<and> fnodes s (snd e) \<noteq> None \<and> string_below s (snd e) (fst e)"

definition dir_list :: "'a fs_state_scheme \<Rightarrow> addr \<Rightarrow> (u8 list \<times> addr) list \<Rightarrow> bool" where
  "dir_list s l es \<longleftrightarrow> (\<exists>as. list_at (lnodes s) l as (map snd es)) \<and> list_all (is_entry s) es"

text \<open>The directory that \<open>finddir_fs\<close> searches in a node: none, or the entries of a list.\<close>

definition dir_entries :: "'a fs_state_scheme \<Rightarrow> addr \<Rightarrow> fs_node \<Rightarrow> (u8 list \<times> addr) list \<Rightarrow> bool" where
  "dir_entries s p nd es =
     (case (if n_flags nd AND 7 = FS_DIRECTORY then n_finddir nd else None) of
        None \<Rightarrow> es = []
      | Some Root_fs_finddir \<Rightarrow> p = root_node s \<and> dir_list s (root_nodes s) es
      | Some Devfs_finddir \<Rightarrow> if p = devfs_root_node s then dir_list s (dev_nodes s) es else es = []
      | Some Ramfs_finddir \<Rightarrow> dir_list s (n_inode nd) es)"

definition fs_tree :: "'a fs_state_scheme \<Rightarrow> tree \<Rightarrow> bool" where
  "fs_tree s T \<longleftrightarrow> list_wf s \<and>
     (\<forall>p nd. fnodes s p = Some nd \<longrightarrow> unat p < unat (malloc_top s) \<and> dir_entries s p nd (T p) \<and>
        root_node s \<notin> snd ` set (T p)) \<and>
     (\<exists>nd. fnodes s (root_node s) = Some nd \<and> n_flags nd = FS_DIRECTORY \<and> n_finddir nd = Some Root_fs_finddir)"

section \<open>Searching a directory\<close>

interpretation ff: list_search "fs_find name"
  "\<lambda>x s. fnodes s x \<noteq> None \<and> (\<exists>c. strcmp (bytes s) x name = Inr c)"
  "\<lambda>x s. strcmp (bytes s) x name = Inr 0" for name
  by unfold_locales (auto simp: fs_find_def)

lemma strcmp_names:
  "\<lbrakk>string_at m p xs; string_at m q ys\<rbrakk> \<Longrightarrow> strcmp m p q = Inr 0 \<longleftrightarrow> xs = ys"
  using strcmp_spec [of m p xs q ys] cmp_spec_eq_0 [OF string_at_nonzero string_at_nonzero, of m p xs m q ys]
  by simp

lemma find_entry:
  assumes "list_all (is_entry s) es" "string_at (bytes s) name g"
  shows "find (\<lambda>x. strcmp (bytes s) x name = Inr 0) (map snd es) = map_of es g"
  using assms(1)
proof (induction es)
  case (Cons e es)
  then have "string_at (bytes s) (snd e) (fst e)" by (simp add: is_entry_def string_below_def)
  from strcmp_names [OF this assms(2)] Cons show ?case by (cases e) auto
qed simp

lemma search_entries:
  assumes "list_wf s" "dir_list s l es" "string_at (bytes s) name g"
  shows "\<exists>e. list_foreach l (Some (fs_find name)) s = Inr (e, s) \<and>
    (case map_of es g of None \<Rightarrow> e = NULL
     | Some x \<Rightarrow> e \<noteq> NULL \<and> (\<exists>nd. lnodes s e = Some nd \<and> l_data nd = x))"
proof -
  obtain as where at: "list_at (lnodes s) l as (map snd es)" and es: "list_all (is_entry s) es"
    using assms(2) by (auto simp: dir_list_def)
  have "list_all (\<lambda>x. fnodes s x \<noteq> None \<and> (\<exists>c. strcmp (bytes s) x name = Inr c)) (map snd es)"
    using es strcmp_spec [OF _ assms(3)]
    by (fastforce simp: list_all_iff is_entry_def string_below_def)
  from ff.list_foreach_find [OF assms(1) at this] show ?thesis
    unfolding find_entry [OF es assms(3)] .
qed

lemma search_node_of:
  assumes "list_wf s" "dir_list s l es" "string_at (bytes s) name g"
  shows "bindr (list_foreach l (Some (fs_find name)) s) entry_node = Inr (node_of (map_of es g), s)"
  using search_entries [OF assms] by (auto simp: entry_node_def split: option.splits)

text \<open>One step: \<open>finddir_fs\<close> on a node that is not the root.\<close>

lemma finddir_step:
  assumes tree: "fs_tree s T" and nd: "fnodes s p = Some nd" "p \<noteq> root_node s"
    and name: "name \<noteq> NULL" "string_at (bytes s) name g"
  shows "finddir_rec (Suc n) p name s = Inr (node_of (map_of (T p) g), s)"
proof -
  have wf: "list_wf s" and de: "dir_entries s p nd (T p)" using tree nd(1) by (auto simp: fs_tree_def)
  note step = search_node_of [OF wf _ name(2)]
  show ?thesis
  proof (cases "n_flags nd AND 7 = FS_DIRECTORY")
    case False
    then show ?thesis using nd de by (simp add: dir_entries_def)
  next
    case True
    have "n_flags nd AND FS_DIRECTORY = (n_flags nd AND 7) AND FS_DIRECTORY"
      by (simp add: FS_DIRECTORY_def and.assoc)
    then have dir: "n_flags nd AND FS_DIRECTORY \<noteq> 0" using True by (simp add: FS_DIRECTORY_def)
    show ?thesis
      using True nd de dir name(1) step
      by (auto simp: dir_entries_def devfs_finddir_def ramfs_finddir_def devfs_find_def find_name_def
          split: option.splits finddir_fn.splits if_splits)
  qed
qed

section \<open>Resolving a path\<close>

lemma tree_entry:
  assumes "fs_tree s T" "fnodes s p = Some nd" "map_of (T p) g = Some d"
  shows "d \<noteq> NULL \<and> d \<noteq> root_node s \<and> (\<exists>nd. fnodes s d = Some nd)"
proof -
  have "(g, d) \<in> set (T p)" using assms(3) by (rule map_of_SomeD)
  moreover have "dir_entries s p nd (T p)" "root_node s \<notin> snd ` set (T p)"
    using assms(1,2) by (auto simp: fs_tree_def)
  ultimately have "is_entry s (g, d)" "d \<noteq> root_node s"
    by (force simp: dir_entries_def dir_list_def list_all_iff split: option.splits finddir_fn.splits if_splits)+
  then show ?thesis by (auto simp: is_entry_def)
qed

lemma find_segs_resolve:
  "\<lbrakk>fs_tree s T; fnodes s d = Some nd; d \<noteq> root_node s; pointers_at (bytes s) (cells s) q gs;
    cells s (q + 4 * of_nat (length gs)) = NULL; p + 4 * i = q; length gs < n\<rbrakk> \<Longrightarrow>
    find_segs n (finddir_rec (Suc k)) p i d s = Inr (node_of (resolve T d gs), s)"
proof (induction gs arbitrary: n d nd q i)
  case Nil
  then obtain j where "n = Suc j" by (cases n) auto
  then show ?case using Nil by (simp add: path_free_def)
next
  case (Cons g gs)
  obtain j where n: "n = Suc j" using Cons.prems(7) by (cases n) auto
  have ptr: "cells s q \<noteq> NULL" "string_at (bytes s) (cells s q) g" "pointers_at (bytes s) (cells s) (q + 4) gs"
    using Cons.prems(4) by auto
  note step = finddir_step [OF Cons.prems(1-3) ptr(1,2), of k]
  show ?case
  proof (cases "map_of (T d) g")
    case None
    then show ?thesis using n ptr(1) step Cons.prems(6) by (simp add: path_free_def del: finddir_rec.simps)
  next
    case (Some d')
    then obtain nd' where d': "d' \<noteq> NULL" "d' \<noteq> root_node s" "fnodes s d' = Some nd'"
      using tree_entry [OF Cons.prems(1,2)] by blast
    have "p + 4 * (i + 1) = q + 4" "cells s (q + 4 + 4 * of_nat (length gs)) = NULL" "length gs < j"
      using Cons.prems(5-7) n by (auto simp: algebra_simps)
    from Cons.IH [OF Cons.prems(1) d'(3,2) ptr(3) this(2,1,3)]
    show ?thesis using n ptr(1) step Some d'(1) Cons.prems(6) by (simp del: finddir_rec.simps)
  qed
qed

text \<open>What \<open>path\<close> does to the state keeps the tree.\<close>

lemma fs_fields_of_more:
  assumes "word_state.more s' = word_state.more s"
  shows "fnodes s' = fnodes s" "dirents s' = dirents s" "root_nodes s' = root_nodes s" "root_files s' = root_files s"
    "root_node s' = root_node s" "dev_nodes s' = dev_nodes s" "dev_files s' = dev_files s"
    "devfs_root_node s' = devfs_root_node s" "ramfs_root_node s' = ramfs_root_node s" "headers s' = headers s"
    "files s' = files s" "rand_next s' = rand_next s" "SERIAL_PORT s' = SERIAL_PORT s" "port_in s' = port_in s"
  using assms by (cases s; cases s'; simp)+

text \<open>
  The states \<open>s\<close> and \<open>s'\<close> agree on everything allocated below the top of the heap of \<open>s\<close>, and on
  the nodes of the file system.
\<close>

definition fs_extends :: "'a fs_state_scheme \<Rightarrow> 'a fs_state_scheme \<Rightarrow> bool" where
  "fs_extends s s' \<longleftrightarrow> mm_wf s' \<and> unat (malloc_top s) \<le> unat (malloc_top s') \<and>
     (\<forall>a. unat a < unat (malloc_top s) \<longrightarrow> bytes s' a = bytes s a) \<and>
     heap s' = heap s \<and> lnodes s' = lnodes s \<and> running_task s' = running_task s \<and> task_mem s' = task_mem s \<and>
     word_state.more s' = word_state.more s"

lemma string_below_extends:
  assumes "string_below s p xs" "fs_extends s s'"
  shows "string_below s' p xs"
proof -
  have "string_at (bytes s') p xs"
    by (rule string_at_cong [THEN iffD1, OF string_below_fits [OF assms(1)]])
      (use assms in \<open>auto simp: within_def string_below_def fs_extends_def\<close>)
  then show ?thesis using assms by (simp add: string_below_def fs_extends_def)
qed

lemma dir_list_extends:
  assumes "dir_list s l es" "fs_extends s s'"
  shows "dir_list s' l es"
proof -
  have "is_entry s' e" if "is_entry s e" for e
    using that assms(2) string_below_extends [OF _ assms(2)] fs_fields_of_more
    by (fastforce simp: is_entry_def fs_extends_def)
  then show ?thesis using assms by (auto simp: dir_list_def list_all_iff fs_extends_def)
qed

lemma fs_tree_extends:
  assumes "fs_tree s T" "fs_extends s s'"
  shows "fs_tree s' T"
proof -
  have more: "word_state.more s' = word_state.more s" using assms(2) by (simp add: fs_extends_def)
  note same = fs_fields_of_more [OF more]
  have "list_wf s'" using assms by (fastforce simp: fs_tree_def fs_extends_def list_wf_def)
  moreover have "dir_entries s' p nd (T p)" if "dir_entries s p nd (T p)" for p nd
    using that dir_list_extends [OF _ assms(2)] same
    by (auto simp: dir_entries_def split: option.splits finddir_fn.splits if_splits)
  moreover have "unat (malloc_top s) \<le> unat (malloc_top s')" using assms(2) by (simp add: fs_extends_def)
  ultimately show ?thesis using assms(1) same by (fastforce simp: fs_tree_def)
qed

text \<open>What splitting a path takes from the heap, at most.\<close>

definition path_need :: "u8 list \<Rightarrow> nat" where
  "path_need xs = 20 + (length xs + 1) + 20 + 4 * (length xs + 1)"

definition path_room :: "'a fs_state_scheme \<Rightarrow> u8 list \<Rightarrow> bool" where
  "path_room s xs \<longleftrightarrow> malloc_room s (path_need xs)"

lemma lit_slash: "lit ''/'' = [0x2F]"
  by code_simp

lemma resolve_first:
  assumes tree: "fs_tree s T" and ptrs: "pointers_at (bytes s) (cells s) p (g # gs)" "fits p (4 * length (g # gs))"
    and nul: "cells s (p + 4 * of_nat (length (g # gs))) = NULL" and p: "p \<noteq> NULL"
  shows "bindr (list_foreach (root_nodes s) (Some (fs_find (cells s p))) s) (\<lambda>(ent, s).
      if ent \<noteq> NULL then bindr (deref (lnodes s) ent) (\<lambda>nd. find_segs addr_space (finddir_rec (Suc k)) p 1 (l_data nd) s)
      else Inr (NULL, path_free p s)) = Inr (node_of (resolve T (root_node s) (g # gs)), s)"
proof -
  obtain rn where rn: "fnodes s (root_node s) = Some rn" "n_flags rn = FS_DIRECTORY" "n_finddir rn = Some Root_fs_finddir"
    using tree by (auto simp: fs_tree_def)
  have wf: "list_wf s" and "dir_entries s (root_node s) rn (T (root_node s))"
    using tree rn(1) by (auto simp: fs_tree_def)
  then have dl: "dir_list s (root_nodes s) (T (root_node s))"
    using rn(2,3) by (simp add: dir_entries_def FS_DIRECTORY_def)
  have sg: "string_at (bytes s) (cells s p) g" and tl: "pointers_at (bytes s) (cells s) (p + 4) gs" using ptrs(1) by auto
  obtain e where e: "list_foreach (root_nodes s) (Some (fs_find (cells s p))) s = Inr (e, s)"
      "case map_of (T (root_node s)) g of None \<Rightarrow> e = NULL
       | Some x \<Rightarrow> e \<noteq> NULL \<and> (\<exists>nd. lnodes s e = Some nd \<and> l_data nd = x)"
    using search_entries [OF wf dl sg] by blast
  show ?thesis
  proof (cases "map_of (T (root_node s)) g")
    case None
    then show ?thesis using e by (simp add: path_free_def)
  next
    case (Some d)
    obtain nd where d: "d \<noteq> root_node s" "fnodes s d = Some nd" using tree_entry [OF tree rn(1) Some] by blast
    have "cells s (p + 4 + 4 * of_nat (length gs)) = NULL" "length gs < addr_space"
      using nul ptrs(2) by (simp_all add: algebra_simps fits_def addr_space_def)
    from find_segs_resolve [OF tree d(2,1) tl this(1) _ this(2), of p 1 k] show ?thesis using e Some by auto
  qed
qed

lemma finddir_root:
  assumes tree: "fs_tree s T" and name: "string_below s name xs" "name \<noteq> NULL" and room: "path_room s xs"
  shows "\<exists>s'. finddir_fs (root_node s) name s =
      Inr (if xs = [0x2F] then root_node s else node_of (resolve T (root_node s) (segments xs)), s') \<and> fs_extends s s' \<and>
    unat (malloc_top s') \<le> unat (malloc_top s) + path_need xs"
proof -
  obtain rn where rn: "fnodes s (root_node s) = Some rn" "n_flags rn = FS_DIRECTORY" "n_finddir rn = Some Root_fs_finddir"
    using tree by (auto simp: fs_tree_def)
  have at: "string_at (bytes s) name xs" using name(1) by (simp add: string_below_def)
  have wf: "mm_wf s" using tree by (simp add: fs_tree_def list_wf_def)
  obtain k where k: "addr_space = Suc (Suc k)"
    using that [of "addr_space - 2"] by (simp add: addr_space_def)
  have run: "finddir_fs (root_node s) name s = root_fs_finddir (finddir_rec (Suc k)) (root_node s) name s"
    using rn by (simp add: finddir_fs_def k FS_DIRECTORY_def)
  show ?thesis
  proof (cases "xs = [0x2F]")
    case True
    have "fs_extends s s" using wf by (simp add: fs_extends_def)
    then show ?thesis using True at name(2) unfolding run root_fs_finddir_def lit_slash by auto
  next
    case False
    then have nr: "\<not> string_at (bytes s) name [0x2F]" using string_at_unique [OF at] by blast
    obtain p s' where p: "path name s = Inr (p, s')" "mm_wf s'" "pointers_at (bytes s') (cells s') p (segments xs)"
        "unat p + 4 * length (segments xs) = unat (malloc_top s')" "cells s' (malloc_top s') = NULL"
        "\<forall>a. unat a < unat (malloc_top s) \<longrightarrow> bytes s' a = bytes s a \<and> cells s' a = cells s a"
        "malloc_top s < malloc_top s'" "p \<noteq> NULL" "fits p (4 * length (segments xs))" "heap s' = heap s"
        "lnodes s' = lnodes s" "running_task s' = running_task s" "task_mem s' = task_mem s"
        "word_state.more s' = word_state.more s" "unat (malloc_top s') = unat (malloc_top s) + 41 + length xs + 4 * length (segments xs)"
      using path_segments [OF wf name room [unfolded path_room_def path_need_def]] by (elim exE conjE) rule
    have ext: "fs_extends s s'" using p by (simp add: fs_extends_def word_less_nat_alt)
    note tree' = fs_tree_extends [OF tree ext]
    obtain g gs where gs: "segments xs = g # gs" using length_segments(1) [of xs] by (cases "segments xs") auto
    have "p + 4 * of_nat (length (g # gs)) = malloc_top s'"
      using unat_offset [OF p(9), of "4 * length (segments xs)"] p(4) gs
      by (simp add: word_unat_eq_iff algebra_simps)
    then have "cells s' (p + 4 * of_nat (length (g # gs))) = NULL" using p(5) by simp
    from resolve_first [OF tree' p(3) [unfolded gs] p(9) [unfolded gs] this p(8), of k]
    have "finddir_fs (root_node s) name s = Inr (node_of (resolve T (root_node s) (segments xs)), s')"
      using p(1,8) name(2) nr fs_fields_of_more [OF p(14)]
      unfolding run root_fs_finddir_def lit_slash gs by (simp del: string_at.simps)
    moreover have "unat (malloc_top s') \<le> unat (malloc_top s) + path_need xs"
      using p(15) length_segments(2) [of xs] by (simp add: path_need_def)
    ultimately show ?thesis using False ext by auto
  qed
qed

section \<open>Building the tree\<close>

lemma strcpy_lit_at:
  "\<lbrakk>fits p (length xs + 1); 0 \<notin> set xs\<rbrakk> \<Longrightarrow>
    string_at (strcpy_lit m p xs) p xs \<and> (\<forall>a. \<not> within p (length xs + 1) a \<longrightarrow> strcpy_lit m p xs a = m a)"
proof (induction xs arbitrary: m p)
  case Nil
  then show ?case by (auto simp: within_def)
next
  case (Cons x xs)
  have f: "fits p (Suc (length xs + 1))" using Cons.prems(1) by simp
  have IH: "string_at (strcpy_lit (m(p := x)) (p + 1) xs) (p + 1) xs"
      "\<forall>a. \<not> within (p + 1) (length xs + 1) a \<longrightarrow> strcpy_lit (m(p := x)) (p + 1) xs a = (m(p := x)) a"
    using Cons.IH [OF fits_next [OF f], of "m(p := x)"] Cons.prems(2) by (auto simp: fun_upd_def)
  have "strcpy_lit (m(p := x)) (p + 1) xs p = x" using IH(2) not_within_start [OF f] by simp
  then show ?case using IH Cons.prems(2) within_Suc [OF f] by (auto simp: fun_upd_def)
qed

lemma malloced_fs [simp]:
  "fnodes (malloced sz s lb) = fnodes s" "dirents (malloced sz s lb) = dirents s"
  "root_nodes (malloced sz s lb) = root_nodes s" "root_files (malloced sz s lb) = root_files s"
  "root_node (malloced sz s lb) = root_node s" "dev_nodes (malloced sz s lb) = dev_nodes s"
  "dev_files (malloced sz s lb) = dev_files s" "devfs_root_node (malloced sz s lb) = devfs_root_node s"
  "running_task (malloced sz s lb) = running_task s" "task_mem (malloced sz s lb) = task_mem s"
  by (simp_all add: malloced_def)

text \<open>A new node: fresh memory, its name in place, everything else as it was.\<close>

lemma new_node_fresh:
  fixes s :: "'a fs_state_scheme"
  assumes wf: "list_wf s" and room: "malloc_room s 188" and name: "length name < 128" "0 \<notin> set name"
  shows "\<exists>p lb m s'. new_node junk name f s = Inr (p, s') \<and>
    s' = (malloced 168 s lb)\<lparr>bytes := m, fnodes := (fnodes s)(p \<mapsto> f (junk p))\<rparr> \<and> list_wf s' \<and> p \<noteq> NULL \<and>
    unat (malloc_top s) \<le> unat p \<and> unat p < unat (malloc_top s') \<and> string_below s' p name \<and>
    unat (malloc_top s') = unat (malloc_top s) + 188 \<and>
    (\<forall>a. unat a < unat (malloc_top s) \<longrightarrow> m a = bytes s a)"
proof -
  have mw: "mm_wf s" using wf by (simp add: list_wf_def)
  have pos: "0 < (168 :: nat)" and r: "malloc_room s (20 + 168)" using room by simp_all
  obtain p s1 lb where m: "malloc (of_nat 168) s = Inr (p, s1)" "mm_wf s1" "p \<noteq> NULL" "bytes s1 = bytes s"
      "unat p = unat (malloc_top s) + 20" "fits p 168" "unat (malloc_top s1) = unat p + 168"
      "s1 = malloced (of_nat 168) s lb"
    using malloc_bytes [OF mw pos r] by (elim exE conjE) rule
  have f: "fits p (length name + 1)" using m(6) name(1) by (simp add: fits_def)
  let ?m = "strcpy_lit (bytes s) p name"
  let ?s = "s1\<lparr>bytes := ?m, fnodes := (fnodes s1)(p \<mapsto> f (junk p))\<rparr>"
  have st: "string_at ?m p name" "\<forall>a. \<not> within p (length name + 1) a \<longrightarrow> ?m a = bytes s a"
    using strcpy_lit_at [OF f name(2)] by blast+
  have "?m a = bytes s a" if "unat a < unat (malloc_top s)" for a
    using st(2) that m(5) by (simp add: within_def)
  moreover have "string_below ?s p name" using st(1) m(7) name(1) by (simp add: string_below_def)
  moreover have "list_wf ?s" using wf m(2,5,7) unfolding m(8) by (fastforce simp: list_wf_def mm_wf_def)
  moreover have "new_node junk name f s = Inr (p, ?s)" using m(1,4) by (simp add: new_node_def)
  ultimately show ?thesis using m(3,5,7) unfolding m(8)
    by (intro exI [of _ p] exI [of _ lb] exI [of _ ?m] exI) (auto simp: m(8) [symmetric])
qed

lemma fs_fields_of_list_more:
  assumes "list_state.more s' = list_state.more s"
  shows "running_task s' = running_task s" "task_mem s' = task_mem s" "cells s' = cells s" "word_state.more s' = word_state.more s"
    "fnodes s' = fnodes s" "root_nodes s' = root_nodes s" "root_files s' = root_files s" "root_node s' = root_node s"
    "dev_nodes s' = dev_nodes s" "dev_files s' = dev_files s" "devfs_root_node s' = devfs_root_node s"
  using assms by (cases s; cases s'; simp)+

text \<open>
  While \<open>devfs\<close> adds its files, the root has no entry yet; the nodes are the root, the directory
  \<open>dev\<close> and files.
\<close>

definition booting :: "'a fs_state_scheme \<Rightarrow> addr \<Rightarrow> addr \<Rightarrow> (u8 list \<times> addr) list \<Rightarrow> bool" where
  "booting s r d es \<longleftrightarrow> list_wf s \<and> root_nodes s = NULL \<and> root_node s = r \<and> devfs_root_node s = d \<and> r \<noteq> d \<and>
     dir_list s (dev_nodes s) es \<and> r \<notin> snd ` set es \<and> is_entry s (lit ''dev'', d) \<and>
     (\<exists>nd. fnodes s r = Some (dir_node Root_fs_readdir Root_fs_finddir nd)) \<and>
     (\<exists>nd. fnodes s d = Some (dir_node Devfs_readdir Devfs_finddir nd)) \<and>
     (\<forall>p nd. fnodes s p = Some nd \<longrightarrow> unat p < unat (malloc_top s) \<and> (p = r \<or> p = d \<or> n_finddir nd = None)) \<and>
     dev_files s = of_nat (length es)"

lemma string_below_mono:
  assumes "string_below s p xs" "unat (malloc_top s) \<le> unat (malloc_top s')"
    "\<And>a. unat a < unat (malloc_top s) \<Longrightarrow> bytes s' a = bytes s a"
  shows "string_below s' p xs"
proof -
  have "string_at (bytes s') p xs"
    by (rule string_at_cong [THEN iffD1, OF string_below_fits [OF assms(1)]])
      (use assms in \<open>auto simp: within_def string_below_def\<close>)
  then show ?thesis using assms(1,2) by (simp add: string_below_def)
qed

definition old_bytes :: "'a fs_state_scheme \<Rightarrow> 'a fs_state_scheme \<Rightarrow> bool" where
  "old_bytes s s' \<longleftrightarrow> unat (malloc_top s) \<le> unat (malloc_top s') \<and>
     (\<forall>a. unat a < unat (malloc_top s) \<longrightarrow> bytes s' a = bytes s a)"

lemma old_bytes_trans: "\<lbrakk>old_bytes s s'; old_bytes s' s''\<rbrakk> \<Longrightarrow> old_bytes s s''"
  by (simp add: old_bytes_def)

lemma boot_device:
  fixes s :: "'a fs_state_scheme"
  assumes boot: "booting s r d es" and room: "malloc_room s 220" and name: "length name < 128" "0 \<notin> set name"
  shows "\<exists>p s'. bindr (new_node junk name (dev_node rd wr) s) (\<lambda>(p, s). devfs_register p s) = Inr s' \<and>
    booting s' r d (es @ [(name, p)]) \<and> fnodes s' = (fnodes s)(p \<mapsto> dev_node rd wr (junk p)) \<and> fnodes s p = None \<and>
    unat (malloc_top s') = unat (malloc_top s) + 220 \<and> heap s' = heap s \<and>
    running_task s' = running_task s \<and> task_mem s' = task_mem s \<and> root_files s' = root_files s \<and> old_bytes s s'"
proof -
  have b: "list_wf s" "dir_list s (dev_nodes s) es" "is_entry s (lit ''dev'', d)" using boot by (auto simp: booting_def)
  have r1: "malloc_room s 188" using room by (simp add: malloc_room_def)
  obtain p lb m s1 where n: "new_node junk name (dev_node rd wr) s = Inr (p, s1)"
      "s1 = (malloced 168 s lb)\<lparr>bytes := m, fnodes := (fnodes s)(p \<mapsto> dev_node rd wr (junk p))\<rparr>" "list_wf s1" "p \<noteq> NULL"
      "unat (malloc_top s) \<le> unat p" "unat p < unat (malloc_top s1)" "string_below s1 p name"
      "unat (malloc_top s1) = unat (malloc_top s) + 188" "\<forall>a. unat a < unat (malloc_top s) \<longrightarrow> m a = bytes s a"
    using new_node_fresh [OF b(1) r1 name, of junk "dev_node rd wr"] by (elim exE conjE) rule
  have fresh: "fnodes s p = None" using boot n(5) by (fastforce simp: booting_def)
  have lst1: "lnodes s1 = lnodes s" "heap s1 = heap s" "dev_nodes s1 = dev_nodes s" unfolding n(2) by (simp_all add: malloced_def)
  obtain as where as: "list_at (lnodes s1) (dev_nodes s1) as (map snd es)" "list_all (is_entry s) es"
    using b(2) lst1 by (auto simp: dir_list_def)
  have r2: "malloc_room s1 32" using room n(8) lst1 by (simp add: malloc_room_def)
  obtain l' e s2 where a: "list_add (dev_nodes s1) p s1 = Inr (l', s2)" "list_wf s2"
      "list_at (lnodes s2) l' (as @ [e]) (map snd es @ [p])" "unat (malloc_top s2) = unat (malloc_top s1) + 32"
      "heap s2 = heap s1" "list_state.more s2 = list_state.more s1" "bytes s2 = bytes s1"
    using list_add_appends [OF n(3) r2 as(1), of p] by blast
  note same = fs_fields_of_list_more [OF a(6)]
  let ?s = "s2\<lparr>dev_nodes := l', dev_files := dev_files s2 + 1\<rparr>"
  have keep: "string_below ?s q xs" if "string_below s q xs" for q xs
    by (rule string_below_mono [OF that]) (use a(4,7) n(2,8,9) in simp_all)
  have fn: "fnodes ?s = (fnodes s)(p \<mapsto> dev_node rd wr (junk p))" using same unfolding n(2) by simp
  have ent: "is_entry ?s x" if "is_entry s x" for x
    using that keep fn by (auto simp: is_entry_def)
  have "string_below ?s p name"
    by (rule string_below_mono [OF n(7)]) (use a(4,7) in simp_all)
  then have new: "is_entry ?s (name, p)" using n(4) fn by (simp add: is_entry_def)
  have "dir_list ?s l' (es @ [(name, p)])"
    using a(3) as(2) ent new by (auto simp: dir_list_def list_all_iff)
  moreover have "list_wf ?s" using a(2) by (simp add: list_wf_def mm_wf_def)
  moreover have "p \<noteq> r" "p \<noteq> d" using boot fresh by (auto simp: booting_def)
  moreover have "unat q < unat (malloc_top ?s)" if "fnodes ?s q \<noteq> None" for q
    using that boot n(6,8) a(4) fn by (fastforce simp: booting_def split: if_splits)
  ultimately have "booting ?s r d (es @ [(name, p)])"
    using boot ent [OF b(3)] same fn unfolding n(2) by (auto simp: booting_def dev_node_def split: if_splits)
  moreover have "bindr (new_node junk name (dev_node rd wr) s) (\<lambda>(p, s). devfs_register p s) = Inr ?s"
    using n(1) a(1) by (simp add: devfs_register_def)
  moreover have "old_bytes s ?s" using n(2,8,9) a(4,7) by (simp add: old_bytes_def)
  ultimately show ?thesis using fn fresh a(4,5) n(8) lst1(2) same unfolding n(2)
    by (intro exI [of _ p] exI [of _ ?s]) simp
qed

lemma dir_nodes [simp]:
  "n_flags (dir_node a b nd) = FS_DIRECTORY" "n_finddir (dir_node a b nd) = Some b" "n_readdir (dir_node a b nd) = Some a"
  "n_read (dev_node x w nd) = x" "n_write (dev_node x w nd) = w" "n_finddir (dev_node x w nd) = None" "n_flags (dev_node x w nd) = FS_FILE"
  by (simp_all add: dir_node_def dev_node_def)

lemma boot_begins:
  fixes s :: "'a fs_state_scheme"
  assumes wf: "list_wf s" and empty: "fnodes s = Map.empty" "root_nodes s = NULL" "dev_nodes s = NULL" "dev_files s = 0"
    and room: "malloc_room s 376"
  shows "\<exists>r d s1 s2. new_node junk (lit ''/'') (dir_node Root_fs_readdir Root_fs_finddir) s = Inr (r, s1) \<and>
    new_node junk (lit ''dev'') (dir_node Devfs_readdir Devfs_finddir) (s1\<lparr>root_node := r\<rparr>) = Inr (d, s2) \<and>
    booting (s2\<lparr>devfs_root_node := d\<rparr>) r d [] \<and> unat (malloc_top s2) = unat (malloc_top s) + 376 \<and> heap s2 = heap s \<and>
    running_task s2 = running_task s \<and> task_mem s2 = task_mem s \<and> root_files s2 = root_files s \<and> old_bytes s s2"
proof -
  have r1: "malloc_room s 188" using room by (simp add: malloc_room_def)
  have l1: "length (lit ''/'') < 128" "0 \<notin> set (lit ''/'')" and l2: "length (lit ''dev'') < 128" "0 \<notin> set (lit ''dev'')"
    by code_simp+
  obtain r lb m s1 where n: "new_node junk (lit ''/'') (dir_node Root_fs_readdir Root_fs_finddir) s = Inr (r, s1)"
      "s1 = (malloced 168 s lb)\<lparr>bytes := m, fnodes := (fnodes s)(r \<mapsto> dir_node Root_fs_readdir Root_fs_finddir (junk r))\<rparr>"
      "list_wf s1" "r \<noteq> NULL" "unat (malloc_top s) \<le> unat r" "unat r < unat (malloc_top s1)"
      "unat (malloc_top s1) = unat (malloc_top s) + 188" "\<forall>a. unat a < unat (malloc_top s) \<longrightarrow> m a = bytes s a"
    using new_node_fresh [OF wf r1 l1, of junk "dir_node Root_fs_readdir Root_fs_finddir"] by (elim exE conjE) rule
  let ?s1 = "s1\<lparr>root_node := r\<rparr>"
  have hp: "heap s1 = heap s" unfolding n(2) by (simp add: malloced_def)
  have wf1: "list_wf ?s1" using n(3) by (simp add: list_wf_def mm_wf_def)
  have r2: "malloc_room ?s1 188" using room n(7) hp by (simp add: malloc_room_def)
  obtain d lb' m' s2 where n': "new_node junk (lit ''dev'') (dir_node Devfs_readdir Devfs_finddir) ?s1 = Inr (d, s2)"
      "s2 = (malloced 168 ?s1 lb')\<lparr>bytes := m', fnodes := (fnodes ?s1)(d \<mapsto> dir_node Devfs_readdir Devfs_finddir (junk d))\<rparr>"
      "list_wf s2" "d \<noteq> NULL" "unat (malloc_top ?s1) \<le> unat d" "unat d < unat (malloc_top s2)" "string_below s2 d (lit ''dev'')"
      "unat (malloc_top s2) = unat (malloc_top ?s1) + 188" "\<forall>a. unat a < unat (malloc_top ?s1) \<longrightarrow> m' a = bytes ?s1 a"
    using new_node_fresh [OF wf1 r2 l2, of junk "dir_node Devfs_readdir Devfs_finddir"] by (elim exE conjE) rule
  let ?s2 = "s2\<lparr>devfs_root_node := d\<rparr>"
  have fn: "fnodes s2 = Map.empty(r \<mapsto> dir_node Root_fs_readdir Root_fs_finddir (junk r),
      d \<mapsto> dir_node Devfs_readdir Devfs_finddir (junk d))" unfolding n'(2) n(2) empty(1) by simp
  have rd: "r \<noteq> d" using n(6) n'(5) by auto
  have "string_below ?s2 d (lit ''dev'')" using n'(7) by (simp add: string_below_def)
  then have "is_entry ?s2 (lit ''dev'', d)" using n'(4) fn by (simp add: is_entry_def)
  moreover have "list_wf ?s2" using n'(3) by (simp add: list_wf_def mm_wf_def)
  moreover have "root_nodes s2 = NULL" "dev_nodes s2 = NULL" "root_node s2 = r" "dev_files s2 = 0"
    unfolding n'(2) n(2) by (simp_all add: empty)
  moreover have "unat r < unat (malloc_top s2)" using n(6) n'(8) by simp
  ultimately have "booting ?s2 r d []"
    using fn rd n'(6) by (auto simp: booting_def dir_list_def list_at_def split: if_splits)
  moreover have "running_task s2 = running_task s" "task_mem s2 = task_mem s" "root_files s2 = root_files s" "heap s2 = heap s"
    unfolding n'(2) n(2) by (simp_all add: malloced_def)
  moreover have "bytes s2 = m'" "bytes s1 = m" using n'(2) n(2) by simp_all
  then have "old_bytes s s2" using n(7,8) n'(8,9) by (simp add: old_bytes_def)
  ultimately show ?thesis using n(1,7) n'(1,8) by auto
qed

lemma boot_ends:
  fixes s :: "'a fs_state_scheme"
  assumes boot: "booting s r d es" and room: "malloc_room s 32"
  shows "\<exists>s'. fs_register d s = Inr s' \<and> fs_tree s' ((\<lambda>_. [])(r := [(lit ''dev'', d)], d := es)) \<and> root_node s' = r \<and>
    fnodes s' = fnodes s \<and> running_task s' = running_task s \<and> task_mem s' = task_mem s \<and> heap s' = heap s \<and>
    unat (malloc_top s') = unat (malloc_top s) + 32 \<and> devfs_root_node s' = d \<and> dev_files s' = of_nat (length es) \<and>
    root_files s' = root_files s + 1 \<and> old_bytes s s'"
proof -
  have b: "list_wf s" "root_nodes s = NULL" "dir_list s (dev_nodes s) es" "is_entry s (lit ''dev'', d)" "r \<noteq> d"
    using boot by (auto simp: booting_def)
  have "list_at (lnodes s) NULL [] []" by (simp add: list_at_def)
  from list_add_appends [OF b(1) room this, of d] obtain l' e s1 where a: "list_add NULL d s = Inr (l', s1)" "list_wf s1"
      "lnodes s e = None" "list_at (lnodes s1) l' [e] [d]" "\<forall>a. a \<noteq> e \<longrightarrow> lnodes s1 a = lnodes s a"
      "unat (malloc_top s1) = unat (malloc_top s) + 32" "heap s1 = heap s" "list_state.more s1 = list_state.more s"
      "bytes s1 = bytes s" by auto
  note same = fs_fields_of_list_more [OF a(8)]
  let ?s = "s1\<lparr>root_nodes := l', root_files := root_files s1 + 1\<rparr>" and ?T = "(\<lambda>_. [])(r := [(lit ''dev'', d)], d := es)"
  have ent: "is_entry ?s x" if "is_entry s x" for x
    using that a(6,9) same by (auto simp: is_entry_def string_below_def)
  obtain as where as: "list_at (lnodes s) (dev_nodes s) as (map snd es)" "list_all (is_entry s) es"
    using b(3) by (auto simp: dir_list_def)
  have "e \<notin> set as" using as(1) a(3) nodes_at_member [of "lnodes s" "dev_nodes s" as e] by (auto simp: list_at_def)
  then have "list_at (lnodes s1) (dev_nodes s) as (map snd es)"
    using as(1) a(5) list_at_cong [of as "lnodes s" "lnodes s1"] by metis
  then have dev: "dir_list ?s (dev_nodes ?s) es" using as(2) ent same by (auto simp: dir_list_def list_all_iff)
  have root: "dir_list ?s (root_nodes ?s) [(lit ''dev'', d)]"
    using a(4) ent [OF b(4)] by (auto simp: dir_list_def)
  have "dir_entries ?s p nd (?T p) \<and> r \<notin> snd ` set (?T p)" if "fnodes ?s p = Some nd" for p nd
  proof -
    have "p = r \<or> p = d \<or> n_finddir nd = None" using that boot same by (auto simp: booting_def)
    then show ?thesis using that boot dev root same b(5)
      by (elim disjE) (auto simp: booting_def dir_entries_def FS_DIRECTORY_def)
  qed
  moreover have "list_wf ?s" using a(2) by (simp add: list_wf_def mm_wf_def)
  moreover have "unat p < unat (malloc_top ?s)" if "fnodes ?s p = Some nd" for p nd
    using that boot same a(6) by (fastforce simp: booting_def)
  ultimately have "fs_tree ?s ?T" using boot same by (auto simp: fs_tree_def booting_def)
  moreover have "fs_register d s = Inr ?s" using a(1) b(2) by (simp add: fs_register_def)
  moreover have "old_bytes s ?s" using a(6,9) by (simp add: old_bytes_def)
  ultimately show ?thesis using boot same a(6,7) by (intro exI [of _ ?s]) (simp add: booting_def)
qed

definition boot_tree :: "addr \<Rightarrow> addr \<Rightarrow> addr \<Rightarrow> addr \<Rightarrow> addr \<Rightarrow> tree" where
  "boot_tree r d p1 p2 p3 = (\<lambda>_. [])(r := [(lit ''dev'', d)],
     d := [(lit ''one'', p1), (lit ''zero'', p2), (lit ''random'', p3)])"

lemma fs_root_boots:
  fixes s :: "'a fs_state_scheme"
  assumes wf: "list_wf s" and empty: "fnodes s = Map.empty" "root_nodes s = NULL" "dev_nodes s = NULL" "dev_files s = 0"
    and room: "malloc_room s 1068"
  shows "\<exists>r d p1 p2 p3 nd s'. fs_root junk s = Inr (r, s') \<and> fs_tree s' (boot_tree r d p1 p2 p3) \<and> root_node s' = r \<and> r \<noteq> d \<and>
    fnodes s' p1 = Some (dev_node (Some Dev_one_read) None (junk p1)) \<and>
    fnodes s' p2 = Some (dev_node (Some Dev_zero_read) None (junk p2)) \<and>
    fnodes s' p3 = Some (dev_node (Some Dev_rand_read) None (junk p3)) \<and>
    running_task s' = running_task s \<and> task_mem s' = task_mem s \<and> heap s' = heap s \<and>
    unat (malloc_top s') = unat (malloc_top s) + 1068 \<and> old_bytes s s' \<and> devfs_root_node s' = d \<and> dev_files s' = 3 \<and>
    fnodes s' d = Some (dir_node Devfs_readdir Devfs_finddir nd) \<and>
    (\<forall>p k. fnodes s' p = Some k \<longrightarrow> p = r \<or> p = d \<or> n_finddir k = None)"
proof -
  have ok: "length (lit ''one'') < 128" "0 \<notin> set (lit ''one'')" "length (lit ''zero'') < 128" "0 \<notin> set (lit ''zero'')"
      "length (lit ''random'') < 128" "0 \<notin> set (lit ''random'')" by code_simp+
  have rm: "malloc_room s 376" using room by (simp add: malloc_room_def)
  obtain r d s1 s2 where b: "new_node junk (lit ''/'') (dir_node Root_fs_readdir Root_fs_finddir) s = Inr (r, s1)"
      "new_node junk (lit ''dev'') (dir_node Devfs_readdir Devfs_finddir) (s1\<lparr>root_node := r\<rparr>) = Inr (d, s2)"
      "booting (s2\<lparr>devfs_root_node := d\<rparr>) r d []" "unat (malloc_top s2) = unat (malloc_top s) + 376" "heap s2 = heap s"
      "running_task s2 = running_task s" "task_mem s2 = task_mem s" "old_bytes s s2"
    using boot_begins [OF wf empty rm, of junk] by (elim exE conjE) rule
  have m1: "malloc_room (s2\<lparr>devfs_root_node := d\<rparr>) 220" using room b(4,5) by (simp add: malloc_room_def)
  obtain p1 s3 where c: "dev_one junk (s2\<lparr>devfs_root_node := d\<rparr>) = Inr s3" "booting s3 r d [(lit ''one'', p1)]"
      "fnodes s3 p1 = Some (dev_node (Some Dev_one_read) None (junk p1))"
      "unat (malloc_top s3) = unat (malloc_top s2) + 220" "heap s3 = heap s2" "running_task s3 = running_task s2" "task_mem s3 = task_mem s2" "old_bytes (s2\<lparr>devfs_root_node := d\<rparr>) s3"
    using boot_device [OF b(3) m1 ok(1,2), of junk "Some Dev_one_read" None] by (auto simp: dev_one_def)
  have m2: "malloc_room s3 220" using room b(4,5) c(4,5) by (simp add: malloc_room_def)
  obtain p2 s4 where e: "dev_zero junk s3 = Inr s4" "booting s4 r d ([(lit ''one'', p1)] @ [(lit ''zero'', p2)])"
      "fnodes s4 = (fnodes s3)(p2 \<mapsto> dev_node (Some Dev_zero_read) None (junk p2))" "fnodes s3 p2 = None"
      "unat (malloc_top s4) = unat (malloc_top s3) + 220" "heap s4 = heap s3" "running_task s4 = running_task s3" "task_mem s4 = task_mem s3" "old_bytes s3 s4"
    using boot_device [OF c(2) m2 ok(3,4), of junk "Some Dev_zero_read" None, folded dev_zero_def]
    by (elim exE conjE) rule
  have m3: "malloc_room s4 220" using room b(4,5) c(4,5) e(5,6) by (simp add: malloc_room_def)
  obtain p3 s5 where f: "dev_rand junk s4 = Inr s5"
      "booting s5 r d (([(lit ''one'', p1)] @ [(lit ''zero'', p2)]) @ [(lit ''random'', p3)])"
      "fnodes s5 = (fnodes s4)(p3 \<mapsto> dev_node (Some Dev_rand_read) None (junk p3))" "fnodes s4 p3 = None"
      "unat (malloc_top s5) = unat (malloc_top s4) + 220" "heap s5 = heap s4" "running_task s5 = running_task s4" "task_mem s5 = task_mem s4" "old_bytes s4 s5"
    using boot_device [OF e(2) m3 ok(5,6), of junk "Some Dev_rand_read" None, folded dev_rand_def]
    by (elim exE conjE) rule
  have m4: "malloc_room s5 32" using room b(4,5) c(4,5) e(5,6) f(5,6) by (simp add: malloc_room_def)
  have d5: "devfs_root_node s5 = d" "r \<noteq> d" using f(2) by (auto simp: booting_def)
  obtain s6 where g: "fs_register d s5 = Inr s6" "fs_tree s6 (boot_tree r d p1 p2 p3)" "root_node s6 = r" "fnodes s6 = fnodes s5"
      "running_task s6 = running_task s5" "task_mem s6 = task_mem s5" "heap s6 = heap s5"
      "unat (malloc_top s6) = unat (malloc_top s5) + 32" "devfs_root_node s6 = d" "old_bytes s5 s6"
      "dev_files s6 = of_nat (length [(lit ''one'', p1), (lit ''zero'', p2), (lit ''random'', p3)])"
    using boot_ends [OF f(2) m4, unfolded append_Cons append_Nil, folded boot_tree_def] by (elim exE conjE) rule
  have run: "fs_root junk s = Inr (r, s6)"
    using b(1,2) c(1) e(1) f(1) g(1,3) d5(1) by (simp add: fs_root_def devfs_def)
  have nn: "p1 \<noteq> p2" "p1 \<noteq> p3" "p2 \<noteq> p3" using c(3) e(3,4) f(4) by (auto split: if_splits)
  have fn: "fnodes s6 = (fnodes s3)(p2 \<mapsto> dev_node (Some Dev_zero_read) None (junk p2),
      p3 \<mapsto> dev_node (Some Dev_rand_read) None (junk p3))" by (simp add: g(4) f(3) e(3))
  have "unat (malloc_top s6) = unat (malloc_top s) + 1068" using b(4) c(4) e(5) f(5) g(8) by simp
  moreover have "heap s6 = heap s" "running_task s6 = running_task s" "task_mem s6 = task_mem s"
    using b(5-7) c(5-7) e(6-8) f(6-8) g(5-7) by simp_all
  moreover have "fnodes s6 p1 = Some (dev_node (Some Dev_one_read) None (junk p1))"
      "fnodes s6 p2 = Some (dev_node (Some Dev_zero_read) None (junk p2))"
      "fnodes s6 p3 = Some (dev_node (Some Dev_rand_read) None (junk p3))"
    using fn nn c(3) by simp_all
  moreover have "old_bytes s2 s3" using c(8) by (simp add: old_bytes_def)
  then have "old_bytes s s6" using b(8) e(9) f(9) g(10) old_bytes_trans by metis
  moreover have "dev_files s6 = 3" using g(11) by simp
  moreover obtain nd where "fnodes s6 d = Some (dir_node Devfs_readdir Devfs_finddir nd)" using f(2) g(4) by (auto simp: booting_def)
  moreover have "\<forall>p k. fnodes s6 p = Some k \<longrightarrow> p = r \<or> p = d \<or> n_finddir k = None" using f(2) g(4) by (simp add: booting_def)
  ultimately show ?thesis using run g(2,3,9) d5(2) by (intro exI conjI)
qed

section \<open>System calls\<close>

lemma is_entry_frame [simp]:
  "is_entry (s\<lparr>task_mem := f\<rparr>) = is_entry s" "is_entry (s\<lparr>dirents := g\<rparr>) = is_entry s"
  by (simp_all add: fun_eq_iff is_entry_def string_below_def)

lemma dir_list_frame [simp]:
  "dir_list (s\<lparr>task_mem := f\<rparr>) = dir_list s" "dir_list (s\<lparr>dirents := g\<rparr>) = dir_list s"
  by (simp_all add: fun_eq_iff dir_list_def)

lemma dir_entries_frame [simp]:
  "dir_entries (s\<lparr>task_mem := f\<rparr>) = dir_entries s" "dir_entries (s\<lparr>dirents := g\<rparr>) = dir_entries s"
  by (simp_all add: fun_eq_iff dir_entries_def split: option.split finddir_fn.split)

lemma fs_tree_frame [simp]:
  "fs_tree (s\<lparr>task_mem := f\<rparr>) T = fs_tree s T" "fs_tree (s\<lparr>dirents := g\<rparr>) T = fs_tree s T"
  by (simp_all add: fs_tree_def list_wf_def mm_wf_def)

lemma sint_small:
  fixes w :: u32
  assumes "unat w < 2147483648"
  shows "sint w = int (unat w)"
proof -
  have "int (unat w) < 2147483648" using assms by linarith
  then have "uint w < 2147483648" by simp
  moreover have "- 2147483648 \<le> uint w" by (rule order_trans [of _ 0]) simp_all
  ultimately have "signed_take_bit 31 (uint w) = uint w" by (intro signed_take_bit_int_eq_self) simp_all
  then show ?thesis by (simp add: sint_uint)
qed

lemma sys_open_resolves:
  assumes tree: "fs_tree s T" and name: "string_below s name xs" "name \<noteq> NULL" "xs \<noteq> [0x2F]" and room: "path_room s xs"
    and task: "task_mem s (running_task s) = Some t" "length (t_files t) = 16"
    and res: "resolve T (root_node s) (segments xs) = Some f" and f: "f \<noteq> NULL" and cnt: "t_file_count t < 16"
  shows "\<exists>s' t'. sys_open name s = Inr (int (unat (t_file_count t)), s') \<and> fs_tree s' T \<and>
    task_mem s' (running_task s') = Some t' \<and> length (t_files t') = 16 \<and> t_file_count t' = t_file_count t + 1 \<and>
    tf_node (t_files t' ! unat (t_file_count t)) = f \<and>
    (\<forall>i. i \<noteq> unat (t_file_count t) \<longrightarrow> t_files t' ! i = t_files t ! i) \<and>
    fnodes s' = fnodes s \<and> headers s' = headers s \<and> old_bytes s s'"
proof -
  obtain s1 where fd: "finddir_fs (root_node s) name s = Inr (f, s1)" and ext: "fs_extends s s1"
    using finddir_root [OF tree name(1,2) room] res name(3) by auto
  have same: "task_mem s1 = task_mem s" "running_task s1 = running_task s" "fnodes s1 = fnodes s" "headers s1 = headers s"
    using ext fs_fields_of_more by (auto simp: fs_extends_def)
  have n: "unat (t_file_count t) < 16" using cnt by (simp add: word_less_nat_alt)
  let ?n = "unat (t_file_count t)"
  let ?t = "t\<lparr>t_files := (t_files t)[?n := (t_files t ! ?n)\<lparr>tf_node := f\<rparr>], t_file_count := t_file_count t + 1\<rparr>"
  let ?s = "s1\<lparr>task_mem := (task_mem s1)(running_task s1 \<mapsto> ?t)\<rparr>"
  have "sint (t_file_count t) = int ?n"
    using n by (intro sint_small) simp
  then have "sys_open name s = Inr (int ?n, ?s)"
    using fd f task n same by (simp add: sys_open_def fs_root_get_def task_get_def)
  moreover have "fs_tree ?s T" using fs_tree_extends [OF tree ext] by simp
  moreover have "old_bytes s ?s" using ext by (simp add: old_bytes_def fs_extends_def)
  ultimately show ?thesis using task(2) n same by (intro exI [of _ ?s] exI [of _ ?t]) simp
qed

end
