(* ===== verification/Syscalls.thy ===== *)
theory Syscalls
  imports FsTree
begin

text \<open>
  Properties of the file system and its system calls: path resolution, file descriptors, the
  devices after boot, and directory listings.
\<close>

section \<open>Resolving\<close>

lemma resolve_node:
  "\<lbrakk>fs_tree s T; fnodes s p = Some nd; gs \<noteq> []; resolve T p gs = Some f\<rbrakk> \<Longrightarrow>
    f \<noteq> NULL \<and> f \<noteq> root_node s \<and> (\<exists>nd. fnodes s f = Some nd)"
proof (induction gs arbitrary: p nd)
  case (Cons g gs)
  obtain d where d: "map_of (T p) g = Some d" "resolve T d gs = Some f"
    using Cons.prems(4) by (auto split: option.splits)
  note e = tree_entry [OF Cons.prems(1,2) d(1)]
  show ?case
  proof (cases gs)
    case Nil
    then show ?thesis using d e by simp
  next
    case (Cons h hs)
    then show ?thesis using Cons.IH [OF Cons.prems(1)] d(2) e by blast
  qed
qed simp

lemma root_is_node: "fs_tree s T \<Longrightarrow> \<exists>nd. fnodes s (root_node s) = Some nd"
  by (auto simp: fs_tree_def)

lemma segments_neq_Nil [simp]: "segments xs \<noteq> []"
  using length_segments(1) [of xs] by auto

lemma resolved_node:
  assumes "fs_tree s T" "resolve T (root_node s) (segments xs) = Some f"
  shows "f \<noteq> NULL \<and> (\<exists>nd. fnodes s f = Some nd)"
  using resolve_node [OF assms(1) _ segments_neq_Nil assms(2)] root_is_node [OF assms(1)] by blast

text \<open>
  C15: looking up a path from the root gives the node that the walk along the segments of the path
  finds in the tree of directories, NULL when a segment has no entry, and the root for the path
  of a single slash; the tree and everything allocated before stay as they were.
\<close>

theorem finddir_resolves:
  assumes "fs_tree s T" "string_below s name xs" "name \<noteq> NULL" "path_room s xs"
  shows "\<exists>s'. finddir_fs (root_node s) name s =
      Inr (if xs = [0x2F] then root_node s else node_of (resolve T (root_node s) (segments xs)), s') \<and>
    fs_tree s' T \<and> old_bytes s s' \<and> fnodes s' = fnodes s"
proof -
  obtain s' where s': "finddir_fs (root_node s) name s =
      Inr (if xs = [0x2F] then root_node s else node_of (resolve T (root_node s) (segments xs)), s')" "fs_extends s s'"
    using finddir_root [OF assms] by blast
  moreover have "old_bytes s s'" "fnodes s' = fnodes s"
    using s'(2) fs_fields_of_more by (auto simp: fs_extends_def old_bytes_def)
  ultimately show ?thesis using fs_tree_extends [OF assms(1)] by blast
qed

section \<open>File descriptors\<close>

text \<open>
  C17: \<open>open\<close> gives the next descriptor of the running task and stores the node of the path in it,
  keeping the descriptors given before; a path that does not exist gives \<open>- 1\<close> and changes no
  descriptor; a task that already opened 16 files writes behind its array.
\<close>

theorem open_returns_fd:
  assumes "fs_tree s T" "string_below s name xs" "name \<noteq> NULL" "xs \<noteq> [0x2F]" "path_room s xs"
    and "task_mem s (running_task s) = Some t" "length (t_files t) = 16"
  shows "case resolve T (root_node s) (segments xs) of
      None \<Rightarrow> (\<exists>s'. sys_open name s = Inr (- 1, s') \<and> fs_tree s' T \<and> task_mem s' = task_mem s)
    | Some f \<Rightarrow>
        if t_file_count t < 16 then
          (\<exists>s' t'. sys_open name s = Inr (int (unat (t_file_count t)), s') \<and> fs_tree s' T \<and>
            task_mem s' (running_task s') = Some t' \<and> t_file_count t' = t_file_count t + 1 \<and>
            tf_node (t_files t' ! unat (t_file_count t)) = f \<and>
            (\<forall>i. i \<noteq> unat (t_file_count t) \<longrightarrow> t_files t' ! i = t_files t ! i))
        else sys_open name s = Inl OutOfBounds"
proof -
  obtain s1 where fd: "finddir_fs (root_node s) name s = Inr (node_of (resolve T (root_node s) (segments xs)), s1)"
      and ext: "fs_extends s s1"
    using finddir_root [OF assms(1-3,5)] assms(4) by auto
  have same: "task_mem s1 = task_mem s" "running_task s1 = running_task s" using ext by (simp_all add: fs_extends_def)
  show ?thesis
  proof (cases "resolve T (root_node s) (segments xs)")
    case None
    then show ?thesis using fd same fs_tree_extends [OF assms(1) ext] by (auto simp: sys_open_def fs_root_get_def)
  next
    case (Some f)
    have nz: "f \<noteq> NULL" using resolved_node [OF assms(1) Some] by simp
    show ?thesis
    proof (cases "t_file_count t < 16")
      case True
      from sys_open_resolves [OF assms(1-7) Some nz True] show ?thesis using True Some by auto
    next
      case False
      then have "16 \<le> unat (t_file_count t)" by (simp add: word_less_nat_alt)
      then have "sys_open name s = Inl OutOfBounds"
        using fd Some nz assms(6,7) same by (simp add: sys_open_def fs_root_get_def task_get_def)
      then show ?thesis using False Some by simp
    qed
  qed
qed

section \<open>Devices after boot\<close>

lemma boot_resolves:
  assumes "r \<noteq> d"
  shows "resolve (boot_tree r d p1 p2 p3) r [lit ''dev'', lit ''one''] = Some p1"
    "resolve (boot_tree r d p1 p2 p3) r [lit ''dev'', lit ''zero''] = Some p2"
    "resolve (boot_tree r d p1 p2 p3) r [lit ''dev'', lit ''random''] = Some p3"
proof -
  have "lit ''one'' \<noteq> lit ''zero''" "lit ''one'' \<noteq> lit ''random''" "lit ''zero'' \<noteq> lit ''random''" by code_simp+
  then show "resolve (boot_tree r d p1 p2 p3) r [lit ''dev'', lit ''one''] = Some p1"
    "resolve (boot_tree r d p1 p2 p3) r [lit ''dev'', lit ''zero''] = Some p2"
    "resolve (boot_tree r d p1 p2 p3) r [lit ''dev'', lit ''random''] = Some p3"
    using assms by (auto simp: boot_tree_def)
qed

lemma segments_dev_zero: "segments (lit ''/dev/zero'') = [lit ''dev'', lit ''zero'']"
  by code_simp

lemma lit_lengths [simp]: "length (lit str) = length str"
  by (simp add: lit_def)

text \<open>
  C16: a kernel that boots its file system, opens \<open>/dev/zero\<close> and reads gets as many zero bytes
  as it asked for, and nothing else in memory changes.
\<close>

theorem boot_open_read_zero:
  fixes s :: "'a fs_state_scheme"
  assumes "list_wf s" "fnodes s = Map.empty" "root_nodes s = NULL" "dev_nodes s = NULL" "dev_files s = 0"
    and "malloc_room s 1200" "string_below s name (lit ''/dev/zero'')" "name \<noteq> NULL"
    and "task_mem s (running_task s) = Some t" "length (t_files t) = 16" "t_file_count t < 16"
    and "fits buf (unat sz)"
  shows "\<exists>r s1 s2 s3. fs_root junk s = Inr (r, s1) \<and> sys_open name s1 = Inr (int (unat (t_file_count t)), s2) \<and>
    sys_read frame (t_file_count t) buf sz s2 = Inr (sz, s3) \<and>
    (\<forall>a. bytes s3 a = (if within buf (unat sz) a then 0 else bytes s2 a))"
proof -
  have room: "malloc_room s 1068" using assms(6) by (simp add: malloc_room_def)
  obtain r d p1 p2 p3 s1 where b: "fs_root junk s = Inr (r, s1)" "fs_tree s1 (boot_tree r d p1 p2 p3)" "root_node s1 = r" "r \<noteq> d"
      "fnodes s1 p2 = Some (dev_node (Some Dev_zero_read) None (junk p2))" "running_task s1 = running_task s"
      "task_mem s1 = task_mem s" "heap s1 = heap s" "unat (malloc_top s1) = unat (malloc_top s) + 1068" "old_bytes s s1"
    using fs_root_boots [OF assms(1-5) room, of junk] by (elim exE conjE) rule
  let ?T = "boot_tree r d p1 p2 p3"
  have n1: "string_below s1 name (lit ''/dev/zero'')"
    using b(10) by (intro string_below_mono [OF assms(7)]) (auto simp: old_bytes_def)
  have ns: "lit ''/dev/zero'' \<noteq> [0x2F]" by code_simp
  have pr: "path_room s1 (lit ''/dev/zero'')" using assms(6) b(8,9) by (simp add: path_room_def path_need_def malloc_room_def)
  have t1: "task_mem s1 (running_task s1) = Some t" using assms(9) b(6,7) by simp
  have rs: "resolve ?T (root_node s1) (segments (lit ''/dev/zero'')) = Some p2"
    using boot_resolves(2) [OF b(4)] b(3) by (simp add: segments_dev_zero)
  have nz: "p2 \<noteq> NULL" using resolved_node [OF b(2) rs] by simp
  obtain s2 t' where o: "sys_open name s1 = Inr (int (unat (t_file_count t)), s2)" "task_mem s2 (running_task s2) = Some t'"
      "length (t_files t') = 16" "t_file_count t' = t_file_count t + 1" "tf_node (t_files t' ! unat (t_file_count t)) = p2"
      "fnodes s2 = fnodes s1"
    using sys_open_resolves [OF b(2) n1 assms(8) ns pr t1 assms(10) rs nz assms(11)] by (elim exE conjE) rule
  have c: "unat (t_file_count t) < 16" using assms(11) by (simp add: word_less_nat_alt)
  have "unat (t_file_count t + 1) = unat (t_file_count t) + 1" using c by (intro unat_plus_1) simp
  then have "\<not> t_file_count t' \<le> t_file_count t" using o(4) by (simp add: word_le_nat_alt)
  then have "sys_read frame (t_file_count t) buf sz s2 = Inr (sz, s2\<lparr>bytes := memset (bytes s2) buf 0 sz\<rparr>)"
    using o(2,3,5,6) b(5) c by (simp add: sys_read_def task_get_def read_fs_def dev_zero_read_def)
  then show ?thesis using b(1) o(1) memset_eq [OF assms(12)]
    by (intro exI [of _ r] exI [of _ s1] exI [of _ s2] exI) auto
qed

section \<open>Listing a directory\<close>

lemma list_get_nth:
  assumes "list_at (lnodes s) l as xs" "unat i < length xs"
  shows "\<exists>nd. list_get l i s = Inr (as ! unat i) \<and> lnodes s (as ! unat i) = Some nd \<and> l_data nd = xs ! unat i"
proof -
  have nodes: "nodes_at (lnodes s) l as" and mp: "map (node_data (lnodes s)) as = xs" using assms(1) by (simp_all add: list_at_def)
  have i: "unat i < length as" using assms(2) mp by auto
  have "\<exists>nd. lnodes s l = Some nd \<and> l_magic nd = LIST_MAGIC" using nodes i by (cases as) auto
  then have "list_get l i s = Inr (as ! unat i)" using get_loop_nth [OF nodes, of "unat i"] i by (auto simp: list_get_def)
  moreover have "as ! unat i \<in> set as" "node_data (lnodes s) (as ! unat i) = xs ! unat i" using i mp by auto
  ultimately show ?thesis using nodes_at_member [OF nodes] by (fastforce simp: node_data_def)
qed

lemma new_dirent_copies:
  assumes wf: "list_wf s" and name: "string_below s p xs" "length xs < 128" and room: "malloc_room s 160"
  shows "\<exists>d m lb. new_dirent p ino i fl s =
      Inr (d, (malloced 140 s lb)\<lparr>bytes := m, dirents := (dirents s)(d \<mapsto> \<lparr>d_inode = ino, d_offset = i, d_flags = fl\<rparr>)\<rparr>) \<and>
    fs_extends s ((malloced 140 s lb)\<lparr>bytes := m\<rparr>) \<and> d \<noteq> NULL \<and> string_below ((malloced 140 s lb)\<lparr>bytes := m\<rparr>) d xs"
proof -
  have mw: "mm_wf s" using wf by (simp add: list_wf_def)
  have pos: "0 < (140 :: nat)" and r: "malloc_room s (20 + 140)" using room by simp_all
  obtain d s1 lb where m: "malloc (of_nat 140) s = Inr (d, s1)" "mm_wf s1" "d \<noteq> NULL" "bytes s1 = bytes s"
      "unat d = unat (malloc_top s) + 20" "fits d 140" "unat (malloc_top s1) = unat d + 140" "heap s1 = heap s"
      "s1 = malloced (of_nat 140) s lb"
    using malloc_bytes [OF mw pos r] by (elim exE conjE) rule
  have at: "string_at (bytes s) p xs" using name(1) by (simp add: string_below_def)
  have fd: "fits d (length xs + 1)" using m(6) name(2) by (simp add: fits_def)
  have ap: "apart p (length xs + 1) d (length xs + 1)" using name(1) m(5) by (simp add: apart_def string_below_def)
  obtain m' where c: "strcpy (bytes s) d p = Inr m'" "string_at m' d xs"
      "\<forall>a. \<not> within d (length xs + 1) a \<longrightarrow> m' a = bytes s a"
    using strcpy_string [OF at string_below_fits [OF name(1)] fd ap] by blast
  have len: "strlen (bytes s) p = Inr (of_nat (length xs))" by (rule strlen_string [OF at])
  have u: "unat (of_nat (length xs) :: u32) = length xs" using name(2) by (intro unat_of_nat_addr) simp
  have "new_dirent p ino i fl s = Inr (d, s1\<lparr>bytes := m', dirents := (dirents s1)(d \<mapsto> \<lparr>d_inode = ino, d_offset = i, d_flags = fl\<rparr>)\<rparr>)"
    using m(1,3,4) c(1) len name(2) u by (simp add: new_dirent_def strcpy128_def)
  moreover have "fs_extends s (s1\<lparr>bytes := m'\<rparr>)"
    using m(2,5,7,8) c(3) unfolding m(9) by (simp add: fs_extends_def mm_wf_def within_def malloced_def)
  moreover have "string_below (s1\<lparr>bytes := m'\<rparr>) d xs" using c(2) m(7) name(2) by (simp add: string_below_def)
  ultimately show ?thesis using m(3) unfolding m(9) by (intro exI [of _ d] exI [of _ m'] exI [of _ lb]) simp
qed

lemma devfs_lists:
  assumes tree: "fs_tree s T" and d: "fnodes s (devfs_root_node s) = Some (dir_node Devfs_readdir Devfs_finddir nd)"
  shows "dir_list s (dev_nodes s) (T (devfs_root_node s))"
  using tree d by (force simp: fs_tree_def dir_entries_def FS_DIRECTORY_def)

lemma devfs_readdir_entry:
  assumes tree: "fs_tree s T" and d: "fnodes s (devfs_root_node s) = Some (dir_node Devfs_readdir Devfs_finddir nd)"
    and es: "T (devfs_root_node s) = es" "dev_files s = of_nat (length es)" "length es < 2 ^ 32"
    and names: "\<forall>e \<in> set es. length (fst e) < 128" and room: "malloc_room s 160"
  shows "if unat i < length es then
      (\<exists>p s' e. readdir_fs (devfs_root_node s) i s = Inr (p, s') \<and> p \<noteq> NULL \<and> string_below s' p (fst (es ! unat i)) \<and>
        dirents s' p = Some e \<and> d_inode e = snd (es ! unat i) \<and> fs_tree s' T)
    else readdir_fs (devfs_root_node s) i s = Inr (NULL, s)"
proof (cases "unat i < length es")
  case True
  have u: "unat (of_nat (length es) :: u32) = length es" using es(3) by (rule unat_of_nat_addr)
  have lt: "\<not> dev_files s \<le> i" using True u es(2) by (simp add: word_le_nat_alt)
  have wf: "list_wf s" using tree by (simp add: fs_tree_def)
  obtain as where as: "list_at (lnodes s) (dev_nodes s) as (map snd es)" "list_all (is_entry s) es"
    using devfs_lists [OF tree d] es(1) by (auto simp: dir_list_def)
  let ?e = "es ! unat i"
  have ie: "is_entry s ?e" "length (fst ?e) < 128" using as(2) True names by (auto simp: list_all_iff)
  obtain ln where ln: "list_get (dev_nodes s) i s = Inr (as ! unat i)" "lnodes s (as ! unat i) = Some ln" "l_data ln = snd ?e"
    using list_get_nth [OF as(1), of i] True by auto
  obtain fn where fn: "fnodes s (snd ?e) = Some fn" "snd ?e \<noteq> NULL" "string_below s (snd ?e) (fst ?e)"
    using ie(1) by (auto simp: is_entry_def)
  obtain p m lb where nd: "new_dirent (snd ?e) (snd ?e) i (n_flags fn) s =
      Inr (p, (malloced 140 s lb)\<lparr>bytes := m, dirents := (dirents s)(p \<mapsto> \<lparr>d_inode = snd ?e, d_offset = i, d_flags = n_flags fn\<rparr>)\<rparr>)"
      "fs_extends s ((malloced 140 s lb)\<lparr>bytes := m\<rparr>)" "p \<noteq> NULL" "string_below ((malloced 140 s lb)\<lparr>bytes := m\<rparr>) p (fst ?e)"
    using new_dirent_copies [OF wf fn(3) ie(2) room, of "snd ?e" i "n_flags fn"] by (elim exE conjE) rule
  have "fs_tree ((malloced 140 s lb)\<lparr>bytes := m, dirents := g\<rparr>) T" for g
    using fs_tree_extends [OF tree nd(2)] by simp
  moreover have "string_below ((malloced 140 s lb)\<lparr>bytes := m, dirents := g\<rparr>) p (fst ?e)" for g
    using nd(4) by (simp add: string_below_def)
  moreover have "readdir_fs (devfs_root_node s) i s = new_dirent (snd ?e) (snd ?e) i (n_flags fn) s"
    using d lt ln fn by (simp add: readdir_fs_def devfs_readdir_def FS_DIRECTORY_def)
  ultimately show ?thesis using True nd(1,3) by simp
next
  case False
  have "unat (of_nat (length es) :: u32) = length es" using es(3) by (rule unat_of_nat_addr)
  then have "dev_files s \<le> i" using False es(2) by (simp add: word_le_nat_alt)
  then show ?thesis using False d by (simp add: readdir_fs_def devfs_readdir_def FS_DIRECTORY_def)
qed

text \<open>
  \<open>readdir\<close> on the directory of devices gives, for the entry returned last (or NULL at the
  start), the next entry in the order of registration, with its name and node, and NULL after the
  last one; so a loop that passes each result to the next call lists every device once.
\<close>

theorem readdir_lists_devices:
  assumes "fs_tree s T" "string_below s name xs" "name \<noteq> NULL" "xs \<noteq> [0x2F]" "resolve T (root_node s) (segments xs) = Some (devfs_root_node s)"
    and "fnodes s (devfs_root_node s) = Some (dir_node Devfs_readdir Devfs_finddir nd)"
    and "T (devfs_root_node s) = es" "dev_files s = of_nat (length es)" "length es < 2 ^ 32" "\<forall>e \<in> set es. length (fst e) < 128"
    and "malloc_room s (path_need xs + 160)"
    and "dir = NULL \<and> i = 0 \<or> (\<exists>e. dir \<noteq> NULL \<and> dirents s dir = Some e \<and> d_offset e = i)"
  shows "if unat i < length es then
      (\<exists>p s' e. sys_readdir name dir s = Inr (p, s') \<and> p \<noteq> NULL \<and> string_below s' p (fst (es ! unat i)) \<and>
        dirents s' p = Some e \<and> d_inode e = snd (es ! unat i) \<and> d_offset e = i + 1 \<and> fs_tree s' T)
    else (\<exists>s'. sys_readdir name dir s = Inr (NULL, s') \<and> fs_tree s' T)"
proof -
  have room: "path_room s xs" using assms(11) by (simp add: path_room_def malloc_room_def)
  have nz: "devfs_root_node s \<noteq> NULL" using resolved_node [OF assms(1,5)] by simp
  obtain s1 where fd: "finddir_fs (root_node s) name s = Inr (devfs_root_node s, s1)" and ext: "fs_extends s s1"
      and top: "unat (malloc_top s1) \<le> unat (malloc_top s) + path_need xs"
    using finddir_root [OF assms(1-3) room] assms(4,5) by auto
  have more: "word_state.more s1 = word_state.more s" "heap s1 = heap s" using ext by (simp_all add: fs_extends_def)
  note same = fs_fields_of_more [OF more(1)]
  note tree1 = fs_tree_extends [OF assms(1) ext]
  have r1: "malloc_room s1 160" using assms(11) top more(2) by (simp add: malloc_room_def)
  have d1: "fnodes s1 (devfs_root_node s1) = Some (dir_node Devfs_readdir Devfs_finddir nd)"
      "T (devfs_root_node s1) = es" "dev_files s1 = of_nat (length es)" using assms(6-8) same by simp_all
  note rd = devfs_readdir_entry [OF tree1 d1 assms(9,10) r1, of i]
  have off: "(if dir \<noteq> NULL then bindr (deref (dirents s) dir) (\<lambda>d. Inr (d_offset d)) else Inr 0) = Inr i"
    using assms(12) by auto
  show ?thesis
  proof (cases "unat i < length es")
    case True
    then obtain p s2 e where p: "readdir_fs (devfs_root_node s) i s1 = Inr (p, s2)" "p \<noteq> NULL"
        "string_below s2 p (fst (es ! unat i))" "dirents s2 p = Some e" "d_inode e = snd (es ! unat i)" "fs_tree s2 T"
      using rd same by auto
    let ?s = "s2\<lparr>dirents := (dirents s2)(p \<mapsto> e\<lparr>d_offset := i + 1\<rparr>)\<rparr>"
    have "sys_readdir name dir s = Inr (p, ?s)"
      using off fd nz p by (simp add: sys_readdir_def fs_root_get_def free_def Let_def)
    moreover have "fs_tree ?s T" "string_below ?s p (fst (es ! unat i))" using p(3,6) by (simp_all add: string_below_def)
    ultimately show ?thesis using True p(2,5) by simp
  next
    case False
    then have "sys_readdir name dir s = Inr (NULL, s1)"
      using rd off fd nz same by (simp add: sys_readdir_def fs_root_get_def)
    then show ?thesis using False tree1 by simp
  qed
qed

section \<open>An example\<close>

text \<open>
  A machine before \<open>fs_root\<close>: the strings \<open>"/dev/zero"\<close> and \<open>"/dev"\<close> in static memory, a heap of
  one block with four pages of room, one task without open files.
\<close>

definition boot_machine :: fs_state where
  "boot_machine = word_state.extend
     (path_heap\<lparr>bytes := strcpy_lit (strcpy_lit (\<lambda>_. 0) 0x1000 (lit ''/dev/zero'')) 0x1010 (lit ''/dev''),
        heap := 0xC0004000, running_task := 0x2000,
        task_mem := [0x2000 \<mapsto> example_task 1001 0 TS_READY 0]\<rparr>)
     \<lparr>fnodes = Map.empty, dirents = Map.empty, root_nodes = 0, root_files = 0, root_node = 0, dev_nodes = 0, dev_files = 0,
      devfs_root_node = 0, ramfs_root_node = 0, headers = [], files = 0, rand_next = 1, SERIAL_PORT = [], port_in = []\<rparr>"

definition no_node :: "addr \<Rightarrow> fs_node" where
  "no_node p = \<lparr>n_flags = 0, n_inode = 0, n_length = 0, n_read = None, n_write = None, n_open = 0, n_close = 0,
     n_readdir = None, n_finddir = None, n_link = 0\<rparr>"

lemmas boot_machine_simps = boot_machine_def word_state.defs path_heap_def byte_state.defs string_heap_def

lemma boot_machine_wf: "list_wf boot_machine"
  unfolding list_wf_def mm_wf_def
  by (auto intro!: exI [of _ "[0xC0000000]"] simp: boot_machine_simps used_block_def new_block_def)

lemma boot_machine_empty:
  "fnodes boot_machine = Map.empty" "root_nodes boot_machine = NULL" "dev_nodes boot_machine = NULL" "dev_files boot_machine = 0"
  "malloc_room boot_machine 2000"
  by (simp_all add: boot_machine_simps malloc_room_def)

lemma lit_paths: "lit ''/dev/zero'' = [0x2F, 0x64, 0x65, 0x76, 0x2F, 0x7A, 0x65, 0x72, 0x6F]" "lit ''/dev'' = [0x2F, 0x64, 0x65, 0x76]"
  by code_simp+

lemma boot_machine_strings:
  "string_below boot_machine 0x1000 (lit ''/dev/zero'')" "string_below boot_machine 0x1010 (lit ''/dev'')"
  by (simp_all add: boot_machine_simps lit_paths string_below_def)

theorem boot_open_read_zero_witness:
  "\<exists>r s1 s2 s3. fs_root no_node boot_machine = Inr (r, s1) \<and> sys_open 0x1000 s1 = Inr (0, s2) \<and>
    sys_read 0x3000 0 0x4000 100 s2 = Inr (100, s3) \<and> bytes s3 0x4000 = 0"
proof -
  let ?t = "example_task 1001 0 TS_READY 0"
  have t: "task_mem boot_machine (running_task boot_machine) = Some ?t" by (simp add: boot_machine_simps)
  have room: "malloc_room boot_machine 1200" using boot_machine_empty(5) by (simp add: malloc_room_def)
  have "length (t_files ?t) = 16" "t_file_count ?t < 16" "fits 0x4000 (unat (100 :: u32))" "(0x1000 :: addr) \<noteq> NULL"
    by (simp_all add: fits_def example_task_def)
  from boot_open_read_zero [OF boot_machine_wf boot_machine_empty(1-4) room boot_machine_strings(1) this(4) t this(1-3),
      of no_node "0x3000"]
  obtain r s1 s2 s3 where "fs_root no_node boot_machine = Inr (r, s1)" "sys_open 0x1000 s1 = Inr (0, s2)"
      "sys_read 0x3000 0 0x4000 100 s2 = Inr (100, s3)"
      "\<forall>a. bytes s3 a = (if within 0x4000 (unat (100 :: u32)) a then 0 else bytes s2 a)"
    by (auto simp: example_task_def)
  then show ?thesis by (auto simp: within_def)
qed

text \<open>The machine after boot.\<close>

lemma boot_machine_booted:
  "\<exists>r d p1 p2 p3 nd s. fs_root no_node boot_machine = Inr (r, s) \<and> fs_tree s (boot_tree r d p1 p2 p3) \<and> root_node s = r \<and> r \<noteq> d \<and>
    running_task s = 0x2000 \<and> task_mem s 0x2000 = task_mem boot_machine 0x2000 \<and> malloc_room s 900 \<and>
    string_below s 0x1000 (lit ''/dev/zero'') \<and> string_below s 0x1010 (lit ''/dev'') \<and> devfs_root_node s = d \<and> dev_files s = 3 \<and>
    fnodes s d = Some (dir_node Devfs_readdir Devfs_finddir nd)"
proof -
  have room: "malloc_room boot_machine 1068" using boot_machine_empty(5) by (simp add: malloc_room_def)
  obtain r d p1 p2 p3 nd s where b: "fs_root no_node boot_machine = Inr (r, s)" "fs_tree s (boot_tree r d p1 p2 p3)" "root_node s = r" "r \<noteq> d"
      "running_task s = running_task boot_machine" "task_mem s = task_mem boot_machine" "heap s = heap boot_machine"
      "unat (malloc_top s) = unat (malloc_top boot_machine) + 1068" "old_bytes boot_machine s"
      "devfs_root_node s = d" "dev_files s = 3" "fnodes s d = Some (dir_node Devfs_readdir Devfs_finddir nd)"
    using fs_root_boots [OF boot_machine_wf boot_machine_empty(1-4) room, of no_node] by (elim exE conjE) rule
  have "string_below s q xs" if "string_below boot_machine q xs" for q xs
    using b(9) by (intro string_below_mono [OF that]) (auto simp: old_bytes_def)
  then have "string_below s 0x1000 (lit ''/dev/zero'')" "string_below s 0x1010 (lit ''/dev'')"
    using boot_machine_strings by blast+
  moreover have "malloc_room s 900" using boot_machine_empty(5) b(7,8) by (simp add: malloc_room_def)
  moreover have "running_task s = 0x2000" "task_mem s 0x2000 = task_mem boot_machine 0x2000"
    using b(5,6) by (simp_all add: boot_machine_simps)
  ultimately show ?thesis using b(1-4,10-12) by (intro exI conjI)
qed

theorem finddir_resolves_witness:
  "\<exists>r s p s'. fs_root no_node boot_machine = Inr (r, s) \<and> finddir_fs r 0x1000 s = Inr (p, s') \<and> p \<noteq> NULL"
proof -
  obtain r d p1 p2 p3 s where b: "fs_root no_node boot_machine = Inr (r, s)" "fs_tree s (boot_tree r d p1 p2 p3)" "root_node s = r" "r \<noteq> d"
      "malloc_room s 900" "string_below s 0x1000 (lit ''/dev/zero'')"
    using boot_machine_booted by blast
  have pr: "path_room s (lit ''/dev/zero'')" using b(5) by (simp add: path_room_def path_need_def malloc_room_def)
  have rs: "resolve (boot_tree r d p1 p2 p3) (root_node s) (segments (lit ''/dev/zero'')) = Some p2"
    using boot_resolves(2) [OF b(4)] b(3) by (simp add: segments_dev_zero)
  have "lit ''/dev/zero'' \<noteq> [0x2F]" "(0x1000 :: addr) \<noteq> NULL" by (simp_all add: lit_paths)
  with finddir_resolves [OF b(2,6) this(2) pr] obtain s' where "finddir_fs r 0x1000 s = Inr (p2, s')"
    using rs b(3) by auto
  then show ?thesis using b(1) resolved_node [OF b(2) rs] by blast
qed

theorem open_returns_fd_witness:
  "\<exists>r s s'. fs_root no_node boot_machine = Inr (r, s) \<and> sys_open 0x1000 s = Inr (0, s')"
proof -
  obtain r d p1 p2 p3 s where b: "fs_root no_node boot_machine = Inr (r, s)" "fs_tree s (boot_tree r d p1 p2 p3)" "root_node s = r" "r \<noteq> d"
      "running_task s = 0x2000" "task_mem s 0x2000 = task_mem boot_machine 0x2000" "malloc_room s 900"
      "string_below s 0x1000 (lit ''/dev/zero'')"
    using boot_machine_booted by blast
  let ?t = "example_task 1001 0 TS_READY 0"
  have pr: "path_room s (lit ''/dev/zero'')" using b(7) by (simp add: path_room_def path_need_def malloc_room_def)
  have rs: "resolve (boot_tree r d p1 p2 p3) (root_node s) (segments (lit ''/dev/zero'')) = Some p2"
    using boot_resolves(2) [OF b(4)] b(3) by (simp add: segments_dev_zero)
  have t: "task_mem s (running_task s) = Some ?t" using b(5,6) by (simp add: boot_machine_simps)
  have "lit ''/dev/zero'' \<noteq> [0x2F]" "(0x1000 :: addr) \<noteq> NULL" "length (t_files ?t) = 16" "t_file_count ?t = 0"
    by (simp_all add: lit_paths example_task_def)
  from open_returns_fd [OF b(2,8) this(2,1) pr t this(3)] this(4) obtain s' where "sys_open 0x1000 s = Inr (0, s')"
    using rs by auto
  then show ?thesis using b(1) by blast
qed

theorem readdir_lists_devices_witness:
  "\<exists>r s p s'. fs_root no_node boot_machine = Inr (r, s) \<and> sys_readdir 0x1010 NULL s = Inr (p, s') \<and> p \<noteq> NULL \<and>
    string_below s' p (lit ''one'')"
proof -
  obtain r d p1 p2 p3 s nd where b: "fs_root no_node boot_machine = Inr (r, s)" "fs_tree s (boot_tree r d p1 p2 p3)" "root_node s = r"
      "r \<noteq> d" "malloc_room s 900" "string_below s 0x1010 (lit ''/dev'')" "devfs_root_node s = d" "dev_files s = 3"
      "fnodes s d = Some (dir_node Devfs_readdir Devfs_finddir nd)"
    using boot_machine_booted by blast
  let ?es = "[(lit ''one'', p1), (lit ''zero'', p2), (lit ''random'', p3)]"
  have sg: "segments (lit ''/dev'') = [lit ''dev'']" by code_simp
  have rs: "resolve (boot_tree r d p1 p2 p3) (root_node s) (segments (lit ''/dev'')) = Some (devfs_root_node s)"
    using b(3,4,7) by (simp add: sg boot_tree_def)
  have es: "boot_tree r d p1 p2 p3 (devfs_root_node s) = ?es" "dev_files s = of_nat (length ?es)" "length ?es < 2 ^ 32"
      "\<forall>e \<in> set ?es. length (fst e) < 128"
    using b(7,8) by (simp_all add: boot_tree_def)
  have "lit ''/dev'' \<noteq> [0x2F]" "(0x1010 :: addr) \<noteq> NULL" by (simp_all add: lit_paths)
  moreover have "malloc_room s (path_need (lit ''/dev'') + 160)" using b(5) by (simp add: path_need_def malloc_room_def)
  ultimately have "\<exists>p s' e. sys_readdir 0x1010 NULL s = Inr (p, s') \<and> p \<noteq> NULL \<and> string_below s' p (fst (?es ! unat (0 :: u32)))"
    using readdir_lists_devices [OF b(2,6) _ _ rs b(9) [folded b(7)] es, of NULL 0] by auto
  then show ?thesis using b(1) by auto
qed

end
