(* ===== verification/Pci.thy ===== *)
theory Pci
  imports Pic
begin

text \<open>
  kernel/devices/pci.c and drivers/ide.c: the PCI bus and the IDE controller.

  What the bus answers is the parameter \<open>cfg\<close>: the value read from the data port while the given
  value is in the address port. Every function also returns the ports it writes. The scan for a
  device is three nested loops; the two functions that scan differ in the register and the test.
\<close>

section \<open>The code\<close>

definition PCI_CONFIG :: u32 where "PCI_CONFIG = 0xCF8"
definition PCI_DATA :: u32 where "PCI_DATA = 0xCFC"
definition PCI_VENDOR_DEVICE :: u32 where "PCI_VENDOR_DEVICE = 0x00"
definition PCI_CLASS_SUBCLASS :: u32 where "PCI_CLASS_SUBCLASS = 0x08"
definition PCI_BAR0 :: u32 where "PCI_BAR0 = 0x10"

type_synonym pci_bus = "u32 \<Rightarrow> u32"

definition pci_read :: "pci_bus \<Rightarrow> u32 \<Rightarrow> u32 \<Rightarrow> u32 \<Rightarrow> u32 \<Rightarrow> u32 \<times> port_write list" where
  "pci_read cfg bus device function offset =
     (let reg = 0x80000000;
          reg = reg OR push_bit 16 (bus AND 0xFF);
          reg = reg OR push_bit 11 (device AND 0x1F);
          reg = reg OR push_bit 8 (function AND 0x7);
          reg = reg OR ((offset AND 0xFF) AND 0xFC)
      in (cfg reg, outportl PCI_CONFIG reg))"

definition pci_write :: "u32 \<Rightarrow> u32 \<Rightarrow> u32 \<Rightarrow> u32 \<Rightarrow> u32 \<Rightarrow> port_write list" where
  "pci_write bus device function offset v =
     (let reg = 0x80000000;
          reg = reg OR push_bit 16 (bus AND 0xFF);
          reg = reg OR push_bit 11 (device AND 0x1F);
          reg = reg OR push_bit 8 (function AND 0x7);
          reg = reg OR (offset AND 0xFC)
      in outportl PCI_CONFIG reg @ outportl PCI_DATA v)"

text \<open>The innermost loop, the middle one and the outer one, with the iterations left.\<close>

fun scan_function :: "nat \<Rightarrow> pci_bus \<Rightarrow> u32 \<Rightarrow> (u32 \<Rightarrow> bool) \<Rightarrow> u32 \<Rightarrow> u32 \<Rightarrow> u32 \<Rightarrow> (u8 \<times> u8 \<times> u8) option \<times> port_write list" where
  "scan_function 0 cfg off hit b d f = (None, [])"
| "scan_function (Suc n) cfg off hit b d f =
     (let (v, ports) = pci_read cfg b d f off
      in if hit v then (Some (ucast b, ucast d, ucast f), ports)
         else let (r, ports') = scan_function n cfg off hit b d (f + 1) in (r, ports @ ports'))"

fun scan_device :: "nat \<Rightarrow> pci_bus \<Rightarrow> u32 \<Rightarrow> (u32 \<Rightarrow> bool) \<Rightarrow> u32 \<Rightarrow> u32 \<Rightarrow> (u8 \<times> u8 \<times> u8) option \<times> port_write list" where
  "scan_device 0 cfg off hit b d = (None, [])"
| "scan_device (Suc n) cfg off hit b d =
     (case scan_function 8 cfg off hit b d 0 of
        (Some r, ports) \<Rightarrow> (Some r, ports)
      | (None, ports) \<Rightarrow> let (r, ports') = scan_device n cfg off hit b (d + 1) in (r, ports @ ports'))"

fun scan_bus :: "nat \<Rightarrow> pci_bus \<Rightarrow> u32 \<Rightarrow> (u32 \<Rightarrow> bool) \<Rightarrow> u32 \<Rightarrow> (u8 \<times> u8 \<times> u8) option \<times> port_write list" where
  "scan_bus 0 cfg off hit b = (None, [])"
| "scan_bus (Suc n) cfg off hit b =
     (case scan_device 32 cfg off hit b 0 of
        (Some r, ports) \<Rightarrow> (Some r, ports)
      | (None, ports) \<Rightarrow> let (r, ports') = scan_bus n cfg off hit (b + 1) in (r, ports @ ports'))"

text \<open>\<open>Some (bus, dev, function)\<close> for TRUE with these stored, \<open>None\<close> for FALSE.\<close>

definition pci_find :: "pci_bus \<Rightarrow> u32 \<Rightarrow> u32 \<Rightarrow> (u8 \<times> u8 \<times> u8) option \<times> port_write list" where
  "pci_find cfg vendor device =
     (let my_vend_dev = (vendor AND 0xFFFF) OR push_bit 16 device
      in scan_bus 256 cfg PCI_VENDOR_DEVICE (\<lambda>v. v = my_vend_dev) 0)"

text \<open>The class is signed: as an operand of \<open>|\<close> it is extended with its sign.\<close>

definition pci_find_class :: "pci_bus \<Rightarrow> u8 \<Rightarrow> u8 \<Rightarrow> (u8 \<times> u8 \<times> u8) option \<times> port_write list" where
  "pci_find_class cfg cls subclass =
     (let my_cls_sub = (ucast ((scast cls :: u32) OR push_bit 8 (ucast subclass)) :: u16)
      in scan_bus 256 cfg PCI_CLASS_SUBCLASS (\<lambda>v. (ucast (drop_bit 16 v) :: u16) = my_cls_sub) 0)"

text \<open>drivers/ide.c: the registers found; the rest of the function prints what the ports answer.\<close>

record ide_state =
  ide_slot :: "u8 \<times> u8 \<times> u8"
  ide_primary_io_base :: u16
  ide_primary_ctrl :: u16
  ide_secondary_io_base :: u16
  ide_secondary_ctrl :: u16
  ide_bus_master_base :: u16

definition ide_bar :: "pci_bus \<Rightarrow> u8 \<times> u8 \<times> u8 \<Rightarrow> u32 \<Rightarrow> u16 \<Rightarrow> u16 \<times> port_write list" where
  "ide_bar cfg slot off dflt =
     (let (b, d, f) = slot; (v, ports) = pci_read cfg (ucast b) (ucast d) (ucast f) off; v = (ucast v :: u16)
      in (if v \<le> 1 then dflt else v, ports))"

definition ide :: "pci_bus \<Rightarrow> ide_state \<Rightarrow> ide_state \<times> port_write list" where
  "ide cfg s =
     (case pci_find_class cfg 1 1 of
        (None, ports) \<Rightarrow> (s, ports)
      | (Some slot, p0) \<Rightarrow>
          let (b, d, f) = slot;
              (v0, p1) = ide_bar cfg slot PCI_BAR0 0x1F0;
              (v1, p2) = ide_bar cfg slot (PCI_BAR0 + 4) 0x3F6;
              (v2, p3) = ide_bar cfg slot (PCI_BAR0 + 4 + 4) 0x170;
              (v3, p4) = ide_bar cfg slot (PCI_BAR0 + 4 + 4 + 4) 0x376;
              (v4, p5) = pci_read cfg (ucast b) (ucast d) (ucast f) (PCI_BAR0 + 4 + 4 + 4 + 4)
          in (\<lparr>ide_slot = slot, ide_primary_io_base = v0, ide_primary_ctrl = v1, ide_secondary_io_base = v2,
                ide_secondary_ctrl = v3, ide_bus_master_base = ucast v4\<rparr>, p0 @ p1 @ p2 @ p3 @ p4 @ p5))"

section \<open>The address register\<close>

text \<open>How the bus takes the register apart: bit 31, then bus, device, function and register.\<close>

definition pci_decode :: "u32 \<Rightarrow> bool \<times> u32 \<times> u32 \<times> u32 \<times> u32" where
  "pci_decode reg = (bit reg 31, take_bit 8 (drop_bit 16 reg), take_bit 5 (drop_bit 11 reg), take_bit 3 (drop_bit 8 reg),
     take_bit 8 reg)"

definition pci_reg :: "u32 \<Rightarrow> u32 \<Rightarrow> u32 \<Rightarrow> u32 \<Rightarrow> u32" where
  "pci_reg b d f off = 0x80000000 OR push_bit 16 (take_bit 8 b) OR push_bit 11 (take_bit 5 d) OR push_bit 8 (take_bit 3 f) OR
     (off AND 0xFC)"

lemma masks: "x AND 0xFF = take_bit 8 x" "x AND 0x1F = take_bit 5 x" "x AND 7 = take_bit 3 x" for x :: u32
  by (simp_all add: take_bit_eq_mask mask_eq_exp_minus_1)

lemma and_fc: "take_bit 8 x AND 0xFC = x AND 0xFC" for x :: u32
proof -
  have "take_bit 8 (0xFC :: u32) = 0xFC" by simp
  then show ?thesis by (metis take_bit_and and.assoc and.commute take_bit_eq_mask)
qed

lemma pci_read_reg: "pci_read cfg b d f off = (cfg (pci_reg b d f off), [Outl 0xCF8 (pci_reg b d f off)])"
  by (simp add: pci_read_def Let_def pci_reg_def outportl_def PCI_CONFIG_def masks and_fc or.assoc)

lemma pci_write_reg: "pci_write b d f off v = [Outl 0xCF8 (pci_reg b d f off), Outl 0xCFC v]"
  by (simp add: pci_write_def Let_def pci_reg_def outportl_def PCI_CONFIG_def PCI_DATA_def masks or.assoc)

lemma take_bit_small: "x < 256 \<Longrightarrow> take_bit 8 x = x" "x < 32 \<Longrightarrow> take_bit 5 x = x" "x < 8 \<Longrightarrow> take_bit 3 x = x" for x :: u32
  by (simp_all add: take_bit_eq_mod mod_word_less)

lemma reg_bits: "bit (0x80000000 :: u32) n \<longleftrightarrow> n = 31" "bit (0xFC :: u32) n \<longleftrightarrow> 2 \<le> n \<and> n < 8"
proof -
  have "(0x80000000 :: u32) = push_bit 31 1" "(0xFC :: u32) = push_bit 2 (mask 6)"
    by (simp_all add: mask_eq_exp_minus_1)
  then show "bit (0x80000000 :: u32) n \<longleftrightarrow> n = 31" "bit (0xFC :: u32) n \<longleftrightarrow> 2 \<le> n \<and> n < 8"
    by (auto simp only: bit_push_bit_iff bit_1_iff bit_mask_iff) auto
qed

lemma pci_reg_decodes:
  assumes "b < 256" "d < 32" "f < 8"
  shows "pci_decode (pci_reg b d f off) = (True, b, d, f, off AND 0xFC)"
proof -
  let ?r = "pci_reg b d f off"
  have "bit ?r 31" by (simp add: pci_reg_def reg_bits bit_simps)
  moreover have "take_bit 8 (drop_bit 16 ?r) = take_bit 8 b"
    by (rule bit_word_eqI) (auto simp: pci_reg_def reg_bits bit_simps)
  moreover have "take_bit 5 (drop_bit 11 ?r) = take_bit 5 d"
    by (rule bit_word_eqI) (auto simp: pci_reg_def reg_bits bit_simps)
  moreover have "take_bit 3 (drop_bit 8 ?r) = take_bit 3 f"
    by (rule bit_word_eqI) (auto simp: pci_reg_def reg_bits bit_simps)
  moreover have "take_bit 8 ?r = off AND 0xFC"
    unfolding pci_reg_def by (rule bit_word_eqI) (auto simp add: bit_take_bit_iff bit_or_iff bit_and_iff bit_push_bit_iff reg_bits simp del: bit_numeral_word_iff)
  ultimately show ?thesis using assms by (simp add: pci_decode_def take_bit_small)
qed

section \<open>Scanning\<close>

text \<open>The slots in the order of the scan, and the configuration words behind the register.\<close>

definition pci_slots :: "(u32 \<times> u32 \<times> u32) list" where
  "pci_slots = [(of_nat b, of_nat d, of_nat f). b \<leftarrow> [0 ..< 256], d \<leftarrow> [0 ..< 32], f \<leftarrow> [0 ..< 8]]"

type_synonym pci_conf = "u32 \<Rightarrow> u32 \<Rightarrow> u32 \<Rightarrow> u32 \<Rightarrow> u32"

definition bus_of :: "pci_conf \<Rightarrow> pci_bus" where
  "bus_of conf reg = (let (en, b, d, f, off) = pci_decode reg in if en then conf b d f off else 0xFFFFFFFF)"

lemma pci_read_conf:
  "\<lbrakk>b < 256; d < 32; f < 8\<rbrakk> \<Longrightarrow> fst (pci_read (bus_of conf) b d f off) = conf b d f (off AND 0xFC)"
  by (simp add: pci_read_reg bus_of_def pci_reg_decodes)

text \<open>The slot as it is stored, in bytes.\<close>

fun slot8 :: "u32 \<times> u32 \<times> u32 \<Rightarrow> u8 \<times> u8 \<times> u8" where
  "slot8 (b, d, f) = (ucast b, ucast d, ucast f)"

lemma scan_function_finds:
  "fst (scan_function n cfg off hit b d f) = map_option slot8
     (find (\<lambda>(b, d, f). hit (fst (pci_read cfg b d f off))) (map (\<lambda>k. (b, d, f + of_nat k)) [0 ..< n]))"
proof (induction n arbitrary: f)
  case (Suc n)
  show ?case unfolding map_upt_shift using Suc.IH [of "f + 1"]
    by (auto simp: Let_def split_beta add.assoc)
qed simp

lemma scan_device_finds:
  "fst (scan_device n cfg off hit b d) = map_option slot8
     (find (\<lambda>(b, d, f). hit (fst (pci_read cfg b d f off)))
       (concat (map (\<lambda>j. map (\<lambda>k. (b, d + of_nat j, of_nat k)) [0 ..< 8]) [0 ..< n])))"
proof (induction n arbitrary: d)
  case (Suc n)
  have IH: "fst (scan_device n cfg off hit b (d + 1)) = map_option slot8
     (find (\<lambda>(b, d, f). hit (fst (pci_read cfg b d f off)))
       (concat (map (\<lambda>j. map (\<lambda>k. (b, d + of_nat (Suc j), of_nat k)) [0 ..< 8]) [0 ..< n])))"
    using Suc.IH [of "d + 1"] by (simp add: add.assoc)
  show ?case unfolding map_upt_shift concat.simps find_append_option
    using scan_function_finds [of 8 cfg off hit b d 0] IH
    by (cases "scan_function 8 cfg off hit b d 0") (auto simp: Let_def split_beta split: option.splits)
qed simp

lemma scan_bus_finds:
  "fst (scan_bus n cfg off hit b) = map_option slot8
     (find (\<lambda>(b, d, f). hit (fst (pci_read cfg b d f off)))
       (concat (map (\<lambda>i. concat (map (\<lambda>j. map (\<lambda>k. (b + of_nat i, of_nat j, of_nat k)) [0 ..< 8]) [0 ..< 32])) [0 ..< n])))"
proof (induction n arbitrary: b)
  case (Suc n)
  have IH: "fst (scan_bus n cfg off hit (b + 1)) = map_option slot8
     (find (\<lambda>(b, d, f). hit (fst (pci_read cfg b d f off)))
       (concat (map (\<lambda>i. concat (map (\<lambda>j. map (\<lambda>k. (b + of_nat (Suc i), of_nat j, of_nat k)) [0 ..< 8]) [0 ..< 32])) [0 ..< n])))"
    using Suc.IH [of "b + 1"] by (simp add: add.assoc)
  show ?case unfolding map_upt_shift concat.simps find_append_option
    using scan_device_finds [of 32 cfg off hit b 0] IH
    by (cases "scan_device 32 cfg off hit b 0") (auto simp: Let_def split_beta split: option.splits)
qed simp

lemma pci_slots_bounds: "(b, d, f) \<in> set pci_slots \<Longrightarrow> b < 256 \<and> d < 32 \<and> f < 8"
  by (auto simp: pci_slots_def word_less_nat_alt unat_of_nat)

lemma scan_all:
  assumes "\<And>b d f. \<lbrakk>b < 256; d < 32; f < 8\<rbrakk> \<Longrightarrow> hit (fst (pci_read cfg b d f off)) = P b d f"
  shows "fst (scan_bus 256 cfg off hit 0) = map_option slot8 (find (\<lambda>(b, d, f). P b d f) pci_slots)"
proof -
  have "find (\<lambda>(b, d, f). hit (fst (pci_read cfg b d f off))) pci_slots = find (\<lambda>(b, d, f). P b d f) pci_slots"
    by (rule find_cong_set) (use assms pci_slots_bounds in auto)
  then show ?thesis unfolding scan_bus_finds pci_slots_def by simp
qed


end
