(* ===== verification/Bochs.thy ===== *)
theory Bochs
  imports Syscalls Pci
begin

text \<open>
  drivers/gfx/bochs.c and gfx/gfx.c: the frame buffer.

  The pixels are bytes of memory, four per pixel, low byte first; the two pages of the frame buffer
  follow one another. The functions the rest of the system calls are pointers: each is either the
  dummy of gfx.c or the function of the driver. A colour is its 32-bit value. Messages printed are
  left out.
\<close>

section \<open>The state\<close>

datatype gfx_fn = Dummy_gfx | Bochs_vbe

record bochs_state = fs_state +
  bochs_slot :: "u8 \<times> u8 \<times> u8"
  bochs_vbe_fb :: addr
  bochs_vbe_fb_double :: "addr list"
  bochs_vbe_fb_current :: u8
  b_w :: u16
  b_h :: u16
  b_d :: u16
  scanline :: u32
  pixel_size :: u32
  font_xsize :: u8
  font_ysize :: u8
  update_x0 :: u32
  update_x1 :: u32
  update_y0 :: u32
  update_y1 :: u32
  gfx_ports :: "port_write list"
  gfx_loaded :: u8
  put_pixel_fn :: gfx_fn
  putchar_fn :: gfx_fn
  rect_fn :: gfx_fn
  width_fn :: gfx_fn
  height_fn :: gfx_fn
  flip_fn :: gfx_fn
  draw_data_fn :: gfx_fn

section \<open>The driver\<close>

definition VBE_DISPI_IOPORT_INDEX :: u32 where "VBE_DISPI_IOPORT_INDEX = 0x1CE"
definition VBE_DISPI_IOPORT_DATA :: u32 where "VBE_DISPI_IOPORT_DATA = 0x1CF"
definition VBE_DISPI_INDEX_ID :: u16 where "VBE_DISPI_INDEX_ID = 0"
definition VBE_DISPI_INDEX_XRES :: u16 where "VBE_DISPI_INDEX_XRES = 1"
definition VBE_DISPI_INDEX_YRES :: u16 where "VBE_DISPI_INDEX_YRES = 2"
definition VBE_DISPI_INDEX_BPP :: u16 where "VBE_DISPI_INDEX_BPP = 3"
definition VBE_DISPI_INDEX_ENABLE :: u16 where "VBE_DISPI_INDEX_ENABLE = 4"
definition VBE_DISPI_INDEX_VIRT_WIDTH :: u16 where "VBE_DISPI_INDEX_VIRT_WIDTH = 6"
definition VBE_DISPI_INDEX_Y_OFFSET :: u16 where "VBE_DISPI_INDEX_Y_OFFSET = 9"

definition bochs_vbe_write :: "u16 \<Rightarrow> u16 \<Rightarrow> 'a bochs_state_scheme \<Rightarrow> 'a bochs_state_scheme" where
  "bochs_vbe_write index v s =
     s\<lparr>gfx_ports := gfx_ports s @ outportw VBE_DISPI_IOPORT_INDEX index @ outportw VBE_DISPI_IOPORT_DATA v\<rparr>"

text \<open>\<open>inp\<close> is the answer of the data port.\<close>

definition bochs_vbe_read :: "u16 \<Rightarrow> u16 \<Rightarrow> 'a bochs_state_scheme \<Rightarrow> u16 \<times> 'a bochs_state_scheme" where
  "bochs_vbe_read inp index s = (inp, s\<lparr>gfx_ports := gfx_ports s @ outportw VBE_DISPI_IOPORT_INDEX index\<rparr>)"

definition bochs_vbe_version :: "u16 \<Rightarrow> 'a bochs_state_scheme \<Rightarrow> u16 \<times> 'a bochs_state_scheme" where
  "bochs_vbe_version inp s = bochs_vbe_read inp VBE_DISPI_INDEX_ID s"

definition bochs_vbe_disable :: "'a bochs_state_scheme \<Rightarrow> 'a bochs_state_scheme" where
  "bochs_vbe_disable s = bochs_vbe_write VBE_DISPI_INDEX_ENABLE 0x00 s"

definition bochs_vbe_enable :: "'a bochs_state_scheme \<Rightarrow> 'a bochs_state_scheme" where
  "bochs_vbe_enable s = bochs_vbe_write VBE_DISPI_INDEX_ENABLE (0x01 OR 0x40) s"

definition bochs_vbe_display :: "u16 \<Rightarrow> u16 \<Rightarrow> u16 \<Rightarrow> 'a bochs_state_scheme \<Rightarrow> 'a bochs_state_scheme result" where
  "bochs_vbe_display width height depth s =
     (if depth \<noteq> 32 then Inr s
      else
        let s = s\<lparr>scanline := ucast width * 4, pixel_size := 4, b_w := width, b_h := height, b_d := depth\<rparr>
        in bindr (array_set (bochs_vbe_fb_double s) 1 (bochs_vbe_fb s + ucast (b_w s) * ucast (b_h s) * ucast (drop_bit 3 (b_d s)))) (\<lambda>fbs.
             let s = bochs_vbe_disable (s\<lparr>bochs_vbe_fb_double := fbs\<rparr>);
                 s = bochs_vbe_write VBE_DISPI_INDEX_XRES width s;
                 s = bochs_vbe_write VBE_DISPI_INDEX_YRES height s;
                 s = bochs_vbe_write VBE_DISPI_INDEX_BPP depth s;
                 s = bochs_vbe_write VBE_DISPI_INDEX_VIRT_WIDTH width s;
                 s = bochs_vbe_write VBE_DISPI_INDEX_Y_OFFSET 0 s
             in Inr (bochs_vbe_enable s)))"

definition BOCHS_AREA_GROW :: "u32 \<Rightarrow> u32 \<Rightarrow> 'a bochs_state_scheme \<Rightarrow> 'a bochs_state_scheme" where
  "BOCHS_AREA_GROW x y s =
     (let s = (if update_x1 s < x then s\<lparr>update_x1 := x\<rparr> else s);
          s = (if x < update_x0 s then s\<lparr>update_x0 := x\<rparr> else s);
          s = (if update_y1 s < y then s\<lparr>update_y1 := y\<rparr> else s)
      in if y < update_y0 s then s\<lparr>update_y0 := y\<rparr> else s)"

definition bochs_vbe_putpixel_32 :: "u32 \<Rightarrow> u32 \<Rightarrow> u32 \<Rightarrow> 'a bochs_state_scheme \<Rightarrow> 'a bochs_state_scheme result" where
  "bochs_vbe_putpixel_32 x y c s =
     (if ucast (b_w s) < x \<or> ucast (b_h s) < y then Inr s
      else
        let offset = y * ucast (b_w s) + x
        in bindr (array_get (bochs_vbe_fb_double s) (unat (bochs_vbe_fb_current s))) (\<lambda>p.
             Inr (BOCHS_AREA_GROW x y (s\<lparr>bytes := store32 (bytes s) (p + 4 * offset) c\<rparr>))))"

text \<open>drivers/gfx/font8x8_basic.h: eight rows of eight bits for each of the 128 characters.\<close>

definition font8x8_basic :: "u8 list list" where
  "font8x8_basic = [
     [0, 0, 0, 0, 0, 0, 0, 0], [0, 0, 0, 0, 0, 0, 0, 0], [0, 0, 0, 0, 0, 0, 0, 0], [0, 0, 0, 0, 0, 0, 0, 0],
     [0, 0, 0, 0, 0, 0, 0, 0], [0, 0, 0, 0, 0, 0, 0, 0], [0, 0, 0, 0, 0, 0, 0, 0], [0, 0, 0, 0, 0, 0, 0, 0],
     [0, 0, 0, 0, 0, 0, 0, 0], [0, 0, 0, 0, 0, 0, 0, 0], [0, 0, 0, 0, 0, 0, 0, 0], [0, 0, 0, 0, 0, 0, 0, 0],
     [0, 0, 0, 0, 0, 0, 0, 0], [0, 0, 0, 0, 0, 0, 0, 0], [0, 0, 0, 0, 0, 0, 0, 0], [0, 0, 0, 0, 0, 0, 0, 0],
     [0, 0, 0, 0, 0, 0, 0, 0], [0, 0, 0, 0, 0, 0, 0, 0], [0, 0, 0, 0, 0, 0, 0, 0], [0, 0, 0, 0, 0, 0, 0, 0],
     [0, 0, 0, 0, 0, 0, 0, 0], [0, 0, 0, 0, 0, 0, 0, 0], [0, 0, 0, 0, 0, 0, 0, 0], [0, 0, 0, 0, 0, 0, 0, 0],
     [0, 0, 0, 0, 0, 0, 0, 0], [0, 0, 0, 0, 0, 0, 0, 0], [0, 0, 0, 0, 0, 0, 0, 0], [0, 0, 0, 0, 0, 0, 0, 0],
     [0, 0, 0, 0, 0, 0, 0, 0], [0, 0, 0, 0, 0, 0, 0, 0], [0, 0, 0, 0, 0, 0, 0, 0], [0, 0, 0, 0, 0, 0, 0, 0],
     [0, 0, 0, 0, 0, 0, 0, 0], [24, 60, 60, 24, 24, 0, 24, 0], [54, 54, 0, 0, 0, 0, 0, 0], [54, 54, 127, 54, 127, 54, 54, 0],
     [12, 62, 3, 30, 48, 31, 12, 0], [0, 99, 51, 24, 12, 102, 99, 0], [28, 54, 28, 110, 59, 51, 110, 0], [6, 6, 3, 0, 0, 0, 0, 0],
     [24, 12, 6, 6, 6, 12, 24, 0], [6, 12, 24, 24, 24, 12, 6, 0], [0, 102, 60, 255, 60, 102, 0, 0], [0, 12, 12, 63, 12, 12, 0, 0],
     [0, 0, 0, 0, 0, 12, 12, 6], [0, 0, 0, 63, 0, 0, 0, 0], [0, 0, 0, 0, 0, 12, 12, 0], [96, 48, 24, 12, 6, 3, 1, 0],
     [62, 99, 115, 123, 111, 103, 62, 0], [12, 14, 12, 12, 12, 12, 63, 0], [30, 51, 48, 28, 6, 51, 63, 0], [30, 51, 48, 28, 48, 51, 30, 0],
     [56, 60, 54, 51, 127, 48, 120, 0], [63, 3, 31, 48, 48, 51, 30, 0], [28, 6, 3, 31, 51, 51, 30, 0], [63, 51, 48, 24, 12, 12, 12, 0],
     [30, 51, 51, 30, 51, 51, 30, 0], [30, 51, 51, 62, 48, 24, 14, 0], [0, 12, 12, 0, 0, 12, 12, 0], [0, 12, 12, 0, 0, 12, 12, 6],
     [24, 12, 6, 3, 6, 12, 24, 0], [0, 0, 63, 0, 0, 63, 0, 0], [6, 12, 24, 48, 24, 12, 6, 0], [30, 51, 48, 24, 12, 0, 12, 0],
     [62, 99, 123, 123, 123, 3, 30, 0], [12, 30, 51, 51, 63, 51, 51, 0], [63, 102, 102, 62, 102, 102, 63, 0], [60, 102, 3, 3, 3, 102, 60, 0],
     [31, 54, 102, 102, 102, 54, 31, 0], [127, 70, 22, 30, 22, 70, 127, 0], [127, 70, 22, 30, 22, 6, 15, 0], [60, 102, 3, 3, 115, 102, 124, 0],
     [51, 51, 51, 63, 51, 51, 51, 0], [30, 12, 12, 12, 12, 12, 30, 0], [120, 48, 48, 48, 51, 51, 30, 0], [103, 102, 54, 30, 54, 102, 103, 0],
     [15, 6, 6, 6, 70, 102, 127, 0], [99, 119, 127, 127, 107, 99, 99, 0], [99, 103, 111, 123, 115, 99, 99, 0], [28, 54, 99, 99, 99, 54, 28, 0],
     [63, 102, 102, 62, 6, 6, 15, 0], [30, 51, 51, 51, 59, 30, 56, 0], [63, 102, 102, 62, 54, 102, 103, 0], [30, 51, 7, 14, 56, 51, 30, 0],
     [63, 45, 12, 12, 12, 12, 30, 0], [51, 51, 51, 51, 51, 51, 63, 0], [51, 51, 51, 51, 51, 30, 12, 0], [99, 99, 99, 107, 127, 119, 99, 0],
     [99, 99, 54, 28, 28, 54, 99, 0], [51, 51, 51, 30, 12, 12, 30, 0], [127, 99, 49, 24, 76, 102, 127, 0], [30, 6, 6, 6, 6, 6, 30, 0],
     [3, 6, 12, 24, 48, 96, 64, 0], [30, 24, 24, 24, 24, 24, 30, 0], [8, 28, 54, 99, 0, 0, 0, 0], [0, 0, 0, 0, 0, 0, 0, 255],
     [12, 12, 24, 0, 0, 0, 0, 0], [0, 0, 30, 48, 62, 51, 110, 0], [7, 6, 6, 62, 102, 102, 59, 0], [0, 0, 30, 51, 3, 51, 30, 0],
     [56, 48, 48, 62, 51, 51, 110, 0], [0, 0, 30, 51, 63, 3, 30, 0], [28, 54, 6, 15, 6, 6, 15, 0], [0, 0, 110, 51, 51, 62, 48, 31],
     [7, 6, 54, 110, 102, 102, 103, 0], [12, 0, 14, 12, 12, 12, 30, 0], [48, 0, 48, 48, 48, 51, 51, 30], [7, 6, 102, 54, 30, 54, 103, 0],
     [14, 12, 12, 12, 12, 12, 30, 0], [0, 0, 51, 127, 127, 107, 99, 0], [0, 0, 31, 51, 51, 51, 51, 0], [0, 0, 30, 51, 51, 51, 30, 0],
     [0, 0, 59, 102, 102, 62, 6, 15], [0, 0, 110, 51, 51, 62, 48, 120], [0, 0, 59, 110, 102, 6, 15, 0], [0, 0, 62, 3, 30, 48, 31, 0],
     [8, 12, 62, 12, 12, 44, 24, 0], [0, 0, 51, 51, 51, 51, 110, 0], [0, 0, 51, 51, 51, 30, 12, 0], [0, 0, 99, 107, 127, 127, 54, 0],
     [0, 0, 99, 54, 28, 54, 99, 0], [0, 0, 51, 51, 51, 62, 48, 31], [0, 0, 63, 25, 12, 38, 63, 0], [56, 12, 12, 7, 12, 12, 56, 0],
     [24, 24, 24, 0, 24, 24, 24, 0], [7, 12, 12, 56, 12, 12, 7, 0], [110, 59, 0, 0, 0, 0, 0, 0], [0, 0, 0, 0, 0, 0, 0, 0]]"

definition font_bit :: "u8 \<Rightarrow> u8 \<Rightarrow> u8 \<Rightarrow> bool result" where
  "font_bit c j i =
     bindr (array_get font8x8_basic (unat (c AND 0x7F))) (\<lambda>row.
     bindr (array_get row (unat j)) (\<lambda>r. Inr (drop_bit (unat i) r AND 1 \<noteq> 0)))"

text \<open>The inner loop over the rows of a column and the outer one over the columns.\<close>

fun putchar_column :: "nat \<Rightarrow> u32 \<Rightarrow> u32 \<Rightarrow> u32 \<Rightarrow> u32 \<Rightarrow> u8 \<Rightarrow> u8 \<Rightarrow> u8 \<Rightarrow> 'a bochs_state_scheme \<Rightarrow> 'a bochs_state_scheme result" where
  "putchar_column 0 x y fg bg c i j s = Inr s"
| "putchar_column (Suc n) x y fg bg c i j s =
     bindr (font_bit c j i) (\<lambda>b.
     bindr (bochs_vbe_putpixel_32 (x + ucast i) (y + ucast j) (if b then fg else bg) s)
       (putchar_column n x y fg bg c i (j + 1)))"

fun putchar_columns :: "nat \<Rightarrow> u32 \<Rightarrow> u32 \<Rightarrow> u32 \<Rightarrow> u32 \<Rightarrow> u8 \<Rightarrow> u8 \<Rightarrow> 'a bochs_state_scheme \<Rightarrow> 'a bochs_state_scheme result" where
  "putchar_columns 0 x y fg bg c i s = Inr s"
| "putchar_columns (Suc n) x y fg bg c i s =
     bindr (putchar_column (unat (font_ysize s)) x y fg bg c i 0 s) (putchar_columns n x y fg bg c (i + 1))"

definition bochs_vbe_putchar :: "u32 \<Rightarrow> u32 \<Rightarrow> u32 \<Rightarrow> u32 \<Rightarrow> u8 \<Rightarrow> 'a bochs_state_scheme \<Rightarrow> 'a bochs_state_scheme result" where
  "bochs_vbe_putchar x y fg bg c s = putchar_columns (unat (font_xsize s)) x y fg bg c 0 s"

definition bochs_vbe_width :: "'a bochs_state_scheme \<Rightarrow> u32" where
  "bochs_vbe_width s = ucast (b_w s)"

definition bochs_vbe_height :: "'a bochs_state_scheme \<Rightarrow> u32" where
  "bochs_vbe_height s = ucast (b_h s)"

fun rect_column :: "nat \<Rightarrow> u32 \<Rightarrow> u32 \<Rightarrow> u32 \<Rightarrow> 'a bochs_state_scheme \<Rightarrow> 'a bochs_state_scheme result" where
  "rect_column 0 x y c s = Inr s"
| "rect_column (Suc n) x y c s = bindr (bochs_vbe_putpixel_32 x y c s) (rect_column n x (y + 1) c)"

fun rect_columns :: "nat \<Rightarrow> nat \<Rightarrow> u32 \<Rightarrow> u32 \<Rightarrow> u32 \<Rightarrow> 'a bochs_state_scheme \<Rightarrow> 'a bochs_state_scheme result" where
  "rect_columns 0 m x y c s = Inr s"
| "rect_columns (Suc n) m x y c s = bindr (rect_column m x y c s) (rect_columns n m (x + 1) y c)"

definition bochs_vbe_rect :: "u32 \<Rightarrow> u32 \<Rightarrow> u32 \<Rightarrow> u32 \<Rightarrow> u32 \<Rightarrow> 'a bochs_state_scheme \<Rightarrow> 'a bochs_state_scheme result" where
  "bochs_vbe_rect x0 y0 x1 y1 c s =
     (let (y0, y1) = (if y1 < y0 then (y1, y0) else (y0, y1));
          (x0, x1) = (if x1 < x0 then (x1, x0) else (x0, x1))
      in rect_columns (unat x1 - unat x0) (unat y1 - unat y0) x0 y0 c s)"

text \<open>The loop runs while \<open>_y <= height\<close>: one row more than the height, and for ever for the largest height.\<close>

fun draw_rows :: "nat \<Rightarrow> addr \<Rightarrow> u32 \<Rightarrow> u32 \<Rightarrow> u32 \<Rightarrow> u32 \<Rightarrow> u32 \<Rightarrow> 'a bochs_state_scheme \<Rightarrow> 'a bochs_state_scheme result" where
  "draw_rows 0 d width height x y row s = Inl Diverge"
| "draw_rows (Suc n) d width height x y row s =
     (if row \<le> height then
        bindr (array_get (bochs_vbe_fb_double s) (unat (bochs_vbe_fb_current s))) (\<lambda>p.
          draw_rows n d width height x (y + 1) (row + 1)
            (s\<lparr>bytes := memcpy (bytes s) (d + 4 * (row * width)) (p + 4 * (y * ucast (b_w s) + x)) (width * 4)\<rparr>))
      else Inr s)"

definition bochs_vbe_draw_data :: "addr \<Rightarrow> u32 \<Rightarrow> u32 \<Rightarrow> u32 \<Rightarrow> u32 \<Rightarrow> 'a bochs_state_scheme \<Rightarrow> 'a bochs_state_scheme result" where
  "bochs_vbe_draw_data d width height x y s = draw_rows addr_space d width height x y 0 s"

definition bochs_vbe_flip :: "'a bochs_state_scheme \<Rightarrow> 'a bochs_state_scheme" where
  "bochs_vbe_flip s =
     (if 0 < update_x1 s then
        let s = bochs_vbe_write VBE_DISPI_INDEX_Y_OFFSET (b_h s * ucast (bochs_vbe_fb_current s)) s
        in s\<lparr>bochs_vbe_fb_current := (if bochs_vbe_fb_current s = 0 then 1 else 0), update_x0 := 0xFFFFFFFF, update_y0 := 0xFFFFFFFF,
             update_x1 := 0, update_y1 := 0\<rparr>
      else s)"

fun map_frame_buffer :: "nat \<Rightarrow> u32 \<Rightarrow> u32 \<Rightarrow> u32 \<Rightarrow> 'a bochs_state_scheme \<Rightarrow> 'a bochs_state_scheme result" where
  "map_frame_buffer 0 aux p i s = Inr s"
| "map_frame_buffer (Suc n) aux p i s =
     bindr (page_map ((aux AND 0xFFFFFFF0) + i) (p + i) s) (map_frame_buffer n aux p (i + 0x1000))"

text \<open>\<open>cfg\<close> is what the PCI bus answers. The loop maps 1000 (hexadecimal) pages.\<close>

definition gfx_bochs :: "pci_bus \<Rightarrow> 'a bochs_state_scheme \<Rightarrow> (u8 \<times> 'a bochs_state_scheme) result" where
  "gfx_bochs cfg s =
     (let (r, ports) = pci_find cfg 0x1234 0x1111;
          s = s\<lparr>gfx_ports := gfx_ports s @ ports\<rparr>;
          (r, s) = (case r of Some slot \<Rightarrow> (Some slot, s)
            | None \<Rightarrow> let (r, ports) = pci_find cfg 0x80EE 0xBEEF in (r, s\<lparr>gfx_ports := gfx_ports s @ ports\<rparr>))
      in case r of None \<Rightarrow> Inr (0, s)
         | Some (b, d, f) \<Rightarrow>
             let (aux, ports) = pci_read cfg (ucast b) (ucast d) (ucast f) PCI_BAR0;
                 s = s\<lparr>bochs_slot := (b, d, f), font_xsize := 8, font_ysize := 8, gfx_ports := gfx_ports s @ ports,
                   bochs_vbe_fb := 0xD0000000\<rparr>
             in bindr (map_frame_buffer 0x1000 aux (bochs_vbe_fb s) 0 s) (\<lambda>s.
                  let s = s\<lparr>bochs_vbe_fb_current := 0, bochs_vbe_fb_double := [bochs_vbe_fb s, bochs_vbe_fb s], update_x0 := 0xFFFFFFFF,
                        update_y0 := 0xFFFFFFFF, update_x1 := 0, update_y1 := 0, put_pixel_fn := Bochs_vbe, putchar_fn := Bochs_vbe,
                        width_fn := Bochs_vbe, height_fn := Bochs_vbe, rect_fn := Bochs_vbe, flip_fn := Bochs_vbe, draw_data_fn := Bochs_vbe\<rparr>
                  in bindr (bochs_vbe_display 640 480 32 s) (\<lambda>s. Inr (1, s))))"

section \<open>The calls through the pointers\<close>

definition gfx_is_ready :: "'a bochs_state_scheme \<Rightarrow> u8" where
  "gfx_is_ready s = gfx_loaded s"

text \<open>The dummies of gfx.c for pixels, characters, rectangles and the flip do nothing.\<close>

definition gfx_put_pixel :: "u32 \<Rightarrow> u32 \<Rightarrow> u32 \<Rightarrow> 'a bochs_state_scheme \<Rightarrow> 'a bochs_state_scheme result" where
  "gfx_put_pixel x y c s = (case put_pixel_fn s of Dummy_gfx \<Rightarrow> Inr s | Bochs_vbe \<Rightarrow> bochs_vbe_putpixel_32 x y c s)"

definition gfx_putchar :: "u32 \<Rightarrow> u32 \<Rightarrow> u32 \<Rightarrow> u32 \<Rightarrow> u8 \<Rightarrow> 'a bochs_state_scheme \<Rightarrow> 'a bochs_state_scheme result" where
  "gfx_putchar x y fg bg c s = (case putchar_fn s of Dummy_gfx \<Rightarrow> Inr s | Bochs_vbe \<Rightarrow> bochs_vbe_putchar x y fg bg c s)"

definition gfx_rect :: "u32 \<Rightarrow> u32 \<Rightarrow> u32 \<Rightarrow> u32 \<Rightarrow> u32 \<Rightarrow> 'a bochs_state_scheme \<Rightarrow> 'a bochs_state_scheme result" where
  "gfx_rect x0 y0 x1 y1 c s = (case rect_fn s of Dummy_gfx \<Rightarrow> Inr s | Bochs_vbe \<Rightarrow> bochs_vbe_rect x0 y0 x1 y1 c s)"

definition gfx_line :: "u32 \<Rightarrow> u32 \<Rightarrow> u32 \<Rightarrow> u32 \<Rightarrow> u32 \<Rightarrow> 'a bochs_state_scheme \<Rightarrow> 'a bochs_state_scheme" where
  "gfx_line x0 y0 x1 y1 c s = s"

definition gfx_width :: "'a bochs_state_scheme \<Rightarrow> u32" where
  "gfx_width s = (case width_fn s of Dummy_gfx \<Rightarrow> 640 | Bochs_vbe \<Rightarrow> bochs_vbe_width s)"

definition gfx_height :: "'a bochs_state_scheme \<Rightarrow> u32" where
  "gfx_height s = (case height_fn s of Dummy_gfx \<Rightarrow> 480 | Bochs_vbe \<Rightarrow> bochs_vbe_height s)"

definition gfx_flip :: "'a bochs_state_scheme \<Rightarrow> 'a bochs_state_scheme" where
  "gfx_flip s = (case flip_fn s of Dummy_gfx \<Rightarrow> s | Bochs_vbe \<Rightarrow> bochs_vbe_flip s)"

text \<open>The generic drawing of data: \<open>alfa\<close> leaves out the pixels whose high byte is zero.\<close>

fun data_row :: "nat \<Rightarrow> bool \<Rightarrow> addr \<Rightarrow> u32 \<Rightarrow> u32 \<Rightarrow> u32 \<Rightarrow> u32 \<Rightarrow> u32 \<Rightarrow> 'a bochs_state_scheme \<Rightarrow> 'a bochs_state_scheme result" where
  "data_row 0 alfa d width x y j i s = Inr s"
| "data_row (Suc n) alfa d width x y j i s =
     (let c = load32 (bytes s) (d + 4 * (j * width + i))
      in bindr (if alfa \<and> c AND 0xFF000000 = 0 then Inr s else gfx_put_pixel (x + i) (y + j) c s)
           (data_row n alfa d width x y j (i + 1)))"

fun data_rows :: "nat \<Rightarrow> bool \<Rightarrow> addr \<Rightarrow> u32 \<Rightarrow> u32 \<Rightarrow> u32 \<Rightarrow> u32 \<Rightarrow> 'a bochs_state_scheme \<Rightarrow> 'a bochs_state_scheme result" where
  "data_rows 0 alfa d width x y j s = Inr s"
| "data_rows (Suc n) alfa d width x y j s =
     bindr (data_row (unat width) alfa d width x y j 0 s) (data_rows n alfa d width x y (j + 1))"

definition gfx_draw_data :: "addr \<Rightarrow> u32 \<Rightarrow> u32 \<Rightarrow> u32 \<Rightarrow> u32 \<Rightarrow> 'a bochs_state_scheme \<Rightarrow> 'a bochs_state_scheme result" where
  "gfx_draw_data d width height x y s =
     (case draw_data_fn s of Dummy_gfx \<Rightarrow> data_rows (unat height) False d width x y 0 s
      | Bochs_vbe \<Rightarrow> bochs_vbe_draw_data d width height x y s)"

definition gfx_draw_data_with_alfa :: "addr \<Rightarrow> u32 \<Rightarrow> u32 \<Rightarrow> u32 \<Rightarrow> u32 \<Rightarrow> 'a bochs_state_scheme \<Rightarrow> 'a bochs_state_scheme result" where
  "gfx_draw_data_with_alfa d width height x y s = data_rows (unat height) True d width x y 0 s"

definition gfx :: "'a bochs_state_scheme \<Rightarrow> 'a bochs_state_scheme" where
  "gfx s = s\<lparr>put_pixel_fn := Dummy_gfx, putchar_fn := Dummy_gfx, rect_fn := Dummy_gfx, width_fn := Dummy_gfx,
     height_fn := Dummy_gfx, flip_fn := Dummy_gfx, draw_data_fn := Dummy_gfx, gfx_loaded := 1\<rparr>"

section \<open>Painting\<close>

text \<open>
  The screen: the page drawn to starts at \<open>p\<close> and has \<open>h\<close> lines of \<open>w\<close> pixels. \<open>painted s P c s'\<close> says
  that \<open>s'\<close> has the colour \<open>c\<close> at the pixels of \<open>P\<close>, and the rest of memory as it was.
\<close>

definition screen :: "'a bochs_state_scheme \<Rightarrow> addr \<Rightarrow> nat \<Rightarrow> nat \<Rightarrow> bool" where
  "screen s p w h \<longleftrightarrow> array_get (bochs_vbe_fb_double s) (unat (bochs_vbe_fb_current s)) = Inr p \<and>
     unat (b_w s) = w \<and> unat (b_h s) = h \<and> unat p + 4 * (w * h) < 2 ^ 32"

definition pixel_at :: "addr \<Rightarrow> nat \<Rightarrow> nat \<Rightarrow> nat \<Rightarrow> addr" where
  "pixel_at p w x y = p + of_nat (4 * (y * w + x))"

definition painted :: "'a bochs_state_scheme \<Rightarrow> addr \<Rightarrow> nat \<Rightarrow> nat \<Rightarrow> (nat \<times> nat) set \<Rightarrow> u32 \<Rightarrow> 'a bochs_state_scheme \<Rightarrow> bool" where
  "painted s p w h P c s' \<longleftrightarrow> screen s' p w h \<and>
     (\<forall>x < w. \<forall>y < h. load32 (bytes s') (pixel_at p w x y) = (if (x, y) \<in> P then c else load32 (bytes s) (pixel_at p w x y))) \<and>
     (\<forall>a. unat a < unat p \<or> unat p + 4 * (w * h) \<le> unat a \<longrightarrow> bytes s' a = bytes s a)"

lemma area_grow [simp]:
  "bytes (BOCHS_AREA_GROW x y s) = bytes s" "screen (BOCHS_AREA_GROW x y s) = screen s"
  by (simp_all add: BOCHS_AREA_GROW_def screen_def fun_eq_iff Let_def)

lemma word_slots:
  fixes a :: addr
  assumes "unat a + 3 < 2 ^ 32"
  shows "unat (a + 1) = unat a + 1" "unat (a + 2) = unat a + 2" "unat (a + 3) = unat a + 3"
  using assms by (simp_all add: unat_word_ariths)

lemma load32_store32_apart:
  assumes "unat a + 3 < 2 ^ 32" "unat b + 3 < 2 ^ 32" "unat a + 4 \<le> unat b \<or> unat b + 4 \<le> unat a"
  shows "load32 (store32 m a v) b = load32 m b"
proof -
  have "q \<notin> {a, a + 1, a + 2, a + 3}" if "q \<in> {b, b + 1, b + 2, b + 3}" for q
    using that word_slots [OF assms(1)] word_slots [OF assms(2)] assms(3) by auto
  then show ?thesis by (simp add: load32_def store32_other)
qed

lemma unat_pixel:
  assumes "unat p + 4 * (w * h) < 2 ^ 32" "x < w" "y < h"
  shows "unat (pixel_at p w x y) = unat p + 4 * (y * w + x)" "unat p + 4 * (y * w + x) + 4 \<le> unat p + 4 * (w * h)"
proof -
  have "y * w + w \<le> h * w" using assms(3) mult_le_mono1 [of "Suc y" h w] by simp
  then have l: "y * w + x + 1 \<le> w * h" using assms(2) by (simp add: mult.commute)
  then show "unat p + 4 * (y * w + x) + 4 \<le> unat p + 4 * (w * h)" by simp
  show "unat (pixel_at p w x y) = unat p + 4 * (y * w + x)"
    unfolding pixel_at_def using assms(1) l by (simp add: unat_word_ariths unat_of_nat del: of_nat_mult of_nat_add)
qed

lemma pixels_apart: "x < w \<Longrightarrow> x' < w \<Longrightarrow> y * w + x = y' * w + x' \<Longrightarrow> x = x' \<and> y = y'" for w x y :: nat
  by (metis add.commute div_mult_self1 div_less add_0 mod_less mod_mult_self1 not_less_zero)

lemma slots_apart: "j \<noteq> k \<Longrightarrow> a + 4 * j + 4 \<le> a + 4 * k \<or> a + 4 * k + 4 \<le> a + 4 * j" for a j k :: nat
  by arith

lemma putpixel_paints:
  assumes sc: "screen s p w h" and xy: "unat x < w" "unat y < h"
  shows "\<exists>s'. bochs_vbe_putpixel_32 x y c s = Inr s' \<and> painted s p w h {(unat x, unat y)} c s'"
proof -
  note g = sc [unfolded screen_def]
  have bounds: "\<not> ucast (b_w s) < x" "\<not> ucast (b_h s) < y"
    using g xy by (simp_all add: word_less_nat_alt unat_ucast_up)
  let ?a = "pixel_at p w (unat x) (unat y)"
  have w: "w = unat (b_w s)" and fb: "array_get (bochs_vbe_fb_double s) (unat (bochs_vbe_fb_current s)) = Inr p"
    and lim: "unat p + 4 * (w * h) < 2 ^ 32" using g by simp_all
  have a: "p + 4 * (y * ucast (b_w s) + x) = ?a" unfolding pixel_at_def w by simp
  let ?s = "s\<lparr>bytes := store32 (bytes s) ?a c\<rparr>"
  have e: "bochs_vbe_putpixel_32 x y c s = Inr (BOCHS_AREA_GROW x y ?s)"
    unfolding bochs_vbe_putpixel_32_def Let_def a fb bindr_simps using bounds by (simp only: simp_thms if_False)
  note ua = unat_pixel [OF lim xy]
  have "load32 (store32 (bytes s) ?a c) (pixel_at p w i j) = (if (i, j) = (unat x, unat y) then c else load32 (bytes s) (pixel_at p w i j))"
    if ij: "i < w" "j < h" for i j
  proof (cases "(i, j) = (unat x, unat y)")
    case False
    note ub = unat_pixel [OF lim ij]
    have "unat y * w + unat x \<noteq> j * w + i" using pixels_apart [OF xy(1) ij(1), of "unat y" j] False by auto
    then have "unat ?a + 4 \<le> unat (pixel_at p w i j) \<or> unat (pixel_at p w i j) + 4 \<le> unat ?a"
      unfolding ua(1) ub(1) by (rule slots_apart)
    then have "load32 (store32 (bytes s) ?a c) (pixel_at p w i j) = load32 (bytes s) (pixel_at p w i j)"
      by (intro load32_store32_apart) (use ua ub lim in linarith)+
    then show ?thesis unfolding if_not_P [OF False] .
  qed simp
  moreover have "store32 (bytes s) ?a c b = bytes s b" if "unat b < unat p \<or> unat p + 4 * (w * h) \<le> unat b" for b
  proof -
    have "unat ?a + 3 < 2 ^ 32" using ua lim by linarith
    then have "b \<notin> {?a, ?a + 1, ?a + 2, ?a + 3}" using word_slots [of ?a] ua that by auto
    then show ?thesis by (rule store32_other)
  qed
  moreover have "screen ?s p w h" using sc by (simp add: screen_def)
  ultimately have "painted s p w h {(unat x, unat y)} c (BOCHS_AREA_GROW x y ?s)" unfolding painted_def by simp
  with e show ?thesis by blast
qed

lemma painted_none: "screen s p w h \<Longrightarrow> painted s p w h {} c s"
  by (simp add: painted_def)

lemma painted_trans: "\<lbrakk>painted s p w h P c s1; painted s1 p w h Q c s2\<rbrakk> \<Longrightarrow> painted s p w h (P \<union> Q) c s2"
  by (simp add: painted_def)

lemma painted_screen: "painted s p w h P c s' \<Longrightarrow> screen s' p w h"
  by (simp add: painted_def)

lemma screen_word: "\<lbrakk>screen s p w h; n \<le> w \<or> n \<le> h\<rbrakk> \<Longrightarrow> n < 65536"
proof -
  assume "screen s p w h" "n \<le> w \<or> n \<le> h"
  moreover have "unat (b_w s) < 2 ^ LENGTH(16)" "unat (b_h s) < 2 ^ LENGTH(16)" by (rule unsigned_less)+
  ultimately show ?thesis by (auto simp: screen_def)
qed

lemma unat_coord_next: "\<lbrakk>screen s p w h; unat x < w \<or> unat x < h\<rbrakk> \<Longrightarrow> unat (x + 1) = unat x + 1" for x :: u32
  using screen_word [of s p w h "unat x"] by (intro unat_plus_1) auto

lemma rect_column_paints:
  assumes "screen s p w h" "unat x < w" "unat y + n \<le> h"
  shows "\<exists>s'. rect_column n x y c s = Inr s' \<and> painted s p w h ({unat x} \<times> {unat y ..< unat y + n}) c s'"
  using assms
proof (induction n arbitrary: y s)
  case 0
  then show ?case by (simp add: painted_none)
next
  case (Suc n)
  have y: "unat y < h" and ny: "unat (y + 1) = unat y + 1" using Suc.prems unat_coord_next [OF Suc.prems(1), of y] by auto
  obtain s1 where s1: "bochs_vbe_putpixel_32 x y c s = Inr s1" "painted s p w h {(unat x, unat y)} c s1"
    using putpixel_paints [OF Suc.prems(1,2) y] by blast
  obtain s2 where s2: "rect_column n x (y + 1) c s1 = Inr s2"
      "painted s1 p w h ({unat x} \<times> {unat (y + 1) ..< unat (y + 1) + n}) c s2"
    using Suc.IH [of s1 "y + 1"] painted_screen [OF s1(2)] Suc.prems ny by auto
  have "{(unat x, unat y)} \<union> {unat x} \<times> {unat y + 1 ..< unat y + 1 + n} = {unat x} \<times> {unat y ..< unat y + Suc n}" by auto
  then show ?case using s1(1) s2(1) painted_trans [OF s1(2) s2(2)] ny by simp
qed

lemma rect_columns_paints:
  assumes "screen s p w h" "unat x + n \<le> w" "unat y + m \<le> h"
  shows "\<exists>s'. rect_columns n m x y c s = Inr s' \<and>
    painted s p w h ({unat x ..< unat x + n} \<times> {unat y ..< unat y + m}) c s'"
  using assms
proof (induction n arbitrary: x s)
  case 0
  then show ?case by (simp add: painted_none)
next
  case (Suc n)
  have x: "unat x < w" and nx: "unat (x + 1) = unat x + 1" using Suc.prems unat_coord_next [OF Suc.prems(1), of x] by auto
  obtain s1 where s1: "rect_column m x y c s = Inr s1" "painted s p w h ({unat x} \<times> {unat y ..< unat y + m}) c s1"
    using rect_column_paints [OF Suc.prems(1) x Suc.prems(3)] by blast
  obtain s2 where s2: "rect_columns n m (x + 1) y c s1 = Inr s2"
      "painted s1 p w h ({unat (x + 1) ..< unat (x + 1) + n} \<times> {unat y ..< unat y + m}) c s2"
    using Suc.IH [of s1 "x + 1"] painted_screen [OF s1(2)] Suc.prems nx by auto
  have "{unat x} \<times> {unat y ..< unat y + m} \<union> {unat x + 1 ..< unat x + 1 + n} \<times> {unat y ..< unat y + m} =
      {unat x ..< unat x + Suc n} \<times> {unat y ..< unat y + m}" by auto
  then show ?case using s1(1) s2(1) painted_trans [OF s1(2) s2(2)] nx by simp
qed

text \<open>
  C28: a rectangle with its corners on the screen, given in either order, colours exactly its
  pixels, the left and upper borders included and the right and lower ones not; no other pixel
  and no byte outside the page changes.
\<close>

theorem rect_paints_exactly:
  assumes "screen s p w h" "unat x0 \<le> w" "unat x1 \<le> w" "unat y0 \<le> h" "unat y1 \<le> h"
  shows "\<exists>s'. bochs_vbe_rect x0 y0 x1 y1 c s = Inr s' \<and>
    painted s p w h ({min (unat x0) (unat x1) ..< max (unat x0) (unat x1)} \<times> {min (unat y0) (unat y1) ..< max (unat y0) (unat y1)}) c s'"
proof -
  have o: "min (unat a) (unat b) = unat (if b < a then b else a) \<and>
      max (unat a) (unat b) = unat (if b < a then b else a) + (unat (if b < a then a else b) - unat (if b < a then b else a))" for a b :: u32
    by (auto simp: word_less_nat_alt)
  have "unat (if b < a then b else a) + (unat (if b < a then a else b) - unat (if b < a then b else a)) \<le> k"
    if "unat a \<le> k" "unat b \<le> k" for a b :: u32 and k using that by (auto simp: word_less_nat_alt)
  from rect_columns_paints [OF assms(1) this [OF assms(2,3)] this [OF assms(4,5)], of c] show ?thesis
    using o [of x0 x1] o [of y0 y1] by (simp add: bochs_vbe_rect_def Let_def split: if_splits)
qed

text \<open>A screen of four lines of four pixels, black.\<close>

definition small_screen :: bochs_state where
  "small_screen = fs_state.extend (boot_machine\<lparr>bytes := \<lambda>_. 0\<rparr>)
     \<lparr>bochs_slot = (0, 2, 0), bochs_vbe_fb = 0xD0000000, bochs_vbe_fb_double = [0xD0000000, 0xD0000040], bochs_vbe_fb_current = 0,
      b_w = 4, b_h = 4, b_d = 32, scanline = 16, pixel_size = 4, font_xsize = 8, font_ysize = 8, update_x0 = 0xFFFFFFFF, update_x1 = 0,
      update_y0 = 0xFFFFFFFF, update_y1 = 0, gfx_ports = [], gfx_loaded = 1, put_pixel_fn = Bochs_vbe, putchar_fn = Bochs_vbe,
      rect_fn = Bochs_vbe, width_fn = Bochs_vbe, height_fn = Bochs_vbe, flip_fn = Bochs_vbe, draw_data_fn = Bochs_vbe\<rparr>"

theorem rect_paints_exactly_witness:
  "\<exists>s'. bochs_vbe_rect 3 2 1 1 0xFF small_screen = Inr s' \<and>
    load32 (bytes s') 0xD0000014 = 0xFF \<and> load32 (bytes s') 0xD0000018 = 0xFF \<and> load32 (bytes s') 0xD000001C = 0"
proof -
  note d = small_screen_def fs_state.defs
  have s: "screen small_screen 0xD0000000 4 4" by (simp add: screen_def d)
  have m: "min (unat (3 :: u32)) (unat (1 :: u32)) = 1" "max (unat (3 :: u32)) (unat (1 :: u32)) = 3"
    "min (unat (2 :: u32)) (unat (1 :: u32)) = 1" "max (unat (2 :: u32)) (unat (1 :: u32)) = 2" by simp_all
  have a: "pixel_at 0xD0000000 4 1 1 = 0xD0000014" "pixel_at 0xD0000000 4 2 1 = 0xD0000018" "pixel_at 0xD0000000 4 3 1 = 0xD000001C"
    by (simp_all add: pixel_at_def)
  have z: "load32 (bytes small_screen) 0xD000001C = 0" by (simp add: d load32_def)
  have le: "unat (3 :: u32) \<le> 4" "unat (1 :: u32) \<le> 4" "unat (2 :: u32) \<le> 4" "unat (1 :: u32) \<le> 4" by simp_all
  obtain s' where s': "bochs_vbe_rect 3 2 1 1 0xFF small_screen = Inr s'"
      "painted small_screen 0xD0000000 4 4 ({1 ..< 3} \<times> {1 ..< 2}) 0xFF s'"
    using rect_paints_exactly [OF s le, of "0xFF"] unfolding m by (elim exE conjE) rule
  have px: "load32 (bytes s') (pixel_at 0xD0000000 4 x y) = (if (x, y) \<in> {1 ..< 3} \<times> {1 ..< 2} then 0xFF
      else load32 (bytes small_screen) (pixel_at 0xD0000000 4 x y))" if "x < 4" "y < 4" for x y
    using s'(2) that by (simp add: painted_def)
  from px [of 1 1] px [of 2 1] px [of 3 1] show ?thesis using s'(1) by (simp add: a [unfolded One_nat_def] z)
qed

end
