(* ===== verification/Mouse.thy ===== *)
theory Mouse
  imports Threads
begin

text \<open>
  drivers/mouse.c: the mouse driver.

  The answers of the two ports of the controller, 64 and 60, are lists: each read takes one, and a
  loop that waits for an answer that does not come never ends. A packet is an object of a typed
  heap. Messages of \<open>debug_printf\<close> are not part of the state.
\<close>

section \<open>The code\<close>

record mouse_packet =
  mp_flags :: u8
  mp_dx :: u8
  mp_dy :: u8
  mp_dz :: u8

record mouse_state = task_state +
  mouse_queue :: queue
  mouse_wait :: queue
  m_task :: addr
  mouse_id :: u32
  pkt :: mouse_packet
  packets :: "addr \<Rightarrow> mouse_packet option"
  in64 :: "u8 list"
  in60 :: "u8 list"
  mouse_ocw1 :: u16

definition inport64 :: "'a mouse_state_scheme \<Rightarrow> (u8 \<times> 'a mouse_state_scheme) result" where
  "inport64 s = (case in64 s of [] \<Rightarrow> Inl Diverge | x # xs \<Rightarrow> Inr (x, s\<lparr>in64 := xs\<rparr>))"

definition inport60 :: "'a mouse_state_scheme \<Rightarrow> (u8 \<times> 'a mouse_state_scheme) result" where
  "inport60 s = (case in60 s of [] \<Rightarrow> Inl Diverge | x # xs \<Rightarrow> Inr (x, s\<lparr>in60 := xs\<rparr>))"

definition out_port :: "u32 \<Rightarrow> u8 \<Rightarrow> 'a mouse_state_scheme \<Rightarrow> 'a mouse_state_scheme" where
  "out_port p v s = s\<lparr>io_log := io_log s @ outportb p v\<rparr>"

text \<open>\<open>_mouse_wait\<close>: at most 100000 times; \<open>mask\<close> and \<open>want\<close> are 1, 1 for type 0 and 2, 0 for the others.\<close>

fun wait_loop :: "nat \<Rightarrow> u8 \<Rightarrow> u8 \<Rightarrow> 'a mouse_state_scheme \<Rightarrow> 'a mouse_state_scheme result" where
  "wait_loop 0 msk want s = Inr s"
| "wait_loop (Suc n) msk want s =
     bindr (inport64 s) (\<lambda>(x, s). if x AND msk = want then Inr s else wait_loop n msk want s)"

definition mouse_wait_for :: "u8 \<Rightarrow> 'a mouse_state_scheme \<Rightarrow> 'a mouse_state_scheme result" where
  "mouse_wait_for ty s = (if ty = 0 then wait_loop 100000 1 1 s else wait_loop 100000 2 0 s)"

definition mouse_write :: "u8 \<Rightarrow> 'a mouse_state_scheme \<Rightarrow> 'a mouse_state_scheme result" where
  "mouse_write v s =
     bindr (mouse_wait_for 1 s) (\<lambda>s. bindr (mouse_wait_for 1 (out_port 0x64 0xD4 s)) (\<lambda>s. Inr (out_port 0x60 v s)))"

definition mouse_read :: "'a mouse_state_scheme \<Rightarrow> (u8 \<times> 'a mouse_state_scheme) result" where
  "mouse_read s = bindr (mouse_wait_for 0 s) inport60"

definition mouse_start :: "'a mouse_state_scheme \<Rightarrow> 'a mouse_state_scheme result" where
  "mouse_start s =
     bindr (mouse_wait_for 1 s) (\<lambda>s.
     bindr (mouse_wait_for 1 (out_port 0x64 0xA8 s)) (\<lambda>s.
     bindr (mouse_wait_for 0 (out_port 0x64 0x20 s)) (\<lambda>s.
     bindr (inport60 s) (\<lambda>(x, s).
     bindr (mouse_wait_for 1 s) (\<lambda>s.
     bindr (mouse_wait_for 1 (out_port 0x64 0x60 s)) (\<lambda>s.
     bindr (mouse_write 0xF6 (out_port 0x60 (x OR 2) s)) (\<lambda>s.
     bindr (mouse_read s) (\<lambda>(_, s).
     bindr (mouse_write 0xF4 s) (\<lambda>s.
     bindr (mouse_read s) (\<lambda>(_, s). Inr s))))))))))"

definition MOUSE :: u32 where "MOUSE = 8"

text \<open>\<open>t->listen && MOUSE\<close> is true for every task that listens to anything.\<close>

definition mouse_listen :: "(addr, 'a mouse_state_scheme) task_iterator" where
  "mouse_listen p packet s =
     bindr (deref (task_mem s) p) (\<lambda>t.
       if t_listen t \<noteq> 0 then bindr (message_to (t_pid t) packet 4 s) (\<lambda>s. Inr (0, packet, s))
       else Inr (0, packet, s))"

fun mouse_drain :: "nat \<Rightarrow> 'a mouse_state_scheme \<Rightarrow> 'a mouse_state_scheme result" where
  "mouse_drain 0 s = Inl Diverge"
| "mouse_drain (Suc n) s =
     bindr (queue_remove (mouse_queue s)) (\<lambda>(p, q).
       let s = s\<lparr>mouse_queue := q\<rparr>
       in if p = NULL then Inr s
          else bindr (task_foreach (Some mouse_listen) p s) (\<lambda>(_, _, s). mouse_drain n s))"

definition mouse_task :: "addr \<Rightarrow> 'a mouse_state_scheme \<Rightarrow> 'a mouse_state_scheme result" where
  "mouse_task esp s =
     bindr (mouse_drain addr_space s) (\<lambda>s.
     bindr (sleep_on_enter (mouse_wait s) None None esp s) (\<lambda>(q, _, s). Inr (s\<lparr>mouse_wait := q\<rparr>)))"

text \<open>
  One byte in the handler: the new cycle, or \<open>None\<close> when the handler returns at once. The switch has
  no case above 2: after a packet with an overflow flag the cycle stays at 2.
\<close>

definition mouse_byte :: "u8 \<Rightarrow> nat \<Rightarrow> 'a mouse_state_scheme \<Rightarrow> (nat option \<times> 'a mouse_state_scheme) result" where
  "mouse_byte b cicle s =
     (if cicle = 0 then
        let s = s\<lparr>pkt := (pkt s)\<lparr>mp_flags := b\<rparr>\<rparr>
        in Inr (if b AND 0x08 = 0 then None else Some 1, s)
      else if cicle = 1 then Inr (Some 2, s\<lparr>pkt := (pkt s)\<lparr>mp_dx := b\<rparr>\<rparr>)
      else if cicle = 2 then
        let s = s\<lparr>pkt := (pkt s)\<lparr>mp_dy := b\<rparr>\<rparr>
        in if mp_flags (pkt s) AND 0x80 \<noteq> 0 \<or> mp_flags (pkt s) AND 0x40 \<noteq> 0 then Inr (Some 2, s)
           else bindr (malloc 8 s) (\<lambda>(p, s).
             let s = s\<lparr>packets := (packets s)(p \<mapsto> pkt s)\<rparr>
             in bindr (queue_add (mouse_queue s) p) (\<lambda>q. Inr (Some 0, s\<lparr>mouse_queue := q\<rparr>)))
      else Inr (Some cicle, s))"

text \<open>The loop of the handler, with the status read last; \<open>False\<close> when it returned from inside.\<close>

fun mouse_loop :: "nat \<Rightarrow> u8 \<Rightarrow> nat \<Rightarrow> 'a mouse_state_scheme \<Rightarrow> (bool \<times> 'a mouse_state_scheme) result" where
  "mouse_loop 0 status cicle s = Inl Diverge"
| "mouse_loop (Suc n) status cicle s =
     (if status AND 0x01 = 0 then Inr (True, s)
      else bindr (inport60 s) (\<lambda>(b, s).
        bindr (if status AND 0x20 \<noteq> 0 then mouse_byte b cicle s else Inr (Some cicle, s)) (\<lambda>(c, s).
          case c of None \<Rightarrow> Inr (False, s)
          | Some cicle \<Rightarrow> bindr (inport64 s) (\<lambda>(status, s). mouse_loop n status cicle s))))"

text \<open>Every turn takes an answer of port 60.\<close>

definition mouse_handler :: "'a mouse_state_scheme \<Rightarrow> 'a mouse_state_scheme result" where
  "mouse_handler s =
     bindr (inport64 s) (\<lambda>(status, s).
     bindr (mouse_loop (Suc (Suc (length (in60 s)))) status 0 s) (\<lambda>(fin, s).
       if fin then
         bindr (wake_up (mouse_wait s) s) (\<lambda>(q, s). Inr (s\<lparr>mouse_wait := q, io_log := io_log s @ pic_acknowledge 12\<rparr>))
       else Inr s))"

text \<open>
  \<open>mouse\<close>: \<open>raw\<close>, \<open>cs\<close>, \<open>ip\<close> and \<open>name\<close> as for \<open>thread_create\<close>, \<open>c1\<close> and \<open>c2\<close> the memory of the queues, \<open>junk\<close> what
  the memory of the packet holds. The code does not test that the thread was created. Setting
  the interrupt gate is assembly.
\<close>

definition mouse :: "task \<Rightarrow> u32 list \<Rightarrow> u32 \<Rightarrow> addr \<Rightarrow> u32 list \<Rightarrow> u32 list \<Rightarrow> mouse_packet \<Rightarrow> 'a mouse_state_scheme \<Rightarrow>
    'a mouse_state_scheme result" where
  "mouse raw cs ip name c1 c2 junk s =
     bindr (malloc 8 s) (\<lambda>(_, s).
     bindr (malloc (4 * 32) (s\<lparr>pkt := junk\<rparr>)) (\<lambda>(_, s).
     bindr (malloc (4 * 8) (s\<lparr>mouse_queue := queue_init c1 32\<rparr>)) (\<lambda>(_, s).
     bindr (mouse_start (s\<lparr>mouse_wait := queue_init c2 8\<rparr>)) (\<lambda>s.
     bindr (mouse_write 0xF2 s) (\<lambda>s.
     bindr (mouse_read s) (\<lambda>(_, s).
     bindr (mouse_read s) (\<lambda>(d, s).
     bindr (thread_create raw cs ip 1 100 name (s\<lparr>mouse_id := ucast d\<rparr>)) (\<lambda>(t, s).
     bindr (update_task t (\<lambda>tsk. tsk\<lparr>t_pid := MOUSE\<rparr>) (s\<lparr>m_task := t\<rparr>)) (\<lambda>s.
     bindr (task_add t s) (\<lambda>s.
       let (o1, ports) = irq_enable 12 (mouse_ocw1 s)
       in Inr (s\<lparr>mouse_ocw1 := o1, io_log := io_log s @ ports\<rparr>)))))))))))"

section \<open>Receiving packets\<close>

text \<open>
  Three bytes of a packet: the first with bit 3 set and without the overflow flags. While there
  is a byte of the mouse the status is 21, afterwards 0.
\<close>

definition good_packet :: "u8 \<times> u8 \<times> u8 \<Rightarrow> bool" where
  "good_packet k \<longleftrightarrow> (case k of (f, dx, dy) \<Rightarrow> f AND 0x08 \<noteq> 0 \<and> f AND 0x80 = 0 \<and> f AND 0x40 = 0)"

definition packet_bytes :: "(u8 \<times> u8 \<times> u8) list \<Rightarrow> u8 list" where
  "packet_bytes ks = concat (map (\<lambda>(f, dx, dy). [f, dx, dy]) ks)"

definition packet_of :: "u8 \<Rightarrow> u8 \<times> u8 \<times> u8 \<Rightarrow> mouse_packet" where
  "packet_of dz k = (case k of (f, dx, dy) \<Rightarrow> \<lparr>mp_flags = f, mp_dx = dx, mp_dy = dy, mp_dz = dz\<rparr>)"

text \<open>What the bytes of a packet leave: a new packet at the end of the queue, nothing else changed.\<close>

definition mouse_frame :: "'a mouse_state_scheme \<Rightarrow> 'a mouse_state_scheme \<Rightarrow> bool" where
  "mouse_frame s s' \<longleftrightarrow> mm_wf s' \<and> queue_wf (mouse_queue s') \<and> qsize (mouse_queue s') = qsize (mouse_queue s) \<and>
     heap s' = heap s \<and> mp_dz (pkt s') = mp_dz (pkt s) \<and> mouse_wait s' = mouse_wait s \<and> task_mem s' = task_mem s \<and>
     io_log s' = io_log s \<and> (\<forall>p. unat p < unat (malloc_top s) \<longrightarrow> packets s' p = packets s p)"

lemma mouse_malloced [simp]:
  "packets (malloced n s lb) = packets s" "mouse_queue (malloced n s lb) = mouse_queue s" "pkt (malloced n s lb) = pkt s"
  "mouse_wait (malloced n s lb) = mouse_wait s" "in60 (malloced n s lb) = in60 s" "in64 (malloced n s lb) = in64 s"
  "io_log (malloced n s lb) = io_log s" "task_mem (malloced n s lb) = task_mem s"
  by (simp_all add: malloced_def)

lemma packet_queued:
  assumes wf: "mm_wf s" "queue_wf (mouse_queue s)" and q: "length (queue_contents (mouse_queue s)) < unat (qsize (mouse_queue s))"
    and room: "malloc_room s 28" and f: "mp_flags (pkt s) AND 0x80 = 0" "mp_flags (pkt s) AND 0x40 = 0"
  shows "\<exists>p s'. mouse_byte b 2 s = Inr (Some 0, s') \<and> mouse_frame s s' \<and>
    queue_contents (mouse_queue s') = queue_contents (mouse_queue s) @ [p] \<and> packets s' p = Some ((pkt s)\<lparr>mp_dy := b\<rparr>) \<and>
    unat (malloc_top s') = unat (malloc_top s) + 28 \<and> unat p < unat (malloc_top s') \<and> in60 s' = in60 s \<and> in64 s' = in64 s"
proof -
  let ?s = "s\<lparr>pkt := (pkt s)\<lparr>mp_dy := b\<rparr>\<rparr>"
  have w: "mm_wf ?s" "malloc_room ?s (20 + 8)" using wf(1) room by (simp_all add: mm_wf_def malloc_room_def)
  have "0 < (8 :: nat)" by simp
  from malloc_bytes [OF w(1) this w(2)] obtain p s1 lb where n: "malloc (of_nat 8) ?s = Inr (p, s1)" "mm_wf s1" "p \<noteq> NULL"
      "bytes s1 = bytes ?s" "unat p = unat (malloc_top ?s) + 20" "fits p 8" "unat (malloc_top s1) = unat p + 8" "heap s1 = heap ?s"
      "s1 = malloced (of_nat 8) ?s lb"
    by (elim exE conjE) rule
  then have m: "malloc 8 ?s = Inr (p, s1)" "mm_wf s1" "unat p = unat (malloc_top s) + 20" "unat (malloc_top s1) = unat p + 8"
      "heap s1 = heap s" by simp_all
  note lb = n(9)
  obtain q' where q': "queue_add (mouse_queue s) p = Inr q'" "queue_wf q'" "queue_contents q' = queue_contents (mouse_queue s) @ [p]"
      "qsize q' = qsize (mouse_queue s)"
    using queue_add_room [OF wf(2), of p] q by (auto simp: length_queue_contents)
  let ?s' = "s1\<lparr>packets := (packets s)(p \<mapsto> (pkt s)\<lparr>mp_dy := b\<rparr>), mouse_queue := q'\<rparr>"
  have "mouse_byte b 2 s = Inr (Some 0, ?s')"
    using f m(1) q'(1) by (simp add: mouse_byte_def Let_def lb)
  moreover have "mm_wf ?s'" using m(2) by (simp add: mm_wf_def)
  moreover have "\<forall>a. unat a < unat (malloc_top s) \<longrightarrow> a \<noteq> p" using m(3) by auto
  then have "mouse_frame s ?s'" using \<open>mm_wf ?s'\<close> q' m(5) by (simp add: mouse_frame_def) (simp add: lb)
  moreover have "in60 ?s' = in60 s" "in64 ?s' = in64 s" by (simp_all add: lb)
  ultimately show ?thesis using q' m by (intro exI [of _ p] exI [of _ ?s'] conjI) simp_all
qed

lemma packets_received:
  assumes "mm_wf s" "queue_wf (mouse_queue s)" "list_all good_packet ks"
    and "length (queue_contents (mouse_queue s)) + length ks \<le> unat (qsize (mouse_queue s))"
    and "malloc_room s (28 * length ks)" "in60 s = packet_bytes ks" "st # in64 s = replicate (3 * length ks) 0x21 @ [0]"
    and "3 * length ks < n"
  shows "\<exists>ps s'. mouse_loop n st 0 s = Inr (True, s') \<and> mouse_frame s s' \<and>
    queue_contents (mouse_queue s') = queue_contents (mouse_queue s) @ ps \<and>
    map (packets s') ps = map (\<lambda>k. Some (packet_of (mp_dz (pkt s)) k)) ks"
  using assms
proof (induction ks arbitrary: s st n)
  case Nil
  then obtain j where "n = Suc j" by (cases n) auto
  then show ?case using Nil by (intro exI [of _ "[]"] exI [of _ s]) (simp add: mouse_frame_def)
next
  case (Cons k ks)
  obtain f dx dy where k: "k = (f, dx, dy)" by (cases k) auto
  have g: "f AND 0x08 \<noteq> 0" "f AND 0x80 = 0" "f AND 0x40 = 0" using Cons.prems(3) by (simp_all add: k good_packet_def)
  have r: "replicate (3 * length (k # ks)) (0x21 :: u8) = 0x21 # 0x21 # 0x21 # replicate (3 * length ks) 0x21"
    by (simp add: numeral_3_eq_3)
  obtain st' xs where xs: "replicate (3 * length ks) (0x21 :: u8) @ [0] = st' # xs"
    by (cases "replicate (3 * length ks) (0x21 :: u8) @ [0]") auto
  have st: "st = 0x21" "in64 s = 0x21 # 0x21 # st' # xs" using Cons.prems(7) unfolding r by (simp_all add: xs)
  have j: "n = Suc (Suc (Suc (n - 3)))" "3 * length ks < n - 3" using Cons.prems(8) by auto
  let ?s = "s\<lparr>in64 := st' # xs, in60 := packet_bytes ks, pkt := (pkt s)\<lparr>mp_flags := f, mp_dx := dx\<rparr>\<rparr>"
  have w: "mm_wf ?s" "queue_wf (mouse_queue ?s)" "length (queue_contents (mouse_queue ?s)) < unat (qsize (mouse_queue ?s))"
      "malloc_room ?s 28" "mp_flags (pkt ?s) AND 0x80 = 0" "mp_flags (pkt ?s) AND 0x40 = 0"
    using Cons.prems(1,2,4,5) g by (simp_all add: mm_wf_def malloc_room_def)
  obtain p s1 where s1: "mouse_byte dy 2 ?s = Inr (Some 0, s1)" "mouse_frame ?s s1"
      "queue_contents (mouse_queue s1) = queue_contents (mouse_queue s) @ [p]" "packets s1 p = Some (packet_of (mp_dz (pkt s)) k)"
      "unat (malloc_top s1) = unat (malloc_top s) + 28" "unat p < unat (malloc_top s1)" "in60 s1 = packet_bytes ks" "in64 s1 = st' # xs"
    using packet_queued [OF w, of dy] by (auto simp: packet_of_def k)
  let ?s2 = "s1\<lparr>in64 := xs\<rparr>"
  have l: "mouse_loop n st 0 s = mouse_loop (n - 3) st' 0 ?s2"
    using Cons.prems(6) st g s1(1,8) by (subst j(1)) (simp add: packet_bytes_def k inport60_def inport64_def mouse_byte_def Let_def)
  have f: "mouse_frame s ?s2" using s1(2) by (simp add: mouse_frame_def mm_wf_def)
  have "length (queue_contents (mouse_queue ?s2)) + length ks \<le> unat (qsize (mouse_queue ?s2))" "malloc_room ?s2 (28 * length ks)"
    using Cons.prems(4,5) f s1(3,5) by (simp_all add: mouse_frame_def malloc_room_def)
  then obtain ps s' where s': "mouse_loop (n - 3) st' 0 ?s2 = Inr (True, s')" "mouse_frame ?s2 s'"
      "queue_contents (mouse_queue s') = queue_contents (mouse_queue ?s2) @ ps"
      "map (packets s') ps = map (\<lambda>k. Some (packet_of (mp_dz (pkt ?s2)) k)) ks"
    using Cons.IH [of ?s2 st' "n - 3"] f Cons.prems(3) s1(7) xs j(2) by (auto simp: mouse_frame_def)
  have "packets s' p = Some (packet_of (mp_dz (pkt s)) k)" using s'(2) s1(4,6) by (simp add: mouse_frame_def)
  moreover have "mouse_frame s s'" using f s'(2) s1(5) by (simp add: mouse_frame_def)
  moreover have "mp_dz (pkt ?s2) = mp_dz (pkt s)" using f by (simp add: mouse_frame_def)
  ultimately show ?case using l s' s1(3) by (intro exI [of _ "p # ps"] exI [of _ s']) simp
qed

text \<open>
  C27: when the controller delivers packets one after the other, the interrupt handler puts each of
  them, complete, at the end of the queue, wakes the mouse thread that waits and acknowledges the
  interrupt at both controllers.
\<close>

theorem mouse_handler_receives:
  assumes "mm_wf s" "queue_wf (mouse_queue s)" "list_all good_packet ks"
    and "length (queue_contents (mouse_queue s)) + length ks \<le> unat (qsize (mouse_queue s))"
    and "malloc_room s (28 * length ks)" "in60 s = packet_bytes ks" "in64 s = replicate (3 * length ks) 0x21 @ [0]"
    and "queue_wf (mouse_wait s)" "queue_contents (mouse_wait s) = [t]" "t \<noteq> NULL" "task_mem s t = Some tsk"
  shows "\<exists>ps s'. mouse_handler s = Inr s' \<and> queue_contents (mouse_queue s') = queue_contents (mouse_queue s) @ ps \<and>
    map (packets s') ps = map (\<lambda>k. Some (packet_of (mp_dz (pkt s)) k)) ks \<and> queue_contents (mouse_wait s') = [] \<and>
    task_mem s' = (task_mem s)(t \<mapsto> tsk\<lparr>t_status := TS_READY\<rparr>) \<and> io_log s' = io_log s @ [Outb 0xA0 0x20, Outb 0x20 0x20]"
proof -
  obtain st xs where x: "in64 s = st # xs"
    by (cases "in64 s") (use assms(7) in simp, blast)
  let ?s = "s\<lparr>in64 := xs\<rparr>"
  have w: "mm_wf ?s" "queue_wf (mouse_queue ?s)" "length (queue_contents (mouse_queue ?s)) + length ks \<le> unat (qsize (mouse_queue ?s))"
      "malloc_room ?s (28 * length ks)" "in60 ?s = packet_bytes ks" "st # in64 ?s = replicate (3 * length ks) 0x21 @ [0]"
    using assms(1,2,4-7) x by (simp_all add: mm_wf_def malloc_room_def)
  have "length (packet_bytes ks) = 3 * length ks" unfolding packet_bytes_def by (induction ks) auto
  then have n: "3 * length ks < Suc (Suc (length (in60 s)))" using assms(6) by simp
  obtain ps s1 where s1: "mouse_loop (Suc (Suc (length (in60 s)))) st 0 ?s = Inr (True, s1)" "mouse_frame ?s s1"
      "queue_contents (mouse_queue s1) = queue_contents (mouse_queue s) @ ps"
      "map (packets s1) ps = map (\<lambda>k. Some (packet_of (mp_dz (pkt s)) k)) ks"
    using packets_received [OF w(1,2) assms(3) w(3-6) n] by auto
  obtain q where q: "queue_remove (mouse_wait s) = Inr (t, q)" "queue_contents q = []"
    using queue_remove_some [OF assms(8,9)] by blast
  let ?s' = "s1\<lparr>task_mem := (task_mem s)(t \<mapsto> tsk\<lparr>t_status := TS_READY\<rparr>), mouse_wait := q,
    io_log := io_log s @ [Outb 0xA0 0x20, Outb 0x20 0x20]\<rparr>"
  have f: "mouse_wait s1 = mouse_wait s" "task_mem s1 = task_mem s" "io_log s1 = io_log s" using s1(2) by (simp_all add: mouse_frame_def)
  have "mouse_handler s = Inr ?s'"
    using x s1(1) q(1) assms(10,11) f
    by (simp add: mouse_handler_def inport64_def wake_up_def update_task_def pic_acknowledge_def outportb_def
      PIC_SLAVE_CTRL_def PIC_MASTER_CTRL_def del: mouse_loop.simps)
  then show ?thesis using s1(3,4) q(2) by (intro exI [of _ ps] exI [of _ ?s']) simp
qed

text \<open>
  A first byte without bit 3 ends the handler before the acknowledgement: nothing is written to
  the interrupt controllers and nobody is woken.
\<close>

lemma mouse_handler_unacknowledged:
  assumes "in64 s = st # xs" "st AND 1 \<noteq> 0" "st AND 0x20 \<noteq> 0" "in60 s = b # ys" "b AND 8 = 0"
  shows "mouse_handler s = Inr (s\<lparr>in64 := xs, in60 := ys, pkt := (pkt s)\<lparr>mp_flags := b\<rparr>\<rparr>)"
  using assms by (simp add: mouse_handler_def inport64_def inport60_def mouse_byte_def Let_def)

text \<open>Two packets for a machine whose mouse thread waits.\<close>

definition mouse_machine :: mouse_state where
  "mouse_machine = task_state.extend (two_tasks 0)
     \<lparr>mouse_queue = queue_init (replicate 32 0) 32, mouse_wait = \<lparr>data = 0x2000 # replicate 7 0, qsize = 8, count = 1, rear = 0, front = 0\<rparr>,
      m_task = 0x2000, mouse_id = 0, pkt = \<lparr>mp_flags = 0, mp_dx = 0, mp_dy = 0, mp_dz = 0\<rparr>, packets = Map.empty,
      in64 = [0x21, 0x21, 0x21, 0x21, 0x21, 0x21, 0], in60 = [8, 1, 2, 9, 3, 4], mouse_ocw1 = 0\<rparr>"

lemma mouse_machine_wf: "mm_wf mouse_machine"
  unfolding mm_wf_def
  by (rule exI [of _ "[0xC0000000]"])
    (simp add: mouse_machine_def task_state.defs two_tasks_def used_block_def new_block_def)

theorem mouse_handler_receives_witness:
  "\<exists>p1 p2 s'. mouse_handler mouse_machine = Inr s' \<and> queue_contents (mouse_queue s') = [p1, p2] \<and>
    packets s' p1 = Some \<lparr>mp_flags = 8, mp_dx = 1, mp_dy = 2, mp_dz = 0\<rparr> \<and>
    packets s' p2 = Some \<lparr>mp_flags = 9, mp_dx = 3, mp_dy = 4, mp_dz = 0\<rparr> \<and>
    (\<exists>tsk. task_mem s' 0x2000 = Some tsk \<and> t_status tsk = TS_READY) \<and> io_log s' = [Outb 0xA0 0x20, Outb 0x20 0x20]"
proof -
  let ?ks = "[(8, 1, 2), (9, 3, 4)] :: (u8 \<times> u8 \<times> u8) list"
  note d = mouse_machine_def task_state.defs two_tasks_def
  have q: "queue_wf (mouse_queue mouse_machine)" "queue_contents (mouse_queue mouse_machine) = []"
      "unat (qsize (mouse_queue mouse_machine)) = 32"
    by (simp_all add: d queue_init_wf)
  have w: "queue_wf (mouse_wait mouse_machine)" "queue_contents (mouse_wait mouse_machine) = [0x2000]" "(0x2000 :: addr) \<noteq> NULL"
      "task_mem mouse_machine 0x2000 = Some (example_task 1002 5 TS_BLOCKED 0)"
    by (simp_all add: d queue_wf_def queue_contents_def next_slot_def)
  have k: "list_all good_packet ?ks" by (simp add: good_packet_def)
  have i: "in60 mouse_machine = packet_bytes ?ks" "in64 mouse_machine = replicate (3 * length ?ks) 0x21 @ [0]"
    by (simp_all add: d packet_bytes_def numeral_eq_Suc)
  have l: "length (queue_contents (mouse_queue mouse_machine)) + length ?ks \<le> unat (qsize (mouse_queue mouse_machine))"
      "malloc_room mouse_machine (28 * length ?ks)"
    by (simp_all add: q malloc_room_def d)
  obtain ps s' where s': "mouse_handler mouse_machine = Inr s'" "queue_contents (mouse_queue s') = ps"
      "map (packets s') ps = map (\<lambda>k. Some (packet_of 0 k)) ?ks"
      "task_mem s' = (task_mem mouse_machine)(0x2000 \<mapsto> (example_task 1002 5 TS_BLOCKED 0)\<lparr>t_status := TS_READY\<rparr>)"
      "io_log s' = [Outb 0xA0 0x20, Outb 0x20 0x20]"
    using mouse_handler_receives [OF mouse_machine_wf q(1) k l i w] by (auto simp: q(2) d)
  obtain p1 p2 where "ps = [p1, p2]" using s'(3) by (cases ps) (auto simp: map_eq_Cons_conv)
  then show ?thesis using s' by (intro exI [of _ p1] exI [of _ p2] exI [of _ s']) (auto simp: packet_of_def)
qed

end
