(* ===== verification/Widget.thy ===== *)
theory Widget
  imports Bochs Mouse
begin

text \<open>
  include/gui/*.h, gui/widgets/widget.c, gui/util/point.c and the active window of gui/gui.c: the
  tree of widgets.

  A window, label, button, edit or file navigator is a \<open>struct widget\<close> followed by its own fields, at
  the same address. Each part has a typed heap of its own, so the cast \<open>WIDGET(p)\<close> is a lookup of \<open>p\<close>
  in \<open>widgets\<close> and \<open>EDIT(p)\<close> one in \<open>edits\<close>; a cast to a struct that is not there is the fault
  \<open>BadPointer\<close>. A callback is a value of a datatype with one constructor per function the sources
  store in the field, \<open>None\<close> for NULL. \<open>int32_t\<close> is a word of 32 bits read with \<open>sint\<close> in comparisons
  of two signed numbers; a comparison of a signed with an unsigned number is unsigned, as in C. The
  array \<open>geometry\<close> of a file navigator is never accessed and has no field here.
\<close>

section \<open>The data\<close>

datatype widget_visibility = W_VIS_HIDDEN | W_VIS_VISIBLE | W_VIS_PARENT
datatype window_type = WINDOW_NONE | WINDOW_TOPLEVEL

datatype key_down_fn = Window_key_down | Edit_keydown | Button_keydown | File_navigator_keydown
datatype key_up_fn = Window_key_up | Button_keyup
datatype mouse_move_fn = Window_mouse_move | Button_mouse_move
datatype mouse_event_fn = Window_mouse_event | Edit_mouse_event | Button_mouse_event | File_navigator_mouse_event
datatype click_fn = Button_click
datatype focus_fn = Edit_focus | File_navigator_focus
datatype loose_focus_fn = Edit_loose_focus | File_navigator_loose_focus
datatype user_fn = Key_up
datatype choose_fn = File_navigator_choose
datatype choose_user_fn = File_explorer_on_change_dir_cb

definition W_WIDGET :: u32 where "W_WIDGET = 0"
definition W_WINDOW :: u32 where "W_WINDOW = 1"
definition W_LABEL :: u32 where "W_LABEL = 2"
definition W_BUTTON :: u32 where "W_BUTTON = 3"
definition W_EDIT :: u32 where "W_EDIT = 4"
definition W_FILE_NAVIGATOR :: u32 where "W_FILE_NAVIGATOR = 5"

lemmas widget_classes = W_WIDGET_def W_WINDOW_def W_LABEL_def W_BUTTON_def W_EDIT_def W_FILE_NAVIGATOR_def

definition ON_PAINT :: u8 where "ON_PAINT = 1"
definition ON_KEYUP :: u8 where "ON_KEYUP = 2"

record widget =
  w_magic :: u32
  w_parent :: addr
  w_child :: addr
  w_id :: u32
  w_class :: u32
  w_name :: addr
  w_name_hash :: u32
  w_x :: u32
  w_y :: u32
  w_w :: u32
  w_h :: u32
  padding_top :: u32
  padding_left :: u32
  padding_right :: u32
  padding_bottom :: u32
  fgcolor :: u32
  bgcolor :: u32
  visible :: widget_visibility
  OnPaint :: addr
  OnKeyDown :: "key_down_fn option"
  OnKeyUp :: "key_up_fn option"
  OnMouseMove :: "mouse_move_fn option"
  OnMouseEvent :: "mouse_event_fn option"
  OnClick :: "click_fn option"
  OnFocus :: "focus_fn option"
  OnLooseFocus :: "loose_focus_fn option"
  OnPaint_User :: "user_fn option"
  OnKeyDown_User :: "user_fn option"
  OnKeyUp_User :: "user_fn option"
  OnMouseMove_User :: "user_fn option"
  w_focus :: addr
  w_has_focus :: u8
  w_next :: addr

record window =
  win_active :: u8
  win_focus :: addr
  win_name :: addr
  win_type :: window_type

record label =
  lbl_text :: addr
  lbl_linespace :: u8
  lbl_wordwrap :: u8

record button =
  btn_label :: addr
  btn_enabled :: u8
  btn_pressed :: u8

record edit =
  edt_text :: addr
  edt_mask :: u8
  edt_length :: u8
  edt_cursor :: u8

record file_navigator =
  fn_OnChoose :: "choose_fn option"
  fn_OnChoose_user :: "choose_user_fn option"
  fn_directory :: addr
  fn_files :: addr
  fn_count :: u32
  fn_selected :: u32

record gui_state = bochs_state +
  widgets :: "addr \<Rightarrow> widget option"
  windows :: "addr \<Rightarrow> window option"
  labels :: "addr \<Rightarrow> label option"
  buttons :: "addr \<Rightarrow> button option"
  edits :: "addr \<Rightarrow> edit option"
  navigators :: "addr \<Rightarrow> file_navigator option"
  gui_packets :: "addr \<Rightarrow> mouse_packet option"
  desktop_window :: addr
  desktop_taskbar :: addr
  taskbarH :: u32
  pointerX :: u32
  pointerY :: u32
  gui_task :: addr
  cursor_image :: addr
  iconset_image :: addr
  wl_image :: addr
  icon_w :: u32
  icon_h :: u32
  wnd :: addr
  edtPath :: addr
  buff :: addr

text \<open>What \<open>memset(p, 0, size)\<close> leaves in a widget.\<close>

definition zero_widget :: widget where
  "zero_widget = \<lparr>w_magic = 0, w_parent = NULL, w_child = NULL, w_id = 0, w_class = 0, w_name = NULL, w_name_hash = 0,
     w_x = 0, w_y = 0, w_w = 0, w_h = 0, padding_top = 0, padding_left = 0, padding_right = 0, padding_bottom = 0,
     fgcolor = 0, bgcolor = 0, visible = W_VIS_HIDDEN, OnPaint = 0, OnKeyDown = None, OnKeyUp = None, OnMouseMove = None,
     OnMouseEvent = None, OnClick = None, OnFocus = None, OnLooseFocus = None, OnPaint_User = None, OnKeyDown_User = None,
     OnKeyUp_User = None, OnMouseMove_User = None, w_focus = NULL, w_has_focus = 0, w_next = NULL\<rparr>"

section \<open>Assignments through a pointer\<close>

definition update_widget :: "addr \<Rightarrow> (widget \<Rightarrow> widget) \<Rightarrow> 'a gui_state_scheme \<Rightarrow> 'a gui_state_scheme result" where
  "update_widget p f s = bindr (deref (widgets s) p) (\<lambda>x. Inr (s\<lparr>widgets := (widgets s)(p \<mapsto> f x)\<rparr>))"

definition update_window :: "addr \<Rightarrow> (window \<Rightarrow> window) \<Rightarrow> 'a gui_state_scheme \<Rightarrow> 'a gui_state_scheme result" where
  "update_window p f s = bindr (deref (windows s) p) (\<lambda>x. Inr (s\<lparr>windows := (windows s)(p \<mapsto> f x)\<rparr>))"

definition update_label :: "addr \<Rightarrow> (label \<Rightarrow> label) \<Rightarrow> 'a gui_state_scheme \<Rightarrow> 'a gui_state_scheme result" where
  "update_label p f s = bindr (deref (labels s) p) (\<lambda>x. Inr (s\<lparr>labels := (labels s)(p \<mapsto> f x)\<rparr>))"

definition update_button :: "addr \<Rightarrow> (button \<Rightarrow> button) \<Rightarrow> 'a gui_state_scheme \<Rightarrow> 'a gui_state_scheme result" where
  "update_button p f s = bindr (deref (buttons s) p) (\<lambda>x. Inr (s\<lparr>buttons := (buttons s)(p \<mapsto> f x)\<rparr>))"

definition update_edit :: "addr \<Rightarrow> (edit \<Rightarrow> edit) \<Rightarrow> 'a gui_state_scheme \<Rightarrow> 'a gui_state_scheme result" where
  "update_edit p f s = bindr (deref (edits s) p) (\<lambda>x. Inr (s\<lparr>edits := (edits s)(p \<mapsto> f x)\<rparr>))"

definition update_navigator :: "addr \<Rightarrow> (file_navigator \<Rightarrow> file_navigator) \<Rightarrow> 'a gui_state_scheme \<Rightarrow> 'a gui_state_scheme result" where
  "update_navigator p f s = bindr (deref (navigators s) p) (\<lambda>x. Inr (s\<lparr>navigators := (navigators s)(p \<mapsto> f x)\<rparr>))"

section \<open>gui/widgets/widget.c\<close>

definition set_padding :: "u32 \<Rightarrow> u32 \<Rightarrow> u32 \<Rightarrow> u32 \<Rightarrow> widget \<Rightarrow> widget" where
  "set_padding t l r b x = x\<lparr>padding_left := l, padding_top := t, padding_right := r, padding_bottom := b\<rparr>"

definition widget_set_padding :: "addr \<Rightarrow> u32 \<Rightarrow> u32 \<Rightarrow> u32 \<Rightarrow> u32 \<Rightarrow> 'a gui_state_scheme \<Rightarrow> 'a gui_state_scheme result" where
  "widget_set_padding p t l r b s = update_widget p (set_padding t l r b) s"

text \<open>\<open>while(chld->next) chld = chld->next;\<close>\<close>

fun last_child :: "nat \<Rightarrow> (addr \<Rightarrow> widget option) \<Rightarrow> addr \<Rightarrow> addr result" where
  "last_child 0 h c = Inl Diverge"
| "last_child (Suc n) h c =
     bindr (deref h c) (\<lambda>x. if w_next x \<noteq> NULL then last_child n h (w_next x) else Inr c)"

definition widget_set_parent :: "addr \<Rightarrow> addr \<Rightarrow> 'a gui_state_scheme \<Rightarrow> 'a gui_state_scheme result" where
  "widget_set_parent p parent s =
     (if p = NULL then Inr s
      else bindr (update_widget p (w_parent_update (\<lambda>_. parent)) s) (\<lambda>s.
        if parent \<noteq> NULL then
          bindr (deref (widgets s) parent) (\<lambda>x.
          bindr (if w_child x \<noteq> NULL then
                   bindr (last_child addr_space (widgets s) (w_child x)) (\<lambda>c. update_widget c (w_next_update (\<lambda>_. p)) s)
                 else update_widget parent (w_child_update (\<lambda>_. p)) s)
            (update_widget p (w_next_update (\<lambda>_. NULL))))
        else Inr s))"

text \<open>\<open>junk p\<close> is what the memory at \<open>p\<close> holds; \<open>sizeof(struct widget)\<close> is 129. The fields not assigned keep it.\<close>

definition new_widget :: "u32 \<Rightarrow> u32 \<Rightarrow> u32 \<Rightarrow> u32 \<Rightarrow> u32 \<Rightarrow> widget \<Rightarrow> widget" where
  "new_widget cls x y w h j = set_padding 2 2 2 2
     (j\<lparr>w_name := NULL, w_name_hash := 0, w_next := NULL, w_child := NULL, w_class := cls, w_x := x, w_y := y, w_w := w, w_h := h,
        visible := W_VIS_PARENT, fgcolor := 0, bgcolor := 0xE0E0E0, w_focus := NULL, w_has_focus := 0,
        OnPaint := 0, OnKeyUp := None, OnKeyDown := None\<rparr>)"

definition widget_create :: "(addr \<Rightarrow> widget) \<Rightarrow> u32 \<Rightarrow> u32 \<Rightarrow> u32 \<Rightarrow> u32 \<Rightarrow> u32 \<Rightarrow> addr \<Rightarrow> 'a gui_state_scheme \<Rightarrow>
    (addr \<times> 'a gui_state_scheme) result" where
  "widget_create junk cls x y w h parent s =
     bindr (malloc 129 s) (\<lambda>(p, s).
       if p = NULL then Inr (NULL, s)
       else bindr (widget_set_parent p parent (s\<lparr>widgets := (widgets s)(p \<mapsto> new_widget cls x y w h (junk p))\<rparr>))
         (\<lambda>s. Inr (p, s)))"

definition widget_unset_parent :: "addr \<Rightarrow> 'a gui_state_scheme \<Rightarrow> 'a gui_state_scheme" where
  "widget_unset_parent p s = s"

definition widget_move :: "addr \<Rightarrow> u32 \<Rightarrow> u32 \<Rightarrow> 'a gui_state_scheme \<Rightarrow> 'a gui_state_scheme result" where
  "widget_move p x y s = (if p = NULL then Inr s else update_widget p (\<lambda>w. w\<lparr>w_x := x, w_y := y\<rparr>) s)"

text \<open>The loop assigns \<open>parent\<close> from the same widget again each time: it ends in its first turn or never.\<close>

definition widget_get_window :: "addr \<Rightarrow> 'a gui_state_scheme \<Rightarrow> addr result" where
  "widget_get_window p s =
     bindr (deref (widgets s) p) (\<lambda>x.
       if w_parent x = NULL then Inl NoValue
       else bindr (deref (widgets s) (w_parent x)) (\<lambda>y.
         if w_class y = W_WINDOW then Inr (w_parent x) else Inl Diverge))"

definition focus_color :: "focus_fn \<Rightarrow> u32" where
  "focus_color f = (case f of Edit_focus \<Rightarrow> 0xFFFFE0 | File_navigator_focus \<Rightarrow> 0xF8F8E0)"

definition loose_focus_color :: "loose_focus_fn \<Rightarrow> u32" where
  "loose_focus_color f = (case f of Edit_loose_focus \<Rightarrow> 0xFFFFFF | File_navigator_loose_focus \<Rightarrow> 0xF0F0F0)"

text \<open>The calls \<open>widget->OnFocus(widget)\<close> and \<open>widget->OnLooseFocus(widget)\<close>, when they are set.\<close>

definition call_focus :: "addr \<Rightarrow> 'a gui_state_scheme \<Rightarrow> 'a gui_state_scheme result" where
  "call_focus p s =
     bindr (deref (widgets s) p) (\<lambda>x.
       case OnFocus x of None \<Rightarrow> Inr s | Some f \<Rightarrow> update_widget p (bgcolor_update (\<lambda>_. focus_color f)) s)"

definition call_loose_focus :: "addr \<Rightarrow> 'a gui_state_scheme \<Rightarrow> 'a gui_state_scheme result" where
  "call_loose_focus p s =
     bindr (deref (widgets s) p) (\<lambda>x.
       case OnLooseFocus x of None \<Rightarrow> Inr s | Some f \<Rightarrow> update_widget p (bgcolor_update (\<lambda>_. loose_focus_color f)) s)"

definition widget_set_focus :: "addr \<Rightarrow> 'a gui_state_scheme \<Rightarrow> 'a gui_state_scheme result" where
  "widget_set_focus p s =
     bindr (widget_get_window p s) (\<lambda>w.
       if w = NULL then Inr s
       else bindr (deref (windows s) w) (\<lambda>x.
         bindr (if win_focus x \<noteq> NULL then call_loose_focus (win_focus x) s else Inr s) (\<lambda>s.
         bindr (update_window w (win_focus_update (\<lambda>_. p)) s) (call_focus p))))"

definition widget_set_callback :: "addr \<Rightarrow> u8 \<Rightarrow> user_fn option \<Rightarrow> 'a gui_state_scheme \<Rightarrow> 'a gui_state_scheme result" where
  "widget_set_callback p cb f s =
     (if p = NULL then Inr s
      else if cb = ON_PAINT then update_widget p (OnPaint_User_update (\<lambda>_. f)) s
      else if cb = ON_KEYUP then update_widget p (OnKeyUp_User_update (\<lambda>_. f)) s
      else Inr s)"

fun absolute_loop :: "nat \<Rightarrow> (addr \<Rightarrow> widget option) \<Rightarrow> addr \<Rightarrow> u32 \<Rightarrow> u32 \<Rightarrow> (u32 \<times> u32) result" where
  "absolute_loop 0 h parent x y = Inl Diverge"
| "absolute_loop (Suc n) h parent x y =
     (if parent = NULL then Inr (x, y)
      else bindr (deref h parent) (\<lambda>p.
        absolute_loop n h (w_parent p) (x + (w_x p + padding_left p)) (y + (w_y p + padding_top p))))"

text \<open>For a widget that is not NULL; the callers pass the addresses of two variables.\<close>

definition widget_absolute_xy :: "addr \<Rightarrow> 'a gui_state_scheme \<Rightarrow> (u32 \<times> u32) result" where
  "widget_absolute_xy p s = bindr (deref (widgets s) p) (\<lambda>x. absolute_loop addr_space (widgets s) (w_parent x) (w_x x) (w_y x))"

text \<open>gui/util/point.c: signed comparisons, the sums modulo \<open>2 ^ 32\<close>.\<close>

definition inside :: "widget \<Rightarrow> u32 \<Rightarrow> u32 \<Rightarrow> bool" where
  "inside w x y \<longleftrightarrow> sint (w_x w) \<le> sint x \<and> sint (w_y w) \<le> sint y \<and> sint x \<le> sint (w_x w + w_w w) \<and> sint y \<le> sint (w_y w + w_h w)"

definition point_is_inside :: "addr \<Rightarrow> u32 \<Rightarrow> u32 \<Rightarrow> 'a gui_state_scheme \<Rightarrow> bool result" where
  "point_is_inside p x y s = (if p = NULL then Inr False else bindr (deref (widgets s) p) (\<lambda>w. Inr (inside w x y)))"

section \<open>The active window (gui/gui.c)\<close>

definition gui_widget_root :: "'a gui_state_scheme \<Rightarrow> addr" where
  "gui_widget_root s = desktop_window s"

fun set_active_loop :: "nat \<Rightarrow> addr \<Rightarrow> addr \<Rightarrow> 'a gui_state_scheme \<Rightarrow> 'a gui_state_scheme result" where
  "set_active_loop 0 w c s = Inl Diverge"
| "set_active_loop (Suc n) w c s =
     (if c = NULL then Inr s
      else bindr (deref (widgets s) c) (\<lambda>x.
        bindr (if w_class x = W_WINDOW then update_window c (win_active_update (\<lambda>_. if c = w then 1 else 0)) s else Inr s)
          (set_active_loop n w (w_next x))))"

definition gui_set_active_window :: "addr \<Rightarrow> 'a gui_state_scheme \<Rightarrow> 'a gui_state_scheme result" where
  "gui_set_active_window w s =
     (if gui_widget_root s = NULL then Inr s
      else bindr (deref (widgets s) (gui_widget_root s)) (\<lambda>x. set_active_loop addr_space w (w_child x) s))"

fun get_active_loop :: "nat \<Rightarrow> addr \<Rightarrow> 'a gui_state_scheme \<Rightarrow> addr result" where
  "get_active_loop 0 c s = Inl Diverge"
| "get_active_loop (Suc n) c s =
     (if c = NULL then Inr NULL
      else bindr (deref (widgets s) c) (\<lambda>x.
        if w_class x = W_WINDOW then
          bindr (deref (windows s) c) (\<lambda>v. if win_active v = 1 then Inr c else get_active_loop n (w_next x) s)
        else get_active_loop n (w_next x) s))"

text \<open>Without a desktop the function returns no value.\<close>

definition gui_get_active_window :: "'a gui_state_scheme \<Rightarrow> addr result" where
  "gui_get_active_window s =
     (if gui_widget_root s = NULL then Inl NoValue
      else bindr (deref (widgets s) (gui_widget_root s)) (\<lambda>x. get_active_loop addr_space (w_child x) s))"

section \<open>Chains of pointers\<close>

text \<open>\<open>linked nxt h p as\<close>: from \<open>p\<close>, the pointers \<open>nxt\<close> lead through the objects \<open>as\<close> to NULL.\<close>

fun linked :: "('n \<Rightarrow> addr) \<Rightarrow> (addr \<Rightarrow> 'n option) \<Rightarrow> addr \<Rightarrow> addr list \<Rightarrow> bool" where
  "linked nxt h p [] \<longleftrightarrow> p = NULL"
| "linked nxt h p (a # as) \<longleftrightarrow> p = a \<and> a \<noteq> NULL \<and> (case h a of None \<Rightarrow> False | Some x \<Rightarrow> linked nxt h (nxt x) as)"

lemma linked_Cons: "linked nxt h p (a # as) \<longleftrightarrow> p = a \<and> a \<noteq> NULL \<and> (\<exists>x. h a = Some x \<and> linked nxt h (nxt x) as)"
  by (auto split: option.splits)

declare linked.simps(2) [simp del]

lemma linked_NULL [simp]: "linked nxt h 0 as \<longleftrightarrow> as = []"
  by (cases as) (auto simp: linked_Cons)

lemma linked_unique: "linked nxt h p as \<Longrightarrow> linked nxt h p bs \<Longrightarrow> as = bs"
proof (induction as arbitrary: p bs)
  case (Cons a as)
  then show ?case by (cases bs) (auto simp: linked_Cons)
qed simp

lemma linked_suffix: "linked nxt h p (as @ b # bs) \<Longrightarrow> linked nxt h b (b # bs)"
  by (induction as arbitrary: p) (auto simp: linked_Cons)

lemma linked_distinct: "linked nxt h p as \<Longrightarrow> distinct as"
proof (induction as arbitrary: p)
  case (Cons a as)
  have "a \<notin> set as"
  proof
    assume "a \<in> set as"
    then obtain us vs where "as = us @ a # vs" by (auto simp: in_set_conv_decomp)
    moreover have "linked nxt h a (a # vs)" using Cons.prems calculation linked_suffix [of nxt h p "a # us" a vs] by simp
    ultimately show False using Cons.prems linked_unique [of nxt h a "a # vs" "a # as"] by (simp add: linked_Cons)
  qed
  then show ?case using Cons by (auto simp: linked_Cons)
qed simp

lemma linked_member: "linked nxt h p as \<Longrightarrow> a \<in> set as \<Longrightarrow> a \<noteq> NULL \<and> (\<exists>x. h a = Some x)"
  by (induction as arbitrary: p) (auto simp: linked_Cons)

lemma linked_cong:
  assumes "\<And>a. a \<in> set as \<Longrightarrow> map_option nxt (h a) = map_option nxt (h' a)"
  shows "linked nxt h p as = linked nxt h' p as"
  using assms
proof (induction as arbitrary: p)
  case (Cons a as)
  have "map_option nxt (h a) = map_option nxt (h' a)" using Cons.prems by simp
  moreover have "linked nxt h q as = linked nxt h' q as" for q by (rule Cons.IH) (use Cons.prems in simp)
  ultimately show ?case by (cases "h a"; cases "h' a") (auto simp: linked_Cons)
qed simp

text \<open>A chain never visits an address twice nor NULL, so it is shorter than the address space.\<close>

lemma linked_length: "linked nxt h p as \<Longrightarrow> length as < addr_space"
proof -
  assume l: "linked nxt h p as"
  have "length (NULL # as) = card (set (NULL # as))"
    using linked_distinct [OF l] linked_member [OF l] by (intro distinct_card [symmetric]) auto
  also have "\<dots> \<le> card (UNIV :: addr set)" by (rule card_mono) auto
  finally show ?thesis by (simp add: addr_space_def card_word)
qed

lemma linked_snoc:
  assumes "linked nxt h p as" "as \<noteq> []" "h (last as) = Some x" "b \<noteq> NULL" "b \<notin> set as" "h b = Some y" "nxt y = NULL" "nxt x' = b"
  shows "linked nxt (h(last as \<mapsto> x')) p (as @ [b])"
  using assms
proof (induction as arbitrary: p)
  case (Cons a as)
  show ?case
  proof (cases "as = []")
    case True
    then show ?thesis using Cons.prems by (auto simp: linked_Cons)
  next
    case False
    obtain z where z: "h a = Some z" "linked nxt h (nxt z) as" using Cons.prems by (auto simp: linked_Cons)
    have "linked nxt (h(last as \<mapsto> x')) (nxt z) (as @ [b])" by (rule Cons.IH) (use Cons.prems z False in auto)
    moreover have "a \<noteq> last as" using linked_distinct [OF Cons.prems(1)] False by auto
    ultimately show ?thesis using Cons.prems(1) z(1) False by (simp add: linked_Cons del: fun_upd_apply) (simp add: fun_upd_other)
  qed
qed simp

section \<open>The tree of widgets\<close>

text \<open>The children of a widget in the order of their list, and its ancestors from the parent up.\<close>

definition children :: "'a gui_state_scheme \<Rightarrow> addr \<Rightarrow> addr list \<Rightarrow> bool" where
  "children s p cs \<longleftrightarrow> (\<exists>x. widgets s p = Some x \<and> linked w_next (widgets s) (w_child x) cs)"

definition ancestors :: "'a gui_state_scheme \<Rightarrow> addr \<Rightarrow> addr list \<Rightarrow> bool" where
  "ancestors s p as \<longleftrightarrow> (\<exists>x. widgets s p = Some x \<and> linked w_parent (widgets s) (w_parent x) as)"

definition widget_at :: "'a gui_state_scheme \<Rightarrow> addr \<Rightarrow> widget" where
  "widget_at s p = (case widgets s p of None \<Rightarrow> zero_widget | Some x \<Rightarrow> x)"

lemma widget_at_Some [simp]: "widgets s p = Some x \<Longrightarrow> widget_at s p = x"
  by (simp add: widget_at_def)

lemma update_widget_Some [simp]: "widgets s p = Some x \<Longrightarrow> update_widget p f s = Inr (s\<lparr>widgets := (widgets s)(p \<mapsto> f x)\<rparr>)"
  by (simp add: update_widget_def)

lemma last_child_last:
  "\<lbrakk>linked w_next h c (as @ [b]); length as < n\<rbrakk> \<Longrightarrow> last_child n h c = Inr b"
proof (induction as arbitrary: c n)
  case Nil
  then show ?case by (cases n) (auto simp: linked_Cons)
next
  case (Cons a as)
  then obtain m where m: "n = Suc m" by (cases n) auto
  obtain x where x: "h c = Some x" "linked w_next h (w_next x) (as @ [b])" "c = a" using Cons.prems by (auto simp: linked_Cons)
  have "w_next x \<noteq> NULL" using x(2) by (cases as) (auto simp: linked_Cons)
  then show ?case using Cons.IH [OF x(2), of m] Cons.prems x m by simp
qed


section \<open>Positions\<close>

lemma absolute_loop_sums:
  assumes "linked w_parent (widgets s) q as" "length as < n"
  shows "absolute_loop n (widgets s) q x y =
    Inr (x + (\<Sum>a\<leftarrow>as. w_x (widget_at s a) + padding_left (widget_at s a)),
         y + (\<Sum>a\<leftarrow>as. w_y (widget_at s a) + padding_top (widget_at s a)))"
  using assms
proof (induction as arbitrary: q n x y)
  case Nil
  then show ?case by (cases n) auto
next
  case (Cons a as)
  then obtain m where "n = Suc m" by (cases n) auto
  then show ?case using Cons by (auto simp: linked_Cons add.assoc)
qed

text \<open>
  The absolute position of a widget is its own position plus, for each ancestor, the position and
  the padding of the ancestor; the walk ends for every finite chain of parents.
\<close>

theorem absolute_xy_sums:
  assumes "widgets s p = Some x" "ancestors s p as"
  shows "widget_absolute_xy p s =
    Inr (w_x x + (\<Sum>a\<leftarrow>as. w_x (widget_at s a) + padding_left (widget_at s a)),
         w_y x + (\<Sum>a\<leftarrow>as. w_y (widget_at s a) + padding_top (widget_at s a)))"
proof -
  have l: "linked w_parent (widgets s) (w_parent x) as" using assms by (simp add: ancestors_def)
  then show ?thesis using absolute_loop_sums [OF l linked_length [OF l]] assms(1) by (simp add: widget_absolute_xy_def)
qed

section \<open>One active window\<close>

definition is_window :: "'a gui_state_scheme \<Rightarrow> addr \<Rightarrow> bool" where
  "is_window s a \<longleftrightarrow> w_class (widget_at s a) = W_WINDOW"

definition mark_active :: "addr \<Rightarrow> (addr \<Rightarrow> bool) \<Rightarrow> 'a gui_state_scheme \<Rightarrow> 'a gui_state_scheme" where
  "mark_active w P s = s\<lparr>windows := \<lambda>a. if P a then map_option (win_active_update (\<lambda>_. if a = w then 1 else 0)) (windows s a) else windows s a\<rparr>"

lemma mark_active_more [simp]: "widgets (mark_active w P s) = widgets s" "desktop_window (mark_active w P s) = desktop_window s"
  by (simp_all add: mark_active_def)

definition active_at :: "'a gui_state_scheme \<Rightarrow> addr \<Rightarrow> bool" where
  "active_at s a \<longleftrightarrow> (case windows s a of None \<Rightarrow> False | Some v \<Rightarrow> win_active v = 1)"

lemma set_active_loop_marks:
  assumes "linked w_next (widgets s) c cs" "\<And>a. a \<in> set cs \<Longrightarrow> is_window s a \<Longrightarrow> windows s a \<noteq> None" "length cs < n"
  shows "set_active_loop n w c s = Inr (mark_active w (\<lambda>a. a \<in> set cs \<and> is_window s a) s)"
  using assms
proof (induction cs arbitrary: c n s)
  case Nil
  then show ?case by (cases n) (auto simp: mark_active_def)
next
  case (Cons a as)
  then obtain m where m: "n = Suc m" by (cases n) auto
  obtain x where x: "c = a" "a \<noteq> NULL" "widgets s a = Some x" "linked w_next (widgets s) (w_next x) as"
    using Cons.prems(1) by (auto simp: linked_Cons)
  let ?s = "mark_active w (\<lambda>b. b = a \<and> is_window s b) s"
  have "(if w_class x = W_WINDOW then update_window a (win_active_update (\<lambda>_. if a = w then 1 else 0)) s else Inr s) = Inr ?s"
    using Cons.prems(2) [of a] x(3) by (auto simp: is_window_def update_window_def mark_active_def fun_eq_iff deref_def split: option.splits)
  moreover have "set_active_loop m w (w_next x) ?s = Inr (mark_active w (\<lambda>b. b \<in> set as \<and> is_window ?s b) ?s)"
  proof (rule Cons.IH)
    show "windows ?s b \<noteq> None" if "b \<in> set as" "is_window ?s b" for b
      using that Cons.prems(2) [of b] by (auto simp: is_window_def widget_at_def mark_active_def)
  qed (use x(4) Cons.prems(3) m in simp_all)
  moreover have "mark_active w (\<lambda>b. b \<in> set as \<and> is_window ?s b) ?s = mark_active w (\<lambda>b. b \<in> set (a # as) \<and> is_window s b) s"
  proof -
    have "is_window ?s = is_window s" by (simp add: fun_eq_iff is_window_def widget_at_def)
    then show ?thesis by (auto simp: mark_active_def fun_eq_iff map_option_case split: option.splits)
  qed
  ultimately show ?case using x(1-3) m by simp
qed

lemma get_active_loop_finds:
  assumes "linked w_next (widgets s) c cs" "\<And>a. a \<in> set cs \<Longrightarrow> is_window s a \<Longrightarrow> windows s a \<noteq> None" "length cs < n"
  shows "get_active_loop n c s =
    Inr (case find (\<lambda>a. is_window s a \<and> active_at s a) cs of None \<Rightarrow> NULL | Some a \<Rightarrow> a)"
  using assms
proof (induction cs arbitrary: c n)
  case Nil
  then show ?case by (cases n) auto
next
  case (Cons a as)
  then obtain m where m: "n = Suc m" by (cases n) auto
  then show ?case using Cons.IH Cons.prems by (auto simp: linked_Cons is_window_def active_at_def deref_def split: option.splits)
qed

text \<open>
  C30: after \<open>gui_set_active_window\<close> the active window is the one given, when it is a window on the desktop,
  and none otherwise; every other window on the desktop is inactive.
\<close>

theorem set_active_get_active:
  assumes "desktop_window s \<noteq> NULL" "children s (desktop_window s) cs" "\<And>a. a \<in> set cs \<Longrightarrow> is_window s a \<Longrightarrow> windows s a \<noteq> None"
  shows "\<exists>s'. gui_set_active_window w s = Inr s' \<and>
    gui_get_active_window s' = Inr (if w \<in> set cs \<and> is_window s w then w else NULL) \<and>
    (\<forall>a v. a \<in> set cs \<longrightarrow> is_window s a \<longrightarrow> windows s' a = Some v \<longrightarrow> win_active v = (if a = w then 1 else 0))"
proof -
  let ?P = "\<lambda>a. a \<in> set cs \<and> is_window s a"
  let ?s = "mark_active w ?P s"
  obtain x where x: "widgets s (desktop_window s) = Some x" "linked w_next (widgets s) (w_child x) cs"
    using assms(2) by (auto simp: children_def)
  have set: "gui_set_active_window w s = Inr ?s"
    using set_active_loop_marks [OF x(2) assms(3) linked_length [OF x(2)]] x(1) assms(1)
    by (simp add: gui_set_active_window_def gui_widget_root_def)
  have w: "is_window ?s = is_window s" by (simp add: fun_eq_iff is_window_def widget_at_def)
  have act: "active_at ?s a \<longleftrightarrow> a = w" if "a \<in> set cs" "is_window s a" for a
    using that assms(3) [OF that] by (auto simp: mark_active_def active_at_def)
  have "gui_get_active_window ?s = Inr (case find (\<lambda>a. is_window ?s a \<and> active_at ?s a) cs of None \<Rightarrow> NULL | Some a \<Rightarrow> a)"
    using get_active_loop_finds [of ?s "w_child x" cs addr_space] x assms linked_length [OF x(2)]
    by (simp add: gui_get_active_window_def gui_widget_root_def w) (auto simp: mark_active_def)
  moreover have "find (\<lambda>a. is_window ?s a \<and> active_at ?s a) cs = find (\<lambda>a. is_window s a \<and> a = w) cs"
    by (rule find_cong_set) (auto simp: w act)
  moreover have "find (\<lambda>a. is_window s a \<and> a = w) cs = (if ?P w then Some w else None)"
    by (induction cs) auto
  ultimately show ?thesis using set assms(3) by (intro exI [of _ ?s]) (auto simp: mark_active_def)
qed

section \<open>An example\<close>

text \<open>A desktop at 100 (hexadecimal) with two windows at 200 and 300, the first with an edit at 400.\<close>

definition blank_gui :: gui_state where
  "blank_gui = bochs_state.extend small_screen
     \<lparr>widgets = Map.empty, windows = Map.empty, labels = Map.empty, buttons = Map.empty, edits = Map.empty, navigators = Map.empty,
      gui_packets = Map.empty, desktop_window = 0, desktop_taskbar = 0, taskbarH = 0, pointerX = 0, pointerY = 0, gui_task = 0,
      cursor_image = 0, iconset_image = 0, wl_image = 0, icon_w = 0, icon_h = 0, wnd = 0, edtPath = 0, buff = 0x3000\<rparr>"

definition example_window :: window where
  "example_window = \<lparr>win_active = 0, win_focus = NULL, win_name = NULL, win_type = WINDOW_TOPLEVEL\<rparr>"

definition desk :: gui_state where
  "desk = blank_gui\<lparr>desktop_window := 0x100,
     widgets := [0x100 \<mapsto> zero_widget\<lparr>w_child := 0x200, w_w := 640, w_h := 463\<rparr>,
       0x200 \<mapsto> zero_widget\<lparr>w_class := W_WINDOW, w_parent := 0x100, w_child := 0x400, w_next := 0x300, w_x := 20, w_y := 30,
         w_w := 100, w_h := 80, padding_left := 2, padding_top := 2\<rparr>,
       0x300 \<mapsto> zero_widget\<lparr>w_class := W_WINDOW, w_parent := 0x100, w_x := 200, w_y := 30, w_w := 50, w_h := 40\<rparr>,
       0x400 \<mapsto> zero_widget\<lparr>w_class := W_EDIT, w_parent := 0x200, w_x := 5, w_y := 7, w_w := 75, w_h := 12\<rparr>],
     windows := [0x200 \<mapsto> example_window, 0x300 \<mapsto> example_window],
     edits := [0x400 \<mapsto> \<lparr>edt_text = 0x500, edt_mask = 0, edt_length = 32, edt_cursor = 0\<rparr>]\<rparr>"

lemmas desk_simps = desk_def blank_gui_def bochs_state.defs

lemma desk_children: "children desk 0x100 [0x200, 0x300]" "children desk 0x200 [0x400]"
  by (simp_all add: children_def desk_simps linked_Cons zero_widget_def)


theorem absolute_xy_sums_witness: "widget_absolute_xy 0x400 desk = Inr (27, 39)"
proof -
  have w: "widgets desk 0x400 = Some (widget_at desk 0x400)" by (simp add: desk_simps widget_at_def)
  have a: "ancestors desk 0x400 [0x200, 0x100]" by (simp add: ancestors_def desk_simps linked_Cons zero_widget_def)
  show ?thesis unfolding absolute_xy_sums [OF w a] by (simp add: desk_simps widget_at_def zero_widget_def)
qed

theorem set_active_get_active_witness:
  "\<exists>s'. gui_set_active_window 0x300 desk = Inr s' \<and> gui_get_active_window s' = Inr 0x300"
proof -
  have d: "desktop_window desk \<noteq> NULL" "children desk (desktop_window desk) [0x200, 0x300]"
    using desk_children(1) by (simp_all add: desk_simps)
  have w: "windows desk a \<noteq> None" if "a \<in> set [0x200, 0x300]" "is_window desk a" for a
    using that by (auto simp: desk_simps)
  have "is_window desk 0x300" by (simp add: is_window_def widget_at_def desk_simps)
  then show ?thesis using set_active_get_active [where w = "0x300", OF d w] by auto
qed

end
