(* ===== verification/Controls.thy ===== *)
theory Controls
  imports Widget
begin

text \<open>
  gui/widgets/label.c, edit.c, button.c and window.c without their drawing: creating the widgets, their
  texts and sizes, and the keys typed into an edit.

  The creating functions clear the whole struct with \<open>memset\<close> before they assign its fields. A string
  literal is the address \<open>lits\<close> gives for it. The key codes are 32-bit numbers of which the code
  uses the low byte.
\<close>

section \<open>Labels\<close>

definition CHAR_WRAP :: u8 where "CHAR_WRAP = 1"
definition NO_WRAP :: u8 where "NO_WRAP = 0"

definition label_size_request :: "addr \<Rightarrow> 'a gui_state_scheme \<Rightarrow> 'a gui_state_scheme result" where
  "label_size_request p s =
     (if p = NULL then Inr s
      else bindr (deref (labels s) p) (\<lambda>l.
        if lbl_text l = NULL then update_widget p (\<lambda>x. x\<lparr>w_w := 8, w_h := 8\<rparr>) s
        else bindr (strlen (bytes s) (lbl_text l)) (\<lambda>txt_sz.
        bindr (deref (widgets s) p) (\<lambda>x.
          let txt_width = txt_sz * 8
          in if w_parent x \<noteq> NULL then
               bindr (deref (widgets s) (w_parent x)) (\<lambda>y.
                 let room = w_w y - padding_left y - padding_right y
                 in if room < txt_width then
                      guardr (room \<noteq> 0) DivideError
                        (let rows = txt_width div room + (if txt_width mod room \<noteq> 0 then 1 else 0)
                         in update_widget p (\<lambda>x. x\<lparr>w_w := room,
                              w_h := (rows + ucast (lbl_linespace l)) * 8 + padding_top x + padding_bottom x\<rparr>) s)
                    else Inr s)
             else update_widget p (\<lambda>x. x\<lparr>w_w := txt_width, w_h := 8 + padding_top x + padding_bottom x\<rparr>) s))))"

definition label_set_linespace :: "addr \<Rightarrow> u8 \<Rightarrow> 'a gui_state_scheme \<Rightarrow> 'a gui_state_scheme result" where
  "label_set_linespace p space s = update_label p (lbl_linespace_update (\<lambda>_. space)) s"

definition label_set_text :: "addr \<Rightarrow> addr \<Rightarrow> 'a gui_state_scheme \<Rightarrow> 'a gui_state_scheme result" where
  "label_set_text p str s =
     (if p = NULL then Inr s
      else bindr (deref (labels s) p) (\<lambda>l.
        let s = (if lbl_text l \<noteq> NULL then free (lbl_text l) s else s)
        in if str = NULL then bindr (update_label p (lbl_text_update (\<lambda>_. NULL)) s) (label_size_request p)
           else bindr (strlen (bytes s) str) (\<lambda>n.
             bindr (malloc (n + 1) s) (\<lambda>(t, s).
             bindr (update_label p (lbl_text_update (\<lambda>_. t)) s) (\<lambda>s.
               label_size_request p (s\<lparr>bytes := memcpy (bytes s) str t (n + 1)\<rparr>))))))"

definition label_widget :: widget where
  "label_widget = set_padding 2 0 0 0
     (zero_widget\<lparr>w_class := W_LABEL, visible := W_VIS_PARENT, fgcolor := 0x606060, bgcolor := 0xE0E0E0\<rparr>)"

text \<open>\<open>sizeof(struct label)\<close> is 135.\<close>

definition label_create :: "addr \<Rightarrow> addr \<Rightarrow> 'a gui_state_scheme \<Rightarrow> (addr \<times> 'a gui_state_scheme) result" where
  "label_create str parent s =
     bindr (malloc 135 s) (\<lambda>(p, s).
       if p = NULL then Inr (NULL, s)
       else bindr (widget_set_parent p parent (s\<lparr>widgets := (widgets s)(p \<mapsto> label_widget),
           labels := (labels s)(p \<mapsto> \<lparr>lbl_text = NULL, lbl_linespace = 0, lbl_wordwrap = CHAR_WRAP\<rparr>)\<rparr>)) (\<lambda>s.
         bindr (label_set_text p str s) (\<lambda>s.
         bindr (label_set_linespace p 2 s) (\<lambda>s. Inr (p, s)))))"

section \<open>Edits\<close>

definition edit_widget :: "addr \<Rightarrow> widget" where
  "edit_widget parent = set_padding 0 0 0 0
     (zero_widget\<lparr>w_class := W_EDIT, w_w := 75, w_h := 12, w_parent := parent, visible := W_VIS_PARENT, fgcolor := 0x404040,
        bgcolor := 0xFFFFFF, OnKeyDown := Some Edit_keydown, OnLooseFocus := Some Edit_loose_focus, OnFocus := Some Edit_focus,
        OnMouseEvent := Some Edit_mouse_event\<rparr>)"

text \<open>\<open>sizeof(struct edit)\<close> is 136; the text has 32 characters and a byte for the NUL.\<close>

definition edit_create :: "addr \<Rightarrow> 'a gui_state_scheme \<Rightarrow> (addr \<times> 'a gui_state_scheme) result" where
  "edit_create parent s =
     bindr (malloc 136 s) (\<lambda>(p, s).
       if p = NULL then Inr (NULL, s)
       else bindr (malloc 33 (s\<lparr>widgets := (widgets s)(p \<mapsto> edit_widget parent)\<rparr>)) (\<lambda>(t, s).
         bindr (widget_set_parent p parent (s\<lparr>bytes := (bytes s)(t := 0),
             edits := (edits s)(p \<mapsto> \<lparr>edt_text = t, edt_mask = 0, edt_length = 32, edt_cursor = 0\<rparr>)\<rparr>))
           (\<lambda>s. Inr (p, s))))"

definition edit_focus :: "addr \<Rightarrow> 'a gui_state_scheme \<Rightarrow> 'a gui_state_scheme result" where
  "edit_focus p s = update_widget p (bgcolor_update (\<lambda>_. 0xFFFFE0)) s"

definition edit_loose_focus :: "addr \<Rightarrow> 'a gui_state_scheme \<Rightarrow> 'a gui_state_scheme result" where
  "edit_loose_focus p s = update_widget p (bgcolor_update (\<lambda>_. 0xFFFFFF)) s"

definition edit_mouse_event :: "addr \<Rightarrow> u32 \<Rightarrow> 'a gui_state_scheme \<Rightarrow> 'a gui_state_scheme result" where
  "edit_mouse_event p flags s = (if flags AND 1 \<noteq> 0 then widget_set_focus p s else Inr s)"

definition edit_set_mask :: "addr \<Rightarrow> u8 \<Rightarrow> 'a gui_state_scheme \<Rightarrow> 'a gui_state_scheme result" where
  "edit_set_mask p m s = update_edit p (edt_mask_update (\<lambda>_. m)) s"

text \<open>\<open>window_destroy\<close> and the callback \<open>key_up\<close> of gui/test/text_view.c, which calls it.\<close>

definition window_destroy :: "addr \<Rightarrow> 'a gui_state_scheme \<Rightarrow> 'a gui_state_scheme" where
  "window_destroy p s = widget_unset_parent p s"

definition key_up :: "addr \<Rightarrow> u32 \<Rightarrow> 'a gui_state_scheme \<Rightarrow> 'a gui_state_scheme" where
  "key_up p key s = (if key = 0x0A then window_destroy p s else s)"

definition call_user :: "user_fn option \<Rightarrow> addr \<Rightarrow> u32 \<Rightarrow> 'a gui_state_scheme \<Rightarrow> 'a gui_state_scheme" where
  "call_user f p key s = (case f of None \<Rightarrow> s | Some Key_up \<Rightarrow> key_up p key s)"

definition edit_keydown :: "addr \<Rightarrow> u32 \<Rightarrow> 'a gui_state_scheme \<Rightarrow> 'a gui_state_scheme result" where
  "edit_keydown p key s =
     bindr (deref (edits s) p) (\<lambda>e.
     bindr (deref (widgets s) p) (\<lambda>x.
       if (ucast key :: u8) = 0x08 then
         if 0 < edt_cursor e then
           let c = edt_cursor e - 1
           in Inr (call_user (OnKeyDown_User x) p key
                (s\<lparr>edits := (edits s)(p \<mapsto> e\<lparr>edt_cursor := c\<rparr>), bytes := (bytes s)(edt_text e + ucast c := 0)\<rparr>))
         else Inr (call_user (OnKeyDown_User x) p key s)
       else if edt_length e \<le> edt_cursor e then Inr s
       else Inr (call_user (OnKeyDown_User x) p key
              (s\<lparr>bytes := (bytes s)(edt_text e + ucast (edt_cursor e) := ucast key),
                 edits := (edits s)(p \<mapsto> e\<lparr>edt_cursor := edt_cursor e + 1\<rparr>)\<rparr>))))"

text \<open>The loop of \<open>edit_set_text\<close>: the memory and the cursor after it.\<close>

fun set_text_loop :: "nat \<Rightarrow> mem \<Rightarrow> addr \<Rightarrow> addr \<Rightarrow> u8 \<Rightarrow> u8 \<Rightarrow> (mem \<times> u8) result" where
  "set_text_loop 0 m dst src len c = Inl Diverge"
| "set_text_loop (Suc n) m dst src len c =
     (if m (src + ucast c) \<noteq> 0 then
        let m = m(dst + ucast c := m (src + ucast c));
            c = c + 1
        in if len < c then Inr (m(dst + ucast c := 0), c) else set_text_loop n m dst src len c
      else Inr (m(dst + ucast c := 0), c))"

definition edit_set_text :: "addr \<Rightarrow> addr \<Rightarrow> 'a gui_state_scheme \<Rightarrow> 'a gui_state_scheme result" where
  "edit_set_text p str s =
     bindr (deref (edits s) p) (\<lambda>e.
     bindr (set_text_loop addr_space (bytes s) (edt_text e) str (edt_length e) 0) (\<lambda>(m, c).
       Inr (s\<lparr>bytes := m, edits := (edits s)(p \<mapsto> e\<lparr>edt_cursor := c\<rparr>)\<rparr>)))"

section \<open>Buttons\<close>

definition button_widget :: "addr \<Rightarrow> widget" where
  "button_widget parent = set_padding 0 2 2 0
     (zero_widget\<lparr>w_class := W_BUTTON, w_w := 30, w_h := 12, w_parent := parent, visible := W_VIS_PARENT, fgcolor := 0,
        bgcolor := 0xD4D4D4, OnKeyUp := Some Button_keyup, OnKeyDown := Some Button_keydown, OnMouseMove := Some Button_mouse_move,
        OnMouseEvent := Some Button_mouse_event, OnClick := Some Button_click\<rparr>)"

text \<open>\<open>sizeof(struct button)\<close> is 135.\<close>

definition button_create :: "addr \<Rightarrow> addr \<Rightarrow> 'a gui_state_scheme \<Rightarrow> (addr \<times> 'a gui_state_scheme) result" where
  "button_create caption parent s =
     bindr (malloc 135 s) (\<lambda>(p, s).
       if p = NULL then Inr (NULL, s)
       else bindr (widget_set_parent p parent (s\<lparr>widgets := (widgets s)(p \<mapsto> button_widget parent),
           buttons := (buttons s)(p \<mapsto> \<lparr>btn_label = NULL, btn_enabled = 0, btn_pressed = 0\<rparr>)\<rparr>)) (\<lambda>s.
         bindr (label_create caption p s) (\<lambda>(l, s).
         bindr (update_button p (btn_label_update (\<lambda>_. l)) s) (\<lambda>s.
         bindr (deref (widgets s) p) (\<lambda>x.
         bindr (update_widget l (\<lambda>y. y\<lparr>bgcolor := bgcolor x, w_x := 0\<rparr>) s) (\<lambda>s. Inr (p, s)))))))"

definition button_click :: "addr \<Rightarrow> 'a gui_state_scheme \<Rightarrow> 'a gui_state_scheme" where
  "button_click p s = s"

definition button_mouse_event :: "addr \<Rightarrow> u32 \<Rightarrow> 'a gui_state_scheme \<Rightarrow> 'a gui_state_scheme result" where
  "button_mouse_event p flags s =
     (if flags AND 1 \<noteq> 0 then update_button p (btn_pressed_update (\<lambda>_. 1)) s
      else bindr (deref (buttons s) p) (\<lambda>b.
        if btn_pressed b = 1 then
          bindr (update_button p (btn_pressed_update (\<lambda>_. 0)) s) (\<lambda>s.
          bindr (deref (widgets s) p) (\<lambda>x.
            case OnClick x of None \<Rightarrow> Inl BadPointer | Some Button_click \<Rightarrow> Inr (button_click p s)))
        else Inr s))"

definition button_mouse_move :: "addr \<Rightarrow> 'a gui_state_scheme \<Rightarrow> 'a gui_state_scheme" where
  "button_mouse_move p s = s"

definition button_keydown :: "addr \<Rightarrow> u32 \<Rightarrow> 'a gui_state_scheme \<Rightarrow> 'a gui_state_scheme result" where
  "button_keydown p key s =
     bindr (if key AND 0xFF = 0x0A then update_button p (btn_pressed_update (\<lambda>_. 1)) s else Inr s) (\<lambda>s.
     bindr (deref (widgets s) p) (\<lambda>x. Inr (call_user (OnKeyDown_User x) p key s)))"

definition button_keyup :: "addr \<Rightarrow> u32 \<Rightarrow> 'a gui_state_scheme \<Rightarrow> 'a gui_state_scheme result" where
  "button_keyup p key s =
     bindr (if key AND 0xFF = 0x0A then update_button p (btn_pressed_update (\<lambda>_. 0)) s else Inr s) (\<lambda>s.
     bindr (deref (widgets s) p) (\<lambda>x. Inr (call_user (OnKeyUp_User x) p key s)))"

definition button_size :: "addr \<Rightarrow> u32 \<Rightarrow> u32 \<Rightarrow> u32 \<Rightarrow> u32 \<Rightarrow> 'a gui_state_scheme \<Rightarrow> 'a gui_state_scheme result" where
  "button_size p x y w h s =
     (if p = NULL then Inr s
      else bindr (widget_move p x y s) (\<lambda>s.
        bindr (update_widget p (\<lambda>v. v\<lparr>w_w := w, w_h := h\<rparr>) s) (\<lambda>s.
        bindr (deref (buttons s) p) (\<lambda>b. label_size_request (btn_label b) s))))"

section \<open>Windows\<close>

definition WINDOW_DECORATION_BORDER :: u32 where "WINDOW_DECORATION_BORDER = 1"
definition WINDOW_DECORATION_BAR :: u32 where "WINDOW_DECORATION_BAR = 12"
definition WINDOW_SHADOW_SIZE :: u32 where "WINDOW_SHADOW_SIZE = 2"

definition window_set_name :: "addr \<Rightarrow> addr \<Rightarrow> 'a gui_state_scheme \<Rightarrow> 'a gui_state_scheme result" where
  "window_set_name p name s =
     (if p = NULL then Inr s
      else bindr (strlen (bytes s) name) (\<lambda>n.
        bindr (malloc (n + 1) s) (\<lambda>(t, s).
        bindr (update_window p (win_name_update (\<lambda>_. t)) s) (\<lambda>s.
          Inr (if t \<noteq> NULL then s\<lparr>bytes := memcpy (bytes s) name t (n + 1)\<rparr> else s)))))"

definition window_get_name :: "addr \<Rightarrow> 'a gui_state_scheme \<Rightarrow> addr result" where
  "window_get_name p s = bindr (deref (windows s) p) (\<lambda>w. Inr (win_name w))"

definition window_set_type :: "addr \<Rightarrow> window_type \<Rightarrow> 'a gui_state_scheme \<Rightarrow> 'a gui_state_scheme result" where
  "window_set_type p t s = update_window p (win_type_update (\<lambda>_. t)) s"

definition window_get_type :: "addr \<Rightarrow> 'a gui_state_scheme \<Rightarrow> window_type result" where
  "window_get_type p s = bindr (deref (windows s) p) (\<lambda>w. Inr (win_type w))"

definition window_move :: "addr \<Rightarrow> u32 \<Rightarrow> u32 \<Rightarrow> 'a gui_state_scheme \<Rightarrow> 'a gui_state_scheme result" where
  "window_move p x y s = widget_move p x y s"

definition window_widget :: "u32 \<Rightarrow> u32 \<Rightarrow> u32 \<Rightarrow> widget" where
  "window_widget screen_w w h = set_padding 2 2 2 2
     (zero_widget\<lparr>w_class := W_WINDOW, w_x := (screen_w - w) div 2 + WINDOW_DECORATION_BORDER, w_y := 10 + WINDOW_DECORATION_BAR,
        w_w := w, w_h := h, visible := W_VIS_PARENT, fgcolor := 0, bgcolor := 0xE0E0E0, OnKeyUp := Some Window_key_up,
        OnKeyDown := Some Window_key_down, OnMouseMove := Some Window_mouse_move, OnMouseEvent := Some Window_mouse_event\<rparr>)"

text \<open>\<open>sizeof(struct window)\<close> is 142.\<close>

definition window_create :: "(string \<Rightarrow> addr) \<Rightarrow> u32 \<Rightarrow> u32 \<Rightarrow> 'a gui_state_scheme \<Rightarrow> (addr \<times> 'a gui_state_scheme) result" where
  "window_create lits w h s =
     bindr (malloc 142 s) (\<lambda>(p, s).
       if p = NULL then Inr (NULL, s)
       else bindr (window_set_name p (lits ''DiyOS'')
           (s\<lparr>widgets := (widgets s)(p \<mapsto> window_widget (gfx_width s) w h),
              windows := (windows s)(p \<mapsto> \<lparr>win_active = 0, win_focus = NULL, win_name = NULL, win_type = WINDOW_TOPLEVEL\<rparr>)\<rparr>)) (\<lambda>s.
         bindr (widget_set_parent p (gui_widget_root s) s) (\<lambda>s. Inr (p, s))))"

definition gui_center_window :: "addr \<Rightarrow> 'a gui_state_scheme \<Rightarrow> 'a gui_state_scheme result" where
  "gui_center_window p s =
     bindr (deref (widgets s) p) (\<lambda>x. window_move p ((gfx_width s - w_w x) div 2) ((gfx_height s - w_h x) div 2) s)"

section \<open>What an edit holds\<close>

text \<open>
  \<open>edit_holds s p xs\<close>: the edit at \<open>p\<close> has its 33 bytes in memory, and the characters before the cursor
  are \<open>xs\<close>. \<open>press\<close> is what a key does to the characters: 8 takes the last one away, any other is
  added when there is room for it.
\<close>

definition edit_holds :: "'a gui_state_scheme \<Rightarrow> addr \<Rightarrow> u8 list \<Rightarrow> bool" where
  "edit_holds s p xs \<longleftrightarrow> widgets s p \<noteq> None \<and> (\<exists>e. edits s p = Some e \<and> edt_length e = 32 \<and> fits (edt_text e) 33 \<and>
     length xs \<le> 32 \<and> edt_cursor e = of_nat (length xs) \<and> bytes_at (bytes s) (edt_text e) xs)"

definition press :: "u32 \<Rightarrow> u8 list \<Rightarrow> u8 list" where
  "press key xs = (if (ucast key :: u8) = 8 then butlast xs else if length xs < 32 then xs @ [ucast key] else xs)"

fun keydowns :: "addr \<Rightarrow> u32 list \<Rightarrow> 'a gui_state_scheme \<Rightarrow> 'a gui_state_scheme result" where
  "keydowns p [] s = Inr s"
| "keydowns p (k # ks) s = bindr (edit_keydown p k s) (keydowns p ks)"

lemma call_user_id [simp]: "call_user f p key s = s"
  by (simp add: call_user_def key_up_def window_destroy_def widget_unset_parent_def split: option.splits user_fn.splits)

lemma small_cursor: "n \<le> 32 \<Longrightarrow> unat (of_nat n :: u8) = n" "n \<le> 32 \<Longrightarrow> ucast (of_nat n :: u8) = (of_nat n :: addr)"
proof -
  assume n: "n \<le> 32"
  then show u: "unat (of_nat n :: u8) = n" by (simp add: unat_of_nat)
  then show "ucast (of_nat n :: u8) = (of_nat n :: addr)"
    using n by (intro word_unat_eq_iff [THEN iffD2]) (simp add: unat_ucast_up unat_of_nat)
qed

lemma bytes_at_update_after:
  assumes "fits p k" "length xs \<le> j" "j < k" "bytes_at m p xs"
  shows "bytes_at (m(p + of_nat j := v)) p xs"
proof -
  have "p + of_nat i \<noteq> p + of_nat j" if "i < length xs" for i
    using that assms unat_offset [of p k i] unat_offset [of p k j] by auto
  then show ?thesis using assms(4) by (simp add: bytes_at_iff)
qed

lemma bytes_at_snoc: "bytes_at m p (xs @ [v]) \<longleftrightarrow> bytes_at m p xs \<and> m (p + of_nat (length xs)) = v"
  by (auto simp: bytes_at_iff nth_append less_Suc_eq)

lemma edit_keydown_presses:
  assumes "edit_holds s p xs"
  shows "\<exists>s'. edit_keydown p key s = Inr s' \<and> edit_holds s' p (press key xs) \<and>
    map_option edt_text (edits s' p) = map_option edt_text (edits s p) \<and> widgets s' = widgets s \<and>
    (\<forall>a. \<not> within (edt_text (the (edits s p))) 32 a \<longrightarrow> bytes s' a = bytes s a)"
proof -
  obtain e x where e: "edits s p = Some e" "edt_length e = 32" "fits (edt_text e) 33" "length xs \<le> 32"
      "edt_cursor e = of_nat (length xs)" "bytes_at (bytes s) (edt_text e) xs" and x: "widgets s p = Some x"
    using assms by (auto simp: edit_holds_def)
  note cur = small_cursor [OF e(4)]
  have ne: "\<not> within (edt_text e) 32 a \<Longrightarrow> j < 32 \<Longrightarrow> a \<noteq> edt_text e + of_nat j" for a j
    using within_offset [of "edt_text e" 32 j] fits_mono [OF e(3), of 32] by auto
  show ?thesis
  proof (cases "(ucast key :: u8) = 8")
    case bsp: True
    show ?thesis
    proof (cases xs rule: rev_cases)
      case Nil
      then have "edt_cursor e = 0" using e by simp
      then show ?thesis using assms bsp e x Nil by (simp add: edit_keydown_def press_def)
    next
      case (snoc ys y)
      have c: "edt_cursor e - 1 = of_nat (length ys)" "0 < edt_cursor e" "length ys < 32"
        using e(4,5) snoc cur(1) by (simp_all add: word_less_nat_alt)
      let ?e = "e\<lparr>edt_cursor := of_nat (length ys)\<rparr>"
      let ?s = "s\<lparr>edits := (edits s)(p \<mapsto> ?e), bytes := (bytes s)(edt_text e + of_nat (length ys) := 0)\<rparr>"
      have "edit_keydown p key s = Inr ?s"
        using bsp e(1) x c small_cursor(2) [of "length ys"] by (simp add: edit_keydown_def Let_def)
      moreover have "bytes_at (bytes ?s) (edt_text e) ys"
        using bytes_at_update_after [OF e(3), of ys "length ys"] c(3) e(6) snoc by (simp add: bytes_at_snoc)
      ultimately show ?thesis using e x c(3) bsp snoc ne [OF _ c(3)]
        by (intro exI [of _ ?s]) (simp add: edit_holds_def press_def)
    qed
  next
    case char: False
    show ?thesis
    proof (cases "length xs < 32")
      case True
      then have lt: "\<not> edt_length e \<le> edt_cursor e" using e cur(1) by (simp add: word_le_nat_alt)
      let ?e = "e\<lparr>edt_cursor := of_nat (length xs) + 1\<rparr>"
      let ?s = "s\<lparr>bytes := (bytes s)(edt_text e + of_nat (length xs) := ucast key), edits := (edits s)(p \<mapsto> ?e)\<rparr>"
      have "edit_keydown p key s = Inr ?s" using char lt e x cur by (simp add: edit_keydown_def)
      moreover have "bytes_at (bytes ?s) (edt_text e) (xs @ [ucast key])"
        using bytes_at_update_after [OF e(3) order_refl] True e(6) by (simp add: bytes_at_snoc)
      ultimately show ?thesis using e x char True ne [OF _ True]
        by (intro exI [of _ ?s]) (simp add: edit_holds_def press_def add.commute)
    next
      case False
      then have "edt_length e \<le> edt_cursor e" using e cur(1) by (simp add: word_le_nat_alt)
      then show ?thesis using assms char False e x by (simp add: edit_keydown_def press_def)
    qed
  qed
qed

text \<open>
  C31: typing into an edit refines a list of at most 32 characters: after any sequence of keys the
  characters before the cursor are what the keys make of them, and no byte outside the first 32 of
  its buffer changed.
\<close>

theorem edit_keys_refine:
  assumes "edit_holds s p xs" "edits s p = Some e"
  shows "\<exists>s'. keydowns p ks s = Inr s' \<and> edit_holds s' p (fold press ks xs) \<and>
    (\<forall>a. \<not> within (edt_text e) 32 a \<longrightarrow> bytes s' a = bytes s a)"
  using assms
proof (induction ks arbitrary: s xs e)
  case Nil
  then show ?case by simp
next
  case (Cons k ks)
  obtain s1 where s1: "edit_keydown p k s = Inr s1" "edit_holds s1 p (press k xs)"
      "map_option edt_text (edits s1 p) = Some (edt_text e)" "\<forall>a. \<not> within (edt_text e) 32 a \<longrightarrow> bytes s1 a = bytes s a"
    using edit_keydown_presses [OF Cons.prems(1), of k] Cons.prems(2) by auto
  then obtain e1 where e1: "edits s1 p = Some e1" "edt_text e1 = edt_text e" by auto
  from Cons.IH [OF s1(2) e1(1)] show ?case using s1 e1 by auto
qed

text \<open>A character typed at the end is not followed by a NUL: the byte behind it stays what it was.\<close>

theorem edit_typed_unterminated:
  assumes "edit_holds s p xs" "length xs < 32" "edits s p = Some e" "(ucast key :: u8) \<noteq> 8"
    and "bytes s (edt_text e + of_nat (length xs + 1)) \<noteq> 0"
  shows "\<exists>s'. edit_keydown p key s = Inr s' \<and> \<not> string_at (bytes s') (edt_text e) (xs @ [ucast key])"
proof -
  have w: "widgets s p \<noteq> None" "edt_length e = 32" "edt_cursor e = of_nat (length xs)" "fits (edt_text e) 33"
    using assms(1,3) by (auto simp: edit_holds_def)
  note cur = small_cursor [of "length xs"]
  have "edt_text e + of_nat (length xs + 1) \<noteq> edt_text e + of_nat (length xs)"
    using assms(2) unat_offset [OF w(4), of "length xs"] unat_offset [OF w(4), of "length xs + 1"] by auto
  then have ne: "of_nat (length xs) + 1 \<noteq> (of_nat (length xs) :: addr)" by simp
  have "\<not> edt_length e \<le> edt_cursor e" using w assms(2) cur(1) by (simp add: word_le_nat_alt)
  then show ?thesis using assms w cur
    by (auto simp: edit_keydown_def string_at_iff add.commute [of 1])
qed

section \<open>Setting the text of an edit\<close>

lemma bytes_at_take:
  "bytes_at m p xs \<Longrightarrow> bytes_at m p (take k xs)"
  by (simp add: bytes_at_iff)

text \<open>The first 33 iterations copy; the source and the 34 bytes from the buffer on are apart.\<close>

lemma set_text_overruns:
  assumes "bytes_at m src xs" "0 \<notin> set xs" "length xs = 33" "fits src 33" "fits dst 34" "apart src 33 dst 34"
    and "j \<le> 32" "33 - j \<le> n"
    and "\<forall>i < 33. m' (src + of_nat i) = m (src + of_nat i)" "\<forall>i < j. m' (dst + of_nat i) = xs ! i"
  shows "\<exists>m''. set_text_loop n m' dst src 32 (of_nat j) = Inr (m'', 33) \<and> m'' (dst + 33) = 0 \<and>
    (\<forall>i < 33. m'' (dst + of_nat i) = xs ! i) \<and> (\<forall>a. \<not> within dst 34 a \<longrightarrow> m'' a = m' a)"
  using assms(7-)
proof (induction "32 - j" arbitrary: j n m')
  case 0
  then have j: "j = 32" by simp
  obtain k where k: "n = Suc k" using 0 by (cases n) auto
  have c: "ucast (32 :: u8) = (32 :: addr)" "ucast (33 :: u8) = (33 :: addr)" by simp_all
  have "m' (src + 32) = xs ! 32"
    using 0(4) [rule_format, of 32] assms(1) [unfolded bytes_at_iff, rule_format, of 32] assms(3) by simp
  then have x: "m' (src + 32) = xs ! 32" "xs ! 32 \<noteq> 0" using assms(2,3) nth_mem [of 32 xs] by force+
  have d: "dst + of_nat i \<noteq> dst + 33" "i < 32 \<Longrightarrow> dst + of_nat i \<noteq> dst + 32" if "i < 33" for i
    using that unat_offset [OF assms(5), of i] unat_offset [OF assms(5), of 33] unat_offset [OF assms(5), of 32] by auto
  let ?m = "m'(dst + 32 := xs ! 32, dst + 33 := 0)"
  have "set_text_loop n m' dst src 32 (of_nat j) = Inr (?m, 33)"
    using x by (simp add: k j c Let_def)
  moreover have "?m (dst + of_nat i) = xs ! i" if "i < 33" for i
    using 0(5) d [OF that] that j by (cases "i = 32") auto
  moreover have "?m a = m' a" if "\<not> within dst 34 a" for a
    using that within_offset [OF assms(5), of 32] within_offset [OF assms(5), of 33] by auto
  moreover have "?m (dst + 33) = 0" by simp
  ultimately show ?case by blast
next
  case (Suc r)
  then have j: "j < 32" by simp
  obtain k where k: "n = Suc k" using Suc by (cases n) auto
  note cur = small_cursor [of j]
  have x: "m' (src + of_nat j) = xs ! j" "xs ! j \<noteq> 0"
    using Suc.prems(3) assms(1-3) j nth_mem [of j xs] by (auto simp: bytes_at_iff in_set_conv_nth)
  have c1: "of_nat j + 1 = (of_nat (Suc j) :: u8)" by simp
  have lt: "\<not> (32 :: u8) < of_nat (Suc j)" using small_cursor(1) [of "Suc j"] j by (simp add: word_less_nat_alt)
  let ?m = "m'(dst + of_nat j := xs ! j)"
  have d: "dst + of_nat i \<noteq> dst + of_nat j" if "i < j" for i
    using that j unat_offset [OF assms(5), of i] unat_offset [OF assms(5), of j] by auto
  have sd: "src + of_nat i \<noteq> dst + of_nat j" if "i < 33" for i
    using apart_not_within [OF assms(6) within_offset [OF assms(5)], of j] within_offset [OF assms(4) that] j by auto
  have step: "set_text_loop n m' dst src 32 (of_nat j) = set_text_loop k ?m dst src 32 (of_nat (Suc j))"
    using x cur j lt by (simp only: k set_text_loop.simps Let_def c1) simp
  have "\<exists>m''. set_text_loop k ?m dst src 32 (of_nat (Suc j)) = Inr (m'', 33) \<and> m'' (dst + 33) = 0 \<and>
    (\<forall>i < 33. m'' (dst + of_nat i) = xs ! i) \<and> (\<forall>a. \<not> within dst 34 a \<longrightarrow> m'' a = ?m a)"
    by (rule Suc.hyps(1)) (use Suc.hyps(2) Suc.prems j k sd d in \<open>auto simp: less_Suc_eq\<close>)
  then show ?case unfolding step
    using within_offset [OF assms(5), of j] j by (elim exE) (rule exI, auto)
qed

text \<open>
  C32: a text of 33 or more characters overruns the 33-byte buffer of an edit: \<open>edit_set_text\<close> copies 33
  characters, leaves the cursor behind the maximum length, and writes the NUL one byte behind the
  buffer.
\<close>

theorem edit_set_text_overruns:
  assumes "edits s p = Some e" "edt_length e = 32" "bytes_at (bytes s) str xs" "0 \<notin> set xs" "length xs = 33"
    and "fits str 33" "fits (edt_text e) 34" "apart str 33 (edt_text e) 34"
  shows "\<exists>s' e'. edit_set_text p str s = Inr s' \<and> edits s' p = Some e' \<and> edt_cursor e' = 33 \<and>
    bytes_at (bytes s') (edt_text e) xs \<and> bytes s' (edt_text e + 33) = 0"
proof -
  obtain m' where m': "set_text_loop addr_space (bytes s) (edt_text e) str 32 0 = Inr (m', 33)" "m' (edt_text e + 33) = 0"
      "\<forall>i < 33. m' (edt_text e + of_nat i) = xs ! i"
    using set_text_overruns [OF assms(3-8), of 0 addr_space "bytes s"] by (auto simp: addr_space_def)
  then show ?thesis using assms(1,2,5) by (simp add: edit_set_text_def bytes_at_iff)
qed

section \<open>Examples\<close>

lemma desk_edit: "edit_holds desk 0x400 []" "edits desk 0x400 = Some \<lparr>edt_text = 0x500, edt_mask = 0, edt_length = 32, edt_cursor = 0\<rparr>"
  by (simp_all add: edit_holds_def desk_simps fits_def)

theorem edit_keys_refine_witness:
  "\<exists>s'. keydowns 0x400 [0x61, 0x62, 8, 0x63] desk = Inr s' \<and> edit_holds s' 0x400 [0x61, 0x63]"
  using edit_keys_refine [where ks = "[0x61, 0x62, 8, 0x63]", OF desk_edit] by (auto simp: press_def)

text \<open>33 letters \<open>a\<close> at 1000.\<close>

definition long_path :: gui_state where
  "long_path = desk\<lparr>bytes := \<lambda>a. if 0x1000 \<le> a \<and> a < 0x1021 then 0x61 else 0\<rparr>"

theorem edit_set_text_overruns_witness:
  "\<exists>s' e'. edit_set_text 0x400 0x1000 long_path = Inr s' \<and> edits s' 0x400 = Some e' \<and> edt_cursor e' = 33 \<and> bytes s' 0x521 = 0"
proof -
  let ?e = "\<lparr>edt_text = 0x500, edt_mask = 0, edt_length = 32, edt_cursor = 0 :: u8\<rparr>"
  let ?xs = "replicate 33 0x61 :: u8 list"
  have e: "edits long_path 0x400 = Some ?e" "edt_length ?e = 32" using desk_edit(2) by (simp_all add: long_path_def)
  have u: "unat (0x1000 + of_nat i :: addr) = 4096 + i" if "i < 33" for i
    using unat_offset [of "0x1000" 33 i] that by (simp add: fits_def)
  have "bytes_at (bytes long_path) 0x1000 ?xs"
    using u by (auto simp: bytes_at_iff long_path_def word_le_nat_alt word_less_nat_alt)
  moreover have "fits 0x1000 33" "fits (edt_text ?e) 34" "apart 0x1000 33 (edt_text ?e) 34" by (simp_all add: fits_def apart_def)
  ultimately show ?thesis using edit_set_text_overruns [where str = "0x1000" and xs = ?xs, OF e] by auto
qed

end
