(* ===== verification/Images.thy ===== *)
theory Images
  imports Widget
begin

text \<open>
  gui/util/bmp.c, gui/util/iconset.c and gui/desktop/wallpaper.c: bitmaps read from files.

  A \<open>bmp_image_t\<close> is the file's bytes in memory, whose header is packed: \<open>total_size\<close> at offset 2,
  \<open>offset\<close> at 10, \<open>width\<close> at 18, \<open>height\<close> at 22, \<open>bpp\<close> at 28 and \<open>data\<close>, which is not part of the file
  format, at 54. The header read first goes to a variable at the address \<open>hdr\<close>; \<open>frame\<close> is the
  parameter of \<open>sys_read\<close>. Messages printed are left out.
\<close>

section \<open>gui/util/bmp.c\<close>

fun reverse_loop :: "nat \<Rightarrow> u8 \<Rightarrow> nat \<Rightarrow> u8 \<Rightarrow> u8" where
  "reverse_loop 0 num i r = r"
| "reverse_loop (Suc n) num i r =
     reverse_loop n num (i + 1) (if num AND push_bit i 1 \<noteq> 0 then r OR push_bit (8 - 1 - i) 1 else r)"

definition reverse_bits :: "u8 \<Rightarrow> u8" where
  "reverse_bits num = reverse_loop 8 num 0 0"

definition sizeof_bmp :: u32 where "sizeof_bmp = 58"

definition bmp_total_size :: "mem \<Rightarrow> addr \<Rightarrow> u32" where "bmp_total_size m p = load32 m (p + 2)"
definition bmp_offset :: "mem \<Rightarrow> addr \<Rightarrow> u32" where "bmp_offset m p = load32 m (p + 10)"
definition bmp_width :: "mem \<Rightarrow> addr \<Rightarrow> u32" where "bmp_width m p = load32 m (p + 18)"
definition bmp_height :: "mem \<Rightarrow> addr \<Rightarrow> u32" where "bmp_height m p = load32 m (p + 22)"
definition bmp_bpp :: "mem \<Rightarrow> addr \<Rightarrow> u16" where "bmp_bpp m p = load16 m (p + 28)"
definition bmp_data :: "mem \<Rightarrow> addr \<Rightarrow> addr" where "bmp_data m p = load32 m (p + 54)"

text \<open>\<open>fd\<close> is unsigned in the code, so that the test \<open>fd < 0\<close> is never true.\<close>

definition bmp_image_from_file :: "addr \<Rightarrow> addr \<Rightarrow> addr \<Rightarrow> 'a fs_state_scheme \<Rightarrow> (addr \<times> 'a fs_state_scheme) result" where
  "bmp_image_from_file frame hdr name s =
     bindr (sys_open name s) (\<lambda>(r, s).
       let fd = of_int r :: u32
       in bindr (sys_read frame fd hdr sizeof_bmp s) (\<lambda>(sz, s).
            if sz \<noteq> sizeof_bmp then Inr (NULL, s)
            else bindr (malloc (bmp_total_size (bytes s) hdr) s) (\<lambda>(bmp, s).
              if bmp = NULL then Inr (NULL, s)
              else bindr (sys_read frame fd bmp (bmp_total_size (bytes s) hdr) s) (\<lambda>(sz, s).
                if sz \<noteq> bmp_total_size (bytes s) bmp then Inr (NULL, free bmp s)
                else
                  let s = s\<lparr>bytes := store32 (bytes s) (bmp + 54) (bmp + bmp_offset (bytes s) bmp)\<rparr>
                  in Inr (bmp, if 0 < sint (bmp_height (bytes s) hdr) then s
                       else s\<lparr>bytes := store32 (bytes s) (hdr + 22) (- bmp_height (bytes s) hdr)\<rparr>)))))"

section \<open>gui/util/iconset.c\<close>

text \<open>A wrong image is freed, twice when both tests fail, and used all the same.\<close>

definition iconset :: "addr \<Rightarrow> addr \<Rightarrow> addr \<Rightarrow> u32 \<Rightarrow> u32 \<Rightarrow> 'a gui_state_scheme \<Rightarrow> 'a gui_state_scheme result" where
  "iconset frame hdr name w h s =
     bindr (bmp_image_from_file frame hdr name s) (\<lambda>(img, s).
       let s = s\<lparr>iconset_image := img\<rparr>
       in if img = NULL then Inr s
          else
            let s = (if bmp_bpp (bytes s) img \<noteq> 32 then free img s else s)
            in guardr (w \<noteq> 0 \<and> (bmp_width (bytes s) img mod w \<noteq> 0 \<or> h \<noteq> 0)) DivideError
                 (let s = (if bmp_width (bytes s) img mod w \<noteq> 0 \<or> bmp_height (bytes s) img mod h \<noteq> 0 then free img s else s)
                  in Inr (s\<lparr>icon_w := w, icon_h := h\<rparr>)))"

fun icon_rows :: "nat \<Rightarrow> addr \<Rightarrow> u32 \<Rightarrow> u32 \<Rightarrow> u32 \<Rightarrow> u32 \<Rightarrow> u32 \<Rightarrow> 'a gui_state_scheme \<Rightarrow> 'a gui_state_scheme result" where
  "icon_rows 0 img row col x y i s = Inr s"
| "icon_rows (Suc n) img row col x y i s =
     bindr (gfx_draw_data_with_alfa
         (bmp_data (bytes s) img + 4 * ((i + row * icon_h s) * bmp_width (bytes s) img + col * icon_w s)) (icon_w s) 1 x (y + i) s)
       (icon_rows n img row col x y (i + 1))"

definition iconset_draw :: "u32 \<Rightarrow> u32 \<Rightarrow> u32 \<Rightarrow> u32 \<Rightarrow> 'a gui_state_scheme \<Rightarrow> 'a gui_state_scheme result" where
  "iconset_draw row col x y s =
     guardr (iconset_image s \<noteq> NULL) BadPointer
       (if bmp_width (bytes s) (iconset_image s) < (col + 1) * icon_w s \<or> bmp_height (bytes s) (iconset_image s) < (row + 1) * icon_h s
        then Inr s
        else icon_rows (unat (icon_h s)) (iconset_image s) row col x y 0 s)"

section \<open>gui/desktop/wallpaper.c\<close>

definition wallpaper :: "(string \<Rightarrow> addr) \<Rightarrow> addr \<Rightarrow> addr \<Rightarrow> 'a gui_state_scheme \<Rightarrow> 'a gui_state_scheme result" where
  "wallpaper lits frame hdr s =
     bindr (bmp_image_from_file frame hdr (lits ''/ram/ui/wallpaper.bmp'') s) (\<lambda>(img, s).
       let s = s\<lparr>wl_image := img\<rparr>
       in Inr (if img \<noteq> NULL \<and> bmp_bpp (bytes s) img \<noteq> 32 then free img s else s))"

definition wallpaper_draw_all :: "'a gui_state_scheme \<Rightarrow> 'a gui_state_scheme result" where
  "wallpaper_draw_all s =
     (let img = wl_image s
      in if img \<noteq> NULL then gfx_draw_data (bmp_data (bytes s) img) (bmp_width (bytes s) img) (bmp_height (bytes s) img) 0 0 s
         else Inr s)"

text \<open>The loop runs while \<open>_y < y + height\<close>.\<close>

fun area_rows :: "nat \<Rightarrow> addr \<Rightarrow> u32 \<Rightarrow> u32 \<Rightarrow> u32 \<Rightarrow> u32 \<Rightarrow> u32 \<Rightarrow> u32 \<Rightarrow> 'a gui_state_scheme \<Rightarrow> 'a gui_state_scheme result" where
  "area_rows 0 img stride p_sz x width i ymax s = Inl Diverge"
| "area_rows (Suc n) img stride p_sz x width i ymax s =
     (if i < ymax then
        bindr (gfx_draw_data (bmp_data (bytes s) img + (i * stride + x * p_sz)) width 1 x i s)
          (area_rows n img stride p_sz x width (i + 1) ymax)
      else Inr s)"

definition wallpaper_draw_area :: "u32 \<Rightarrow> u32 \<Rightarrow> u32 \<Rightarrow> u32 \<Rightarrow> 'a gui_state_scheme \<Rightarrow> 'a gui_state_scheme result" where
  "wallpaper_draw_area x y width height s =
     guardr (wl_image s \<noteq> NULL) BadPointer
       (let img = wl_image s;
            p_sz = ucast (drop_bit 3 (bmp_bpp (bytes s) img));
            stride = bmp_width (bytes s) img * p_sz;
            width = (if bmp_width (bytes s) img < x + width then bmp_width (bytes s) img - x else width);
            height = (if bmp_height (bytes s) img < y + height then bmp_height (bytes s) img - x else height)
        in area_rows addr_space img stride p_sz x width y (y + height) s)"

section \<open>Reversing bits\<close>

lemma reverse_loop_bit:
  "\<lbrakk>i + n = 8; k < 8\<rbrakk> \<Longrightarrow> bit (reverse_loop n num i r) k \<longleftrightarrow> bit r k \<or> (k + i < 8 \<and> bit num (7 - k))"
proof (induction n arbitrary: i r)
  case 0
  then show ?case by simp
next
  case (Suc n)
  have b: "num AND 2 ^ i = 0 \<longleftrightarrow> \<not> bit num i"
    by (simp add: bit_iff_and_push_bit_not_eq_0)
  have "k + i < 8 \<longleftrightarrow> k + (i + 1) < 8 \<or> k = 7 - i" using Suc.prems by auto
  moreover have "k = 7 - i \<Longrightarrow> 7 - k = i" using Suc.prems by simp
  ultimately show ?case using Suc.prems by (auto simp: Suc.IH b bit_simps)
qed

lemma bit_reverse_bits: "k < 8 \<Longrightarrow> bit (reverse_bits num) k \<longleftrightarrow> bit num (7 - k)"
  by (simp add: reverse_bits_def reverse_loop_bit)

text \<open>\<open>reverse_bits\<close> puts each bit at its mirrored place, so reversing twice gives the byte back.\<close>

theorem reverse_bits_involution: "reverse_bits (reverse_bits b) = b"
proof (rule bit_word_eqI)
  fix n assume "n < LENGTH(8)"
  then show "bit (reverse_bits (reverse_bits b)) n = bit b n" by (simp add: bit_reverse_bits)
qed

end
