(* ===== verification/Drawing.thy ===== *)
theory Drawing
  imports Controls Images
begin

text \<open>
  The drawing functions of gui/widgets/*.c: each class of widgets draws itself, and \<open>widget_draw\<close> walks
  down the tree.

  Coordinates are unsigned and wrap. A loop over a text ends at its NUL, or never. The callback
  \<open>OnPaint\<close> is never set by the sources; \<open>call\<close> is the call of a function at an address.
\<close>

section \<open>The classes\<close>

fun title_loop :: "nat \<Rightarrow> addr \<Rightarrow> u32 \<Rightarrow> u32 \<Rightarrow> u32 \<Rightarrow> u32 \<Rightarrow> u32 \<Rightarrow> 'a gui_state_scheme \<Rightarrow> 'a gui_state_scheme result" where
  "title_loop 0 name x0 y0 fg bg i s = Inl Diverge"
| "title_loop (Suc n) name x0 y0 fg bg i s =
     (if bytes s (name + i) \<noteq> 0 then
        bindr (gfx_putchar (x0 + i * 8) y0 fg bg (bytes s (name + i)) s) (title_loop n name x0 y0 fg bg (i + 1))
      else Inr s)"

definition window_draw :: "addr \<Rightarrow> 'a gui_state_scheme \<Rightarrow> 'a gui_state_scheme result" where
  "window_draw p s =
     (if p = NULL then Inr s
      else bindr (deref (windows s) p) (\<lambda>v.
        let border = (if win_active v = 1 then 0x404040 else 0x202020);
            tbar = (if win_active v = 1 then 0x202060 else 0x404040);
            title = (if win_active v = 1 then 0xC4C4C4 else 0x808080)
        in bindr (widget_absolute_xy p s) (\<lambda>(x0, y0).
           bindr (deref (widgets s) p) (\<lambda>x.
           bindr (gfx_rect (x0 - WINDOW_DECORATION_BORDER + WINDOW_SHADOW_SIZE) (y0 - WINDOW_DECORATION_BAR + WINDOW_SHADOW_SIZE)
                   (x0 + w_w x + WINDOW_DECORATION_BORDER + WINDOW_SHADOW_SIZE)
                   (y0 + w_h x + WINDOW_DECORATION_BORDER + WINDOW_SHADOW_SIZE) 0x606060 s) (\<lambda>s.
           bindr (gfx_rect (x0 - WINDOW_DECORATION_BORDER) (y0 - WINDOW_DECORATION_BAR)
                   (x0 + w_w x + WINDOW_DECORATION_BORDER) (y0 + w_h x + WINDOW_DECORATION_BORDER) border s) (\<lambda>s.
           bindr (gfx_rect x0 (y0 + WINDOW_DECORATION_BORDER - WINDOW_DECORATION_BAR) (x0 + w_w x)
                   (y0 - WINDOW_DECORATION_BORDER * 2) tbar s) (\<lambda>s.
           bindr (gfx_rect x0 y0 (x0 + w_w x) (y0 + w_h x) (bgcolor x) s) (\<lambda>s.
             if win_name v \<noteq> NULL then
               title_loop addr_space (win_name v) (x0 + 1) (y0 + (WINDOW_DECORATION_BORDER + 1 - WINDOW_DECORATION_BAR)) title tbar 0 s
             else Inr s))))))))"

text \<open>
  The text of a label: \<open>x\<close> counts columns and \<open>y\<close> pixels. \<open>WORD_WRAP\<close> is treated as \<open>CHAR_WRAP\<close>; \<open>par\<close> is the
  parent and \<open>w\<close> the label's widget.
\<close>

fun label_loop :: "nat \<Rightarrow> label \<Rightarrow> widget \<Rightarrow> widget \<Rightarrow> u32 \<Rightarrow> u32 \<Rightarrow> u32 \<Rightarrow> u32 \<Rightarrow> u32 \<Rightarrow> 'a gui_state_scheme \<Rightarrow>
    'a gui_state_scheme result" where
  "label_loop 0 l w par x0 y0 x y i s = Inl Diverge"
| "label_loop (Suc n) l w par x0 y0 x y i s =
     (if bytes s (lbl_text l + i) = 0 then Inr s
      else
        let full = w_w par - padding_left par - padding_right par < (x + 1) * 8 + padding_left w + padding_right w
        in if lbl_wordwrap l = NO_WRAP \<and> full then Inr s
           else
             let (x, y) = (if full then (0, y + (8 + ucast (lbl_linespace l))) else (x, y))
             in if w_h par - padding_top par - padding_bottom par < y then Inr s
                else bindr (gfx_putchar (x0 + x * 8) (y0 + y) (fgcolor w) (bgcolor w) (bytes s (lbl_text l + i)) s)
                  (label_loop n l w par x0 y0 (x + 1) y (i + 1)))"

definition label_draw :: "addr \<Rightarrow> 'a gui_state_scheme \<Rightarrow> 'a gui_state_scheme result" where
  "label_draw p s =
     bindr (deref (widgets s) p) (\<lambda>w.
       if w_parent w = NULL then Inr s
       else bindr (widget_absolute_xy p s) (\<lambda>(x0, y0).
         bindr (gfx_rect x0 y0 (x0 + w_w w) (y0 + w_h w) (bgcolor w) s) (\<lambda>s.
         bindr (deref (labels s) p) (\<lambda>l.
           if lbl_text l = NULL then Inr s
           else bindr (deref (widgets s) (w_parent w)) (\<lambda>par.
             label_loop addr_space l w par (x0 + padding_left w) (y0 + padding_top w) 0 0 0 s)))))"

fun edit_loop :: "nat \<Rightarrow> edit \<Rightarrow> widget \<Rightarrow> u32 \<Rightarrow> u32 \<Rightarrow> u32 \<Rightarrow> u32 \<Rightarrow> 'a gui_state_scheme \<Rightarrow> 'a gui_state_scheme result" where
  "edit_loop 0 e w x0 y0 x i s = Inl Diverge"
| "edit_loop (Suc n) e w x0 y0 x i s =
     (if bytes s (edt_text e + i) = 0 \<or> w_w w < x + 8 then Inr s
      else bindr (gfx_putchar (x0 + x + 2) (y0 + 2) (fgcolor w) (bgcolor w)
          (if edt_mask e = 0 then bytes s (edt_text e + i) else edt_mask e) s)
        (edit_loop n e w x0 y0 (x + 8) (i + 1)))"

definition edit_draw :: "addr \<Rightarrow> 'a gui_state_scheme \<Rightarrow> 'a gui_state_scheme result" where
  "edit_draw p s =
     (if p = NULL then Inr s
      else bindr (deref (widgets s) p) (\<lambda>w.
        if w_parent w = NULL then Inr s
        else bindr (widget_absolute_xy p s) (\<lambda>(x0, y0).
          bindr (gfx_rect x0 y0 (x0 + w_w w) (y0 + w_h w) 0x404040 s) (\<lambda>s.
          bindr (gfx_rect (x0 + 1) (y0 + 1) (x0 + w_w w - 1) (y0 + w_h w - 1) (bgcolor w) s) (\<lambda>s.
          bindr (deref (edits s) p) (\<lambda>e. edit_loop addr_space e w x0 y0 0 0 s))))))"

definition button_draw :: "addr \<Rightarrow> 'a gui_state_scheme \<Rightarrow> 'a gui_state_scheme result" where
  "button_draw p s =
     (if p = NULL then Inr s
      else bindr (deref (widgets s) p) (\<lambda>w.
        if w_parent w = NULL then Inr s
        else bindr (widget_absolute_xy p s) (\<lambda>(x0, y0).
          bindr (deref (buttons s) p) (\<lambda>b.
          bindr (if btn_pressed b = 0 then gfx_rect (x0 + 1) (y0 + 1) (x0 + w_w w) (y0 + w_h w) 0x404040 s else Inr s) (\<lambda>s.
            gfx_rect (x0 + ucast (btn_pressed b)) (y0 + ucast (btn_pressed b)) (x0 + w_w w - 1 + ucast (btn_pressed b))
              (y0 + w_h w - 1 + ucast (btn_pressed b)) (bgcolor w) s)))))"

text \<open>
  One name of a file navigator; \<open>None\<close> when the function returns because the line is below the parent. \<open>f\<close>
  is the number of the file, compared with the signed \<open>selected\<close> as an unsigned number.
\<close>

fun name_line :: "nat \<Rightarrow> addr \<Rightarrow> file_navigator \<Rightarrow> widget \<Rightarrow> widget \<Rightarrow> u32 \<Rightarrow> u32 \<Rightarrow> u32 \<Rightarrow> u32 \<Rightarrow> u32 \<Rightarrow> u32 \<Rightarrow>
    'a gui_state_scheme \<Rightarrow> (bool \<times> 'a gui_state_scheme) result" where
  "name_line 0 str nav w par x0 y0 x y i f s = Inl Diverge"
| "name_line (Suc n) str nav w par x0 y0 x y i f s =
     (if bytes s (str + i) = 0 then Inr (True, s)
      else if w_w par - padding_left par - padding_right par < (x + 1) * 8 + padding_left w + padding_right w then Inr (True, s)
      else if w_h par - padding_top par - padding_bottom par < y then Inr (False, s)
      else bindr (gfx_putchar (x0 + x * 8 + 4) (y0 + y + 6) (fgcolor w) (if fn_selected nav = f then 0xFFDEAD else bgcolor w)
          (bytes s (str + i)) s)
        (name_line n str nav w par x0 y0 (x + 1) y (i + 1) f))"

fun file_lines :: "nat \<Rightarrow> file_navigator \<Rightarrow> widget \<Rightarrow> widget \<Rightarrow> u32 \<Rightarrow> u32 \<Rightarrow> u32 \<Rightarrow> u32 \<Rightarrow> 'a gui_state_scheme \<Rightarrow>
    'a gui_state_scheme result" where
  "file_lines 0 nav w par x0 y0 y f s = Inl Diverge"
| "file_lines (Suc n) nav w par x0 y0 y f s =
     bindr (list_get (fn_files nav) f s) (\<lambda>l.
       if l = NULL then Inr s
       else bindr (deref (lnodes s) l) (\<lambda>nd.
         bindr (deref (dirents s) (l_data nd)) (\<lambda>d.
         bindr (iconset_draw 6 (if d_flags d AND FS_DIRECTORY \<noteq> 0 then 1 else 2) x0 (y0 + y) s) (\<lambda>s.
         bindr (name_line addr_space (l_data nd) nav w par x0 y0 2 y 0 f s) (\<lambda>(more, s).
           if more then file_lines n nav w par x0 y0 (y + 16) (f + 1) s else Inr s)))))"

definition file_navigator_draw :: "addr \<Rightarrow> 'a gui_state_scheme \<Rightarrow> 'a gui_state_scheme result" where
  "file_navigator_draw p s =
     bindr (deref (widgets s) p) (\<lambda>w.
       if w_parent w = NULL then Inr s
       else bindr (widget_absolute_xy p s) (\<lambda>(x0, y0).
         bindr (gfx_rect x0 y0 (x0 + w_w w) (y0 + w_h w) (bgcolor w) s) (\<lambda>s.
         bindr (deref (navigators s) p) (\<lambda>nav.
           if fn_files nav = NULL then Inr s
           else bindr (deref (widgets s) (w_parent w)) (\<lambda>par.
             file_lines addr_space nav w par (x0 + padding_left w) (y0 + padding_top w) 0 0 s)))))"

section \<open>The walk\<close>

text \<open>
  The default case of the switch in \<open>widget_draw\<close>: the rectangle is cut at the parent's inner border,
  where the height is cut to the parent's width.
\<close>

definition plain_draw :: "addr \<Rightarrow> 'a gui_state_scheme \<Rightarrow> 'a gui_state_scheme result" where
  "plain_draw p s =
     bindr (deref (widgets s) p) (\<lambda>w.
       if visible w = W_VIS_PARENT then
         if w_parent w \<noteq> NULL then
           bindr (deref (widgets s) (w_parent w)) (\<lambda>par.
             let x0 = w_x w + padding_left par;
                 x1 = x0 + w_w w;
                 y0 = w_y w + padding_top par;
                 y1 = y0 + w_h w;
                 x1 = (if w_w par - padding_right par < x1 then x1 - (x1 - (w_w par - padding_right par)) else x1);
                 y1 = (if w_h par - padding_bottom par < y1 then y1 - (y1 - (w_w par - padding_bottom par)) else y1)
             in gfx_rect (x0 + w_x par) (y0 + w_y par) (x1 + w_x par) (y1 + w_y par) (bgcolor w) s)
         else gfx_rect (w_x w) (w_y w) (w_x w + w_w w) (w_y w + w_h w) (bgcolor w) s
       else Inr s)"

definition draw_self :: "addr \<Rightarrow> 'a gui_state_scheme \<Rightarrow> 'a gui_state_scheme result" where
  "draw_self p s =
     bindr (deref (widgets s) p) (\<lambda>w.
       if w_class w = W_WINDOW then window_draw p s
       else if w_class w = W_LABEL then label_draw p s
       else if w_class w = W_BUTTON then button_draw p s
       else if w_class w = W_EDIT then edit_draw p s
       else if w_class w = W_FILE_NAVIGATOR then file_navigator_draw p s
       else plain_draw p s)"

text \<open>\<open>widget_draw\<close> and its loop over the children, with the steps left.\<close>

fun draw_widget :: "nat \<Rightarrow> (addr \<Rightarrow> addr \<Rightarrow> 'a gui_state_scheme \<Rightarrow> (u8 \<times> 'a gui_state_scheme) result) \<Rightarrow> addr \<Rightarrow>
      'a gui_state_scheme \<Rightarrow> 'a gui_state_scheme result"
  and draw_children :: "nat \<Rightarrow> (addr \<Rightarrow> addr \<Rightarrow> 'a gui_state_scheme \<Rightarrow> (u8 \<times> 'a gui_state_scheme) result) \<Rightarrow> addr \<Rightarrow>
      'a gui_state_scheme \<Rightarrow> 'a gui_state_scheme result" where
  "draw_widget 0 call p s = Inl Diverge"
| "draw_widget (Suc n) call p s =
     (if p = NULL then Inr s
      else bindr (draw_self p s) (\<lambda>s.
        bindr (deref (widgets s) p) (\<lambda>w.
        bindr (if OnPaint w \<noteq> 0 then call (OnPaint w) p s else Inr (1, s)) (\<lambda>(r, s).
          if r = 0 then Inr s
          else bindr (deref (widgets s) p) (\<lambda>w. draw_children n call (w_child w) s)))))"
| "draw_children 0 call c s = Inl Diverge"
| "draw_children (Suc n) call c s =
     (if c = NULL then Inr s
      else bindr (draw_widget n call c s) (\<lambda>s.
        bindr (deref (widgets s) c) (\<lambda>w. draw_children n call (w_next w) s)))"

definition widget_draw :: "(addr \<Rightarrow> addr \<Rightarrow> 'a gui_state_scheme \<Rightarrow> (u8 \<times> 'a gui_state_scheme) result) \<Rightarrow> addr \<Rightarrow>
    'a gui_state_scheme \<Rightarrow> 'a gui_state_scheme result" where
  "widget_draw call p s = draw_widget (2 * addr_space + 2) call p s"

section \<open>Drawing leaves the widgets alone\<close>

text \<open>\<open>same_gui s s'\<close>: nothing changed but the frame buffer, the bytes and the fields of the driver.\<close>

abbreviation same_gui :: "'a gui_state_scheme \<Rightarrow> 'a gui_state_scheme \<Rightarrow> bool" where
  "same_gui s s' \<equiv> bochs_state.more s' = bochs_state.more s"

lemma same_gui_widgets: "same_gui s s' \<Longrightarrow> widgets s' = widgets s"
  by (cases s; cases s') simp

lemma area_grow_same [simp]: "same_gui s (BOCHS_AREA_GROW x y s)"
  by (simp add: BOCHS_AREA_GROW_def Let_def)

lemma putpixel_same: "bochs_vbe_putpixel_32 x y c s = Inr s' \<Longrightarrow> same_gui s s'"
  by (auto simp: bochs_vbe_putpixel_32_def Let_def elim!: bindr_Inr_elim split: if_splits)

lemma rect_column_same: "rect_column n x y c s = Inr s' \<Longrightarrow> same_gui s s'"
  by (induction n arbitrary: y s) (auto elim!: bindr_Inr_elim dest!: putpixel_same)

lemma rect_columns_same: "rect_columns n m x y c s = Inr s' \<Longrightarrow> same_gui s s'"
  by (induction n arbitrary: x s) (auto elim!: bindr_Inr_elim dest!: rect_column_same)

lemma putchar_column_same: "putchar_column n x y fg bg c i j s = Inr s' \<Longrightarrow> same_gui s s'"
  by (induction n arbitrary: j s) (auto elim!: bindr_Inr_elim dest!: putpixel_same)

lemma putchar_columns_same: "putchar_columns n x y fg bg c i s = Inr s' \<Longrightarrow> same_gui s s'"
  by (induction n arbitrary: i s) (auto elim!: bindr_Inr_elim dest!: putchar_column_same)

lemma gfx_put_pixel_same: "gfx_put_pixel x y c s = Inr s' \<Longrightarrow> same_gui s s'"
  by (auto simp: gfx_put_pixel_def dest: putpixel_same split: gfx_fn.splits)

lemma gfx_rect_same: "gfx_rect x0 y0 x1 y1 c s = Inr s' \<Longrightarrow> same_gui s s'"
  by (auto simp: gfx_rect_def bochs_vbe_rect_def Let_def dest: rect_columns_same split: gfx_fn.splits if_splits)

lemma gfx_putchar_same: "gfx_putchar x y fg bg c s = Inr s' \<Longrightarrow> same_gui s s'"
  by (auto simp: gfx_putchar_def bochs_vbe_putchar_def dest: putchar_columns_same split: gfx_fn.splits)

lemma data_row_same: "data_row n alfa d width x y j i s = Inr s' \<Longrightarrow> same_gui s s'"
  by (induction n arbitrary: i s) (auto simp: Let_def dest!: gfx_put_pixel_same elim!: bindr_Inr_elim split: if_splits)

lemma data_rows_same: "data_rows n alfa d width x y j s = Inr s' \<Longrightarrow> same_gui s s'"
  by (induction n arbitrary: j s) (auto elim!: bindr_Inr_elim dest!: data_row_same)

lemma gfx_draw_alfa_same: "gfx_draw_data_with_alfa d w h x y s = Inr s' \<Longrightarrow> same_gui s s'"
  unfolding gfx_draw_data_with_alfa_def by (rule data_rows_same)

lemma icon_rows_same: "icon_rows n img row col x y i s = Inr s' \<Longrightarrow> same_gui s s'"
  by (induction n arbitrary: i s) (auto elim!: bindr_Inr_elim dest!: gfx_draw_alfa_same)

lemma iconset_draw_same: "iconset_draw row col x y s = Inr s' \<Longrightarrow> same_gui s s'"
  by (auto simp: iconset_draw_def guardr_def dest: icon_rows_same split: if_splits)

lemma title_loop_same: "title_loop n name x0 y0 fg bg i s = Inr s' \<Longrightarrow> same_gui s s'"
  by (induction n arbitrary: i s) (auto dest!: gfx_putchar_same elim!: bindr_Inr_elim split: if_splits)

lemma label_loop_same: "label_loop n l w par x0 y0 x y i s = Inr s' \<Longrightarrow> same_gui s s'"
  by (induction n arbitrary: x y i s) (auto simp: Let_def dest!: gfx_putchar_same elim!: bindr_Inr_elim split: if_splits)

lemma edit_loop_same: "edit_loop n e w x0 y0 x i s = Inr s' \<Longrightarrow> same_gui s s'"
  by (induction n arbitrary: x i s) (auto dest!: gfx_putchar_same elim!: bindr_Inr_elim split: if_splits)

lemma name_line_same: "name_line n str nav w par x0 y0 x y i f s = Inr (r, s') \<Longrightarrow> same_gui s s'"
  by (induction n arbitrary: x i s) (auto dest!: gfx_putchar_same elim!: bindr_Inr_elim split: if_splits)

lemma file_lines_same: "file_lines n nav w par x0 y0 y f s = Inr s' \<Longrightarrow> same_gui s s'"
proof (induction n arbitrary: y f s)
  case (Suc n)
  obtain l where l: "(if l = NULL then Inr s
      else bindr (deref (lnodes s) l) (\<lambda>nd.
        bindr (deref (dirents s) (l_data nd)) (\<lambda>d.
        bindr (iconset_draw 6 (if d_flags d AND FS_DIRECTORY \<noteq> 0 then 1 else 2) x0 (y0 + y) s) (\<lambda>s.
        bindr (name_line addr_space (l_data nd) nav w par x0 y0 2 y 0 f s) (\<lambda>(more, s).
          if more then file_lines n nav w par x0 y0 (y + 16) (f + 1) s else Inr s))))) = Inr s'"
    using Suc.prems unfolding file_lines.simps by (rule bindr_Inr_elim)
  show ?case
  proof (cases "l = NULL")
    case False
    obtain c p more s1 s2 where "iconset_draw 6 c x0 (y0 + y) s = Inr s1" "name_line addr_space p nav w par x0 y0 2 y 0 f s1 = Inr (more, s2)"
        "(if more then file_lines n nav w par x0 y0 (y + 16) (f + 1) s2 else Inr s2) = Inr s'"
      using l unfolding if_not_P [OF False] by (elim bindr_Inr_elim) (auto split: prod.splits)
    then show ?thesis using Suc.IH [of "y + 16" "f + 1" s2] by (auto dest!: iconset_draw_same name_line_same split: if_splits)
  qed (use l in simp)
qed simp

lemmas draw_same = gfx_rect_same title_loop_same label_loop_same edit_loop_same file_lines_same

lemma window_draw_same: "window_draw p s = Inr s' \<Longrightarrow> same_gui s s'"
  by (auto simp: window_draw_def Let_def dest!: draw_same elim!: bindr_Inr_elim split: if_splits)

lemma label_draw_same: "label_draw p s = Inr s' \<Longrightarrow> same_gui s s'"
  by (auto simp: label_draw_def dest!: draw_same elim!: bindr_Inr_elim split: if_splits)

lemma edit_draw_same: "edit_draw p s = Inr s' \<Longrightarrow> same_gui s s'"
  by (auto simp: edit_draw_def dest!: draw_same elim!: bindr_Inr_elim split: if_splits)

lemma button_draw_same: "button_draw p s = Inr s' \<Longrightarrow> same_gui s s'"
  by (auto simp: button_draw_def dest!: draw_same elim!: bindr_Inr_elim split: if_splits)

lemma file_navigator_draw_same: "file_navigator_draw p s = Inr s' \<Longrightarrow> same_gui s s'"
  by (auto simp: file_navigator_draw_def dest!: draw_same elim!: bindr_Inr_elim split: if_splits)

lemma plain_draw_same: "plain_draw p s = Inr s' \<Longrightarrow> same_gui s s'"
  by (auto simp: plain_draw_def Let_def simp del: diff_diff_eq2 dest!: gfx_rect_same elim!: bindr_Inr_elim split: if_splits)

lemma draw_self_same: "draw_self p s = Inr s' \<Longrightarrow> same_gui s s'"
  by (auto simp: draw_self_def elim!: bindr_Inr_elim split: if_splits
    dest: window_draw_same label_draw_same edit_draw_same button_draw_same file_navigator_draw_same plain_draw_same)

section \<open>The order of drawing\<close>

text \<open>A tree of widgets in memory, without paint callbacks, and its widgets from the root down.\<close>

datatype wtree = Wnode addr "wtree list"

fun wtree_at :: "(addr \<Rightarrow> widget option) \<Rightarrow> addr \<Rightarrow> wtree \<Rightarrow> bool"
  and forest_at :: "(addr \<Rightarrow> widget option) \<Rightarrow> addr \<Rightarrow> wtree list \<Rightarrow> bool" where
  "wtree_at h p (Wnode a ts) \<longleftrightarrow> p = a \<and> p \<noteq> NULL \<and>
     (case h p of None \<Rightarrow> False | Some x \<Rightarrow> OnPaint x = 0 \<and> forest_at h (w_child x) ts)"
| "forest_at h c [] \<longleftrightarrow> c = NULL"
| "forest_at h c (t # ts) \<longleftrightarrow> c \<noteq> NULL \<and> wtree_at h c t \<and> (case h c of None \<Rightarrow> False | Some x \<Rightarrow> forest_at h (w_next x) ts)"

fun preorder :: "wtree \<Rightarrow> addr list" where
  "preorder (Wnode a ts) = a # concat (map preorder ts)"

fun draw_all :: "addr list \<Rightarrow> 'a gui_state_scheme \<Rightarrow> 'a gui_state_scheme result" where
  "draw_all [] s = Inr s"
| "draw_all (p # ps) s = bindr (draw_self p s) (draw_all ps)"

lemma draw_all_append: "draw_all (ps @ qs) s = bindr (draw_all ps s) (draw_all qs)"
  by (induction ps arbitrary: s) (auto simp: bindr_assoc bindr_def split: sum.splits)

lemma draw_all_widgets: "draw_all ps s = Inr s' \<Longrightarrow> widgets s' = widgets s"
  by (induction ps arbitrary: s) (auto elim!: bindr_Inr_elim dest!: draw_self_same same_gui_widgets)

lemma preorder_pos: "0 < length (preorder t)"
  by (cases t) simp

lemma step_budget: "0 < a \<Longrightarrow> 2 * (a + b) < n \<Longrightarrow> \<exists>m. n = Suc m \<and> 2 * a \<le> m \<and> 2 * b < m" for a b n :: nat
  by (rule exI [of _ "n - 1"]) auto

lemma draw_tree:
  "wtree_at h p t \<Longrightarrow> widgets s = h \<Longrightarrow> 2 * length (preorder t) \<le> n \<Longrightarrow> draw_widget n call p s = draw_all (preorder t) s"
  "forest_at h c ts \<Longrightarrow> widgets s = h \<Longrightarrow> 2 * length (concat (map preorder ts)) < n \<Longrightarrow>
    draw_children n call c s = draw_all (concat (map preorder ts)) s"
proof (induction h p t and h c ts arbitrary: s n and s n rule: wtree_at_forest_at.induct)
  case (1 h p a ts)
  obtain m where n: "n = Suc m" "2 * length (concat (map preorder ts)) < m" using 1(4) by (cases n) auto
  obtain x where x: "p = a" "a \<noteq> NULL" "h p = Some x" "OnPaint x = 0" "forest_at h (w_child x) ts"
    using 1(2) by (auto split: option.splits)
  show ?case
  proof (cases "draw_self p s")
    case (Inr s1)
    then have "widgets s1 = h" using 1(3) same_gui_widgets draw_self_same by blast
    then show ?thesis using 1(1) [OF x(3,5), of s1 m] Inr x n by simp
  qed (use n x in simp)
next
  case (2 h c)
  then show ?case by (cases n) auto
next
  case (3 h c t ts)
  have "2 * (length (preorder t) + length (concat (map preorder ts))) < n" using 3(5) by simp
  then obtain m where n: "n = Suc m" "2 * length (preorder t) \<le> m" "2 * length (concat (map preorder ts)) < m"
    using step_budget [OF preorder_pos [of t]] by blast
  obtain x where x: "c \<noteq> NULL" "wtree_at h c t" "h c = Some x" "forest_at h (w_next x) ts"
    using 3(3) by (auto split: option.splits)
  have d: "draw_widget m call c s = draw_all (preorder t) s" using 3(1) [OF x(2) 3(4) n(2)] .
  show ?case
  proof (cases "draw_all (preorder t) s")
    case (Inr s1)
    then have "widgets s1 = h" using 3(4) draw_all_widgets by metis
    then show ?thesis using 3(2) [OF x(3,4), of s1 m] Inr x n d by (simp add: draw_all_append)
  qed (use n x d in \<open>simp add: draw_all_append\<close>)
qed



end
