(* ===== verification/Navigator.thy ===== *)
theory Navigator
  imports Controls
begin

text \<open>
  gui/widgets/filenavigator.c without its drawing, gui/test/text_view.c, gui/test/file_explorer.c, and the
  event handlers of gui/widgets/window.c, which pass an event on to the child it is for.

  What the code finds outside the GUI's own state is in \<open>gui_env\<close>: the addresses of the string
  literals, what fresh memory holds, the parameter of \<open>sys_read\<close>, and the address of the local header
  of the bitmap reader. Opening a directory selects an entry, and choosing an entry opens it: the two
  call one another, with the steps left as their first argument.
\<close>

section \<open>The code\<close>

record gui_env =
  lits :: "string \<Rightarrow> addr"
  junk_widget :: "addr \<Rightarrow> widget"
  junk_dirent :: "addr \<Rightarrow> dirent"
  read_frame :: addr
  bmp_hdr :: addr

definition KEY_LEFT :: u32 where "KEY_LEFT = 0x96"
definition KEY_UP :: u32 where "KEY_UP = 0x97"
definition KEY_DOWN :: u32 where "KEY_DOWN = 0x98"
definition KEY_RIGHT :: u32 where "KEY_RIGHT = 0x99"

text \<open>gui/test/text_view.c: \<open>buff\<close> has 256 bytes, and the byte behind what was read is cleared.\<close>

definition text_view :: "gui_env \<Rightarrow> addr \<Rightarrow> 'a gui_state_scheme \<Rightarrow> 'a gui_state_scheme result" where
  "text_view env name s =
     bindr (sys_open name (s\<lparr>bytes := (bytes s)(buff s := 0)\<rparr>)) (\<lambda>(fd, s).
     bindr (if 0 \<le> fd then
              bindr (sys_read (read_frame env) (of_int fd) (buff s) 256 s) (\<lambda>(sz, s). Inr (s\<lparr>bytes := (bytes s)(buff s + sz := 0)\<rparr>))
            else Inr s) (\<lambda>s.
     bindr (window_create (lits env) 250 200 s) (\<lambda>(w, s).
     bindr (label_create (buff s) w s) (\<lambda>(l, s).
     bindr (window_set_name w name s) (\<lambda>s.
     bindr (update_widget w (bgcolor_update (\<lambda>_. 0xFAFAFA)) s) (\<lambda>s.
     bindr (update_widget l (bgcolor_update (\<lambda>_. 0xFAFAFA)) s) (\<lambda>s.
     bindr (gui_get_active_window s) (\<lambda>a.
     bindr (deref (widgets s) a) (\<lambda>awnd.
     bindr (window_move w (w_x awnd + 60) (w_y awnd + 60) s) (\<lambda>s.
     bindr (widget_set_callback w ON_KEYUP (Some Key_up) s) (gui_set_active_window w)))))))))))"

definition file_explorer_on_change_dir_cb :: "addr \<Rightarrow> 'a gui_state_scheme \<Rightarrow> 'a gui_state_scheme result" where
  "file_explorer_on_change_dir_cb p s = bindr (deref (navigators s) p) (\<lambda>f. edit_set_text (edtPath s) (fn_directory f) s)"

text \<open>The entry \<open>".."\<close>: \<open>i\<close> is unsigned and starts two before the end of the path.\<close>

fun up_loop :: "nat \<Rightarrow> mem \<Rightarrow> addr \<Rightarrow> u32 \<Rightarrow> u32 result" where
  "up_loop 0 m dir i = Inl Diverge"
| "up_loop (Suc n) m dir i = (if m (dir + i) \<noteq> 0x2F \<and> 0 < i then up_loop n m dir (i - 1) else Inr i)"

definition parent_dir :: "addr \<Rightarrow> 'a byte_state_scheme \<Rightarrow> 'a byte_state_scheme result" where
  "parent_dir dir s =
     bindr (strlen (bytes s) dir) (\<lambda>n.
     bindr (up_loop addr_space (bytes s) dir (n - 2)) (\<lambda>i. Inr (s\<lparr>bytes := (bytes s)(dir + (i + 1) := 0)\<rparr>)))"

text \<open>The loop over the directory; \<open>readdir\<close> frees the entry it is given, which the list holds.\<close>

fun add_entries :: "nat \<Rightarrow> addr \<Rightarrow> addr \<Rightarrow> addr \<Rightarrow> 'a gui_state_scheme \<Rightarrow> 'a gui_state_scheme result" where
  "add_entries 0 p dir d s = Inl Diverge"
| "add_entries (Suc n) p dir d s =
     bindr (sys_readdir dir d s) (\<lambda>(d, s).
       if d = NULL then Inr s
       else bindr (deref (navigators s) p) (\<lambda>f.
         bindr (list_add (fn_files f) d s) (\<lambda>(l, s).
         bindr (update_navigator p (\<lambda>f. f\<lparr>fn_files := l, fn_count := fn_count f + 1\<rparr>) s) (add_entries n p dir d))))"

fun navigator_set :: "nat \<Rightarrow> gui_env \<Rightarrow> addr \<Rightarrow> addr \<Rightarrow> 'a gui_state_scheme \<Rightarrow> 'a gui_state_scheme result"
  and navigator_choose :: "nat \<Rightarrow> gui_env \<Rightarrow> addr \<Rightarrow> 'a gui_state_scheme \<Rightarrow> 'a gui_state_scheme result" where
  "navigator_set 0 env p dir s = Inl Diverge"
| "navigator_set (Suc n) env p dir s =
     bindr (deref (navigators s) p) (\<lambda>f.
       let s = (if fn_directory f \<noteq> NULL then
                  (free (fn_directory f) s)\<lparr>navigators := (navigators s)(p \<mapsto> f\<lparr>fn_files := NULL, fn_count := 0, fn_selected := - 1\<rparr>)\<rparr>
                else s)
       in if dir = NULL then Inr s
          else bindr (malloc 140 s) (\<lambda>(d, s).
            guardr (d \<noteq> NULL) BadPointer
              (let s = s\<lparr>bytes := strcpy_lit (bytes s) d (lit ''..''),
                    dirents := (dirents s)(d \<mapsto> (junk_dirent env d)\<lparr>d_flags := FS_DIRECTORY\<rparr>)\<rparr>
               in bindr (deref (navigators s) p) (\<lambda>f.
                  bindr (list_add (fn_files f) d s) (\<lambda>(l, s).
                  bindr (update_navigator p (\<lambda>f. f\<lparr>fn_files := l, fn_count := fn_count f + 1\<rparr>) s) (\<lambda>s.
                  bindr (add_entries addr_space p dir d s) (\<lambda>s.
                  bindr (strdup dir s) (\<lambda>(t, s).
                  bindr (update_navigator p (fn_directory_update (\<lambda>_. t)) s) (\<lambda>s.
                  bindr (deref (navigators s) p) (\<lambda>f.
                  bindr (case fn_OnChoose f of None \<Rightarrow> Inl BadPointer | Some File_navigator_choose \<Rightarrow> navigator_choose n env p s) (\<lambda>s.
                    update_navigator p (\<lambda>f. if fn_count f \<noteq> 0 then f\<lparr>fn_selected := 0\<rparr> else f) s))))))))))) "
| "navigator_choose 0 env p s = Inl Diverge"
| "navigator_choose (Suc n) env p s =
     bindr (deref (navigators s) p) (\<lambda>f.
     bindr (list_get (fn_files f) (fn_selected f) s) (\<lambda>l.
       if l = NULL then Inr s
       else bindr (deref (lnodes s) l) (\<lambda>nd.
         bindr (deref (dirents s) (l_data nd)) (\<lambda>d.
         bindr
           (if d_flags d AND FS_DIRECTORY \<noteq> 0 then
              if string_at (bytes s) (l_data nd) (lit ''..'') then
                bindr (parent_dir (fn_directory f) s) (\<lambda>s.
                bindr (strdup (fn_directory f) s) (\<lambda>(t, s). navigator_set n env p t s))
              else
                bindr (strlen (bytes s) (fn_directory f)) (\<lambda>len.
                  if bytes s (fn_directory f + (len - 1)) \<noteq> 0x2F then
                    bindr (strcat (fn_directory f) (lits env ''/'') s) (\<lambda>(t, s).
                    bindr (strcat t (l_data nd) s) (\<lambda>(t, s). navigator_set n env p t s))
                  else bindr (strcat (fn_directory f) (l_data nd) s) (\<lambda>(t, s). navigator_set n env p t s))
            else
              bindr (strcat (fn_directory f) (lits env ''/'') s) (\<lambda>(t, s).
              bindr (strcat t (l_data nd) s) (\<lambda>(t, s). text_view env t s)))
           (\<lambda>s. bindr (deref (navigators s) p) (\<lambda>f.
              case fn_OnChoose_user f of None \<Rightarrow> Inr s
              | Some File_explorer_on_change_dir_cb \<Rightarrow> file_explorer_on_change_dir_cb p s))))))"

definition file_navigator_set :: "gui_env \<Rightarrow> addr \<Rightarrow> addr \<Rightarrow> 'a gui_state_scheme \<Rightarrow> 'a gui_state_scheme result" where
  "file_navigator_set env p dir s = navigator_set addr_space env p dir s"

definition file_navigator_choose :: "gui_env \<Rightarrow> addr \<Rightarrow> 'a gui_state_scheme \<Rightarrow> 'a gui_state_scheme result" where
  "file_navigator_choose env p s = navigator_choose addr_space env p s"

text \<open>The arrow keys: \<open>selected\<close> is signed, its comparison with \<open>count\<close> unsigned.\<close>

definition move_selection :: "u32 \<Rightarrow> file_navigator \<Rightarrow> file_navigator" where
  "move_selection key f =
     (if key = KEY_DOWN \<or> key = KEY_RIGHT then
        let sel = fn_selected f + 1 in f\<lparr>fn_selected := (if fn_count f \<le> sel then sel - 1 else sel)\<rparr>
      else if key = KEY_UP \<or> key = KEY_LEFT then
        let sel = fn_selected f - 1 in f\<lparr>fn_selected := (if sint sel < 0 then 0 else sel)\<rparr>
      else f)"

definition file_navigator_keydown :: "gui_env \<Rightarrow> addr \<Rightarrow> u32 \<Rightarrow> 'a gui_state_scheme \<Rightarrow> 'a gui_state_scheme result" where
  "file_navigator_keydown env p key s =
     (if key = 0x0A then
        bindr (deref (navigators s) p) (\<lambda>f.
          if 0 \<le> sint (fn_selected f) then
            case fn_OnChoose f of None \<Rightarrow> Inl BadPointer | Some File_navigator_choose \<Rightarrow> file_navigator_choose env p s
          else Inr s)
      else update_navigator p (move_selection key) s)"

definition file_navigator_mouse_event :: "addr \<Rightarrow> u32 \<Rightarrow> 'a gui_state_scheme \<Rightarrow> 'a gui_state_scheme result" where
  "file_navigator_mouse_event p flags s = (if flags AND 1 \<noteq> 0 then widget_set_focus p s else Inr s)"

definition navigator_widget :: "widget option \<Rightarrow> widget" where
  "navigator_widget par = set_padding 0 0 0 0
     (zero_widget\<lparr>w_class := W_FILE_NAVIGATOR,
        w_w := (case par of None \<Rightarrow> 0 | Some x \<Rightarrow> w_w x - padding_left x - padding_right x),
        w_h := (case par of None \<Rightarrow> 0 | Some x \<Rightarrow> w_h x - padding_top x - padding_bottom x),
        visible := W_VIS_PARENT, fgcolor := 0x606060, bgcolor := 0xF0F0F0, OnKeyDown := Some File_navigator_keydown,
        OnMouseEvent := Some File_navigator_mouse_event, OnFocus := Some File_navigator_focus,
        OnLooseFocus := Some File_navigator_loose_focus\<rparr>)"

text \<open>\<open>sizeof(struct file_navigator)\<close> is 1177.\<close>

definition file_navigator_create :: "gui_env \<Rightarrow> addr \<Rightarrow> addr \<Rightarrow> 'a gui_state_scheme \<Rightarrow> (addr \<times> 'a gui_state_scheme) result" where
  "file_navigator_create env dir parent s =
     bindr (malloc 1177 s) (\<lambda>(p, s).
       if p = NULL then Inr (NULL, s)
       else bindr (if parent = NULL then Inr None else bindr (deref (widgets s) parent) (\<lambda>x. Inr (Some x))) (\<lambda>par.
         bindr (widget_set_parent p parent (s\<lparr>widgets := (widgets s)(p \<mapsto> navigator_widget par),
             navigators := (navigators s)(p \<mapsto> \<lparr>fn_OnChoose = Some File_navigator_choose, fn_OnChoose_user = None, fn_directory = NULL,
               fn_files = NULL, fn_count = 0, fn_selected = - 1\<rparr>)\<rparr>)) (\<lambda>s.
         bindr (if dir \<noteq> NULL then file_navigator_set env p dir s else Inr s) (\<lambda>s. Inr (p, s)))))"

text \<open>gui/test/file_explorer.c\<close>

definition file_explorer :: "gui_env \<Rightarrow> 'a gui_state_scheme \<Rightarrow> (addr \<times> 'a gui_state_scheme) result" where
  "file_explorer env s =
     bindr (window_create (lits env) 300 300 s) (\<lambda>(w, s).
     bindr (window_set_name w (lits env ''File Explorer'') (s\<lparr>wnd := w\<rparr>)) (\<lambda>s.
     bindr (edit_create w s) (\<lambda>(e, s).
     bindr (button_create (lits env ''go'') w (s\<lparr>edtPath := e\<rparr>)) (\<lambda>(b, s).
     bindr (deref (widgets s) w) (\<lambda>ww.
     bindr (deref (widgets s) b) (\<lambda>bw.
     bindr (update_widget e (\<lambda>x. x\<lparr>w_x := 0, w_y := 0, w_w := w_w ww - padding_left ww - padding_right ww - w_w bw\<rparr>) s) (\<lambda>s.
     bindr (edit_set_text e (lits env ''/'') s) (\<lambda>s.
     bindr (deref (widgets s) e) (\<lambda>ew.
     bindr (update_widget b (w_x_update (\<lambda>_. w_w ew)) s) (\<lambda>s.
     bindr (file_navigator_create env (lits env ''/'') w s) (\<lambda>(f, s).
     bindr (deref (widgets s) e) (\<lambda>ew.
     bindr (update_widget f (\<lambda>x. x\<lparr>w_y := w_h ew, w_h := w_h x - w_h ew\<rparr>) s) (\<lambda>s.
     bindr (update_navigator f (fn_OnChoose_user_update (\<lambda>_. Some File_explorer_on_change_dir_cb)) s) (\<lambda>s.
     bindr (widget_set_focus f s) (\<lambda>s.
     bindr (gui_set_active_window w s) (\<lambda>s. Inr (w, s)))))))))))))))))"

section \<open>Events of a window\<close>

text \<open>The first child that the point is in, NULL when there is none.\<close>

fun child_at :: "nat \<Rightarrow> (addr \<Rightarrow> widget option) \<Rightarrow> addr \<Rightarrow> u32 \<Rightarrow> u32 \<Rightarrow> addr result" where
  "child_at 0 h c x y = Inl Diverge"
| "child_at (Suc n) h c x y =
     (if c = NULL then Inr NULL
      else bindr (deref h c) (\<lambda>w. if inside w x y then Inr c else child_at n h (w_next w) x y))"

fun key_down :: "nat \<Rightarrow> gui_env \<Rightarrow> key_down_fn \<Rightarrow> addr \<Rightarrow> u32 \<Rightarrow> 'a gui_state_scheme \<Rightarrow> 'a gui_state_scheme result" where
  "key_down 0 env f p key s = Inl Diverge"
| "key_down (Suc n) env f p key s =
     (case f of
        Window_key_down \<Rightarrow>
          bindr (deref (windows s) p) (\<lambda>v.
            if win_focus v = NULL then Inr s
            else bindr (deref (widgets s) (win_focus v)) (\<lambda>x.
              case OnKeyDown x of None \<Rightarrow> Inr s | Some g \<Rightarrow> key_down n env g (win_focus v) key s))
      | Edit_keydown \<Rightarrow> edit_keydown p key s
      | Button_keydown \<Rightarrow> button_keydown p key s
      | File_navigator_keydown \<Rightarrow> file_navigator_keydown env p key s)"

fun key_up_event :: "nat \<Rightarrow> key_up_fn \<Rightarrow> addr \<Rightarrow> u32 \<Rightarrow> 'a gui_state_scheme \<Rightarrow> 'a gui_state_scheme result" where
  "key_up_event 0 f p key s = Inl Diverge"
| "key_up_event (Suc n) f p key s =
     (case f of
        Window_key_up \<Rightarrow>
          bindr (deref (windows s) p) (\<lambda>v.
            if win_focus v = NULL then Inr s
            else bindr (deref (widgets s) (win_focus v)) (\<lambda>x.
              case OnKeyUp x of None \<Rightarrow> Inr s | Some g \<Rightarrow> key_up_event n g (win_focus v) key s))
      | Button_keyup \<Rightarrow> button_keyup p key s)"

fun mouse_event :: "nat \<Rightarrow> mouse_event_fn \<Rightarrow> addr \<Rightarrow> u32 \<Rightarrow> u32 \<Rightarrow> u32 \<Rightarrow> 'a gui_state_scheme \<Rightarrow> 'a gui_state_scheme result" where
  "mouse_event 0 f p x y flags s = Inl Diverge"
| "mouse_event (Suc n) f p x y flags s =
     (case f of
        Window_mouse_event \<Rightarrow>
          bindr (if flags AND 1 \<noteq> 0 then gui_set_active_window p s else Inr s) (\<lambda>s.
          bindr (deref (widgets s) p) (\<lambda>w.
          bindr (child_at addr_space (widgets s) (w_child w) x y) (\<lambda>c.
            if c = NULL then Inr s
            else bindr (deref (widgets s) c) (\<lambda>v.
              case OnMouseEvent v of None \<Rightarrow> Inr s | Some g \<Rightarrow> mouse_event n g c (x - w_x v) (y - w_y v) flags s))))
      | Edit_mouse_event \<Rightarrow> edit_mouse_event p flags s
      | Button_mouse_event \<Rightarrow> button_mouse_event p flags s
      | File_navigator_mouse_event \<Rightarrow> file_navigator_mouse_event p flags s)"

fun mouse_move :: "nat \<Rightarrow> mouse_move_fn \<Rightarrow> addr \<Rightarrow> u32 \<Rightarrow> u32 \<Rightarrow> u32 \<Rightarrow> 'a gui_state_scheme \<Rightarrow> 'a gui_state_scheme result" where
  "mouse_move 0 f p x y flags s = Inl Diverge"
| "mouse_move (Suc n) f p x y flags s =
     (case f of
        Window_mouse_move \<Rightarrow>
          bindr (deref (widgets s) p) (\<lambda>w.
          bindr (child_at addr_space (widgets s) (w_child w) x y) (\<lambda>c.
            if c = NULL then Inr s
            else bindr (deref (widgets s) c) (\<lambda>v.
              case OnMouseMove v of None \<Rightarrow> Inr s | Some g \<Rightarrow> mouse_move n g c (x - w_x v) (y - w_y v) flags s)))
      | Button_mouse_move \<Rightarrow> Inr (button_mouse_move p s))"

section \<open>The selection\<close>

definition arrow :: "u32 \<Rightarrow> bool" where
  "arrow key \<longleftrightarrow> key \<in> {KEY_DOWN, KEY_RIGHT, KEY_UP, KEY_LEFT}"

definition selection_ok :: "file_navigator \<Rightarrow> bool" where
  "selection_ok f \<longleftrightarrow> 0 < fn_count f \<and> (fn_selected f = - 1 \<or> fn_selected f < fn_count f)"

fun nav_keydowns :: "gui_env \<Rightarrow> addr \<Rightarrow> u32 list \<Rightarrow> 'a gui_state_scheme \<Rightarrow> 'a gui_state_scheme result" where
  "nav_keydowns env p [] s = Inr s"
| "nav_keydowns env p (k # ks) s = bindr (file_navigator_keydown env p k s) (nav_keydowns env p ks)"

lemma move_selection_range:
  assumes "arrow key" "selection_ok f"
  shows "fn_selected (move_selection key f) < fn_count f" "fn_count (move_selection key f) = fn_count f"
    "fn_files (move_selection key f) = fn_files f"
proof -
  have dec: "x - 1 < c" if "x < c" "x \<noteq> 0" for x c :: u32
    using that unat_minus_1 [of x] by (simp add: word_less_nat_alt)
  have sel: "fn_selected f = - 1 \<or> fn_selected f = 0 \<or> (fn_selected f < fn_count f \<and> fn_selected f \<noteq> 0)"
    using assms(2) by (auto simp: selection_ok_def)
  have down: "(if fn_count f \<le> fn_selected f + 1 then fn_selected f + 1 - 1 else fn_selected f + 1) < fn_count f"
    using assms(2) by (auto simp: selection_ok_def not_le)
  have up: "(if sint (fn_selected f - 1) < 0 then 0 else fn_selected f - 1) < fn_count f"
    using sel assms(2) dec [of "fn_selected f" "fn_count f"] by (elim disjE conjE) (simp_all add: selection_ok_def)
  have "key = KEY_DOWN \<or> key = KEY_RIGHT \<or> key = KEY_UP \<or> key = KEY_LEFT" using assms(1) by (auto simp: arrow_def)
  then show "fn_selected (move_selection key f) < fn_count f"
    using up down unfolding move_selection_def Let_def by (auto simp del: diff_diff_eq2 add_diff_cancel)
  show "fn_count (move_selection key f) = fn_count f" "fn_files (move_selection key f) = fn_files f"
    by (simp_all add: move_selection_def Let_def)
qed

text \<open>
  The arrow keys keep the selection of a file navigator with files inside its list: after one or
  more of them it is the number of one of the files, wherever it was before, and the files are the same.
\<close>

theorem arrow_keys_select:
  assumes "navigators s p = Some f" "selection_ok f" "list_all arrow ks" "ks \<noteq> []"
  shows "\<exists>s' f'. nav_keydowns env p ks s = Inr s' \<and> navigators s' p = Some f' \<and> fn_selected f' < fn_count f' \<and>
    fn_count f' = fn_count f \<and> fn_files f' = fn_files f"
  using assms
proof (induction ks arbitrary: s f)
  case (Cons k ks)
  let ?f = "move_selection k f" and ?s = "s\<lparr>navigators := (navigators s)(p \<mapsto> move_selection k f)\<rparr>"
  have k: "k \<noteq> 0x0A" "arrow k" using Cons.prems(3) by (auto simp: arrow_def KEY_DOWN_def KEY_RIGHT_def KEY_UP_def KEY_LEFT_def)
  note f = move_selection_range [OF k(2) Cons.prems(2)]
  have step: "file_navigator_keydown env p k s = Inr ?s"
    using k(1) Cons.prems(1) by (simp add: file_navigator_keydown_def update_navigator_def)
  have ok: "selection_ok ?f" using f Cons.prems(2) by (simp add: selection_ok_def)
  show ?case
  proof (cases "ks = []")
    case False
    have "\<exists>s' f'. nav_keydowns env p ks ?s = Inr s' \<and> navigators s' p = Some f' \<and> fn_selected f' < fn_count f' \<and>
        fn_count f' = fn_count ?f \<and> fn_files f' = fn_files ?f"
      by (rule Cons.IH) (use ok Cons.prems(3) False in auto)
    then show ?thesis unfolding nav_keydowns.simps step bindr_simps f .
  qed (use step f in auto)
qed simp

section \<open>The child under the pointer\<close>

lemma child_at_find:
  assumes "linked w_next h c cs" "length cs < n"
  shows "child_at n h c x y = Inr (case find (\<lambda>a. inside (the (h a)) x y) cs of None \<Rightarrow> NULL | Some a \<Rightarrow> a)"
  using assms
proof (induction cs arbitrary: c n)
  case Nil
  then show ?case by (cases n) auto
next
  case (Cons a as)
  then obtain m where "n = Suc m" by (cases n) auto
  then show ?case using Cons by (auto simp: linked_Cons)
qed

section \<open>The parent directory\<close>

lemma up_loop_finds:
  assumes "m (dir + (i - of_nat k)) = 0x2F \<or> i - of_nat k = 0" "k \<le> unat i"
    and "\<And>j. j < k \<Longrightarrow> m (dir + (i - of_nat j)) \<noteq> 0x2F" "k < n"
  shows "up_loop n m dir i = Inr (i - of_nat k)"
  using assms
proof (induction k arbitrary: i n)
  case 0
  then show ?case by (cases n) auto
next
  case (Suc k)
  obtain n' where n: "n = Suc n'" using Suc.prems(4) by (cases n) auto
  have i: "i \<noteq> 0" using Suc.prems(2) by auto
  have "up_loop n' m dir (i - 1) = Inr (i - 1 - of_nat k)"
  proof (rule Suc.IH)
    show "m (dir + (i - 1 - of_nat k)) = 0x2F \<or> i - 1 - of_nat k = 0" using Suc.prems(1) by (simp add: algebra_simps)
    show "k \<le> unat (i - 1)" using Suc.prems(2) unat_minus_1 [OF i] by simp
    show "m (dir + (i - 1 - of_nat j)) \<noteq> 0x2F" if "j < k" for j
      using Suc.prems(3) [of "Suc j"] that by (simp add: algebra_simps)
  qed (use Suc.prems(4) n in simp)
  moreover have "m (dir + i) \<noteq> 0x2F" using Suc.prems(3) [of 0] by simp
  ultimately show ?case using i n by (simp add: algebra_simps word_neq_0_conv)
qed

text \<open>
  Choosing \<open>".."\<close> cuts the directory behind the last slash before its last character: a path that ends
  in a segment, with or without a slash behind it, becomes the path of the parent with its slash.
\<close>

theorem parent_dir_cuts:
  assumes "string_at (bytes s) dir (pre @ [0x2F] @ seg)" "fits dir (length pre + length seg + 2)"
    and "seg \<noteq> []" "0x2F \<notin> set (butlast seg)"
  shows "\<exists>s'. parent_dir dir s = Inr s' \<and> string_at (bytes s') dir (pre @ [0x2F]) \<and>
    (\<forall>a. a \<noteq> dir + of_nat (length pre + 1) \<longrightarrow> bytes s' a = bytes s a)"
proof -
  let ?xs = "pre @ [0x2F] @ seg"
  let ?n = "length pre" and ?k = "length seg - 1"
  let ?i = "of_nat (length ?xs) - 2 :: u32"
  have len: "length ?xs = ?n + ?k + 2" using assms(3) by (cases seg) auto
  then have iv: "?i = of_nat (?n + ?k)" by simp
  have small: "?n + ?k + 2 < 2 ^ 32" using assms(2) len by (simp add: fits_def)
  then have ui: "unat ?i = ?n + ?k" unfolding iv by (intro unat_of_nat_addr) simp
  have chars: "bytes s (dir + of_nat j) = ?xs ! j" if "j < length ?xs" for j
    using assms(1) that unfolding string_at_iff by blast
  have ik: "?i - of_nat ?k = of_nat ?n" unfolding iv by simp
  have "up_loop addr_space (bytes s) dir ?i = Inr (?i - of_nat ?k)"
  proof (rule up_loop_finds)
    show "bytes s (dir + (?i - of_nat ?k)) = 0x2F \<or> ?i - of_nat ?k = 0" unfolding ik using chars [of ?n] len by (simp add: nth_append)
    show "bytes s (dir + (?i - of_nat j)) \<noteq> 0x2F" if "j < ?k" for j
    proof -
      have e: "?i - of_nat j = of_nat (?n + ?k - j)" unfolding iv using that by (simp add: of_nat_diff)
      have lt: "?k - j - 1 < length (butlast seg)" using that by simp
      have "?n + ?k - j = ?n + (?k - j)" using that by simp
      then have "?xs ! (?n + ?k - j) = ([0x2F] @ seg) ! (?k - j)" by (simp only: nth_append_length_plus)
      also have "\<dots> = seg ! (?k - j - 1)" using that by (auto simp: nth_Cons')
      also have "\<dots> = butlast seg ! (?k - j - 1)" using that by (intro nth_butlast [symmetric]) simp
      also have "\<dots> \<noteq> 0x2F" using assms(4) nth_mem [OF lt] by metis
      finally show ?thesis unfolding e using chars [of "?n + ?k - j"] len by simp
    qed
  qed (use ui small in \<open>simp_all add: addr_space_def\<close>)
  then have p: "parent_dir dir s = Inr (s\<lparr>bytes := (bytes s)(dir + (of_nat ?n + 1) := 0)\<rparr>)"
    using strlen_string [OF assms(1)] unfolding ik by (simp add: parent_dir_def)
  have ne: "dir + of_nat j \<noteq> dir + of_nat (?n + 1)" if "j \<le> ?n" for j
    using that unat_offset [OF assms(2), of j] unat_offset [OF assms(2), of "?n + 1"] by auto
  have "string_at ((bytes s)(dir + of_nat (?n + 1) := 0)) dir (pre @ [0x2F])"
    unfolding string_at_iff
  proof (intro conjI allI impI)
    fix j assume j: "j < length (pre @ [0x2F :: u8])"
    then have x: "(pre @ [0x2F]) ! j = ?xs ! j" "j < length ?xs" by (auto simp: nth_append)
    show "(pre @ [0x2F]) ! j \<noteq> 0" unfolding x(1) using assms(1) x(2) unfolding string_at_iff by blast
    show "((bytes s)(dir + of_nat (?n + 1) := 0)) (dir + of_nat j) = (pre @ [0x2F]) ! j"
      unfolding x(1) fun_upd_other [OF ne [of j]] using chars [OF x(2)] j ne [of j] by auto
  qed simp
  then show ?thesis using p by (simp add: add.commute [of 1])
qed

text \<open>
  In the root directory, \<open>".."\<close> walks down from the byte before the path to the first slash it finds in
  memory, at a distance \<open>k\<close>, and clears the byte behind it.
\<close>

theorem parent_dir_underruns:
  assumes "string_at (bytes s) dir [0x2F]" "0 < k" "k < 2 ^ 32" "bytes s (dir - of_nat k) = 0x2F"
    and "\<And>j. 0 < j \<Longrightarrow> j < k \<Longrightarrow> bytes s (dir - of_nat j) \<noteq> 0x2F"
  shows "parent_dir dir s = Inr (s\<lparr>bytes := (bytes s)(dir - of_nat k + 1 := 0)\<rparr>)"
proof -
  let ?i = "- 1 :: u32"
  have u: "unat ?i = 2 ^ 32 - 1" by (simp add: unsigned_minus_1_eq_mask mask_eq_exp_minus_1)
  have "up_loop addr_space (bytes s) dir ?i = Inr (?i - of_nat (k - 1))"
  proof (rule up_loop_finds)
    show "bytes s (dir + (?i - of_nat (k - 1))) = 0x2F \<or> ?i - of_nat (k - 1) = 0"
      using assms(2,4) by (simp add: of_nat_diff)
    show "bytes s (dir + (?i - of_nat j)) \<noteq> 0x2F" if "j < k - 1" for j
      using assms(5) [of "Suc j"] that by (simp add: algebra_simps)
  qed (use u assms(2,3) in \<open>simp_all add: addr_space_def\<close>)
  moreover have "strlen (bytes s) dir = Inr 1" using strlen_string [OF assms(1)] by simp
  ultimately show ?thesis using assms(2) by (simp add: parent_dir_def of_nat_diff algebra_simps)
qed

section \<open>A click and the keys after it\<close>

lemma set_active_effect:
  assumes "desktop_window s \<noteq> NULL" "children s (desktop_window s) cs" "\<And>a. a \<in> set cs \<Longrightarrow> is_window s a \<Longrightarrow> windows s a \<noteq> None"
  shows "gui_set_active_window w s = Inr (mark_active w (\<lambda>a. a \<in> set cs \<and> is_window s a) s)"
proof -
  obtain x where x: "widgets s (desktop_window s) = Some x" "linked w_next (widgets s) (w_child x) cs"
    using assms(2) by (auto simp: children_def)
  then show ?thesis using set_active_loop_marks [OF x(2) assms(3) linked_length [OF x(2)]] assms(1)
    by (simp add: gui_set_active_window_def gui_widget_root_def)
qed

text \<open>The widgets without their background colours, which a change of focus sets.\<close>

definition uncoloured :: "'a gui_state_scheme \<Rightarrow> addr \<Rightarrow> widget option" where
  "uncoloured s a = map_option (bgcolor_update (\<lambda>_. 0)) (widgets s a)"

lemma uncoloured_field:
  assumes "uncoloured s' = uncoloured s" "\<And>x. f (bgcolor_update (\<lambda>_. 0) x) = f x"
  shows "map_option f (widgets s' a) = map_option f (widgets s a)"
proof -
  have "map_option f (uncoloured s' a) = map_option f (uncoloured s a)" using assms(1) by simp
  then show ?thesis by (simp add: uncoloured_def option.map_comp o_def assms(2))
qed

lemma uncoloured_simps:
  assumes "uncoloured s' = uncoloured s"
  shows "children s' p cs \<longleftrightarrow> children s p cs" "is_window s' a \<longleftrightarrow> is_window s a"
    "map_option OnKeyDown (widgets s' a) = map_option OnKeyDown (widgets s a)" "widgets s' a = None \<longleftrightarrow> widgets s a = None"
proof -
  note f = uncoloured_field [OF assms]
  have l: "linked w_next (widgets s') c cs \<longleftrightarrow> linked w_next (widgets s) c cs" for c by (rule linked_cong) (rule f, simp)
  have "map_option w_child (widgets s' p) = map_option w_child (widgets s p)" by (rule f) simp
  then show "children s' p cs \<longleftrightarrow> children s p cs"
    by (cases "widgets s' p"; cases "widgets s p") (auto simp: children_def l)
  have "map_option w_class (widgets s' a) = map_option w_class (widgets s a)" by (rule f) simp
  then show "is_window s' a \<longleftrightarrow> is_window s a"
    by (cases "widgets s' a"; cases "widgets s a") (auto simp: is_window_def widget_at_def)
  show "map_option OnKeyDown (widgets s' a) = map_option OnKeyDown (widgets s a)" by (rule f) simp
  then show "widgets s' a = None \<longleftrightarrow> widgets s a = None" by (cases "widgets s' a"; cases "widgets s a") auto
qed

lemma recolour [simp]: "uncoloured (s\<lparr>widgets := (widgets s)(p \<mapsto> bgcolor_update f x)\<rparr>) = uncoloured s" if "widgets s p = Some x"
  using that by (auto simp: uncoloured_def fun_eq_iff)

lemma call_focus_colours:
  assumes "widgets s p \<noteq> None"
  shows "\<exists>s'. call_focus p s = Inr s' \<and> windows s' = windows s \<and> desktop_window s' = desktop_window s \<and> uncoloured s' = uncoloured s"
    "\<exists>s'. call_loose_focus p s = Inr s' \<and> windows s' = windows s \<and> desktop_window s' = desktop_window s \<and> uncoloured s' = uncoloured s"
  using assms by (auto simp: call_focus_def call_loose_focus_def split: option.splits)

lemma set_focus_effect:
  assumes "widgets s c = Some x" "w_parent x = p" "p \<noteq> NULL" "is_window s p" "widgets s p \<noteq> None" "windows s p = Some v"
    and "win_focus v = NULL \<or> widgets s (win_focus v) \<noteq> None"
  shows "\<exists>s'. widget_set_focus c s = Inr s' \<and> windows s' = (windows s)(p \<mapsto> v\<lparr>win_focus := c\<rparr>) \<and>
    desktop_window s' = desktop_window s \<and> uncoloured s' = uncoloured s"
proof -
  have g: "widget_get_window c s = Inr p" using assms by (auto simp: widget_get_window_def is_window_def)
  have "\<exists>s1. (if win_focus v \<noteq> NULL then call_loose_focus (win_focus v) s else Inr s) = Inr s1 \<and> windows s1 = windows s \<and>
      desktop_window s1 = desktop_window s \<and> uncoloured s1 = uncoloured s"
    using call_focus_colours(2) [of s "win_focus v"] assms(7) by (cases "win_focus v = NULL") simp_all
  then obtain s1 where s1: "(if win_focus v \<noteq> NULL then call_loose_focus (win_focus v) s else Inr s) = Inr s1" "windows s1 = windows s"
      "desktop_window s1 = desktop_window s" "uncoloured s1 = uncoloured s"
    by (elim exE conjE) rule
  let ?s = "s1\<lparr>windows := (windows s1)(p \<mapsto> v\<lparr>win_focus := c\<rparr>)\<rparr>"
  have "widgets ?s c \<noteq> None" using uncoloured_simps(4) [OF s1(4)] assms(1) by simp
  moreover have "update_window p (win_focus_update (\<lambda>_. c)) s1 = Inr ?s" using assms(6) s1(2) by (simp add: update_window_def)
  moreover have d: "deref (windows s) p = Inr v" using assms(6) by (rule deref_Some)
  ultimately have "widget_set_focus c s = call_focus c ?s"
    unfolding widget_set_focus_def g bindr_simps if_not_P [OF assms(3)] d s1(1) by simp
  moreover have "uncoloured ?s = uncoloured s1" by (simp add: uncoloured_def fun_eq_iff)
  ultimately show ?thesis using call_focus_colours(1) [OF \<open>widgets ?s c \<noteq> None\<close>] s1 by simp
qed

text \<open>
  C34: a click with the left button on an edit of a window on the desktop makes the window the active one
  and gives the edit the focus, so that the next key of the window goes to that edit.
\<close>

theorem click_then_type:
  assumes "desktop_window s \<noteq> NULL" "children s (desktop_window s) ws" "p \<in> set ws" "is_window s p" "windows s p = Some v"
    and "\<And>a. a \<in> set ws \<Longrightarrow> is_window s a \<Longrightarrow> windows s a \<noteq> None"
    and "children s p cs" "find (\<lambda>a. inside (widget_at s a) x y) cs = Some c"
    and "w_parent (widget_at s c) = p" "OnMouseEvent (widget_at s c) = Some Edit_mouse_event" "OnKeyDown (widget_at s c) = Some Edit_keydown"
    and "win_focus v = NULL \<or> widgets s (win_focus v) \<noteq> None" "flags AND 1 \<noteq> 0"
  shows "\<exists>s'. mouse_event 2 Window_mouse_event p x y flags s = Inr s' \<and> gui_get_active_window s' = Inr p \<and>
    key_down 2 env Window_key_down p key s' = edit_keydown c key s'"
proof -
  let ?P = "\<lambda>a. a \<in> set ws \<and> is_window s a"
  let ?m = "mark_active p ?P s"
  obtain w where w: "widgets s p = Some w" "linked w_next (widgets s) (w_child w) cs" using assms(7) by (auto simp: children_def)
  have c: "c \<in> set cs" using assms(8) by (auto simp: find_Some_iff)
  obtain xc where xc: "widgets s c = Some xc" "c \<noteq> NULL" using linked_member [OF w(2) c] by auto
  have p: "p \<noteq> NULL" using assms(2,3) linked_member unfolding children_def by blast
  have same: "is_window ?m = is_window s" "children ?m = children s" by (simp_all add: fun_eq_iff is_window_def widget_at_def children_def)
  have wm: "windows ?m p = Some (v\<lparr>win_active := 1\<rparr>)" using assms(3-5) by (simp add: mark_active_def)
  have at: "child_at addr_space (widgets s) (w_child w) x y = Inr c"
  proof -
    have "find (\<lambda>a. inside (the (widgets s a)) x y) cs = find (\<lambda>a. inside (widget_at s a) x y) cs"
      by (rule find_cong_set) (use linked_member [OF w(2)] in force)
    then show ?thesis using child_at_find [OF w(2) linked_length [OF w(2)]] assms(8) by simp
  qed
  have "widget_set_focus c ?m = mouse_event 2 Window_mouse_event p x y flags s"
    using assms(10,13) w(1) xc at set_active_effect [OF assms(1,2,6)] by (simp add: numeral_2_eq_2 edit_mouse_event_def)
  moreover obtain s' where s': "widget_set_focus c ?m = Inr s'" "windows s' = (windows ?m)(p \<mapsto> v\<lparr>win_active := 1, win_focus := c\<rparr>)"
      "desktop_window s' = desktop_window s" "uncoloured s' = uncoloured s"
    using set_focus_effect [of ?m c xc p "v\<lparr>win_active := 1\<rparr>"] xc(1) assms(4,9,12) p w(1) wm same
    by (auto simp: uncoloured_def fun_eq_iff)
  note u = uncoloured_simps [OF s'(4)]
  have "gui_get_active_window s' = Inr p"
  proof -
    obtain d where d: "widgets s' (desktop_window s') = Some d" "linked w_next (widgets s') (w_child d) ws"
      using u(1) [THEN iffD2, OF assms(2)] s'(3) unfolding children_def by auto
    have "gui_get_active_window s' = Inr (case find (\<lambda>a. is_window s' a \<and> active_at s' a) ws of None \<Rightarrow> NULL | Some a \<Rightarrow> a)"
      using get_active_loop_finds [OF d(2) _ linked_length [OF d(2)]] d(1) assms(1,6) s'(2,3) u(2)
      by (simp add: gui_get_active_window_def gui_widget_root_def mark_active_def)
    moreover have "find (\<lambda>a. is_window s' a \<and> active_at s' a) ws = find (\<lambda>a. a = p) ws"
    proof (rule find_cong_set)
      fix a assume "a \<in> set ws"
      then show "(is_window s' a \<and> active_at s' a) = (a = p)"
        using assms(4,6) u(2) s'(2) by (auto simp: active_at_def mark_active_def split: option.splits)
    qed
    moreover have "find (\<lambda>a. a = p) ws = Some p" using assms(3) by (induction ws) auto
    ultimately show ?thesis by simp
  qed
  moreover have "key_down 2 env Window_key_down p key s' = edit_keydown c key s'"
  proof -
    have "map_option OnKeyDown (widgets s' c) = Some (Some Edit_keydown)" using u(3) xc assms(11) by simp
    then obtain x' where "widgets s' c = Some x'" "OnKeyDown x' = Some Edit_keydown" by auto
    then show ?thesis using s'(2) xc(2) by (simp add: numeral_2_eq_2)
  qed
  ultimately show ?thesis using s'(1) by (intro exI [of _ s']) simp
qed

section \<open>Examples\<close>

text \<open>An environment without literals, whose fresh memory is zero.\<close>

definition blank_env :: gui_env where
  "blank_env = \<lparr>lits = \<lambda>_. 0, junk_widget = \<lambda>_. zero_widget, junk_dirent = \<lambda>_. \<lparr>d_inode = 0, d_offset = 0, d_flags = 0\<rparr>, read_frame = 0, bmp_hdr = 0\<rparr>"

theorem arrow_keys_select_witness:
  "\<exists>s' f'. nav_keydowns blank_env 0x400 [KEY_UP, KEY_DOWN, KEY_DOWN]
      (desk\<lparr>navigators := [0x400 \<mapsto> \<lparr>fn_OnChoose = None, fn_OnChoose_user = None, fn_directory = 0, fn_files = 0, fn_count = 2, fn_selected = - 1\<rparr>]\<rparr>) =
      Inr s' \<and> navigators s' 0x400 = Some f' \<and> fn_selected f' < 2"
proof -
  let ?f = "\<lparr>fn_OnChoose = None, fn_OnChoose_user = None, fn_directory = 0, fn_files = 0, fn_count = 2, fn_selected = - 1\<rparr>"
  have "selection_ok ?f" "list_all arrow [KEY_UP, KEY_DOWN, KEY_DOWN]" by (simp_all add: selection_ok_def arrow_def)
  then show ?thesis
    using arrow_keys_select [where ks = "[KEY_UP, KEY_DOWN, KEY_DOWN]" and s = "desk\<lparr>navigators := [0x400 \<mapsto> ?f]\<rparr>" and f = ?f and p = "0x400" and env = blank_env]
    by fastforce
qed

definition dir_memory :: "string \<Rightarrow> gui_state" where
  "dir_memory str = desk\<lparr>bytes := strcpy_lit ((\<lambda>_. 0)(0xFF0 := 0x2F)) 0x1000 (lit str)\<rparr>"

theorem parent_dir_cuts_witness:
  "\<exists>s'. parent_dir 0x1000 (dir_memory ''/dev/one'') = Inr s' \<and> string_at (bytes s') 0x1000 (lit ''/dev/'')"
proof -
  let ?s = "dir_memory ''/dev/one''"
  have l: "lit ''/dev/one'' = [0x2F, 0x64, 0x65, 0x76] @ [0x2F] @ [0x6F, 0x6E, 0x65]" "lit ''/dev/'' = [0x2F, 0x64, 0x65, 0x76] @ [0x2F]"
    by code_simp+
  have "string_at (bytes ?s) 0x1000 ([0x2F, 0x64, 0x65, 0x76] @ [0x2F] @ [0x6F, 0x6E, 0x65])"
    by (simp add: dir_memory_def l(1))
  moreover have "fits 0x1000 (length [0x2F, 0x64, 0x65, 0x76 :: u8] + length [0x6F, 0x6E, 0x65 :: u8] + 2)" by (simp add: fits_def)
  ultimately show ?thesis unfolding l(2) using parent_dir_cuts [of ?s "0x1000" "[0x2F, 0x64, 0x65, 0x76]" "[0x6F, 0x6E, 0x65]"] by auto
qed

theorem parent_dir_underruns_witness:
  "parent_dir 0x1000 (dir_memory ''/'') = Inr ((dir_memory ''/'')\<lparr>bytes := (bytes (dir_memory ''/''))(0xFF1 := 0)\<rparr>)"
proof -
  let ?s = "dir_memory ''/''"
  have b: "bytes ?s = (\<lambda>_. 0)(0xFF0 := 0x2F, 0x1000 := 0x2F, 0x1001 := 0)" by (simp add: dir_memory_def lit_slash)
  have "bytes ?s (0x1000 - of_nat j) \<noteq> 0x2F" if "0 < j" "j < 16" for j
  proof -
    have "unat (0x1000 - of_nat j :: addr) = 4096 - j"
      using that by (simp add: unat_sub word_le_nat_alt unat_of_nat)
    then show ?thesis using that unfolding b by auto
  qed
  then have "parent_dir 0x1000 ?s = Inr (?s\<lparr>bytes := (bytes ?s)(0x1000 - of_nat 16 + 1 := 0)\<rparr>)"
    by (intro parent_dir_underruns) (simp_all add: b)
  then show ?thesis by simp
qed

theorem click_then_type_witness:
  "\<exists>s'. mouse_event 2 Window_mouse_event 0x200 10 10 1
      (desk\<lparr>widgets := (widgets desk)(0x400 \<mapsto> (widget_at desk 0x400)\<lparr>OnMouseEvent := Some Edit_mouse_event, OnKeyDown := Some Edit_keydown\<rparr>)\<rparr>) = Inr s' \<and>
    gui_get_active_window s' = Inr 0x200 \<and> key_down 2 blank_env Window_key_down 0x200 0x61 s' = edit_keydown 0x400 0x61 s'"
proof -
  let ?s = "desk\<lparr>widgets := (widgets desk)(0x400 \<mapsto> (widget_at desk 0x400)\<lparr>OnMouseEvent := Some Edit_mouse_event, OnKeyDown := Some Edit_keydown\<rparr>)\<rparr>"
  note d = desk_simps zero_widget_def widget_at_def
  have w: "windows ?s a \<noteq> None" if "a \<in> set [0x200, 0x300]" "is_window ?s a" for a using that by (auto simp: d)
  show ?thesis
    by (rule click_then_type [where ws = "[0x200, 0x300]" and cs = "[0x400]" and v = example_window, OF _ _ _ _ _ w])
      (simp_all add: d children_def linked_Cons is_window_def inside_def example_window_def widget_classes)
qed

end
