(* ===== verification/Kb.thy ===== *)
theory Kb
  imports Threads
begin

text \<open>
  drivers/kb.c: the keyboard driver.

  The handler of interrupt 1 puts the scan code in a queue; the keyboard thread converts the
  codes to characters and sends them as messages to the listening tasks. \<open>convert\<close> keeps the
  state of the modifier keys in static variables, here the record \<open>kmods\<close>.
\<close>

section \<open>Converting scan codes\<close>

definition KEY_RELEASED :: u32 where "KEY_RELEASED = 0x80"
definition LSHIFT :: u32 where "LSHIFT = 0x2A"
definition RSHIFT :: u32 where "RSHIFT = 0x36"
definition CTRL :: u32 where "CTRL = 0x1D"
definition ALT :: u32 where "ALT = 0x38"
definition KEY_NUM_LOCK :: u32 where "KEY_NUM_LOCK = 0x45"
definition KEY_SCROLL_LOCK :: u32 where "KEY_SCROLL_LOCK = 0x46"
definition KEY_CAPS_LOCK :: u32 where "KEY_CAPS_LOCK = 0x3A"

lemmas key_codes = KEY_RELEASED_def LSHIFT_def RSHIFT_def CTRL_def ALT_def KEY_NUM_LOCK_def KEY_SCROLL_LOCK_def
  KEY_CAPS_LOCK_def

text \<open>
  The table, 105 pairs. The file has three characters of three bytes; the compiler gives such a
  constant the value \<open>EFBFBD\<close>, the bytes in order.
\<close>

definition keymap :: "(int \<times> int) list" where
  "keymap =
    [(0, 0), (27, 0), (49, 33), (50, 64), (51, 35), (52, 36), (53, 37), (54, 94),
     (55, 38), (56, 42), (57, 40), (48, 41), (45, 95), (61, 43), (8, 8), (9, 0),
     (113, 81), (119, 87), (101, 69), (114, 82), (116, 84), (121, 89), (117, 85), (105, 73),
     (111, 79), (112, 80), (15712189, 96), (91, 123), (10, 0), (47, 63), (97, 65), (115, 83),
     (100, 68), (102, 70), (103, 71), (104, 72), (106, 74), (107, 75), (108, 76), (15712189, 15712189),
     (126, 94), (39, 34), (42, 0), (93, 125), (122, 90), (120, 88), (99, 67), (118, 86),
     (98, 66), (110, 78), (109, 77), (44, 60), (46, 62), (59, 58), (54, 0), (0, 0),
     (56, 0), (32, 32), (0, 0), (128, 128), (129, 129), (130, 130), (131, 131), (132, 132),
     (133, 133), (134, 134), (135, 135), (136, 136), (137, 137), (0, 0), (0, 0), (146, 55),
     (151, 56), (148, 57), (45, 0), (150, 52), (53, 0), (153, 54), (43, 0), (147, 49),
     (152, 50), (149, 51), (144, 48), (145, 145), (138, 138), (139, 139), (92, 124), (10, 10),
     (29, 0), (47, 0), (112, 113), (56, 0), (146, 0), (151, 0), (148, 0), (150, 0),
     (153, 0), (147, 0), (152, 0), (149, 0), (144, 0), (145, 0), (114, 0), (114, 0),
     (115, 0)]"

text \<open>The number of elements of the table, pairs counted twice.\<close>

definition KEYMAP_SIZE :: u32 where "KEYMAP_SIZE = 210"

record kmods =
  k_shift :: u8
  k_alt :: u8
  k_ctrl :: u8
  k_num :: u8
  k_caps :: u8
  k_scroll :: u8

definition toggle :: "u8 \<Rightarrow> u8" where
  "toggle x = (if x = 0 then 1 else 0)"

definition map_key :: "u32 \<Rightarrow> kmods \<Rightarrow> int result" where
  "map_key code k = bindr (array_get keymap (unat code)) (\<lambda>e. Inr (if k_shift k \<noteq> 0 then snd e else fst e))"

definition set_leds :: "kmods \<Rightarrow> port_write list" where
  "set_leds k = outportb 0x60 0xED @
     outportb 0x60 ((if k_scroll k \<noteq> 0 then 1 else 0) OR (if k_num k \<noteq> 0 then 2 else 0) OR (if k_caps k \<noteq> 0 then 4 else 0))"

text \<open>The second switch of \<open>convert\<close>: the case of \<open>CTRL\<close> runs into the default.\<close>

definition convert_key :: "u32 \<Rightarrow> kmods \<Rightarrow> (int \<times> kmods \<times> port_write list) result" where
  "convert_key code k =
     (if code = KEY_NUM_LOCK then let k = k\<lparr>k_num := toggle (k_num k)\<rparr> in Inr (0, k, set_leds k)
      else if code = KEY_SCROLL_LOCK then let k = k\<lparr>k_scroll := toggle (k_scroll k)\<rparr> in Inr (0, k, set_leds k)
      else if code = KEY_CAPS_LOCK then let k = k\<lparr>k_caps := toggle (k_caps k)\<rparr> in Inr (0, k, set_leds k)
      else if code = LSHIFT \<or> code = RSHIFT then Inr (0, k\<lparr>k_shift := 1\<rparr>, [])
      else if code = ALT then Inr (0, k\<lparr>k_alt := 1\<rparr>, [])
      else
        let k = (if code = CTRL then k\<lparr>k_ctrl := 1\<rparr> else k)
        in bindr (map_key code k) (\<lambda>key. Inr (key, k, [])))"

text \<open>
  \<open>convert\<close>: the result, the new state of the modifiers, and the ports written. After the code of
  a release the second switch is reached with the bit of the release removed.
\<close>

definition convert :: "u32 \<Rightarrow> kmods \<Rightarrow> (int \<times> kmods \<times> port_write list) result" where
  "convert code k =
     (if KEYMAP_SIZE \<le> code then Inr (0, k, [])
      else if code AND KEY_RELEASED \<noteq> 0 then
        let code = code AND 0x7F
        in if code = LSHIFT \<or> code = RSHIFT then Inr (0, k\<lparr>k_shift := 0\<rparr>, [])
           else if code = ALT then Inr (0, k\<lparr>k_alt := 0\<rparr>, [])
           else
             let k = (if code = CTRL then k\<lparr>k_ctrl := 0\<rparr> else k)
             in bindr (map_key code k) (\<lambda>_. convert_key code k)
      else convert_key code k)"

section \<open>The driver\<close>

record kb_state = task_state +
  kb_task :: addr
  kb_queue :: queue
  kb_wait :: queue
  mods :: kmods
  ocw1 :: u16

definition KEYBOARD :: u32 where "KEYBOARD = 4"

text \<open>\<open>t->listen && KEYBOARD\<close> is true for every task that listens to anything.\<close>

definition keyboard_listen :: "(u32, 'a kb_state_scheme) task_iterator" where
  "keyboard_listen p packet s =
     bindr (deref (task_mem s) p) (\<lambda>t.
       if t_listen t \<noteq> 0 then bindr (message_to (t_pid t) packet 0 s) (\<lambda>s. Inr (0, packet, s))
       else Inr (0, packet, s))"

text \<open>
  The inner loop of \<open>keyboad_task\<close>, until the queue gives NULL; the thread then sleeps on the
  queue \<open>kb_wait\<close> and comes back to this loop.
\<close>

fun keyboard_drain :: "nat \<Rightarrow> 'a kb_state_scheme \<Rightarrow> 'a kb_state_scheme result" where
  "keyboard_drain 0 s = Inl Diverge"
| "keyboard_drain (Suc n) s =
     bindr (queue_remove (kb_queue s)) (\<lambda>(c, q).
       let s = s\<lparr>kb_queue := q\<rparr>; scode = (ucast c :: u8)
       in if scode = 0 then Inr s
          else bindr (convert (ucast scode) (mods s)) (\<lambda>(key, k, ports).
            let s = s\<lparr>mods := k, io_log := io_log s @ ports\<rparr>; code = (of_int key :: u8)
            in if code \<noteq> 0 then
                 let packet = (if scode AND 0x80 \<noteq> 0 then 0 else 0x100) OR ucast code
                 in bindr (task_foreach (Some keyboard_listen) packet s) (\<lambda>(_, _, s). keyboard_drain n s)
               else keyboard_drain n s))"

definition keyboad_task :: "addr \<Rightarrow> 'a kb_state_scheme \<Rightarrow> 'a kb_state_scheme result" where
  "keyboad_task esp s =
     bindr (keyboard_drain addr_space s) (\<lambda>s.
     bindr (sleep_on_enter (kb_wait s) None None esp s) (\<lambda>(q, _, s). Inr (s\<lparr>kb_wait := q\<rparr>)))"

text \<open>\<open>inp\<close> is the answer of port 60.\<close>

definition keyboard_handler :: "u8 \<Rightarrow> 'a kb_state_scheme \<Rightarrow> 'a kb_state_scheme result" where
  "keyboard_handler inp s =
     (let s = s\<lparr>io_log := io_log s @ pic_acknowledge 1\<rparr>
      in bindr (queue_add (kb_queue s) (ucast inp)) (\<lambda>q.
           let s = s\<lparr>kb_queue := q\<rparr>
           in bindr (wake_up (kb_wait s) s) (\<lambda>(q, s). Inr (s\<lparr>kb_wait := q\<rparr>))))"

text \<open>
  \<open>kb\<close>: \<open>raw\<close>, \<open>cells\<close>, \<open>ip\<close> and \<open>name\<close> as for \<open>thread_create\<close>, \<open>c1\<close> and \<open>c2\<close> the memory of the two
  queues. Setting the interrupt gate is assembly.
\<close>

definition kb :: "task \<Rightarrow> u32 list \<Rightarrow> u32 \<Rightarrow> addr \<Rightarrow> u32 list \<Rightarrow> u32 list \<Rightarrow> 'a kb_state_scheme \<Rightarrow> 'a kb_state_scheme result" where
  "kb raw cs ip name c1 c2 s =
     bindr (thread_create raw cs ip 1 100 name s) (\<lambda>(t, s).
       if t = NULL then Inl Panic
       else
         bindr (malloc (4 * 16) s) (\<lambda>(_, s).
         bindr (malloc (4 * 8) s) (\<lambda>(_, s).
           let s = s\<lparr>kb_task := t, kb_queue := queue_init c1 16, kb_wait := queue_init c2 8\<rparr>
           in bindr (update_task t (\<lambda>tsk. tsk\<lparr>t_pid := KEYBOARD\<rparr>) s) (\<lambda>s.
              bindr (task_add t s) (\<lambda>s.
                let (o1, ports) = irq_enable 1 (ocw1 s)
                in Inr (s\<lparr>ocw1 := o1, io_log := io_log s @ ports\<rparr>))))))"

section \<open>A reference decoder\<close>

text \<open>
  What a code means, given whether shift is held: codes out of the range, the modifiers and the
  locks give nothing; any other code, of a press or of a release, gives the entry of its key.
\<close>

definition scan_key :: "u32 \<Rightarrow> u32" where
  "scan_key c = (if 0x80 \<le> c then c - 0x80 else c)"

definition silent_keys :: "u32 list" where
  "silent_keys = [0x2A, 0x36, 0x38, 0x45, 0x46, 0x3A]"

definition key_spec :: "bool \<Rightarrow> u32 \<Rightarrow> int" where
  "key_spec sh c =
     (if 210 \<le> c \<or> scan_key c \<in> set silent_keys then 0
      else (if sh then snd else fst) (keymap ! unat (scan_key c)))"

definition shift_step :: "bool \<Rightarrow> u32 \<Rightarrow> bool" where
  "shift_step sh c =
     (if c = 0x2A \<or> c = 0x36 then True else if c = 0xAA \<or> c = 0xB6 then False else sh)"

definition ctrl_code :: "u32 \<Rightarrow> bool" where
  "ctrl_code c \<longleftrightarrow> c = 0x1D \<or> c = 0x9D"

fun keys_spec :: "bool \<Rightarrow> u32 list \<Rightarrow> int list" where
  "keys_spec sh [] = []"
| "keys_spec sh (c # cs) = key_spec sh c # keys_spec (shift_step sh c) cs"

text \<open>The conversion of a sequence of codes.\<close>

fun convert_all :: "u32 list \<Rightarrow> kmods \<Rightarrow> (int list \<times> kmods) result" where
  "convert_all [] k = Inr ([], k)"
| "convert_all (c # cs) k =
     bindr (convert c k) (\<lambda>(key, k, _). bindr (convert_all cs k) (\<lambda>(keys, k). Inr (key # keys, k)))"

lemma below_210:
  assumes "c < (210 :: u32)" "\<forall>n \<in> set [0 ..< 210]. P (of_nat n)"
  shows "P c"
proof -
  have "unat c < 210" using assms(1) by (simp add: word_less_nat_alt)
  then show ?thesis using bspec [OF assms(2), of "unat c"] by simp
qed

lemma scan_bits:
  assumes "c < (210 :: u32)"
  shows "(c AND 0x80 \<noteq> 0 \<longleftrightarrow> 0x80 \<le> c) \<and> (0x80 \<le> c \<longrightarrow> c AND 0x7F = scan_key c)"
  by (rule below_210 [OF assms, where P = "\<lambda>c. (c AND 0x80 \<noteq> 0 \<longleftrightarrow> 0x80 \<le> c) \<and> (0x80 \<le> c \<longrightarrow> c AND 0x7F = scan_key c)"])
    code_simp

lemma length_keymap: "length keymap = 105"
  by (simp add: keymap_def)

lemma convert_key_spec:
  assumes "c < 105"
  shows "\<exists>k' ps. convert_key c k = Inr (key_spec (k_shift k \<noteq> 0) c, k', ps) \<and>
    (k_shift k' \<noteq> 0 \<longleftrightarrow> k_shift k \<noteq> 0 \<or> c = LSHIFT \<or> c = RSHIFT) \<and> k_ctrl k' = (if c = CTRL then 1 else k_ctrl k)"
proof -
  have n: "unat c < 105" and s: "scan_key c = c" "\<not> 210 \<le> c"
    using assms by (auto simp: word_less_nat_alt word_le_nat_alt scan_key_def)
  show ?thesis
  proof (cases "c \<in> set silent_keys")
    case True
    then show ?thesis using s
      by (auto simp: convert_key_def key_spec_def silent_keys_def key_codes Let_def)
  next
    case False
    then show ?thesis using s n length_keymap
      by (simp add: convert_key_def key_spec_def silent_keys_def key_codes Let_def map_key_def)
  qed
qed

lemma key_spec_release: "\<lbrakk>0x80 \<le> c; c < 210\<rbrakk> \<Longrightarrow> key_spec sh (c - 0x80) = key_spec sh c"
proof -
  assume c: "0x80 \<le> c" "c < (210 :: u32)"
  then have u: "unat (c - 0x80) = unat c - 128" "unat c < 210" "128 \<le> unat c"
    by (simp_all add: unat_sub word_le_nat_alt word_less_nat_alt)
  then have "\<not> 0x80 \<le> c - 0x80" "\<not> 210 \<le> c - 0x80" by (simp_all add: word_le_nat_alt)
  moreover have "\<not> 210 \<le> c" using c(2) by (simp add: linorder_not_le)
  ultimately show ?thesis using c(1) by (simp add: key_spec_def scan_key_def)
qed

lemma release_codes:
  assumes "c < (210 :: u32)" "0x80 \<le> c"
  shows "(scan_key c < 105) \<and> (scan_key c = 0x2A \<longleftrightarrow> c = 0xAA) \<and> (scan_key c = 0x36 \<longleftrightarrow> c = 0xB6) \<and>
    (scan_key c = 0x1D \<longleftrightarrow> c = 0x9D) \<and> c \<noteq> 0x2A \<and> c \<noteq> 0x36 \<and> c \<noteq> 0x1D"
proof -
  have u: "unat (c - 0x80) = unat c - 128" "unat c < 210" "128 \<le> unat c"
    using assms by (simp_all add: unat_sub word_le_nat_alt word_less_nat_alt)
  then have "c - 0x80 < 105" by (simp add: word_less_nat_alt)
  then show ?thesis using assms(2) by (auto simp: scan_key_def eq_diff_eq diff_eq_eq)
qed

lemma convert_spec:
  assumes "c < 105 \<or> 0x80 \<le> c"
  shows "\<exists>k' ps. convert c k = Inr (key_spec (k_shift k \<noteq> 0) c, k', ps) \<and>
    (k_shift k' \<noteq> 0 \<longleftrightarrow> shift_step (k_shift k \<noteq> 0) c) \<and>
    k_ctrl k' = (if ctrl_code c then 1 else k_ctrl k)"
proof (cases "210 \<le> c")
  case True
  then have "c \<noteq> 0x2A" "c \<noteq> 0x36" "c \<noteq> 0x1D" "c \<noteq> 0x9D" "c \<noteq> 0xAA" "c \<noteq> 0xB6" by auto
  then show ?thesis using True
    by (simp add: convert_def KEYMAP_SIZE_def key_spec_def shift_step_def ctrl_code_def)
next
  case False
  then have c: "c < 210" by (simp add: linorder_not_le)
  show ?thesis
  proof (cases "0x80 \<le> c")
    case rel: True
    note r = release_codes [OF c rel] and b = scan_bits [OF c]
    let ?k = "if scan_key c = CTRL then k\<lparr>k_ctrl := 0\<rparr> else k"
    obtain k' ps where k': "convert_key (scan_key c) ?k = Inr (key_spec (k_shift ?k \<noteq> 0) (scan_key c), k', ps)"
      "k_shift k' \<noteq> 0 \<longleftrightarrow> k_shift ?k \<noteq> 0 \<or> scan_key c = LSHIFT \<or> scan_key c = RSHIFT"
      "k_ctrl k' = (if scan_key c = CTRL then 1 else k_ctrl ?k)"
      using convert_key_spec [OF conjunct1 [OF r], of ?k] by (elim exE conjE) rule
    have "unat (scan_key c) < 105" using r by (simp add: word_less_nat_alt)
    then have m: "\<exists>v. map_key (scan_key c) ?k = Inr v" by (simp add: map_key_def length_keymap)
    have e: "key_spec sh (scan_key c) = key_spec sh c" for sh
      using key_spec_release [OF rel c] rel by (simp add: scan_key_def)
    show ?thesis
    proof (cases "scan_key c \<in> {LSHIFT, RSHIFT, ALT}")
      case True
      then show ?thesis using b rel c r
        by (auto simp: convert_def KEYMAP_SIZE_def key_codes Let_def key_spec_def silent_keys_def
          shift_step_def ctrl_code_def linorder_not_le)
    next
      case False
      then show ?thesis using b rel c r k' m e
        by (auto simp: convert_def KEYMAP_SIZE_def key_codes Let_def
          shift_step_def ctrl_code_def linorder_not_le split: if_splits)
    qed
  next
    case press: False
    then have l: "c < 105" using assms by simp
    obtain k' ps where k': "convert_key c k = Inr (key_spec (k_shift k \<noteq> 0) c, k', ps)"
      "k_shift k' \<noteq> 0 \<longleftrightarrow> k_shift k \<noteq> 0 \<or> c = LSHIFT \<or> c = RSHIFT"
      "k_ctrl k' = (if c = CTRL then 1 else k_ctrl k)"
      using convert_key_spec [OF l, of k] by (elim exE conjE) rule
    have "c \<noteq> 0x9D" "c \<noteq> 0xAA" "c \<noteq> 0xB6" using press by auto
    then show ?thesis using k' press c scan_bits [OF c]
      by (auto simp: convert_def KEYMAP_SIZE_def key_codes shift_step_def ctrl_code_def linorder_not_le)
  qed
qed


text \<open>The codes of shift, A, the release of both, B, and a control key: \<open>AAb/b\<close>.\<close>

definition some_keys :: "u32 list" where
  "some_keys = [0x2A, 0x1E, 0x9E, 0xAA, 0x30, 0x1D, 0x9D]"

definition no_mods :: kmods where
  "no_mods = \<lparr>k_shift = 0, k_alt = 0, k_ctrl = 0, k_num = 0, k_caps = 0, k_scroll = 0\<rparr>"


end
