(* ===== verification/Desktop.thy ===== *)
theory Desktop
  imports Drawing Navigator Kb
begin

text \<open>
  gui/gui.c and gui/desktop/taskbar.c: the desktop, the pointer, and the task that turns the messages of
  the keyboard and the mouse into events of the widgets.

  A mouse packet is an object of the typed heap \<open>gui_packets\<close>, its movements signed bytes. A colour
  written as three numbers initialises only the 32-bit value of the union with the first. \<open>gui_main\<close>
  is its start \<open>gui_init\<close> and the turns \<open>gui_round\<close> of its endless loop; enabling and disabling the
  interrupts has no effect on the state. The steps given to the event handlers suffice for every
  chain of windows that is not a cycle.
\<close>

section \<open>The desktop\<close>

definition taskbar_height :: "'a gui_state_scheme \<Rightarrow> u32" where
  "taskbar_height s = taskbarH s"

definition create_taskbar :: "gui_env \<Rightarrow> 'a gui_state_scheme \<Rightarrow> 'a gui_state_scheme result" where
  "create_taskbar env s =
     (let s = s\<lparr>taskbarH := 16\<rparr>
      in bindr (widget_create (junk_widget env) 0 0 (gfx_height s - taskbarH s) (gfx_width s) (gfx_height s) NULL s) (\<lambda>(p, s).
         bindr (update_widget p (bgcolor_update (\<lambda>_. 0xE4E4E4)) (s\<lparr>desktop_taskbar := p\<rparr>)) (\<lambda>s.
         bindr (button_create (lits env ''Menu'') p s) (\<lambda>(b, s). update_widget b (w_w_update (\<lambda>_. 50)) s))))"

definition taskbar_draw :: "(addr \<Rightarrow> addr \<Rightarrow> 'a gui_state_scheme \<Rightarrow> (u8 \<times> 'a gui_state_scheme) result) \<Rightarrow>
    'a gui_state_scheme \<Rightarrow> 'a gui_state_scheme result" where
  "taskbar_draw call s = widget_draw call (desktop_taskbar s) s"

definition clamp_low :: "u32 \<Rightarrow> u32" where
  "clamp_low x = (if sint x < 0 then 0 else x)"

definition gui_desktop_create :: "gui_env \<Rightarrow> 'a gui_state_scheme \<Rightarrow> 'a gui_state_scheme result" where
  "gui_desktop_create env s =
     bindr (widget_create (junk_widget env) 0 0 0 (gfx_width s) (gfx_height s - taskbar_height s - 1) NULL s) (\<lambda>(p, s).
     bindr (update_widget p (bgcolor_update (\<lambda>_. 96)) (s\<lparr>desktop_window := p\<rparr>)) (\<lambda>s.
     bindr (create_taskbar env s) (\<lambda>s.
     bindr (widget_set_padding (desktop_window s) 0 0 0 (taskbar_height s) s) (\<lambda>s.
     bindr (file_explorer env (s\<lparr>pointerX := clamp_low ((gfx_width s - 5) div 2), pointerY := clamp_low ((gfx_height s - 7) div 2)\<rparr>))
       (\<lambda>(_, s). Inr s)))))"

definition gui_cursor_create :: "gui_env \<Rightarrow> 'a gui_state_scheme \<Rightarrow> 'a gui_state_scheme result" where
  "gui_cursor_create env s =
     bindr (bmp_image_from_file (read_frame env) (bmp_hdr env) (lits env ''/ram/ui/cursor_normal.bmp'') s) (\<lambda>(img, s).
       Inr (s\<lparr>cursor_image := img\<rparr>))"

definition cursor_draw :: "'a gui_state_scheme \<Rightarrow> 'a gui_state_scheme result" where
  "cursor_draw s =
     (let img = cursor_image s
      in if img \<noteq> NULL then
           gfx_draw_data_with_alfa (bmp_data (bytes s) img) (bmp_width (bytes s) img) (bmp_height (bytes s) img) (pointerX s) (pointerY s) s
         else Inr s)"

definition gui_draw :: "(addr \<Rightarrow> addr \<Rightarrow> 'a gui_state_scheme \<Rightarrow> (u8 \<times> 'a gui_state_scheme) result) \<Rightarrow>
    'a gui_state_scheme \<Rightarrow> 'a gui_state_scheme result" where
  "gui_draw call s =
     bindr (widget_draw call (desktop_window s) s) (\<lambda>s.
     bindr (gui_get_active_window s) (\<lambda>w.
     bindr (widget_draw call w s) (\<lambda>s.
     bindr (taskbar_draw call s) (\<lambda>s.
     bindr (gfx_put_pixel (pointerX s) (pointerY s) 255 s) cursor_draw))))"

section \<open>Events\<close>

text \<open>A key: bit 8 of the data is set when it is pressed, the low byte is the key.\<close>

definition keyboard_message :: "gui_env \<Rightarrow> u32 \<Rightarrow> 'a gui_state_scheme \<Rightarrow> 'a gui_state_scheme result" where
  "keyboard_message env d s =
     bindr (gui_get_active_window s) (\<lambda>w.
       if w = NULL then Inr s
       else bindr (deref (widgets s) w) (\<lambda>x.
         if drop_bit 8 d AND 1 \<noteq> 0 then
           case OnKeyDown x of None \<Rightarrow> Inl BadPointer | Some f \<Rightarrow> key_down addr_space env f w (d AND 0xFF) s
         else
           case OnKeyUp x of None \<Rightarrow> Inl BadPointer | Some f \<Rightarrow> key_up_event addr_space f w (d AND 0xFF) s))"

text \<open>The pointer: both signs of \<open>dx\<close> are added, and both of \<open>dy\<close> subtracted.\<close>

definition move_pointer :: "mouse_packet \<Rightarrow> 'a gui_state_scheme \<Rightarrow> 'a gui_state_scheme" where
  "move_pointer pk s =
     (let x = (if mp_flags pk AND 0x10 = 0 then pointerX s + scast (mp_dx pk) else pointerX s - scast (mp_dx pk) * - 1);
          y = (if mp_flags pk AND 0x20 \<noteq> 0 then pointerY s + scast (mp_dy pk) * - 1 else pointerY s - scast (mp_dy pk));
          x = clamp_low x;
          x = (if gfx_width s < x then gfx_width s else x);
          y = clamp_low y;
          y = (if gfx_height s < y then gfx_height s else y)
      in s\<lparr>pointerX := x, pointerY := y\<rparr>)"

text \<open>The first child of the desktop but \<open>w\<close> that the point is in.\<close>

fun other_at :: "nat \<Rightarrow> (addr \<Rightarrow> widget option) \<Rightarrow> addr \<Rightarrow> addr \<Rightarrow> u32 \<Rightarrow> u32 \<Rightarrow> addr result" where
  "other_at 0 h w c x y = Inl Diverge"
| "other_at (Suc n) h w c x y =
     (if c = NULL then Inr NULL
      else bindr (deref h c) (\<lambda>v. if c \<noteq> w \<and> inside v x y then Inr c else other_at n h w (w_next v) x y))"

definition send_mouse_event :: "addr \<Rightarrow> u8 \<Rightarrow> 'a gui_state_scheme \<Rightarrow> 'a gui_state_scheme result" where
  "send_mouse_event w flags s =
     bindr (deref (widgets s) w) (\<lambda>x.
       case OnMouseEvent x of None \<Rightarrow> Inl BadPointer
       | Some f \<Rightarrow> mouse_event addr_space f w (pointerX s - w_x x) (pointerY s - w_y x) (ucast flags) s)"

definition mouse_message :: "mouse_packet \<Rightarrow> 'a gui_state_scheme \<Rightarrow> 'a gui_state_scheme result" where
  "mouse_message pk s =
     (let s = move_pointer pk s
      in bindr (gui_get_active_window s) (\<lambda>w.
         if w = NULL then Inr s
         else bindr (deref (widgets s) w) (\<lambda>x.
           if inside x (pointerX s) (pointerY s) then
             bindr (if mp_dx pk \<noteq> 0 \<or> mp_dy pk \<noteq> 0 then
                 case OnMouseMove x of None \<Rightarrow> Inl BadPointer
                 | Some f \<Rightarrow> mouse_move addr_space f w (pointerX s - w_x x) (pointerY s - w_y x) (ucast (mp_flags pk)) s
               else Inr s) (send_mouse_event w (mp_flags pk))
           else
             bindr (deref (widgets s) (desktop_window s)) (\<lambda>d.
             bindr (other_at addr_space (widgets s) w (w_child d) (pointerX s) (pointerY s)) (\<lambda>c.
               if c = NULL then Inr s
               else bindr (deref (widgets s) c) (\<lambda>v.
                 if OnMouseEvent v = None then Inr s else send_mouse_event c (mp_flags pk) s))))))"

definition gui_message :: "gui_env \<Rightarrow> message \<Rightarrow> 'a gui_state_scheme \<Rightarrow> 'a gui_state_scheme result" where
  "gui_message env m s =
     (if m_from m = KEYBOARD then keyboard_message env (m_data m) s
      else if m_from m = MOUSE then
        if m_data m \<noteq> NULL then bindr (deref (gui_packets s) (m_data m)) (\<lambda>pk. mouse_message pk s) else Inr s
      else Inr s)"

fun gui_drain :: "nat \<Rightarrow> gui_env \<Rightarrow> 'a gui_state_scheme \<Rightarrow> 'a gui_state_scheme result" where
  "gui_drain 0 env s = Inl Diverge"
| "gui_drain (Suc n) env s =
     bindr (message_get s) (\<lambda>(msg, s).
       if msg = NULL then Inr s
       else bindr (deref (messages s) msg) (\<lambda>m.
         bindr (gui_message env m s) (\<lambda>s. gui_drain n env (message_destroy msg s))))"

section \<open>The task\<close>

definition gui_init :: "gui_env \<Rightarrow> (addr \<Rightarrow> addr \<Rightarrow> 'a gui_state_scheme \<Rightarrow> (u8 \<times> 'a gui_state_scheme) result) \<Rightarrow>
    'a gui_state_scheme \<Rightarrow> 'a gui_state_scheme result" where
  "gui_init env call s =
     bindr (gui_desktop_create env s) (\<lambda>s.
     bindr (gui_cursor_create env s) (\<lambda>s.
     bindr (iconset (read_frame env) (bmp_hdr env) (lits env ''/ram/ui/ui-icons.bmp'') 16 16 s) (\<lambda>s.
     bindr (task_listen (KEYBOARD OR MOUSE) s) (\<lambda>s.
     bindr (gui_draw call s) (\<lambda>s. Inr (gfx_flip s))))))"

definition gui_round :: "gui_env \<Rightarrow> (addr \<Rightarrow> addr \<Rightarrow> 'a gui_state_scheme \<Rightarrow> (u8 \<times> 'a gui_state_scheme) result) \<Rightarrow> addr \<Rightarrow>
    'a gui_state_scheme \<Rightarrow> 'a gui_state_scheme result" where
  "gui_round env call esp s =
     bindr (gui_drain addr_space env s) (\<lambda>s.
     bindr (gui_draw call s) (\<lambda>s. task_block esp (gfx_flip s)))"

definition gui :: "gui_env \<Rightarrow> task \<Rightarrow> u32 list \<Rightarrow> u32 \<Rightarrow> 'a gui_state_scheme \<Rightarrow> 'a gui_state_scheme result" where
  "gui env raw cs ip s =
     bindr (thread_create raw cs ip 1 100 (lits env ''gui'') s) (\<lambda>(t, s). task_add t (s\<lparr>gui_task := t\<rparr>))"

section \<open>The pointer stays on the screen\<close>

lemma clamped_sum:
  fixes p w :: u32
  assumes "int (unat p) + d = k" "p \<le> w" "w < 65536" "\<bar>d\<bar> \<le> 128" "x = p + of_int d"
  shows "int (unat (if w < clamp_low x then w else clamp_low x)) = max 0 (min (int (unat w)) k)"
proof -
  have pw: "unat p \<le> unat w" "unat w < 65536" using assms(2,3) by (simp_all add: word_le_nat_alt word_less_nat_alt)
  have p: "p = of_int (int (unat p))" by simp
  have x: "x = word_of_int k" unfolding assms(1) [symmetric] assms(5) of_int_add by simp
  have kb: "- 128 \<le> k" "k < 65536 + 128" unfolding assms(1) [symmetric] using assms(4) pw by linarith+
  then have s: "sint x = k" unfolding x sint_sbintrunc' by (intro signed_take_bit_int_eq_self) (use kb in simp_all)
  have u: "unat x = nat k" if "0 \<le> k" unfolding x using that kb by (simp add: unat_eq_nat_uint uint_word_of_int take_bit_int_eq_self)
  show ?thesis
  proof (cases "k < 0")
    case True
    then show ?thesis using s by (simp add: clamp_low_def)
  next
    case False
    then have c: "clamp_low x = x" and i: "int (unat x) = k" using s u by (simp add: clamp_low_def, linarith)
    show ?thesis
    proof (cases "w < x")
      case True
      then have "unat w < unat x" by (simp add: word_less_nat_alt)
      then show ?thesis unfolding c if_P [OF True] using i by linarith
    next
      case False
      then have "\<not> unat w < unat x" by (simp add: word_less_nat_alt)
      then show ?thesis unfolding c if_not_P [OF False] using i by linarith
    qed
  qed
qed

lemma screen_small: "gfx_width s < 65536" "gfx_height s < 65536"
proof -
  have "(ucast v :: u32) < 65536" for v :: u16
  proof -
    have "unat v < 2 ^ LENGTH(16)" by (rule unsigned_less)
    then show ?thesis by (simp add: word_less_nat_alt unat_ucast_up)
  qed
  then show "gfx_width s < 65536" "gfx_height s < 65536"
    by (simp_all add: gfx_width_def gfx_height_def bochs_vbe_width_def bochs_vbe_height_def split: gfx_fn.splits)
qed

lemma sint_u8_small: "\<bar>sint (d :: u8)\<bar> \<le> 128"
  using sint_greater_eq [of d] sint_less [of d] by simp

text \<open>
  C36: a movement of the mouse moves the pointer by \<open>dx\<close> to the right and by \<open>dy\<close> upwards, and stops it at the
  borders: it is always between 0 and the width, and between 0 and the height, both included.
\<close>

theorem pointer_clamped:
  assumes "pointerX s \<le> gfx_width s" "pointerY s \<le> gfx_height s"
  shows "let s' = move_pointer pk s in
    int (unat (pointerX s')) = max 0 (min (int (unat (gfx_width s))) (int (unat (pointerX s)) + sint (mp_dx pk))) \<and>
    int (unat (pointerY s')) = max 0 (min (int (unat (gfx_height s))) (int (unat (pointerY s)) - sint (mp_dy pk)))"
proof -
  note x = clamped_sum [OF refl assms(1) screen_small(1) sint_u8_small refl, of "mp_dx pk"]
  have d: "\<bar>- sint (mp_dy pk)\<bar> \<le> 128" using sint_u8_small [of "mp_dy pk"] by simp
  note y = clamped_sum [OF refl assms(2) screen_small(2) d refl]
  have "pointerX (move_pointer pk s) = (let x = clamp_low (pointerX s + of_int (sint (mp_dx pk))) in if gfx_width s < x then gfx_width s else x)"
    "pointerY (move_pointer pk s) = (let y = clamp_low (pointerY s + of_int (- sint (mp_dy pk))) in if gfx_height s < y then gfx_height s else y)"
    by (simp_all add: move_pointer_def Let_def)
  then show ?thesis using x y by (simp only: Let_def) simp
qed

theorem pointer_clamped_witness:
  "pointerX (move_pointer \<lparr>mp_flags = 0x18, mp_dx = 0xF0, mp_dy = 5, mp_dz = 0\<rparr> (blank_gui\<lparr>pointerX := 3, pointerY := 2\<rparr>)) = 0"
proof -
  let ?s = "blank_gui\<lparr>pointerX := 3, pointerY := 2\<rparr>" and ?p = "\<lparr>mp_flags = 0x18, mp_dx = 0xF0, mp_dy = 5, mp_dz = 0\<rparr>"
  have w: "gfx_width ?s = 4" "gfx_height ?s = 4"
    by (simp_all add: gfx_width_def gfx_height_def bochs_vbe_width_def bochs_vbe_height_def blank_gui_def small_screen_def bochs_state.defs fs_state.defs)
  have "pointerX ?s \<le> gfx_width ?s" "pointerY ?s \<le> gfx_height ?s" unfolding w by simp_all
  from pointer_clamped [OF this, of ?p] have "int (unat (pointerX (move_pointer ?p ?s))) = 0"
    unfolding Let_def w by simp
  then have "unat (pointerX (move_pointer ?p ?s)) = 0" by linarith
  then show ?thesis by (simp only: unat_eq_0)
qed

end
