(* ===== verification/Gui_Types.thy ===== *)
theory Gui_Types
  imports Desktop
begin

text \<open>
  Types of the GUI's objects: the class of a widget says which struct it is and which callbacks it may
  have. Every operation keeps this; the allocator, the strings, the lists and the file system, which the
  GUI calls, keep all of its state.
\<close>

section \<open>What the GUI calls keeps its state\<close>

lemma mm_more_of_page_more:
  fixes s s' :: "'a mm_state_scheme"
  shows "page_state.more s' = page_state.more s \<Longrightarrow> mm_state.more s' = mm_state.more s"
  unfolding page_state.more_def mm_state.more_def by simp

lemma byte_more_of_mm_more:
  fixes s s' :: "'a byte_state_scheme"
  shows "mm_state.more s' = mm_state.more s \<Longrightarrow> byte_state.more s' = byte_state.more s"
  unfolding mm_state.more_def byte_state.more_def by simp

lemma list_more_of_byte_more:
  fixes s s' :: "'a list_state_scheme"
  shows "byte_state.more s' = byte_state.more s \<Longrightarrow> list_state.more s' = list_state.more s"
  unfolding byte_state.more_def list_state.more_def by simp

lemma word_more_of_list_more:
  fixes s s' :: "'a word_state_scheme"
  shows "list_state.more s' = list_state.more s \<Longrightarrow> word_state.more s' = word_state.more s"
  unfolding list_state.more_def word_state.more_def by simp

lemma fs_more_of_word_more:
  fixes s s' :: "'a fs_state_scheme"
  shows "word_state.more s' = word_state.more s \<Longrightarrow> fs_state.more s' = fs_state.more s"
  unfolding word_state.more_def fs_state.more_def by simp

lemma bochs_more_of_fs_more:
  fixes s s' :: "'a bochs_state_scheme"
  shows "fs_state.more s' = fs_state.more s \<Longrightarrow> bochs_state.more s' = bochs_state.more s"
  unfolding fs_state.more_def bochs_state.more_def by simp

lemma split_hole_more: "split_hole b sz s = Inr (r, s') \<Longrightarrow> mm_state.more s' = mm_state.more s"
  by (auto simp: split_hole_def Let_def elim!: bindr_Inr_elim split: if_splits)

lemma find_hole_loop_more: "find_hole_loop n b sz s = Inr (r, s') \<Longrightarrow> mm_state.more s' = mm_state.more s"
  by (induction n arbitrary: b) (auto dest: split_hole_more elim!: bindr_Inr_elim split: if_splits)

lemma expand_more: "expand sz s = Inr (r, s') \<Longrightarrow> mm_state.more s' = mm_state.more s"
  unfolding expand_def page_map_until_def by (intro mm_more_of_page_more map_loop_more)

lemma malloc_more: "malloc sz s = Inr (p, s') \<Longrightarrow> mm_state.more s' = mm_state.more s"
  by (auto simp: malloc_def find_hole_def Let_def dest!: find_hole_loop_more expand_more elim!: bindr_Inr_elim split: if_splits)

lemma malloc_byte_more:
  fixes s s' :: "'a byte_state_scheme"
  shows "malloc sz s = Inr (p, s') \<Longrightarrow> byte_state.more s' = byte_state.more s"
  by (intro byte_more_of_mm_more malloc_more)

lemma strdup_more: "strdup p s = Inr (r, s') \<Longrightarrow> byte_state.more s' = byte_state.more s"
  by (auto simp: strdup_def dest!: malloc_byte_more elim!: bindr_Inr_elim split: if_splits)

lemma strcat_more: "strcat p q s = Inr (r, s') \<Longrightarrow> byte_state.more s' = byte_state.more s"
  by (auto simp: strcat_def elim!: bindr_Inr_elim dest!: malloc_byte_more)

lemma malloc_list_more:
  fixes s s' :: "'a list_state_scheme"
  shows "malloc sz s = Inr (p, s') \<Longrightarrow> list_state.more s' = list_state.more s"
  by (intro list_more_of_byte_more malloc_byte_more)

lemma list_add_more:
  assumes "list_add l d s = Inr (r, s')"
  shows "list_state.more s' = list_state.more s"
proof -
  obtain e s1 where m: "malloc 12 s = Inr (e, s1)"
    using assms unfolding list_add_def by (elim bindr_Inr_elim) auto
  define t where "t = s1\<lparr>lnodes := (lnodes s1)(e \<mapsto> \<lparr>l_magic = LIST_MAGIC, l_data = d, l_next = NULL\<rparr>)\<rparr>"
  have t: "list_state.more t = list_state.more s1" unfolding t_def by simp
  have k: "(if e = NULL then Inr (l, s1)
      else if l = NULL then Inr (e, t)
      else bindr (deref (lnodes t) l) (\<lambda>nd. if l_magic nd \<noteq> LIST_MAGIC then Inr (e, t)
        else bindr (last_node addr_space (lnodes t) l) (\<lambda>p.
          bindr (deref (lnodes t) p) (\<lambda>lnd. Inr (l, t\<lparr>lnodes := (lnodes t)(p \<mapsto> lnd\<lparr>l_next := e\<rparr>)\<rparr>))))) = Inr (r, s')"
    using assms unfolding list_add_def m bindr_simps Let_def prod.case t_def .
  then have "list_state.more s' = list_state.more s1"
    using t by (auto elim!: bindr_Inr_elim split: if_splits)
  then show ?thesis using malloc_list_more [OF m] by simp
qed

lemma path_more: "path p s = Inr (r, s') \<Longrightarrow> word_state.more s' = word_state.more s"
  by (auto simp: path_def Let_def elim!: bindr_Inr_elim split: if_splits
    dest!: strdup_more [THEN list_more_of_byte_more, THEN word_more_of_list_more] malloc_list_more [THEN word_more_of_list_more])

lemma fs_find_state: "fs_find u e s = Inr (r, s') \<Longrightarrow> s' = s"
  by (auto elim!: bindr_Inr_elim simp: fs_find_def)

lemma foreach_fs_find_state: "foreach_nodes n (fs_find u) e s = Inr (r, s') \<Longrightarrow> s' = s"
  by (induction n arbitrary: e) (auto dest!: fs_find_state elim!: bindr_Inr_elim split: if_splits)

lemma search_state: "list_foreach l (Some (fs_find u)) s = Inr (r, s') \<Longrightarrow> s' = s"
  by (auto simp: list_foreach_def dest!: foreach_fs_find_state elim!: bindr_Inr_elim split: if_splits)

lemma entry_node_state: "entry_node (e, s) = Inr (r, s') \<Longrightarrow> s' = s"
  by (auto simp: entry_node_def elim!: bindr_Inr_elim split: if_splits)

lemma find_segs_more:
  assumes "\<And>node name s r s'. fd node name s = Inr (r, s') \<Longrightarrow> word_state.more s' = word_state.more s"
  shows "find_segs n fd p i nd s = Inr (r, s') \<Longrightarrow> word_state.more s' = word_state.more s"
  by (induction n arbitrary: i nd s) (auto simp: path_free_def dest!: assms elim!: bindr_Inr_elim split: if_splits)

lemma finddir_rec_more: "finddir_rec n node name s = Inr (r, s') \<Longrightarrow> word_state.more s' = word_state.more s"
proof (induction n arbitrary: node name s r s')
  case (Suc n)
  have d: "devfs_finddir node name s = Inr (r, s') \<Longrightarrow> s' = s"
    by (auto simp: devfs_finddir_def devfs_find_def dest!: search_state entry_node_state elim!: bindr_Inr_elim split: if_splits)
  have m: "ramfs_finddir node name s = Inr (r, s') \<Longrightarrow> s' = s"
    by (auto simp: ramfs_finddir_def find_name_def dest!: search_state entry_node_state elim!: bindr_Inr_elim split: if_splits)
  have fs: "find_segs k (finddir_rec n) p i nd t = Inr (r, s') \<Longrightarrow> word_state.more s' = word_state.more t" for k p i nd t
    by (rule find_segs_more [OF Suc.IH])
  have r: "root_fs_finddir (finddir_rec n) node name s = Inr (r, s') \<Longrightarrow> word_state.more s' = word_state.more s"
    by (auto simp: root_fs_finddir_def path_free_def elim!: bindr_Inr_elim dest!: path_more search_state fs split: if_splits)
  from Suc.prems show ?case
    by (auto dest: r dest!: d m elim!: bindr_Inr_elim split: if_splits option.splits finddir_fn.splits)
qed simp

lemma finddir_more: "finddir_fs node name s = Inr (r, s') \<Longrightarrow> fs_state.more s' = fs_state.more s"
  unfolding finddir_fs_def by (intro fs_more_of_word_more finddir_rec_more)

lemma malloc_fs_more:
  fixes s s' :: "'a fs_state_scheme"
  shows "malloc sz s = Inr (p, s') \<Longrightarrow> fs_state.more s' = fs_state.more s"
  by (intro fs_more_of_word_more word_more_of_list_more malloc_list_more)

lemma new_dirent_more: "new_dirent nd i j f s = Inr (r, s') \<Longrightarrow> fs_state.more s' = fs_state.more s"
  by (auto simp: new_dirent_def strcpy128_def guardr_def dest!: malloc_fs_more elim!: bindr_Inr_elim split: if_splits)

lemma readdir_more: "readdir_fs node i s = Inr (r, s') \<Longrightarrow> fs_state.more s' = fs_state.more s"
  by (auto simp: readdir_fs_def root_fs_readdir_def devfs_readdir_def ramfs_readdir_def elim!: bindr_Inr_elim
    dest!: new_dirent_more split: if_splits option.splits readdir_fn.splits)

lemma sys_readdir_more:
  assumes "sys_readdir p d s = Inr (r, s')"
  shows "fs_state.more s' = fs_state.more s"
proof -
  obtain off nd s1 where f: "finddir_fs (fs_root_get s) p s = Inr (nd, s1)"
      and k: "(if nd \<noteq> NULL then
         bindr (readdir_fs nd off s1) (\<lambda>(e, s).
           if e = NULL then Inr (NULL, s)
           else bindr (deref (dirents s) e) (\<lambda>x.
             let s = s\<lparr>dirents := (dirents s)(e \<mapsto> x\<lparr>d_offset := off + 1\<rparr>)\<rparr>
             in Inr (e, if d \<noteq> NULL then free d s else s)))
       else Inr (NULL, s1)) = Inr (r, s')"
    using assms unfolding sys_readdir_def by (elim bindr_Inr_elim) (auto simp del: fun_upd_apply split: prod.splits)
  have "fs_state.more s' = fs_state.more s1"
  proof (cases "nd = NULL")
    case False
    obtain e s2 where e: "readdir_fs nd off s1 = Inr (e, s2)"
        and k2: "(if e = NULL then Inr (NULL, s2)
           else bindr (deref (dirents s2) e) (\<lambda>x.
             let s = s2\<lparr>dirents := (dirents s2)(e \<mapsto> x\<lparr>d_offset := off + 1\<rparr>)\<rparr>
             in Inr (e, if d \<noteq> NULL then free d s else s))) = Inr (r, s')"
      using k unfolding if_P [OF False] by (elim bindr_Inr_elim) (auto simp del: fun_upd_apply)
    have "fs_state.more s' = fs_state.more s2"
      using k2 unfolding free_def by (cases "e = NULL") (auto elim!: bindr_Inr_elim simp del: fun_upd_apply)
    then show ?thesis using readdir_more [OF e] by simp
  qed (use k in auto)
  then show ?thesis using finddir_more [OF f] by simp
qed

lemma sys_open_more:
  assumes "sys_open name s = Inr (r, s')"
  shows "fs_state.more s' = fs_state.more s"
proof -
  obtain q s1 where q: "finddir_fs (fs_root_get s) name s = Inr (q, s1)"
      and k: "(if q \<noteq> NULL then
         bindr (deref (task_mem s1) (task_get s1)) (\<lambda>t.
         bindr (array_get (t_files t) (unat (t_file_count t))) (\<lambda>f.
         bindr (array_set (t_files t) (unat (t_file_count t)) (f\<lparr>tf_node := q\<rparr>)) (\<lambda>fs.
           Inr (sint (t_file_count t), s1\<lparr>task_mem := (task_mem s1)(task_get s1 \<mapsto>
             t\<lparr>t_files := fs, t_file_count := t_file_count t + 1\<rparr>)\<rparr>))))
       else Inr (- 1, s1)) = Inr (r, s')"
    using assms unfolding sys_open_def by (elim bindr_Inr_elim) auto
  have "fs_state.more s' = fs_state.more s1"
  proof (cases "q = NULL")
    case False
    from k show ?thesis unfolding if_P [OF False] by (elim bindr_Inr_elim) auto
  qed (use k in auto)
  then show ?thesis using finddir_more [OF q] by simp
qed

lemma read_fs_more:
  assumes "read_fs frame node i sz b s = Inr (r, s')"
  shows "fs_state.more s' = fs_state.more s"
proof -
  obtain nd where n: "fnodes s node = Some nd" using assms by (auto elim!: bindr_Inr_elim simp: read_fs_def deref_eq_Inr_iff)
  have d: "Inr (dev_one_read i sz b s) = Inr (r, s') \<Longrightarrow> fs_state.more s' = fs_state.more s"
    "Inr (dev_zero_read i sz b s) = Inr (r, s') \<Longrightarrow> fs_state.more s' = fs_state.more s"
    "Inr (dev_rand_read frame i sz b s) = Inr (r, s') \<Longrightarrow> fs_state.more s' = fs_state.more s"
    "ramfs_read node i sz b s = Inr (r, s') \<Longrightarrow> fs_state.more s' = fs_state.more s"
    by (auto simp: dev_one_read_def dev_zero_read_def dev_rand_read_def ramfs_read_def Let_def elim!: bindr_Inr_elim split: if_splits prod.splits)
  show ?thesis
  proof (cases "n_read nd")
    case (Some f)
    then show ?thesis using assms n d by (cases f) (simp_all add: read_fs_def)
  qed (use assms n in \<open>simp add: read_fs_def\<close>)
qed

lemma sys_read_more: "sys_read frame fd b sz s = Inr (r, s') \<Longrightarrow> fs_state.more s' = fs_state.more s"
  by (auto simp: sys_read_def dest: read_fs_more elim!: bindr_Inr_elim split: if_splits)

section \<open>Well-typed widgets\<close>

text \<open>The class of the widgets that may have each callback.\<close>

definition key_down_class :: "key_down_fn \<Rightarrow> u32" where
  "key_down_class f = (case f of Window_key_down \<Rightarrow> W_WINDOW | Edit_keydown \<Rightarrow> W_EDIT | Button_keydown \<Rightarrow> W_BUTTON
     | File_navigator_keydown \<Rightarrow> W_FILE_NAVIGATOR)"

definition key_up_class :: "key_up_fn \<Rightarrow> u32" where
  "key_up_class f = (case f of Window_key_up \<Rightarrow> W_WINDOW | Button_keyup \<Rightarrow> W_BUTTON)"

definition mouse_move_class :: "mouse_move_fn \<Rightarrow> u32" where
  "mouse_move_class f = (case f of Window_mouse_move \<Rightarrow> W_WINDOW | Button_mouse_move \<Rightarrow> W_BUTTON)"

definition mouse_event_class :: "mouse_event_fn \<Rightarrow> u32" where
  "mouse_event_class f = (case f of Window_mouse_event \<Rightarrow> W_WINDOW | Edit_mouse_event \<Rightarrow> W_EDIT | Button_mouse_event \<Rightarrow> W_BUTTON
     | File_navigator_mouse_event \<Rightarrow> W_FILE_NAVIGATOR)"

definition click_class :: "click_fn \<Rightarrow> u32" where
  "click_class f = (case f of Button_click \<Rightarrow> W_BUTTON)"

definition well_classed :: "widget \<Rightarrow> bool" where
  "well_classed x \<longleftrightarrow> (\<forall>f. OnKeyDown x = Some f \<longrightarrow> w_class x = key_down_class f) \<and> (\<forall>f. OnKeyUp x = Some f \<longrightarrow> w_class x = key_up_class f) \<and>
     (\<forall>f. OnMouseMove x = Some f \<longrightarrow> w_class x = mouse_move_class f) \<and>
     (\<forall>f. OnMouseEvent x = Some f \<longrightarrow> w_class x = mouse_event_class f) \<and> (\<forall>f. OnClick x = Some f \<longrightarrow> w_class x = click_class f) \<and>
     (w_class x = W_BUTTON \<longrightarrow> OnClick x \<noteq> None)"

text \<open>The struct behind a widget is the one its class says.\<close>

definition has_struct :: "'a gui_state_scheme \<Rightarrow> addr \<Rightarrow> u32 \<Rightarrow> bool" where
  "has_struct s p c \<longleftrightarrow> (c = W_WINDOW \<longrightarrow> windows s p \<noteq> None) \<and> (c = W_LABEL \<longrightarrow> labels s p \<noteq> None) \<and>
     (c = W_BUTTON \<longrightarrow> buttons s p \<noteq> None) \<and> (c = W_EDIT \<longrightarrow> edits s p \<noteq> None) \<and> (c = W_FILE_NAVIGATOR \<longrightarrow> navigators s p \<noteq> None)"

definition gui_typed :: "'a gui_state_scheme \<Rightarrow> bool" where
  "gui_typed s \<longleftrightarrow> (\<forall>p x. widgets s p = Some x \<longrightarrow> well_classed x \<and> has_struct s p (w_class x))"

named_theorems typed_dest \<open>operations that keep the types\<close>

lemma typed_fields [simp]:
  "gui_typed (s\<lparr>bytes := b\<rparr>) = gui_typed s" "gui_typed (s\<lparr>dirents := d\<rparr>) = gui_typed s" "gui_typed (s\<lparr>wnd := a\<rparr>) = gui_typed s"
  "gui_typed (s\<lparr>edtPath := a\<rparr>) = gui_typed s" "gui_typed (s\<lparr>desktop_window := a\<rparr>) = gui_typed s"
  "gui_typed (s\<lparr>desktop_taskbar := a\<rparr>) = gui_typed s" "gui_typed (s\<lparr>taskbarH := x\<rparr>) = gui_typed s"
  "gui_typed (s\<lparr>pointerX := x\<rparr>) = gui_typed s" "gui_typed (s\<lparr>pointerY := x\<rparr>) = gui_typed s"
  by (simp_all add: gui_typed_def has_struct_def)

lemma gui_fields_same:
  fixes s s' :: "'a gui_state_scheme"
  assumes "bochs_state.more s' = bochs_state.more s"
  shows "widgets s' = widgets s \<and> windows s' = windows s \<and> labels s' = labels s \<and> buttons s' = buttons s \<and> edits s' = edits s \<and>
    navigators s' = navigators s"
  using assms by (cases s; cases s') simp

lemma typed_same: "same_gui s s' \<Longrightarrow> gui_typed s' = gui_typed s"
  by (drule gui_fields_same) (simp add: gui_typed_def has_struct_def)

lemma typed_of_list: "list_state.more s' = list_state.more s \<Longrightarrow> gui_typed s' = gui_typed s"
  by (intro typed_same bochs_more_of_fs_more fs_more_of_word_more word_more_of_list_more)

lemma typed_of_fs: "fs_state.more s' = fs_state.more s \<Longrightarrow> gui_typed s' = gui_typed s"
  by (intro typed_same bochs_more_of_fs_more)

lemma lower_typed [typed_dest]:
  fixes s s' :: "'a gui_state_scheme"
  shows "malloc sz s = Inr (p, s') \<Longrightarrow> gui_typed s' = gui_typed s"
    "strdup p s = Inr (q, s') \<Longrightarrow> gui_typed s' = gui_typed s"
    "strcat p q s = Inr (r, s') \<Longrightarrow> gui_typed s' = gui_typed s"
    "list_add l d s = Inr (r, s') \<Longrightarrow> gui_typed s' = gui_typed s"
    "sys_open p s = Inr (fd, s') \<Longrightarrow> gui_typed s' = gui_typed s"
    "sys_read fr fd' q sz s = Inr (r, s') \<Longrightarrow> gui_typed s' = gui_typed s"
    "sys_readdir p q s = Inr (r, s') \<Longrightarrow> gui_typed s' = gui_typed s"
  by (erule typed_of_fs [OF malloc_fs_more] typed_of_list [OF list_more_of_byte_more, OF strdup_more]
    typed_of_list [OF list_more_of_byte_more, OF strcat_more] typed_of_list [OF list_add_more] typed_of_fs [OF sys_open_more]
    typed_of_fs [OF sys_read_more] typed_of_fs [OF sys_readdir_more])+

text \<open>An assignment that leaves the class and the callbacks alone.\<close>

definition keeps_class :: "(widget \<Rightarrow> widget) \<Rightarrow> bool" where
  "keeps_class f \<longleftrightarrow> (\<forall>x. w_class (f x) = w_class x \<and> well_classed (f x) = well_classed x)"

lemma has_struct_widgets [simp]: "has_struct (s\<lparr>widgets := h\<rparr>) = has_struct s"
  by (simp add: fun_eq_iff has_struct_def)

lemma typed_put:
  "\<lbrakk>gui_typed s; well_classed y; has_struct s p (w_class y)\<rbrakk> \<Longrightarrow> gui_typed (s\<lparr>widgets := (widgets s)(p \<mapsto> y)\<rparr>)"
  by (simp add: gui_typed_def)

lemma typed_mono:
  "\<lbrakk>gui_typed s; widgets s' = widgets s; \<And>p c. has_struct s p c \<Longrightarrow> has_struct s' p c\<rbrakk> \<Longrightarrow> gui_typed s'"
  by (simp add: gui_typed_def)

lemma typed_update_widget: "update_widget p f s = Inr s' \<Longrightarrow> keeps_class f \<Longrightarrow> gui_typed s \<longrightarrow> gui_typed s'"
proof
  assume u: "update_widget p f s = Inr s'" and k: "keeps_class f" and t: "gui_typed s"
  obtain x where x: "widgets s p = Some x" "s' = s\<lparr>widgets := (widgets s)(p \<mapsto> f x)\<rparr>"
    using u by (auto simp: update_widget_def deref_eq_Inr_iff elim!: bindr_Inr_elim)
  then have "well_classed x" "has_struct s p (w_class x)" using t by (auto simp: gui_typed_def)
  then show "gui_typed s'" unfolding x(2) using k t by (intro typed_put) (simp_all add: keeps_class_def)
qed

lemma typed_update [typed_dest]:
  "update_window p f1 s = Inr s' \<Longrightarrow> gui_typed s \<longrightarrow> gui_typed s'" "update_label p f2 s = Inr s' \<Longrightarrow> gui_typed s \<longrightarrow> gui_typed s'"
  "update_button p f3 s = Inr s' \<Longrightarrow> gui_typed s \<longrightarrow> gui_typed s'" "update_edit p f4 s = Inr s' \<Longrightarrow> gui_typed s \<longrightarrow> gui_typed s'"
  "update_navigator p f5 s = Inr s' \<Longrightarrow> gui_typed s \<longrightarrow> gui_typed s'"
  by (auto simp: update_window_def update_label_def update_button_def update_edit_def update_navigator_def has_struct_def
    elim!: bindr_Inr_elim elim: typed_mono)

lemma keeps_class_fields [simp]:
  "keeps_class (w_parent_update f)" "keeps_class (w_child_update f)" "keeps_class (w_next_update f)" "keeps_class (bgcolor_update f)"
  "keeps_class (w_w_update f)" "keeps_class (w_x_update f)" "keeps_class (OnPaint_User_update g)" "keeps_class (OnKeyUp_User_update g)"
  "keeps_class (\<lambda>x. x\<lparr>w_x := a, w_y := b\<rparr>)" "keeps_class (\<lambda>x. x\<lparr>w_w := a, w_h := b\<rparr>)" "keeps_class (set_padding a b c d)"
  "keeps_class (\<lambda>x. x\<lparr>bgcolor := a, w_x := b\<rparr>)" "keeps_class (\<lambda>x. x\<lparr>w_x := a, w_y := b, w_w := c\<rparr>)"
  "keeps_class (\<lambda>x. x\<lparr>w_w := a, w_h := h x\<rparr>)" "keeps_class (\<lambda>x. x\<lparr>w_y := a, w_h := h x\<rparr>)"
  by (simp_all add: keeps_class_def well_classed_def set_padding_def)

lemmas typed_assign [typed_dest] = typed_update_widget [OF _ keeps_class_fields(1)] typed_update_widget [OF _ keeps_class_fields(2)]
  typed_update_widget [OF _ keeps_class_fields(3)] typed_update_widget [OF _ keeps_class_fields(4)]
  typed_update_widget [OF _ keeps_class_fields(5)] typed_update_widget [OF _ keeps_class_fields(6)]
  typed_update_widget [OF _ keeps_class_fields(7)] typed_update_widget [OF _ keeps_class_fields(8)]
  typed_update_widget [OF _ keeps_class_fields(9)] typed_update_widget [OF _ keeps_class_fields(10)]
  typed_update_widget [OF _ keeps_class_fields(11)] typed_update_widget [OF _ keeps_class_fields(12)]
  typed_update_widget [OF _ keeps_class_fields(13)] typed_update_widget [OF _ keeps_class_fields(14)]
  typed_update_widget [OF _ keeps_class_fields(15)]

section \<open>Every operation keeps the types\<close>

lemma set_parent_typed [typed_dest]: "widget_set_parent p q s = Inr s' \<Longrightarrow> gui_typed s \<longrightarrow> gui_typed s'"
  by (auto simp: widget_set_parent_def dest!: typed_dest elim!: bindr_Inr_elim split: if_splits)

lemma widget_move_typed [typed_dest]: "widget_move p x y s = Inr s' \<Longrightarrow> gui_typed s \<longrightarrow> gui_typed s'"
  "window_move p x y s = Inr s' \<Longrightarrow> gui_typed s \<longrightarrow> gui_typed s'"
  by (auto simp: widget_move_def window_move_def dest!: typed_dest split: if_splits)

lemma set_callback_typed [typed_dest]: "widget_set_callback p cb f s = Inr s' \<Longrightarrow> gui_typed s \<longrightarrow> gui_typed s'"
  by (auto simp: widget_set_callback_def dest!: typed_dest split: if_splits)

lemma call_focus_typed [typed_dest]:
  "call_focus p s = Inr s' \<Longrightarrow> gui_typed s \<longrightarrow> gui_typed s'" "call_loose_focus p s = Inr s' \<Longrightarrow> gui_typed s \<longrightarrow> gui_typed s'"
  by (auto simp: call_focus_def call_loose_focus_def dest!: typed_dest elim!: bindr_Inr_elim split: option.splits)

lemma set_focus_typed [typed_dest]: "widget_set_focus p s = Inr s' \<Longrightarrow> gui_typed s \<longrightarrow> gui_typed s'"
  by (auto simp: widget_set_focus_def dest!: typed_dest elim!: bindr_Inr_elim split: if_splits)

lemma set_active_loop_typed: "set_active_loop n w c s = Inr s' \<Longrightarrow> gui_typed s \<longrightarrow> gui_typed s'"
  by (induction n arbitrary: c s) (auto dest!: typed_dest elim!: bindr_Inr_elim split: if_splits)

lemma set_active_typed [typed_dest]: "gui_set_active_window w s = Inr s' \<Longrightarrow> gui_typed s \<longrightarrow> gui_typed s'"
  by (auto simp: gui_set_active_window_def dest!: set_active_loop_typed elim!: bindr_Inr_elim split: if_splits)

subsection \<open>Controls\<close>

lemma typed_new:
  "gui_typed s \<Longrightarrow> gui_typed (s\<lparr>widgets := (widgets s)(p \<mapsto> label_widget), labels := (labels s)(p \<mapsto> l)\<rparr>)"
  "gui_typed s \<Longrightarrow> gui_typed (s\<lparr>widgets := (widgets s)(p \<mapsto> button_widget q), buttons := (buttons s)(p \<mapsto> b)\<rparr>)"
  "gui_typed s \<Longrightarrow> gui_typed (s\<lparr>widgets := (widgets s)(p \<mapsto> window_widget x y z), windows := (windows s)(p \<mapsto> v)\<rparr>)"
  "gui_typed s \<Longrightarrow> gui_typed (s\<lparr>widgets := (widgets s)(p \<mapsto> navigator_widget par), navigators := (navigators s)(p \<mapsto> n)\<rparr>)"
  by (auto simp: gui_typed_def has_struct_def well_classed_def label_widget_def button_widget_def window_widget_def navigator_widget_def
    zero_widget_def set_padding_def widget_classes key_down_class_def key_up_class_def mouse_move_class_def mouse_event_class_def click_class_def)

lemma size_request_typed [typed_dest]: "label_size_request p s = Inr s' \<Longrightarrow> gui_typed s \<longrightarrow> gui_typed s'"
  by (auto simp: label_size_request_def Let_def guardr_def dest!: typed_dest elim!: bindr_Inr_elim split: if_splits)

lemma set_text_typed [typed_dest]: "label_set_text p str s = Inr s' \<Longrightarrow> gui_typed s \<longrightarrow> gui_typed s'"
  by (auto simp: label_set_text_def Let_def free_def dest!: typed_dest elim!: bindr_Inr_elim split: if_splits)

lemma set_linespace_typed [typed_dest]: "label_set_linespace p n s = Inr s' \<Longrightarrow> gui_typed s \<longrightarrow> gui_typed s'"
  by (auto simp: label_set_linespace_def dest!: typed_dest)

lemma label_create_typed [typed_dest]: "label_create str par s = Inr (p, s') \<Longrightarrow> gui_typed s \<longrightarrow> gui_typed s'"
  by (auto simp: label_create_def dest!: typed_dest elim!: bindr_Inr_elim split: if_splits intro: typed_new)

lemma typed_edit [simp, intro]:
  "gui_typed s \<Longrightarrow> gui_typed (s\<lparr>edits := (edits s)(p \<mapsto> e)\<rparr>)" "gui_typed s \<Longrightarrow> gui_typed (s\<lparr>bytes := b, edits := (edits s)(p \<mapsto> e)\<rparr>)"
  by (auto elim!: typed_mono simp: has_struct_def)

text \<open>Between its two allocations an edit has no struct yet.\<close>

lemma edit_create_typed [typed_dest]: "edit_create par s = Inr (p, s') \<Longrightarrow> gui_typed s \<longrightarrow> gui_typed s'"
proof
  assume e: "edit_create par s = Inr (p, s')" and t: "gui_typed s"
  obtain p1 s1 where m: "malloc 136 s = Inr (p1, s1)" using e unfolding edit_create_def by (elim bindr_Inr_elim) auto
  have t1: "gui_typed s1" using lower_typed(1) [OF m] t by simp
  show "gui_typed s'"
  proof (cases "p1 = NULL")
    case True
    then show ?thesis using e m t1 by (auto simp: edit_create_def)
  next
    case False
    obtain q s2 where q: "malloc 33 (s1\<lparr>widgets := (widgets s1)(p1 \<mapsto> edit_widget par)\<rparr>) = Inr (q, s2)"
        and par: "widget_set_parent p1 par (s2\<lparr>bytes := (bytes s2)(q := 0),
          edits := (edits s2)(p1 \<mapsto> \<lparr>edt_text = q, edt_mask = 0, edt_length = 32, edt_cursor = 0\<rparr>)\<rparr>) = Inr s'"
      using e m False unfolding edit_create_def by (auto elim!: bindr_Inr_elim simp del: fun_upd_apply)
    have "widgets s2 = (widgets s1)(p1 \<mapsto> edit_widget par)" "windows s2 = windows s1" "labels s2 = labels s1" "buttons s2 = buttons s1"
        "edits s2 = edits s1" "navigators s2 = navigators s1"
      using gui_fields_same [OF bochs_more_of_fs_more, OF malloc_fs_more, OF q] by simp_all
    then have "gui_typed (s2\<lparr>bytes := (bytes s2)(q := 0),
        edits := (edits s2)(p1 \<mapsto> \<lparr>edt_text = q, edt_mask = 0, edt_length = 32, edt_cursor = 0\<rparr>)\<rparr>)"
      using t1 by (auto simp: gui_typed_def has_struct_def well_classed_def edit_widget_def zero_widget_def set_padding_def widget_classes
        key_down_class_def mouse_event_class_def)
    then show ?thesis using set_parent_typed [OF par] by simp
  qed
qed

lemma edit_keydown_typed [typed_dest]: "edit_keydown p key s = Inr s' \<Longrightarrow> gui_typed s \<longrightarrow> gui_typed s'"
  by (auto simp: edit_keydown_def Let_def simp del: fun_upd_apply elim!: bindr_Inr_elim split: if_splits)

lemma edit_set_text_typed [typed_dest]: "edit_set_text p str s = Inr s' \<Longrightarrow> gui_typed s \<longrightarrow> gui_typed s'"
  by (auto simp: edit_set_text_def has_struct_def elim!: bindr_Inr_elim elim: typed_mono)

lemma button_create_typed [typed_dest]: "button_create str par s = Inr (p, s') \<Longrightarrow> gui_typed s \<longrightarrow> gui_typed s'"
  by (auto simp: button_create_def dest!: typed_dest elim!: bindr_Inr_elim split: if_splits intro: typed_new)

lemma button_events_typed [typed_dest]:
  "button_mouse_event p fl s = Inr s' \<Longrightarrow> gui_typed s \<longrightarrow> gui_typed s'"
  "button_keydown p key s = Inr s' \<Longrightarrow> gui_typed s \<longrightarrow> gui_typed s'"
  "button_keyup p key s = Inr s' \<Longrightarrow> gui_typed s \<longrightarrow> gui_typed s'"
  by (auto simp: button_mouse_event_def button_keydown_def button_keyup_def button_click_def dest!: typed_dest elim!: bindr_Inr_elim
    split: if_splits option.splits click_fn.splits)

lemma button_size_typed [typed_dest]: "button_size p x y w h s = Inr s' \<Longrightarrow> gui_typed s \<longrightarrow> gui_typed s'"
  by (auto simp: button_size_def dest!: typed_dest elim!: bindr_Inr_elim split: if_splits)

lemma window_set_name_typed [typed_dest]: "window_set_name p str s = Inr s' \<Longrightarrow> gui_typed s \<longrightarrow> gui_typed s'"
  by (auto simp: window_set_name_def dest!: typed_dest elim!: bindr_Inr_elim split: if_splits)

lemma window_create_typed [typed_dest]: "window_create ls w h s = Inr (p, s') \<Longrightarrow> gui_typed s \<longrightarrow> gui_typed s'"
  by (auto simp: window_create_def dest!: typed_dest elim!: bindr_Inr_elim split: if_splits intro: typed_new)

subsection \<open>The file navigator and the events\<close>

lemma text_view_typed [typed_dest]: "text_view env str s = Inr s' \<Longrightarrow> gui_typed s \<longrightarrow> gui_typed s'"
  by (auto simp: text_view_def dest!: typed_dest elim!: bindr_Inr_elim split: if_splits)

lemma change_dir_typed [typed_dest]: "file_explorer_on_change_dir_cb p s = Inr s' \<Longrightarrow> gui_typed s \<longrightarrow> gui_typed s'"
  by (auto simp: file_explorer_on_change_dir_cb_def dest!: typed_dest elim!: bindr_Inr_elim)

lemma parent_dir_typed [typed_dest]: "parent_dir d s = Inr s' \<Longrightarrow> gui_typed s \<longrightarrow> gui_typed s'"
  by (auto simp: parent_dir_def elim!: bindr_Inr_elim)

lemma add_entries_typed [typed_dest]: "add_entries n p dir d s = Inr s' \<Longrightarrow> gui_typed s \<longrightarrow> gui_typed s'"
  by (induction n arbitrary: d s) (auto dest!: typed_dest elim!: bindr_Inr_elim split: if_splits)

lemma typed_navigator [simp, intro]: "gui_typed s \<Longrightarrow> gui_typed (s\<lparr>navigators := (navigators s)(p \<mapsto> f)\<rparr>)"
  by (auto elim!: typed_mono simp: has_struct_def)

lemma navigator_typed_both:
  fixes s s' t t' :: "'a gui_state_scheme"
  shows "(navigator_set n env p dir s = Inr s' \<longrightarrow> gui_typed s \<longrightarrow> gui_typed s') \<and>
   (navigator_choose n env q t = Inr t' \<longrightarrow> gui_typed t \<longrightarrow> gui_typed t')"
proof (induction n arbitrary: p dir s s' q t t')
  case (Suc n)
  have set: "navigator_set n env p dir s = Inr s' \<Longrightarrow> gui_typed s \<longrightarrow> gui_typed s'" for p dir and s s' :: "'a gui_state_scheme"
    using Suc.IH [THEN conjunct1] by blast
  have choose: "navigator_choose n env p s = Inr s' \<Longrightarrow> gui_typed s \<longrightarrow> gui_typed s'" for p and s s' :: "'a gui_state_scheme"
    using Suc.IH [THEN conjunct2] by blast
  note intros = typed_dest add_entries_typed set choose
  have "gui_typed s'" if "navigator_set (Suc n) env p dir s = Inr s'" "gui_typed s"
    using that by (auto simp: Let_def free_def guardr_def simp del: fun_upd_apply dest!: intros
      elim!: bindr_Inr_elim split: if_splits option.splits choose_fn.splits)
  moreover have "gui_typed t'" if "navigator_choose (Suc n) env q t = Inr t'" "gui_typed t"
    using that by (auto simp del: fun_upd_apply dest!: intros elim!: bindr_Inr_elim
      split: if_splits option.splits choose_user_fn.splits)
  ultimately show ?case by blast
qed simp

lemma file_navigator_typed [typed_dest]:
  "file_navigator_set env p dir s = Inr s' \<Longrightarrow> gui_typed s \<longrightarrow> gui_typed s'"
  "file_navigator_choose env p s = Inr s' \<Longrightarrow> gui_typed s \<longrightarrow> gui_typed s'"
  using navigator_typed_both unfolding file_navigator_set_def file_navigator_choose_def by blast+

lemma navigator_create_typed [typed_dest]: "file_navigator_create env dir par s = Inr (p, s') \<Longrightarrow> gui_typed s \<longrightarrow> gui_typed s'"
  by (auto simp: file_navigator_create_def simp del: fun_upd_apply dest!: typed_dest elim!: bindr_Inr_elim split: if_splits intro: typed_new)

lemma navigator_events_typed [typed_dest]:
  "file_navigator_keydown env p key s = Inr s' \<Longrightarrow> gui_typed s \<longrightarrow> gui_typed s'"
  "file_navigator_mouse_event p fl s = Inr s' \<Longrightarrow> gui_typed s \<longrightarrow> gui_typed s'"
  by (auto simp: file_navigator_keydown_def file_navigator_mouse_event_def dest!: typed_dest elim!: bindr_Inr_elim
    split: if_splits option.splits choose_fn.splits)

lemma file_explorer_typed [typed_dest]: "file_explorer env s = Inr (p, s') \<Longrightarrow> gui_typed s \<longrightarrow> gui_typed s'"
  by (auto simp: file_explorer_def dest!: typed_dest elim!: bindr_Inr_elim)

lemma key_down_typed [typed_dest]: "key_down n env f p key s = Inr s' \<Longrightarrow> gui_typed s \<longrightarrow> gui_typed s'"
  by (induction n arbitrary: f p) (auto dest!: typed_dest elim!: bindr_Inr_elim split: if_splits option.splits key_down_fn.splits)

lemma key_up_typed [typed_dest]: "key_up_event n f p key s = Inr s' \<Longrightarrow> gui_typed s \<longrightarrow> gui_typed s'"
  by (induction n arbitrary: f p) (auto dest!: typed_dest elim!: bindr_Inr_elim split: if_splits option.splits key_up_fn.splits)

lemma mouse_event_typed [typed_dest]: "mouse_event n f p x y fl s = Inr s' \<Longrightarrow> gui_typed s \<longrightarrow> gui_typed s'"
  by (induction n arbitrary: f p x y s) (auto simp: edit_mouse_event_def dest!: typed_dest elim!: bindr_Inr_elim
    split: if_splits option.splits mouse_event_fn.splits)

lemma mouse_move_typed [typed_dest]: "mouse_move n f p x y fl s = Inr s' \<Longrightarrow> gui_typed s \<longrightarrow> gui_typed s'"
  by (induction n arbitrary: f p x y s) (auto simp: button_mouse_move_def elim!: bindr_Inr_elim
    split: if_splits option.splits mouse_move_fn.splits)

subsection \<open>The desktop\<close>

lemma keyboard_message_typed [typed_dest]: "keyboard_message env d s = Inr s' \<Longrightarrow> gui_typed s \<longrightarrow> gui_typed s'"
  by (auto simp: keyboard_message_def dest!: typed_dest elim!: bindr_Inr_elim split: if_splits option.splits)

lemma move_pointer_typed [simp]: "gui_typed (move_pointer pk s) = gui_typed s"
  by (simp add: move_pointer_def Let_def)

lemma send_mouse_event_typed [typed_dest]: "send_mouse_event w fl s = Inr s' \<Longrightarrow> gui_typed s \<longrightarrow> gui_typed s'"
  by (auto simp: send_mouse_event_def dest!: typed_dest elim!: bindr_Inr_elim split: option.splits)

lemma mouse_message_typed [typed_dest]: "mouse_message pk s = Inr s' \<Longrightarrow> gui_typed s \<longrightarrow> gui_typed s'"
  by (auto simp: mouse_message_def Let_def dest!: typed_dest elim!: bindr_Inr_elim split: if_splits option.splits)

text \<open>Memory that holds no callbacks: \<open>widget_create\<close> does not clear them.\<close>

definition clean_junk :: "gui_env \<Rightarrow> bool" where
  "clean_junk env \<longleftrightarrow> (\<forall>p. OnMouseMove (junk_widget env p) = None \<and> OnMouseEvent (junk_widget env p) = None \<and> OnClick (junk_widget env p) = None)"

lemma widget_create_typed [typed_dest]:
  "widget_create (junk_widget env) 0 x y w h q s = Inr (p, s') \<Longrightarrow> clean_junk env \<longrightarrow> gui_typed s \<longrightarrow> gui_typed s'"
proof (intro impI)
  assume c: "widget_create (junk_widget env) 0 x y w h q s = Inr (p, s')" and j: "clean_junk env" and t: "gui_typed s"
  have n: "gui_typed (s1\<lparr>widgets := (widgets s1)(p1 \<mapsto> new_widget 0 x y w h (junk_widget env p1))\<rparr>)" if "gui_typed s1" for p1 and s1 :: "'a gui_state_scheme"
    using that j by (intro typed_put) (simp_all add: new_widget_def set_padding_def well_classed_def clean_junk_def has_struct_def widget_classes)
  show "gui_typed s'"
    using c t by (auto simp: widget_create_def simp del: fun_upd_apply dest!: typed_dest elim!: bindr_Inr_elim split: if_splits intro: n)
qed

lemma desktop_create_typed [typed_dest]:
  "gui_desktop_create env s = Inr s' \<Longrightarrow> clean_junk env \<longrightarrow> gui_typed s \<longrightarrow> gui_typed s'"
  by (auto simp: gui_desktop_create_def create_taskbar_def widget_set_padding_def Let_def dest!: typed_dest elim!: bindr_Inr_elim)

section \<open>The types of all reachable states\<close>

text \<open>
  The steps of the GUI: an application or the desktop creates or changes a widget, or a message of the
  keyboard or the mouse is handled. A state is reached by any sequence of them.
\<close>

inductive gui_step :: "gui_env \<Rightarrow> 'a gui_state_scheme \<Rightarrow> 'a gui_state_scheme \<Rightarrow> bool" for env :: gui_env where
  Desktop_step: "gui_desktop_create env s = Inr s' \<Longrightarrow> gui_step env s s'"
| Window_step: "window_create (lits env) w h s = Inr (p, s') \<Longrightarrow> gui_step env s s'"
| Label_step: "label_create str q s = Inr (p, s') \<Longrightarrow> gui_step env s s'"
| Edit_step: "edit_create q s = Inr (p, s') \<Longrightarrow> gui_step env s s'"
| Button_step: "button_create str q s = Inr (p, s') \<Longrightarrow> gui_step env s s'"
| Navigator_step: "file_navigator_create env dir q s = Inr (p, s') \<Longrightarrow> gui_step env s s'"
| Text_view_step: "text_view env str s = Inr s' \<Longrightarrow> gui_step env s s'"
| File_explorer_step: "file_explorer env s = Inr (p, s') \<Longrightarrow> gui_step env s s'"
| Parent_step: "widget_set_parent p q s = Inr s' \<Longrightarrow> gui_step env s s'"
| Move_step: "widget_move p x y s = Inr s' \<Longrightarrow> gui_step env s s'"
| Callback_step: "widget_set_callback p cb f s = Inr s' \<Longrightarrow> gui_step env s s'"
| Focus_step: "widget_set_focus p s = Inr s' \<Longrightarrow> gui_step env s s'"
| Active_step: "gui_set_active_window p s = Inr s' \<Longrightarrow> gui_step env s s'"
| Label_text_step: "label_set_text p str s = Inr s' \<Longrightarrow> gui_step env s s'"
| Edit_text_step: "edit_set_text p str s = Inr s' \<Longrightarrow> gui_step env s s'"
| Button_size_step: "button_size p x y w h s = Inr s' \<Longrightarrow> gui_step env s s'"
| Keyboard_step: "keyboard_message env d s = Inr s' \<Longrightarrow> gui_step env s s'"
| Mouse_step: "mouse_message pk s = Inr s' \<Longrightarrow> gui_step env s s'"

lemma gui_step_typed: "gui_step env s s' \<Longrightarrow> clean_junk env \<Longrightarrow> gui_typed s \<Longrightarrow> gui_typed s'"
  by (induction rule: gui_step.induct) (auto dest!: typed_dest)


text \<open>What the types are for: a key never makes an edit or a button fail.\<close>

lemma typed_keys_run:
  assumes "gui_typed s" "widgets s p = Some x" "OnKeyDown x = Some f" "f = Edit_keydown \<or> f = Button_keydown"
  shows "\<exists>s'. key_down 1 env f p key s = Inr s'"
proof -
  have "well_classed x" "has_struct s p (w_class x)" using assms(1,2) by (auto simp: gui_typed_def)
  then have "w_class x = key_down_class f" "has_struct s p (key_down_class f)" using assms(3) by (auto simp: well_classed_def)
  then show ?thesis using assms(2,4)
    by (auto simp: has_struct_def key_down_class_def edit_keydown_def button_keydown_def update_button_def Let_def widget_classes)
qed

section \<open>An example\<close>

lemma blank_gui_wf: "mm_wf blank_gui" "malloc_room blank_gui 155"
proof -
  have "mm_wf blank_gui = mm_wf boot_machine"
    by (simp add: mm_wf_def blank_gui_def bochs_state.defs small_screen_def fs_state.defs)
  then show "mm_wf blank_gui" using boot_machine_wf by (simp add: list_wf_def)
  show "malloc_room blank_gui 155"
    by (simp add: malloc_room_def blank_gui_def bochs_state.defs small_screen_def fs_state.defs boot_machine_simps)
qed

lemma blank_label: "\<exists>p s'. label_create NULL NULL blank_gui = Inr (p, s') \<and> w_class (widget_at s' p) = W_LABEL"
proof -
  obtain s1 where m: "malloc 135 blank_gui = Inr (malloc_top blank_gui + sizeof_mblock, s1)"
    using malloc_bump [OF blank_gui_wf(1), of 135] blank_gui_wf(2) by auto
  have nz: "malloc_top blank_gui + sizeof_mblock \<noteq> NULL"
    by (simp add: blank_gui_def bochs_state.defs small_screen_def fs_state.defs boot_machine_simps sizeof_mblock_def)
  show ?thesis using nz
    by (simp add: label_create_def m widget_set_parent_def label_set_text_def label_size_request_def label_set_linespace_def update_label_def
      free_def Let_def widget_at_def label_widget_def set_padding_def zero_widget_def)
qed


end
