(* ===== verification/Acpi.thy ===== *)
theory Acpi
  imports Elf Pic
begin

text \<open>
  kernel/devices/acpi.c: power management. (The call of \<open>acpi\<close> in the start-up code is commented out.)

  The tables of the firmware are bytes of memory, packed: a header has 36 bytes with its signature at
  0 and its length at 4; the offsets of the fixed table's fields are in the definitions below. The
  page tables are those of the theory Page. A constant of four characters is a number whose lowest
  byte is the last character. Messages printed are left out.
\<close>

section \<open>The code\<close>

definition PAGE_FLAG_BITMAP_END :: u32 where "PAGE_FLAG_BITMAP_END = 0xA00"
definition PAGE_FLAG_BITMAP_START :: u32 where "PAGE_FLAG_BITMAP_START = 0x400"

fun map_pages :: "nat \<Rightarrow> u32 \<Rightarrow> u32 \<Rightarrow> 'a page_state_scheme \<Rightarrow> 'a page_state_scheme" where
  "map_pages 0 p_addr v_addr s = s"
| "map_pages (Suc n) p_addr v_addr s =
     (let pd = cr3 s AND 0xFFFFF000;
          t_idx = drop_bit 22 v_addr;
          s = s\<lparr>pmem := (pmem s)(entry pd t_idx := pmem s (entry pd t_idx) OR PAGE_FLAG_PRESENT OR PAGE_FLAG_RW)\<rparr>;
          table = pmem s (entry pd t_idx) AND 0xFFFFF000;
          p_idx = drop_bit 12 v_addr AND 0x3FF;
          s = s\<lparr>pmem := (pmem s)(entry table p_idx := (p_addr AND 0xFFFFF000) OR PAGE_FLAG_PRESENT OR PAGE_FLAG_RW OR
                PAGE_FLAG_BITMAP_END OR PAGE_FLAG_BITMAP_START)\<rparr>
      in map_pages n (p_addr + 0x1000) (v_addr + 0x1000) s)"

text \<open>The number of pages is rounded by the remainder of the number of pages, not of the length.\<close>

definition acpi_pages :: "u32 \<Rightarrow> u32" where
  "acpi_pages len = (let pages = len div 0x1000 in if pages mod 0x1000 \<noteq> 0 then pages + 1 else pages)"

definition acpi_page_map :: "u32 \<Rightarrow> u32 \<Rightarrow> u32 \<Rightarrow> 'a page_state_scheme \<Rightarrow> 'a page_state_scheme" where
  "acpi_page_map p_addr v_addr len s = map_pages (unat (acpi_pages len)) p_addr v_addr s"

record acpi_state = byte_state +
  rsdt :: addr
  facp :: addr
  dsdt :: addr
  SLP_TYPa :: u16
  SLP_TYPb :: u16
  sci_irq :: "u16 option"
  acpi_ports :: "port_write list"

definition sizeof_header :: u32 where "sizeof_header = 36"

definition sdt_length :: "mem \<Rightarrow> addr \<Rightarrow> u32" where "sdt_length m p = load32 m (p + 4)"

text \<open>struct FADT\<close>

definition fadt_Dsdt :: "mem \<Rightarrow> addr \<Rightarrow> u32" where "fadt_Dsdt m p = load32 m (p + 40)"
definition fadt_SCI_Interrupt :: "mem \<Rightarrow> addr \<Rightarrow> u16" where "fadt_SCI_Interrupt m p = load16 m (p + 46)"
definition fadt_SMI_CommandPort :: "mem \<Rightarrow> addr \<Rightarrow> u32" where "fadt_SMI_CommandPort m p = load32 m (p + 48)"
definition fadt_AcpiEnable :: "mem \<Rightarrow> addr \<Rightarrow> u8" where "fadt_AcpiEnable m p = m (p + 52)"
definition fadt_PM1aEventBlock :: "mem \<Rightarrow> addr \<Rightarrow> u32" where "fadt_PM1aEventBlock m p = load32 m (p + 56)"
definition fadt_PM1aControlBlock :: "mem \<Rightarrow> addr \<Rightarrow> u32" where "fadt_PM1aControlBlock m p = load32 m (p + 64)"
definition fadt_PM1bControlBlock :: "mem \<Rightarrow> addr \<Rightarrow> u32" where "fadt_PM1bControlBlock m p = load32 m (p + 68)"
definition fadt_ResetReg_Address :: "mem \<Rightarrow> addr \<Rightarrow> u32" where "fadt_ResetReg_Address m p = load32 m (p + 120)"
definition fadt_ResetValue :: "mem \<Rightarrow> addr \<Rightarrow> u8" where "fadt_ResetValue m p = m (p + 124)"

definition SLP_EN :: u16 where "SLP_EN = push_bit 13 1"
definition PWRBTN_EN :: u16 where "PWRBTN_EN = push_bit 8 1"

text \<open>The search: a byte at a time, \<open>n\<close> steps left; \<open>_S5_\<close> as a number is 5F35535F.\<close>

fun s5_loop :: "nat \<Rightarrow> mem \<Rightarrow> addr \<Rightarrow> addr" where
  "s5_loop 0 m p = NULL"
| "s5_loop (Suc n) m p = (if load32 m p = 0x5F35535F then p else s5_loop n m (p + 1))"

text \<open>\<open>hdr + sizeof(struct ACPISDTHeader)\<close> moves the pointer by 36 headers.\<close>

definition acpi_search_S5 :: "mem \<Rightarrow> addr \<Rightarrow> addr" where
  "acpi_search_S5 m hdr = s5_loop (unat (sdt_length m hdr - sizeof_header)) m (hdr + sizeof_header * sizeof_header)"

text \<open>The waiting loops test the address of the port and the constant \<open>SCI_EN\<close>, not what the port answers.\<close>

definition acpi_enable :: "'a acpi_state_scheme \<Rightarrow> 'a acpi_state_scheme result" where
  "acpi_enable s =
     guardr (facp s \<noteq> NULL) Panic
       (let w = outportb (fadt_SMI_CommandPort (bytes s) (facp s)) (fadt_AcpiEnable (bytes s) (facp s));
            s = s\<lparr>acpi_ports := acpi_ports s @ w\<rparr>
        in guardr (fadt_PM1aControlBlock (bytes s) (facp s) \<noteq> 0) Diverge
             (Inr (if fadt_PM1bControlBlock (bytes s) (facp s) \<noteq> 0 then s\<lparr>acpi_ports := acpi_ports s @ w\<rparr> else s)))"

text \<open>\<open>acpi_power_down\<close> up to its \<open>PANIC\<close>, which runs when the machine is still on.\<close>

definition acpi_power_writes :: "'a acpi_state_scheme \<Rightarrow> 'a acpi_state_scheme result" where
  "acpi_power_writes s =
     bindr (acpi_enable s) (\<lambda>s.
       let s = s\<lparr>acpi_ports := acpi_ports s @ outportw (fadt_PM1aControlBlock (bytes s) (facp s)) (SLP_TYPa s OR SLP_EN)\<rparr>
       in Inr (if fadt_PM1bControlBlock (bytes s) (facp s) \<noteq> 0
               then s\<lparr>acpi_ports := acpi_ports s @ outportw (fadt_PM1aControlBlock (bytes s) (facp s)) (SLP_TYPb s OR SLP_EN)\<rparr>
               else s))"

definition acpi_power_down :: "'a acpi_state_scheme \<Rightarrow> 'a acpi_state_scheme result" where
  "acpi_power_down s = bindr (acpi_power_writes s) (\<lambda>s. Inl Panic)"

definition acpi_reset :: "'a acpi_state_scheme \<Rightarrow> 'a acpi_state_scheme result" where
  "acpi_reset s =
     bindr (acpi_enable s) (\<lambda>s.
       Inr (s\<lparr>acpi_ports := acpi_ports s @ outportw (fadt_ResetReg_Address (bytes s) (facp s)) (ucast (fadt_ResetValue (bytes s) (facp s)))\<rparr>))"

definition acpi_power_button_enable :: "'a acpi_state_scheme \<Rightarrow> 'a acpi_state_scheme result" where
  "acpi_power_button_enable s =
     bindr (acpi_enable s) (\<lambda>s.
       Inr (s\<lparr>acpi_ports := acpi_ports s @ outportw (fadt_PM1aEventBlock (bytes s) (facp s)) PWRBTN_EN\<rparr>))"

fun checksum_loop :: "nat \<Rightarrow> mem \<Rightarrow> addr \<Rightarrow> u32 \<Rightarrow> u32 \<Rightarrow> u32" where
  "checksum_loop 0 m p i acc = acc"
| "checksum_loop (Suc n) m p i acc = checksum_loop n m p (i + 1) (acc + ucast (m (p + i)))"

definition acpi_checksum :: "mem \<Rightarrow> addr \<Rightarrow> u32 \<Rightarrow> u8 \<Rightarrow> u8" where
  "acpi_checksum m p sz checksum = (if checksum_loop (unat sz) m p 0 0 = 0 then 1 else 0)"

section \<open>The tables\<close>

text \<open>The sleep types behind the name \<open>_S5_\<close> at \<open>p\<close>: the package length and the byte prefixes are skipped.\<close>

definition skip_prefix :: "mem \<Rightarrow> addr \<Rightarrow> addr" where
  "skip_prefix m p = (if m p = 0x0A then p + 1 else p)"

definition read_S5 :: "addr \<Rightarrow> 'a acpi_state_scheme \<Rightarrow> 'a acpi_state_scheme" where
  "read_S5 p s =
     (if p = NULL then s
      else
        let m = bytes s;
            p = p + 4;
            p = p + (ucast (drop_bit 6 (m p AND 0xC0)) + 2);
            p = skip_prefix m p;
            a = m p;
            p = skip_prefix m (p + 1)
        in s\<lparr>SLP_TYPa := ucast a, SLP_TYPb := ucast (m p)\<rparr>)"

definition map_table :: "addr \<Rightarrow> 'a acpi_state_scheme \<Rightarrow> 'a acpi_state_scheme" where
  "map_table p s = (let s = acpi_page_map p p 0x1000 s in acpi_page_map p p (sdt_length (bytes s) p) s)"

text \<open>The cases of the switch over the signature: SSDT and FACP; the others do nothing.\<close>

definition acpi_table :: "addr \<Rightarrow> 'a acpi_state_scheme \<Rightarrow> 'a acpi_state_scheme result" where
  "acpi_table sdt s =
     (let s = map_table sdt s
      in if load32 (bytes s) sdt = 0x54445353 then Inr (read_S5 (acpi_search_S5 (bytes s) sdt) s)
         else if load32 (bytes s) sdt = 0x50434146 then
           let irq = fadt_SCI_Interrupt (bytes s) sdt
           in guardr (irq \<le> 0xF) Panic
                (let s = s\<lparr>facp := sdt, sci_irq := Some irq, dsdt := fadt_Dsdt (bytes s) sdt\<rparr>;
                     s = (if dsdt s \<noteq> NULL then map_table (dsdt s) s else s)
                 in if load32 (bytes s) (dsdt s) = 0x54445344 then Inr (read_S5 (acpi_search_S5 (bytes s) (dsdt s)) s)
                    else Inr (s\<lparr>dsdt := NULL\<rparr>))
         else Inr s)"

fun table_loop :: "nat \<Rightarrow> u32 \<Rightarrow> 'a acpi_state_scheme \<Rightarrow> 'a acpi_state_scheme result" where
  "table_loop 0 i s = Inr s"
| "table_loop (Suc n) i s = bindr (acpi_table (load32 (bytes s) (rsdt s + 36 + 4 * i)) s) (table_loop n (i + 1))"

text \<open>The first space in the six characters of the maker's name becomes a NUL.\<close>

fun trim_oem :: "nat \<Rightarrow> mem \<Rightarrow> addr \<Rightarrow> mem" where
  "trim_oem 0 m p = m"
| "trim_oem (Suc n) m p = (if m p = 0x20 then m(p := 0) else trim_oem n m (p + 1))"

fun rsdp_loop :: "nat \<Rightarrow> mem \<Rightarrow> addr \<Rightarrow> addr option" where
  "rsdp_loop 0 m p = None"
| "rsdp_loop (Suc n) m p = (if bytes_at m p (map of_char ''RSD PTR '') then Some p else rsdp_loop n m (p + 16))"

text \<open>Every sixteenth address below 100000 (hexadecimal) is tried.\<close>

definition acpi :: "'a acpi_state_scheme \<Rightarrow> (u32 \<times> 'a acpi_state_scheme) result" where
  "acpi s =
     (case rsdp_loop 0x10000 (bytes s) 0 of
        None \<Rightarrow> Inr (0, s)
      | Some p \<Rightarrow>
          let s = s\<lparr>bytes := trim_oem 6 (bytes s) (p + 9), rsdt := load32 (bytes s) (p + 16)\<rparr>;
              s = map_table (rsdt s) s
          in bindr (table_loop (unat ((sdt_length (bytes s) (rsdt s) - sizeof_header) div 4)) 0 s) (\<lambda>s. Inr (p, s)))"

section \<open>The search for the sleep types\<close>

lemma s5_loop_find:
  "s5_loop n m p =
     (case find (\<lambda>i. load32 m (p + of_nat i) = 0x5F35535F) [0..<n] of None \<Rightarrow> NULL | Some i \<Rightarrow> p + of_nat i)"
proof (induction n arbitrary: p)
  case (Suc n)
  have "[0..<Suc n] = 0 # map Suc [0..<n]" by (simp add: map_Suc_upt upt_conv_Cons del: upt_Suc)
  then show ?case by (auto simp: Suc find_map_option add.assoc split: option.splits)
qed simp

text \<open>
  The search of a table returns the first address behind 36 headers, not behind one, at which the
  four bytes of the name stand, among as many addresses as the table has bytes after its header; and
  NULL when there is none.
\<close>

theorem acpi_search_S5_first:
  "acpi_search_S5 m hdr =
     (case find (\<lambda>i. load32 m (hdr + 1296 + of_nat i) = 0x5F35535F) [0..<unat (sdt_length m hdr - 36)] of
        None \<Rightarrow> NULL | Some i \<Rightarrow> hdr + 1296 + of_nat i)"
  by (simp add: acpi_search_S5_def sizeof_header_def s5_loop_find)

lemma s5_loop_cong:
  assumes "\<And>i. i < n \<Longrightarrow> load32 m (p + of_nat i) = load32 m' (p + of_nat i)"
  shows "s5_loop n m p = s5_loop n m' p"
  using assms
proof (induction n arbitrary: p)
  case (Suc n)
  have "load32 m (p + 1 + of_nat i) = load32 m' (p + 1 + of_nat i)" if "i < n" for i
    using Suc.prems [of "Suc i"] that by (simp add: add.assoc)
  then show ?case using Suc.IH [of "p + 1"] Suc.prems [of 0] by simp
qed simp

lemma load32_cong:
  assumes "\<And>k. k < 4 \<Longrightarrow> m (p + of_nat k) = m' (p + of_nat k)"
  shows "load32 m p = load32 m' p"
  using assms [of 0] assms [of 1] assms [of 2] assms [of 3] by (simp add: load32_def)

text \<open>
  C38: what a table of at most 36 headers holds, its name and its length apart, does not matter to the
  search: it reads only bytes behind the table, so a table that declares the sleep types is searched
  in vain.
\<close>

theorem acpi_search_S5_misses:
  assumes "36 \<le> sdt_length m hdr" "sdt_length m hdr \<le> 1296" "fits hdr 2600"
    and "\<forall>a. \<not> within (hdr + 8) (unat (sdt_length m hdr) - 8) a \<longrightarrow> m a = m' a"
  shows "acpi_search_S5 m hdr = acpi_search_S5 m' hdr"
proof -
  define l where "l = unat (sdt_length m hdr)"
  have l: "36 \<le> l" "l \<le> 1296" using assms(1,2) by (simp_all add: l_def word_le_nat_alt)
  have u: "unat (hdr + of_nat k) = unat hdr + k" if "k \<le> 2600" for k using unat_offset [OF assms(3) that] .
  have same: "m (hdr + of_nat k) = m' (hdr + of_nat k)" if "k < 8 \<or> 1296 \<le> k" "k \<le> 2600" for k
    using assms(4) that u [of k] u [of 8] l by (auto simp: within_def l_def)
  have len: "sdt_length m hdr = sdt_length m' hdr"
    unfolding sdt_length_def
  proof (rule load32_cong)
    fix k :: nat assume "k < 4"
    then show "m (hdr + 4 + of_nat k) = m' (hdr + 4 + of_nat k)" using same [of "4 + k"] by (simp add: add.assoc)
  qed
  have "load32 m (hdr + 1296 + of_nat i) = load32 m' (hdr + 1296 + of_nat i)" if "i < unat (sdt_length m hdr - 36)" for i
  proof (rule load32_cong)
    fix k :: nat assume "k < 4"
    moreover have "i + 1300 \<le> 2600"
      using that l assms(1) by (simp add: l_def unat_sub)
    ultimately show "m (hdr + 1296 + of_nat i + of_nat k) = m' (hdr + 1296 + of_nat i + of_nat k)"
      using same [of "1296 + (i + k)"] by (simp add: add.assoc)
  qed
  then have "s5_loop (unat (sdt_length m hdr - 36)) m (hdr + 1296) = s5_loop (unat (sdt_length m hdr - 36)) m' (hdr + 1296)"
    by (rule s5_loop_cong)
  then show ?thesis by (simp add: acpi_search_S5_def sizeof_header_def len [symmetric])
qed


text \<open>A table of 256 bytes at 1000 (hexadecimal) whose bytes behind the header hold the name.\<close>

definition named_table :: mem where
  "named_table = poke [(0x1004, 0), (0x1005, 1), (0x1028, 0x5F), (0x1029, 0x53), (0x102A, 0x35), (0x102B, 0x5F)]"

definition unnamed_table :: mem where
  "unnamed_table = poke [(0x1004, 0), (0x1005, 1)]"

theorem acpi_search_S5_misses_witness:
  "acpi_search_S5 named_table 0x1000 = acpi_search_S5 unnamed_table 0x1000 \<and> load32 named_table 0x1028 = 0x5F35535F"
proof -
  have l: "sdt_length named_table 0x1000 = 0x100" by (simp add: sdt_length_def load32_def named_table_def)
  have d: "named_table a = unnamed_table a" if "\<not> within (0x1000 + 8) (256 - 8) a" for a
    using that by (auto simp: within_def named_table_def unnamed_table_def)
  have "acpi_search_S5 named_table 0x1000 = acpi_search_S5 unnamed_table 0x1000"
    by (rule acpi_search_S5_misses) (use d in \<open>auto simp: l fits_def\<close>)
  then show ?thesis by (simp add: named_table_def load32_def)
qed

section \<open>Power\<close>

text \<open>
  The power is never switched off by way of the second control block: when both exist, the fixed
  table's enable command is written twice, then the first block gets the sleep type of the first and
  that of the second, and the code stops in its \<open>PANIC\<close>.
\<close>

theorem acpi_power_writes_PM1a_twice:
  assumes "facp s \<noteq> NULL" "fadt_PM1aControlBlock (bytes s) (facp s) = a" "a \<noteq> 0"
    and "fadt_PM1bControlBlock (bytes s) (facp s) = b" "b \<noteq> 0"
    and "e = Outb (fadt_SMI_CommandPort (bytes s) (facp s)) (fadt_AcpiEnable (bytes s) (facp s))"
  shows "acpi_power_writes s = Inr (s\<lparr>acpi_ports := acpi_ports s @
      [e, e, Outw a (SLP_TYPa s OR 0x2000), Outw a (SLP_TYPb s OR 0x2000)]\<rparr>)
    \<and> acpi_power_down s = Inl Panic"
  using assms
  by (simp add: acpi_power_down_def acpi_power_writes_def acpi_enable_def guardr_def bindr_def Let_def outportb_def
      outportw_def SLP_EN_def)

text \<open>A fixed table at 2000 (hexadecimal) with the control blocks at the ports 604 and 608.\<close>

definition fixed_table :: "acpi_state" where
  "fixed_table = byte_state.extend (string_heap\<lparr>bytes := poke [(0x2030, 0xB2), (0x2034, 1), (0x2040, 4), (0x2041, 6), (0x2044, 8), (0x2045, 6)]\<rparr>)
     \<lparr>rsdt = 0, facp = 0x2000, dsdt = 0, SLP_TYPa = 5, SLP_TYPb = 7, sci_irq = None, acpi_ports = []\<rparr>"

theorem acpi_power_writes_PM1a_twice_witness:
  "bindr (acpi_power_writes fixed_table) (\<lambda>s. Inr (acpi_ports s)) =
     Inr [Outb 0xB2 1, Outb 0xB2 1, Outw 0x604 0x2005, Outw 0x604 0x2007]"
proof -
  have p: "facp fixed_table = 0x2000" "SLP_TYPa fixed_table = 5" "SLP_TYPb fixed_table = 7" "acpi_ports fixed_table = []"
    by (simp_all add: fixed_table_def byte_state.defs)
  have v: "fadt_PM1aControlBlock (bytes fixed_table) 0x2000 = 0x604" "fadt_PM1bControlBlock (bytes fixed_table) 0x2000 = 0x608"
     "fadt_SMI_CommandPort (bytes fixed_table) 0x2000 = 0xB2" "fadt_AcpiEnable (bytes fixed_table) 0x2000 = 1"
    by (simp_all add: fixed_table_def fadt_PM1aControlBlock_def fadt_PM1bControlBlock_def fadt_SMI_CommandPort_def
        fadt_AcpiEnable_def load32_def byte_state.defs)
  show ?thesis
    using acpi_power_writes_PM1a_twice [where s = fixed_table and a = "0x604" and b = "0x608" and e = "Outb 0xB2 1"] by (simp add: p v)
qed

lemma acpi_power_down_stops: "acpi_power_down s = Inl Panic \<or> acpi_power_down s = Inl Diverge"
  by (auto simp: acpi_power_down_def acpi_power_writes_def acpi_enable_def guardr_def bindr_def Let_def)

section \<open>The mapping of a table\<close>

text \<open>A length below a page is no page at all; the first page of a table is mapped on its own before.\<close>

lemma acpi_pages_small: "len < 0x1000 \<Longrightarrow> acpi_pages len = 0"
  by (simp add: acpi_pages_def Let_def word_less_nat_alt word_arith_nat_div)

lemma acpi_page_map_small: "len < 0x1000 \<Longrightarrow> acpi_page_map p_addr v_addr len s = s"
  by (simp add: acpi_page_map_def acpi_pages_small)

section \<open>Sums\<close>

lemma checksum_loop_sum:
  "checksum_loop n m p i acc = acc + of_nat (\<Sum>k<n. unat (m (p + i + of_nat k)))"
proof (induction n arbitrary: i acc)
  case (Suc n)
  have e: "(\<Sum>k<Suc n. unat (m (p + i + of_nat k))) =
      unat (m (p + i)) + (\<Sum>k<n. unat (m (p + (i + 1) + of_nat k)))"
    by (simp add: sum.lessThan_Suc_shift add.assoc del: sum.lessThan_Suc)
  show ?case by (simp only: checksum_loop.simps Suc e) (simp add: unsigned_ucast_eq)
qed simp

lemma acpi_checksum_zeros:
  assumes "sz < 2 ^ 24"
  shows "acpi_checksum m p sz c = 1 \<longleftrightarrow> (\<forall>k < unat sz. m (p + of_nat k) = 0)"
proof -
  define t where "t = (\<Sum>k<unat sz. unat (m (p + of_nat k)))"
  have b: "unat (m (p + of_nat k)) \<le> 255" for k using unsigned_less [of "m (p + of_nat k)", where 'a = nat] by simp
  then have "t \<le> unat sz * 255" unfolding t_def using sum_bounded_above [of "{..<unat sz}" "\<lambda>k. unat (m (p + of_nat k))" 255, OF b] by simp
  moreover have "unat sz < 2 ^ 24" using assms by (simp add: word_less_nat_alt)
  ultimately have "t < 2 ^ 32" by simp
  then have "(of_nat t :: u32) = 0 \<longleftrightarrow> t = 0"
    using unat_of_nat_addr [of t] unat_eq_zero [of "of_nat t :: u32"] by auto
  also have "\<dots> \<longleftrightarrow> (\<forall>k < unat sz. m (p + of_nat k) = 0)"
    by (auto simp: t_def unat_eq_zero)
  finally show ?thesis
    using checksum_loop_sum [of "unat sz" m p 0 0] by (simp add: acpi_checksum_def t_def)
qed

end
