(* ===== verification/Ramfs.thy ===== *)
theory Ramfs
  imports Syscalls
begin

text \<open>
  kernel/filesystem/ramfs.c: the tar archive in memory as the directory \<open>/ram\<close>.

  The searching and reading functions are in Fs. This theory has the parsing of the archive and the
  building of the tree. While the tree is built the array of path segments is read after further
  allocations, and its terminator lies where the header of the next block is: \<open>peek\<close> reads a word
  of memory as the block headers define it, and the cells elsewhere.
\<close>

section \<open>The code\<close>

definition REGTYPE :: u8 where "REGTYPE = 0x30"
definition AREGTYPE :: u8 where "AREGTYPE = 0"
definition DIRTYPE :: u8 where "DIRTYPE = 0x35"

definition peek :: "'a fs_state_scheme \<Rightarrow> addr \<Rightarrow> u32" where
  "peek s a =
     (case mblocks s a of Some b \<Rightarrow> mb_magic b | None \<Rightarrow>
     (case mblocks s (a - 4) of Some b \<Rightarrow> mb_hole b | None \<Rightarrow>
     (case mblocks s (a - 8) of Some b \<Rightarrow> mb_size b | None \<Rightarrow>
     (case mblocks s (a - 12) of Some b \<Rightarrow> mb_addr b | None \<Rightarrow>
     (case mblocks s (a - 16) of Some b \<Rightarrow> mb_next b | None \<Rightarrow> cells s a)))))"

text \<open>
  \<open>tar_parse\<close>: the headers lie at \<open>address\<close>, the content of a file behind its header, both in
  blocks of 512 bytes. \<open>hs\<close> is the array \<open>headers\<close>, \<open>n\<close> the number of files found.
\<close>

definition next_header :: "mem \<Rightarrow> addr \<Rightarrow> addr" where
  "next_header m address =
     (let sz = tar_getsize m (address + 124);
          address = address + (sz div 512 + 1) * 512
      in if sz mod 512 \<noteq> 0 then address + 512 else address)"

fun parse_loop :: "nat \<Rightarrow> mem \<Rightarrow> addr \<Rightarrow> u32 \<Rightarrow> u32 \<Rightarrow> addr list \<Rightarrow> (u32 \<times> addr list) result" where
  "parse_loop 0 m address stop n hs = Inl Diverge"
| "parse_loop (Suc k) m address stop n hs =
     (if m address = 0 then Inr (n, hs)
      else bindr (array_set hs (unat n) address) (\<lambda>hs.
        let address = next_header m address
        in if stop < address then Inr (n, hs) else parse_loop k m address stop (n + 1) hs))"

definition tar_parse :: "addr \<Rightarrow> u32 \<Rightarrow> 'a fs_state_scheme \<Rightarrow> (u32 \<times> 'a fs_state_scheme) result" where
  "tar_parse address stop s =
     bindr (parse_loop addr_space (bytes s) address stop 0 (headers s)) (\<lambda>(n, hs).
       Inr (n, s\<lparr>files := n, headers := hs\<rparr>))"

text \<open>
  A node allocated with \<open>malloc\<close>, its name copied from the string whose address is in the cell
  \<open>ptr\<close>, and its fields set by \<open>f\<close>.
\<close>

definition named_node :: "(addr \<Rightarrow> fs_node) \<Rightarrow> addr \<Rightarrow> (fs_node \<Rightarrow> fs_node) \<Rightarrow> 'a fs_state_scheme \<Rightarrow>
    (addr \<times> 'a fs_state_scheme) result" where
  "named_node junk ptr f s =
     bindr (malloc 168 s) (\<lambda>(p, s).
     bindr (strcpy128 p (peek s ptr) s) (\<lambda>s.
       Inr (p, s\<lparr>fnodes := (fnodes s)(p \<mapsto> f (junk p))\<rparr>)))"

text \<open>\<open>p_node->inode = (uint32_t)list_add((list_t*)p_node->inode, node)\<close>\<close>

definition add_child :: "addr \<Rightarrow> addr \<Rightarrow> 'a fs_state_scheme \<Rightarrow> 'a fs_state_scheme result" where
  "add_child parent node s =
     bindr (deref (fnodes s) parent) (\<lambda>pn.
     bindr (list_add (n_inode pn) node s) (\<lambda>(l, s).
     bindr (deref (fnodes s) parent) (\<lambda>pn.
       Inr (s\<lparr>fnodes := (fnodes s)(parent \<mapsto> pn\<lparr>n_inode := l\<rparr>)\<rparr>))))"

definition ram_dir :: "fs_node \<Rightarrow> fs_node" where
  "ram_dir nd = (dir_node Ramfs_readdir Ramfs_finddir nd)\<lparr>n_inode := 0\<rparr>"

definition ram_file :: "u32 \<Rightarrow> fs_node \<Rightarrow> fs_node" where
  "ram_file i nd = (dev_node (Some Ramfs_read) None nd)\<lparr>n_inode := i\<rparr>"

fun create_loop :: "nat \<Rightarrow> (addr \<Rightarrow> fs_node) \<Rightarrow> addr \<Rightarrow> u32 \<Rightarrow> addr \<Rightarrow> 'a fs_state_scheme \<Rightarrow>
    (addr \<times> 'a fs_state_scheme) result" where
  "create_loop 0 junk p i parent s = Inl Diverge"
| "create_loop (Suc n) junk p i parent s =
     (if peek s (p + 4 * (i + 1)) \<noteq> NULL then
        bindr (deref (fnodes s) parent) (\<lambda>pn.
        bindr (list_foreach (n_inode pn) (Some (find_name (peek s (p + 4 * i)))) s) (\<lambda>(ent, s).
          if ent \<noteq> NULL then
            bindr (deref (lnodes s) ent) (\<lambda>e. create_loop n junk p (i + 1) (l_data e) s)
          else
            bindr (named_node junk (p + 4 * i) ram_dir s) (\<lambda>(node, s).
            bindr (add_child parent node s) (\<lambda>s. create_loop n junk p (i + 1) node s))))
      else Inr (parent, s))"

definition ramfs_create_path :: "(addr \<Rightarrow> fs_node) \<Rightarrow> addr \<Rightarrow> 'a fs_state_scheme \<Rightarrow> (addr \<times> 'a fs_state_scheme) result" where
  "ramfs_create_path junk p s =
     (if p = NULL then Inr (ramfs_root_node s, s) else create_loop addr_space junk p 0 (ramfs_root_node s) s)"

text \<open>\<open>s = 0; while(p[s++]); s--;\<close> with \<open>s\<close> of 8 bits.\<close>

fun count_segs :: "nat \<Rightarrow> addr \<Rightarrow> u8 \<Rightarrow> 'a fs_state_scheme \<Rightarrow> u8 result" where
  "count_segs 0 p i s = Inl Diverge"
| "count_segs (Suc n) p i s = (if peek s (p + 4 * ucast i) \<noteq> NULL then count_segs n p (i + 1) s else Inr i)"

text \<open>
  One iteration of the loop over the headers. \<open>node\<close> is the local variable: a header of another
  type leaves it as it is. The field \<open>typeflag\<close> is at offset 156.
\<close>

definition ramfs_add :: "(addr \<Rightarrow> fs_node) \<Rightarrow> u32 \<Rightarrow> addr \<Rightarrow> 'a fs_state_scheme \<Rightarrow> (addr \<times> 'a fs_state_scheme) result" where
  "ramfs_add junk i node s =
     bindr (array_get (headers s) (unat i)) (\<lambda>h.
     bindr (path h s) (\<lambda>(p, s).
     bindr (ramfs_create_path junk p s) (\<lambda>(p_node, s).
     bindr (count_segs 256 p 0 s) (\<lambda>n.
     bindr (let flag = bytes s (h + 156); ptr = p + 4 * (ucast n - 1)
            in if flag = REGTYPE \<or> flag = AREGTYPE then
                 bindr (named_node junk ptr (ram_file i) s) (\<lambda>(node, s). Inr (node, p_node, s))
               else if flag = DIRTYPE then
                 bindr (ramfs_create_path junk p s) (\<lambda>(p_node, s).
                 bindr (named_node junk ptr ram_dir s) (\<lambda>(node, s). Inr (node, p_node, s)))
               else Inr (node, p_node, s)) (\<lambda>(node, p_node, s).
     bindr (add_child p_node node s) (\<lambda>s. Inr (node, path_free p s)))))))"

fun ramfs_loop :: "nat \<Rightarrow> (addr \<Rightarrow> fs_node) \<Rightarrow> u32 \<Rightarrow> addr \<Rightarrow> 'a fs_state_scheme \<Rightarrow> 'a fs_state_scheme result" where
  "ramfs_loop 0 junk i node s = Inr s"
| "ramfs_loop (Suc n) junk i node s =
     bindr (ramfs_add junk i node s) (\<lambda>(node, s). ramfs_loop n junk (i + 1) node s)"

text \<open>\<open>node0\<close> is what the local variable \<open>node\<close> holds before its first assignment.\<close>

definition ramfs :: "(addr \<Rightarrow> fs_node) \<Rightarrow> addr \<Rightarrow> addr \<Rightarrow> u32 \<Rightarrow> 'a fs_state_scheme \<Rightarrow> (addr \<times> 'a fs_state_scheme) result" where
  "ramfs junk node0 address stop s =
     bindr (tar_parse address stop s) (\<lambda>(_, s).
     bindr (new_node junk (lit ''ram'') ram_dir s) (\<lambda>(r, s).
     bindr (ramfs_loop (unat (files s)) junk 0 node0 (s\<lparr>ramfs_root_node := r\<rparr>)) (\<lambda>s.
     bindr (fs_register (ramfs_root_node s) s) (\<lambda>s. Inr (ramfs_root_node s, s)))))"

definition ramfs_root :: "'a fs_state_scheme \<Rightarrow> addr" where
  "ramfs_root s = ramfs_root_node s"

section \<open>Sizes\<close>

text \<open>The octal number of a list of digits, the first digit being the most significant.\<close>

definition octal :: "nat list \<Rightarrow> nat" where
  "octal ds = foldl (\<lambda>v d. 8 * v + d) 0 ds"

lemma octal_snoc: "octal (ds @ [d]) = 8 * octal ds + d"
  by (simp add: octal_def)

lemma octal_less: "\<forall>d \<in> set ds. d < 8 \<Longrightarrow> octal ds < 8 ^ length ds"
proof (induction ds rule: rev_induct)
  case (snoc d ds)
  then have "octal ds + 1 \<le> 8 ^ length ds" "d < 8" by auto
  then have "8 * octal ds + d < 8 * 8 ^ length ds" by linarith
  then show ?case by (simp add: octal_snoc)
qed (simp add: octal_def)

definition octal_field :: "mem \<Rightarrow> addr \<Rightarrow> nat list \<Rightarrow> bool" where
  "octal_field m p ds \<longleftrightarrow> (\<forall>i < length ds. ds ! i < 8 \<and> m (p + of_nat i) = of_nat (48 + ds ! i))"

lemma digit_value: "d < 8 \<Longrightarrow> (scast (of_nat (48 + d) :: u8) - 0x30 :: u32) = of_nat d"
proof -
  assume "d < 8"
  then have "d \<in> {0, 1, 2, 3, 4, 5, 6, 7}" by auto
  moreover have "\<forall>d \<in> {0, 1, 2, 3, 4, 5, 6, 7 :: nat}. (scast (of_nat (48 + d) :: u8) - 0x30 :: u32) = of_nat d"
    by code_simp
  ultimately show ?thesis by blast
qed

lemma getsize_loop_octal:
  assumes "octal_field m p ds" "length ds = j + length es" "take j ds @ es = ds"
  shows "getsize_loop j m p sz c = sz + of_nat (octal (take j ds)) * c"
  using assms
proof (induction j arbitrary: es sz c)
  case 0
  then show ?case by (simp add: octal_def)
next
  case (Suc j)
  have j: "j < length ds" using Suc.prems(2) by simp
  have d: "ds ! j < 8" "m (p + of_nat j) = of_nat (48 + ds ! j)" using Suc.prems(1) j by (auto simp: octal_field_def)
  have tk: "take (Suc j) ds = take j ds @ [ds ! j]" by (rule take_Suc_conv_app_nth [OF j])
  have "getsize_loop (Suc j) m p sz c = getsize_loop j m p (sz + of_nat (ds ! j) * c) (c * 8)"
    using digit_value [OF d(1)] d(2) by simp
  also have "\<dots> = sz + of_nat (ds ! j) * c + of_nat (octal (take j ds)) * (c * 8)"
    using Suc.prems tk by (intro Suc.IH [of "ds ! j # es"]) simp_all
  also have "\<dots> = sz + of_nat (octal (take (Suc j) ds)) * c" by (simp add: tk octal_snoc algebra_simps)
  finally show ?case .
qed

lemma tar_getsize_octal:
  "\<lbrakk>octal_field m p ds; length ds = 11\<rbrakk> \<Longrightarrow> tar_getsize m p = of_nat (octal ds)"
  using getsize_loop_octal [of m p ds 11 "[]" 0 1] by (simp add: tar_getsize_def)

section \<open>Archives\<close>

text \<open>
  An archive: a header with a name that is not empty and the size in octal digits, the content in
  blocks of 512 bytes, and so on; a block with an empty name ends it.
\<close>

definition tar_blocks :: "nat \<Rightarrow> nat" where
  "tar_blocks n = (n + 511) div 512"

definition file_bytes :: "nat list \<Rightarrow> nat" where
  "file_bytes ds = 512 * (1 + tar_blocks (octal ds))"

fun tar_at :: "mem \<Rightarrow> addr \<Rightarrow> nat list list \<Rightarrow> bool" where
  "tar_at m a [] \<longleftrightarrow> m a = 0"
| "tar_at m a (ds # dss) \<longleftrightarrow> m a \<noteq> 0 \<and> length ds = 11 \<and> octal_field m (a + 124) ds \<and>
     tar_at m (a + of_nat (file_bytes ds)) dss"

fun header_addrs :: "addr \<Rightarrow> nat list list \<Rightarrow> addr list" where
  "header_addrs a [] = []"
| "header_addrs a (ds # dss) = a # header_addrs (a + of_nat (file_bytes ds)) dss"

lemma length_header_addrs [simp]: "length (header_addrs a dss) = length dss"
  by (induction dss arbitrary: a) auto

lemma add_blocks_aux:
  fixes n q r :: nat
  assumes "n = 512 * q + r" "r < 512"
  shows "(n + 511) div 512 = q + (if r = 0 then 0 else 1)"
  using assms by (cases "r = 0") auto

lemma tar_blocks_eq: "tar_blocks n = n div 512 + (if n mod 512 = 0 then 0 else 1)"
proof -
  show ?thesis unfolding tar_blocks_def by (rule add_blocks_aux) simp_all
qed

lemma next_header_at:
  assumes "octal_field m (a + 124) ds" "length ds = 11" "unat a + file_bytes ds < 2 ^ 32"
  shows "next_header m a = a + of_nat (file_bytes ds)"
proof -
  let ?n = "octal ds"
  have n: "?n < 2 ^ 32" using assms(3) by (simp add: file_bytes_def tar_blocks_def)
  have sz: "tar_getsize m (a + 124) = of_nat ?n" by (rule tar_getsize_octal [OF assms(1,2)])
  have u: "unat (of_nat ?n :: u32) = ?n" by (rule unat_of_nat_addr [OF n])
  have dv: "(of_nat ?n :: u32) div 512 = of_nat (?n div 512)"
    by (rule word_unat_eq_iff [THEN iffD2]) (use n u in \<open>simp add: unat_div unat_of_nat\<close>)
  have md: "(of_nat ?n :: u32) mod 512 \<noteq> 0 \<longleftrightarrow> ?n mod 512 \<noteq> 0"
    using u by (simp add: word_unat_eq_iff unat_mod)
  show ?thesis
    unfolding next_header_def Let_def sz dv md file_bytes_def tar_blocks_eq
    by (simp add: algebra_simps)
qed

lemma parse_loop_finds:
  "\<lbrakk>tar_at m a dss; unat a + sum_list (map file_bytes dss) \<le> unat stop; length hs = 64; unat n \<le> 64;
    64 - unat n < k\<rbrakk> \<Longrightarrow>
    parse_loop k m a stop n hs =
      (if unat n + length dss \<le> 64
       then Inr (n + of_nat (length dss), take (unat n) hs @ header_addrs a dss @ drop (unat n + length dss) hs)
       else Inl OutOfBounds)"
proof (induction dss arbitrary: k a n hs)
  case Nil
  then obtain j where "k = Suc j" by (cases k) auto
  then show ?case using Nil by simp
next
  case (Cons ds dss)
  obtain j where k: "k = Suc j" using Cons.prems(5) by (cases k) auto
  let ?b = "a + of_nat (file_bytes ds)"
  have hd: "m a \<noteq> 0" "length ds = 11" "octal_field m (a + 124) ds" "tar_at m ?b dss" using Cons.prems(1) by auto
  have fb: "unat a + file_bytes ds < 2 ^ 32" using Cons.prems(2) unat_u32_less [of stop] by simp
  have nx: "next_header m a = ?b" by (rule next_header_at [OF hd(3,2) fb])
  have ub: "unat ?b = unat a + file_bytes ds" using unat_offset [of a "file_bytes ds" "file_bytes ds"] fb by (simp add: fits_def)
  then have st: "\<not> stop < ?b" "unat ?b + sum_list (map file_bytes dss) \<le> unat stop"
    using Cons.prems(2) by (simp_all add: word_less_nat_alt)
  show ?case
  proof (cases "unat n < 64")
    case False
    then show ?thesis using k hd(1) Cons.prems(3) by simp
  next
    case True
    have un: "unat (n + 1) = unat n + 1" using True by (intro unat_plus_1) simp
    let ?hs = "hs[unat n := a]"
    have "parse_loop k m a stop n hs = parse_loop j m ?b stop (n + 1) ?hs"
      using k hd(1) True Cons.prems(3) nx st(1) by (simp add: Let_def)
    also have "\<dots> = (if unat (n + 1) + length dss \<le> 64
        then Inr (n + 1 + of_nat (length dss), take (unat (n + 1)) ?hs @ header_addrs ?b dss @ drop (unat (n + 1) + length dss) ?hs)
        else Inl OutOfBounds)"
      using Cons.prems(3,5) hd(4) st(2) un True k by (intro Cons.IH) auto
    also have "take (unat (n + 1)) ?hs = take (unat n) hs @ [a]"
      using True Cons.prems(3) un by (simp add: take_Suc_conv_app_nth)
    finally show ?thesis using un by (simp add: algebra_simps)
  qed
qed

text \<open>
  C18: \<open>tar_parse\<close> finds the header of every file of an archive that lies in the module, in order,
  and counts them, whatever is in the memory between; an archive of more than 64 files makes it
  write behind the array of headers.
\<close>

theorem tar_parse_finds:
  assumes "tar_at (bytes s) a dss" "unat a + sum_list (map file_bytes dss) \<le> unat stop" "length (headers s) = 64"
  shows "tar_parse a stop s =
    (if length dss \<le> 64
     then Inr (of_nat (length dss),
       s\<lparr>files := of_nat (length dss), headers := header_addrs a dss @ drop (length dss) (headers s)\<rparr>)
     else Inl OutOfBounds)"
  using parse_loop_finds [OF assms(1-3), of 0 addr_space] by (simp add: tar_parse_def addr_space_def)

lemma parse_loop_ends:
  "\<lbrakk>length hs = 64; 64 - unat n < k\<rbrakk> \<Longrightarrow> parse_loop k m a stop n hs \<noteq> Inl Diverge"
proof (induction k arbitrary: a n hs)
  case (Suc k)
  show ?case
  proof (cases "unat n < 64")
    case True
    have "unat (n + 1) = unat n + 1" using True by (intro unat_plus_1) simp
    then have "parse_loop k m b stop (n + 1) (hs[unat n := a]) \<noteq> Inl Diverge" for b
      using Suc.prems True by (intro Suc.IH) auto
    then show ?thesis using True Suc.prems by (simp add: Let_def)
  next
    case False
    then show ?thesis using Suc.prems by simp
  qed
qed simp


section \<open>Reading a file\<close>

text \<open>
  Reading from a file of the archive gives as many bytes as are left behind the offset, at
  most the number asked for, and nothing behind its end; they are copied from the start of the
  content, whatever the offset is.
\<close>

theorem ramfs_read_content:
  assumes "fnodes s node = Some nd" "n_read nd = Some Ramfs_read" "unat (n_inode nd) < length (headers s)"
    and "headers s ! unat (n_inode nd) = h" "octal_field (bytes s) (h + 124) ds" "length ds = 11" "octal ds < 2 ^ 32"
    and "unat off + unat sz < 2 ^ 32" "k = min (unat sz) (octal ds - unat off)"
    and "fits (h + 512) k" "fits buf k" "apart (h + 512) k buf k"
  shows "\<exists>s'. read_fs frame node off sz buf s = Inr (of_nat k, s') \<and>
    (\<forall>a. bytes s' a = (if within buf k a then bytes s (h + 512 + (a - buf)) else bytes s a))"
proof -
  let ?n = "octal ds"
  have fs: "tar_getsize (bytes s) (h + 124) = of_nat ?n" by (rule tar_getsize_octal [OF assms(5,6)])
  have u: "unat (of_nat ?n :: u32) = ?n" by (rule unat_of_nat_addr [OF assms(7)])
  have us: "unat (off + sz) = unat off + unat sz" using assms(8) by (simp add: unat_word_ariths)
  have run: "read_fs frame node off sz buf s = ramfs_read node off sz buf s" using assms(1,2) by (simp add: read_fs_def)
  show ?thesis
  proof (cases "?n < unat off")
    case True
    then have "ramfs_read node off sz buf s = Inr (0, s)" "k = 0"
      using assms(1,3,4,9) fs u by (simp_all add: ramfs_read_def Let_def word_less_nat_alt)
    then show ?thesis unfolding run by simp
  next
    case False
    let ?sz = "if (of_nat ?n :: u32) < off + sz then of_nat ?n - off else sz"
    have "unat ((of_nat ?n :: u32) - off) = ?n - unat off"
      using False u by (simp add: unat_sub word_le_nat_alt)
    then have k: "unat ?sz = k" using u us assms(9) False by (auto simp: word_less_nat_alt)
    have "ramfs_read node off sz buf s = Inr (?sz, s\<lparr>bytes := memcpy (bytes s) (h + 512) buf ?sz\<rparr>)"
      using assms(1,3,4) fs u False by (simp add: ramfs_read_def Let_def word_less_nat_alt)
    moreover have "of_nat k = ?sz" unfolding k [symmetric] by simp
    moreover have "memcpy (bytes s) (h + 512) buf ?sz a = (if within buf k a then bytes s (h + 512 + (a - buf)) else bytes s a)" for a
      using memcpy_apart [of "h + 512" ?sz buf "bytes s" a] assms(10-12) unfolding k by simp
    ultimately show ?thesis unfolding run by auto
  qed
qed

section \<open>An example\<close>

text \<open>An archive of one file \<open>a\<close> with the content \<open>abc\<close>, at address 8000 (hexadecimal).\<close>

definition tar_machine :: fs_state where
  "tar_machine = boot_machine\<lparr>bytes :=
     strcpy_lit (strcpy_lit (strcpy_lit (\<lambda>_. 0) 0x8000 (lit ''a'')) 0x807C (lit ''00000000003'')) 0x8200 (lit ''abc''),
     headers := replicate 64 0\<rparr>"

definition three :: "nat list" where
  "three = [0, 0, 0, 0, 0, 0, 0, 0, 0, 0, 3]"

lemma three_simps [simp]: "length three = 11" "octal three = 3" "file_bytes three = 1024"
  by code_simp+

lemma tar_lits: "lit ''a'' = [0x61]" "lit ''00000000003'' = [0x30, 0x30, 0x30, 0x30, 0x30, 0x30, 0x30, 0x30, 0x30, 0x30, 0x33]"
  "lit ''abc'' = [0x61, 0x62, 0x63]"
  by code_simp+

lemma all_below_11: "(\<forall>i < 11. P i) \<longleftrightarrow> P 0 \<and> P 1 \<and> P 2 \<and> P 3 \<and> P 4 \<and> P 5 \<and> P 6 \<and> P 7 \<and> P 8 \<and> P 9 \<and> P (10 :: nat)"
proof -
  have "{..< 11 :: nat} = {0, 1, 2, 3, 4, 5, 6, 7, 8, 9, 10}" by (auto, presburger)
  moreover have "(\<forall>i < 11. P i) \<longleftrightarrow> (\<forall>i \<in> {..< 11}. P i)" unfolding Ball_def lessThan_iff ..
  ultimately show ?thesis by simp
qed

lemma tar_machine_size: "octal_field (bytes tar_machine) 0x807C three"
  unfolding octal_field_def three_simps all_below_11
  by (simp add: tar_machine_def tar_lits three_def)

theorem tar_parse_finds_witness:
  "\<exists>s. tar_parse 0x8000 0x9000 tar_machine = Inr (1, s) \<and> hd (headers s) = 0x8000 \<and> files s = 1"
proof -
  have "tar_at (bytes tar_machine) 0x8000 [three]"
    using tar_machine_size by (simp add: tar_machine_def tar_lits)
  from tar_parse_finds [OF this, of "0x9000"] show ?thesis by (simp add: tar_machine_def)
qed


theorem ramfs_read_content_witness:
  "\<exists>s. read_fs 0 0x7000 0 100 0xA000 (tar_machine\<lparr>headers := [0x8000], fnodes := [0x7000 \<mapsto> ram_file 0 (no_node 0)]\<rparr>) =
    Inr (3, s) \<and> bytes s 0xA000 = 0x61 \<and> bytes s 0xA003 = 0"
proof -
  let ?s = "tar_machine\<lparr>headers := [0x8000], fnodes := [0x7000 \<mapsto> ram_file 0 (no_node 0)]\<rparr>"
  have "\<exists>s'. read_fs 0 0x7000 0 100 0xA000 ?s = Inr (of_nat 3, s') \<and>
      (\<forall>a. bytes s' a = (if within 0xA000 3 a then bytes ?s (0x8000 + 512 + (a - 0xA000)) else bytes ?s a))"
    by (rule ramfs_read_content [of _ _ "ram_file 0 (no_node 0)" _ three])
      (use tar_machine_size in \<open>simp_all add: ram_file_def fits_def apart_def\<close>)
  then obtain s where s: "read_fs 0 0x7000 0 100 0xA000 ?s = Inr (of_nat 3, s)"
      "\<forall>a. bytes s a = (if within 0xA000 3 a then bytes ?s (0x8000 + 512 + (a - 0xA000)) else bytes ?s a)" by blast
  have "bytes s 0xA000 = 0x61" "bytes s 0xA003 = 0"
    using s(2) by (simp_all add: within_def tar_machine_def tar_lits)
  then show ?thesis using s(1) by auto
qed

end
