(* ===== verification/Layout.thy ===== *)
theory Layout
  imports Acpi Ramfs Elf
begin

text \<open>
  The packed structs of kernel/devices/acpi.c, kernel/filesystem/ramfs.c, include/kernel/elf.h and
  include/multiboot.h as lists of fields with their sizes.

  The kernel lays these structs over memory that it did not write: the tables of the firmware, the
  archive, the executables and the information of the boot loader. Acpi, Ramfs and Elf read their fields
  at offsets; here the offsets are those of the declarations.
\<close>

type_synonym layout = "(string \<times> nat) list"

definition struct_size :: "layout \<Rightarrow> nat" where
  "struct_size l = sum_list (map snd l)"

fun offset_of :: "layout \<Rightarrow> string \<Rightarrow> nat option" where
  "offset_of [] f = None"
| "offset_of ((g, n) # l) f = (if g = f then Some 0 else map_option ((+) n) (offset_of l f))"

definition field :: "layout \<Rightarrow> string \<Rightarrow> addr" where
  "field l f = of_nat (the (offset_of l f))"

text \<open>A field lies inside its struct, and different fields do not overlap.\<close>

lemma offset_of_Some: "offset_of l f \<noteq> None \<longleftrightarrow> f \<in> fst ` set l"
  by (induction l f rule: offset_of.induct) auto

lemma offset_of_inside:
  "\<lbrakk>distinct (map fst l); (f, n) \<in> set l; offset_of l f = Some k\<rbrakk> \<Longrightarrow> k + n \<le> struct_size l"
  by (induction l f arbitrary: k rule: offset_of.induct) (force simp: struct_size_def split: if_splits)+

lemma offsets_apart:
  "\<lbrakk>distinct (map fst l); (f, n) \<in> set l; (g, m) \<in> set l; f \<noteq> g; offset_of l f = Some i; offset_of l g = Some j\<rbrakk> \<Longrightarrow>
    i + n \<le> j \<or> j + m \<le> i"
proof (induction l arbitrary: i j)
  case (Cons x l)
  obtain h k where x: "x = (h, k)" by (cases x)
  have "f = h \<Longrightarrow> n = k" "g = h \<Longrightarrow> m = k" using Cons.prems(1-3) x by (auto dest: in_set_zipE simp: rev_image_eqI)
  then show ?case using Cons.IH Cons.prems x by (auto split: if_splits)
qed simp

section \<open>kernel/devices/acpi.c\<close>

definition rsdp_layout :: layout where
  "rsdp_layout = [(''Signature'', 8), (''Checksum'', 1), (''OEMID'', 6), (''Revision'', 1), (''RsdtAddress'', 4)]"

definition sdt_header_layout :: layout where
  "sdt_header_layout = [(''Signature'', 4), (''Length'', 4), (''Revision'', 1), (''Checksum'', 1), (''OEMID'', 6), (''OEMTableID'', 8),
     (''OEMRevision'', 4), (''CreatorID'', 4), (''CreatorRevision'', 4)]"

definition rsdt_layout :: layout where
  "rsdt_layout = [(''h'', struct_size sdt_header_layout), (''PointerToOtherSDT'', 4 * 16)]"

definition address_layout :: layout where
  "address_layout = [(''AddressSpace'', 1), (''BitWidth'', 1), (''BitOffset'', 1), (''AccessSize'', 1), (''Address'', 4)]"

definition fadt_layout :: layout where
  "fadt_layout = [(''h'', struct_size sdt_header_layout), (''FirmwareCtrl'', 4), (''Dsdt'', 4), (''Reserved'', 1),
     (''PreferredPowerManagementProfile'', 1), (''SCI_Interrupt'', 2), (''SMI_CommandPort'', 4), (''AcpiEnable'', 1), (''AcpiDisable'', 1),
     (''S4BIOS_REQ'', 1), (''PSTATE_Control'', 1), (''PM1aEventBlock'', 4), (''PM1bEventBlock'', 4), (''PM1aControlBlock'', 4),
     (''PM1bControlBlock'', 4), (''PM2ControlBlock'', 4), (''PMTimerBlock'', 4), (''GPE0Block'', 4), (''GPE1Block'', 4),
     (''PM1EventLength'', 1), (''PM1ControlLength'', 1), (''PM2ControlLength'', 1), (''PMTimerLength'', 1), (''GPE0Length'', 1),
     (''GPE1Length'', 1), (''GPE1Base'', 1), (''CStateControl'', 1), (''WorstC2Latency'', 2), (''WorstC3Latency'', 2), (''FlushSize'', 2),
     (''FlushStride'', 2), (''DutyOffset'', 1), (''DutyWidth'', 1), (''DayAlarm'', 1), (''MonthAlarm'', 1), (''Century'', 1),
     (''BootArchitectureFlags'', 2), (''Reserved2'', 1), (''Flags'', 4), (''ResetReg'', struct_size address_layout), (''ResetValue'', 1),
     (''Reserved3'', 3)]"

lemmas acpi_layouts = rsdp_layout_def sdt_header_layout_def rsdt_layout_def address_layout_def fadt_layout_def

lemma acpi_sizes:
  "struct_size rsdp_layout = 20" "struct_size sdt_header_layout = 36" "struct_size rsdt_layout = 100" "struct_size address_layout = 8"
  "struct_size fadt_layout = 128"
  by (simp_all add: struct_size_def acpi_layouts)

lemma acpi_fields:
  "sizeof_header = of_nat (struct_size sdt_header_layout)"
  "sdt_length m p = load32 m (p + field sdt_header_layout ''Length'')"
  "fadt_Dsdt m p = load32 m (p + field fadt_layout ''Dsdt'')"
  "fadt_SCI_Interrupt m p = load16 m (p + field fadt_layout ''SCI_Interrupt'')"
  "fadt_SMI_CommandPort m p = load32 m (p + field fadt_layout ''SMI_CommandPort'')"
  "fadt_AcpiEnable m p = m (p + field fadt_layout ''AcpiEnable'')"
  "fadt_PM1aEventBlock m p = load32 m (p + field fadt_layout ''PM1aEventBlock'')"
  "fadt_PM1aControlBlock m p = load32 m (p + field fadt_layout ''PM1aControlBlock'')"
  "fadt_PM1bControlBlock m p = load32 m (p + field fadt_layout ''PM1bControlBlock'')"
  "fadt_ResetReg_Address m p = load32 m (p + field fadt_layout ''ResetReg'' + field address_layout ''Address'')"
  "fadt_ResetValue m p = m (p + field fadt_layout ''ResetValue'')"
  by (simp_all add: acpi_sizes field_def sdt_length_def sizeof_header_def fadt_Dsdt_def fadt_SCI_Interrupt_def fadt_SMI_CommandPort_def
    fadt_AcpiEnable_def fadt_PM1aEventBlock_def fadt_PM1aControlBlock_def fadt_PM1bControlBlock_def fadt_ResetReg_Address_def
    fadt_ResetValue_def acpi_layouts struct_size_def add.commute)

section \<open>kernel/filesystem/ramfs.c\<close>

definition tar_layout :: layout where
  "tar_layout = [(''name'', 100), (''mode'', 8), (''uid'', 8), (''gid'', 8), (''size'', 12), (''mtime'', 12), (''chksum'', 8), (''typeflag'', 1),
     (''linkname'', 100), (''magic'', 6), (''version'', 2), (''uname'', 32), (''gname'', 32), (''devmajor'', 8), (''devminor'', 8),
     (''prefix'', 131), (''atime'', 12), (''ctime'', 12)]"

text \<open>The comments of the declaration give the offsets of the fields; a header fits into its block of 512 bytes.\<close>

lemma tar_offsets:
  "map (\<lambda>(f, _). the (offset_of tar_layout f)) tar_layout =
     [0, 100, 108, 116, 124, 136, 148, 156, 157, 257, 263, 265, 297, 329, 337, 345, 476, 488]"
  "struct_size tar_layout \<le> 512"
  by (simp_all add: tar_layout_def struct_size_def)

lemma tar_fields:
  "next_header m h = (let sz = tar_getsize m (h + field tar_layout ''size''); a = h + (sz div 512 + 1) * 512
     in if sz mod 512 \<noteq> 0 then a + 512 else a)"
  "field tar_layout ''typeflag'' = 156"
  by (simp_all add: next_header_def field_def tar_layout_def Let_def)

section \<open>include/kernel/elf.h\<close>

definition elf_file_layout :: layout where
  "elf_file_layout = [(''magic'', 4), (''bitness'', 1), (''endian'', 1), (''elf_ver_1'', 1), (''res'', 9), (''file_type'', 2), (''machine'', 2),
     (''elf_ver_2'', 4), (''entry'', 4), (''phtab_offset'', 4), (''shtab_offset'', 4), (''flags'', 4), (''file_hdr_size'', 2), (''ph_size'', 2),
     (''num_ph'', 2), (''sh_size'', 2), (''num_sects'', 2), (''shstrtab_index'', 2)]"

definition elf_sect_layout :: layout where
  "elf_sect_layout = [(''sect_name'', 4), (''type'', 4), (''flags'', 4), (''virt_adr'', 4), (''offset'', 4), (''size'', 4), (''link'', 4),
     (''info'', 4), (''align'', 4), (''ent_size'', 4)]"

text \<open>\<open>symtab_index\<close> is a bit field of 24 bits behind the byte of the type; \<open>type\<close> and \<open>binding\<close> of a symbol share a byte.\<close>

definition elf_reloc_layout :: layout where
  "elf_reloc_layout = [(''adr'', 4), (''type'', 1), (''symtab_index'', 3), (''addend'', 4)]"

definition elf_sym_layout :: layout where
  "elf_sym_layout = [(''name'', 4), (''value'', 4), (''size'', 4), (''type, binding'', 1), (''zero'', 1), (''section'', 2)]"

definition elf_seg_layout :: layout where
  "elf_seg_layout = [(''type'', 4), (''offset'', 4), (''virt_adr'', 4), (''phys_adr'', 4), (''disk_size'', 4), (''mem_size'', 4), (''flags'', 4),
     (''align'', 4)]"

lemmas elf_layouts = elf_file_layout_def elf_sect_layout_def elf_reloc_layout_def elf_sym_layout_def elf_seg_layout_def

lemma elf_sizes:
  "struct_size elf_file_layout = 52" "struct_size elf_sect_layout = 40" "struct_size elf_reloc_layout = 12" "struct_size elf_sym_layout = 16"
  "struct_size elf_seg_layout = 32"
  by (simp_all add: struct_size_def elf_layouts)

lemma elf_file_fields:
  "e_magic m p = load32 m (p + field elf_file_layout ''magic'')"
  "e_bitness m p = m (p + field elf_file_layout ''bitness'')"
  "e_endian m p = m (p + field elf_file_layout ''endian'')"
  "e_elf_ver_1 m p = m (p + field elf_file_layout ''elf_ver_1'')"
  "e_file_type m p = load16 m (p + field elf_file_layout ''file_type'')"
  "e_machine m p = load16 m (p + field elf_file_layout ''machine'')"
  "e_elf_ver_2 m p = load32 m (p + field elf_file_layout ''elf_ver_2'')"
  "e_entry m p = load32 m (p + field elf_file_layout ''entry'')"
  "e_phtab_offset m p = load32 m (p + field elf_file_layout ''phtab_offset'')"
  "e_shtab_offset m p = load32 m (p + field elf_file_layout ''shtab_offset'')"
  "e_ph_size m p = load16 m (p + field elf_file_layout ''ph_size'')"
  "e_num_ph m p = load16 m (p + field elf_file_layout ''num_ph'')"
  "e_sh_size m p = load16 m (p + field elf_file_layout ''sh_size'')"
  "e_num_sects m p = load16 m (p + field elf_file_layout ''num_sects'')"
  "e_shstrtab_index m p = load16 m (p + field elf_file_layout ''shstrtab_index'')"
  by (simp_all add: field_def elf_file_layout_def e_magic_def e_bitness_def e_endian_def e_elf_ver_1_def e_file_type_def e_machine_def
    e_elf_ver_2_def e_entry_def e_phtab_offset_def e_shtab_offset_def e_ph_size_def e_num_ph_def e_sh_size_def e_num_sects_def
    e_shstrtab_index_def)

lemma elf_struct_fields:
  "elf_sect_at m p = (let f = (\<lambda>n. load32 m (p + field elf_sect_layout n))
     in \<lparr>sh_name = f ''sect_name'', sh_type = f ''type'', sh_flags = f ''flags'', sh_virt_adr = f ''virt_adr'', sh_offset = f ''offset'',
         sh_sz = f ''size'', sh_link = f ''link'', sh_info = f ''info'', sh_align = f ''align'', sh_ent_size = f ''ent_size''\<rparr>)"
  "elf_sym_at m p = (let f = (\<lambda>n. p + field elf_sym_layout n)
     in \<lparr>st_name = load32 m (f ''name''), st_value = load32 m (f ''value''), st_size = load32 m (f ''size''),
         st_type = ucast (m (f ''type, binding'') AND 0x0F), st_section = load16 m (f ''section'')\<rparr>)"
  "elf_seg_at m p = (let f = (\<lambda>n. load32 m (p + field elf_seg_layout n))
     in \<lparr>p_type = f ''type'', p_offset = f ''offset'', p_virt_adr = f ''virt_adr'', p_disk_size = f ''disk_size'', p_mem_size = f ''mem_size'',
         p_flags = f ''flags''\<rparr>)"
  by (simp_all add: Let_def field_def elf_layouts elf_sect_at_def elf_sym_at_def elf_seg_at_def)

section \<open>include/multiboot.h\<close>

text \<open>
  What the boot loader passes: of the information the kernel reads the size of the memory and the list of
  modules, of a module its bounds. The union of the symbol tables has 16 bytes, the last one 6.
\<close>

definition multiboot_info_layout :: layout where
  "multiboot_info_layout = [(''flags'', 4), (''mem_lower'', 4), (''mem_upper'', 4), (''boot_device'', 4), (''cmdline'', 4), (''mods_count'', 4),
     (''mods_addr'', 4), (''u'', 16), (''mmap_length'', 4), (''mmap_addr'', 4), (''drives_length'', 4), (''drives_addr'', 4), (''config_table'', 4),
     (''boot_loader_name'', 4), (''apm_table'', 4), (''vbe_control_info'', 4), (''vbe_mode_info'', 4), (''vbe_mode'', 2),
     (''vbe_interface_seg'', 2), (''vbe_interface_off'', 2), (''vbe_interface_len'', 2), (''framebuffer_addr'', 8), (''framebuffer_pitch'', 4),
     (''framebuffer_width'', 4), (''framebuffer_height'', 4), (''framebuffer_bpp'', 1), (''framebuffer_type'', 1), (''palette or masks'', 6)]"

definition multiboot_module_layout :: layout where
  "multiboot_module_layout = [(''mod_start'', 4), (''mod_end'', 4), (''cmdline'', 4), (''pad'', 4)]"

definition mb_field :: "mem \<Rightarrow> addr \<Rightarrow> string \<Rightarrow> u32" where
  "mb_field m p f = load32 m (p + field multiboot_info_layout f)"

definition mod_field :: "mem \<Rightarrow> addr \<Rightarrow> string \<Rightarrow> u32" where
  "mod_field m p f = load32 m (p + field multiboot_module_layout f)"

lemma multiboot_offsets:
  "mb_field m p ''mem_upper'' = load32 m (p + 8)" "mb_field m p ''mods_count'' = load32 m (p + 20)"
  "mb_field m p ''mods_addr'' = load32 m (p + 24)" "mod_field m p ''mod_start'' = load32 m p" "mod_field m p ''mod_end'' = load32 m (p + 4)"
  by (simp_all add: mb_field_def mod_field_def field_def multiboot_info_layout_def multiboot_module_layout_def)

end
