(* ===== verification/Fb.thy ===== *)
theory Fb
  imports CString Pic
begin

text \<open>
  drivers/fb.c: the text screen.

  The state is the file's global variables, the memory and the ports written so far; \<open>fbmem\<close> is
  the address \<open>B8000\<close> of the text page. A loop over the screen has the number of iterations left:
  the counter is a 32-bit word, so more iterations than words mean that the loop never ends.
  \<open>height\<close> is 24 and the code treats it as the number of the last line: the page has 25 lines.
\<close>

section \<open>The code\<close>

record fb_state =
  fb_mem :: mem
  fbmem :: addr
  fx :: u32
  fy :: u32
  line_size :: u32
  fwidth :: u32
  fheight :: u32
  cell_size :: u32
  buff_size :: u32
  foffset :: u32
  fcolor :: u8
  fb_ports :: "port_write list"

definition FC_LGRAY :: u8 where "FC_LGRAY = 0x7"
definition BC_BLACK :: u8 where "BC_BLACK = 0x0"

definition fb_update_offset :: "fb_state \<Rightarrow> fb_state" where
  "fb_update_offset s = s\<lparr>foffset := fy s * line_size s + fx s * cell_size s\<rparr>"

definition fb_cursor_update :: "fb_state \<Rightarrow> fb_state result" where
  "fb_cursor_update s =
     (if cell_size s = 0 then Inl DivideError
      else
        let pos = (ucast (foffset s div cell_size s) :: u16)
        in Inr (s\<lparr>fb_ports := fb_ports s @ outportb 0x3D4 0x0F @ outportb 0x3D5 (ucast (pos AND 0xFF)) @
             outportb 0x3D4 0x0E @ outportb 0x3D5 (ucast (drop_bit 8 pos AND 0xFF))\<rparr>))"

text \<open>\<open>in1\<close> and \<open>in2\<close> are the answers of the two ports that are read.\<close>

definition fb_cursor_enable :: "u8 \<Rightarrow> u8 \<Rightarrow> fb_state \<Rightarrow> fb_state" where
  "fb_cursor_enable in1 in2 s =
     s\<lparr>fb_ports := fb_ports s @ outportb 0x3D4 0x0A @ outportb 0x3D5 (in1 AND 0xC0) @
        outportb 0x3D4 0x0B @ outportb 0x3D5 ((in2 AND 0xE0) OR 15)\<rparr>"

definition fb_gotoxy :: "u32 \<Rightarrow> u32 \<Rightarrow> fb_state \<Rightarrow> fb_state result" where
  "fb_gotoxy x y s =
     (let s = (if fx s < fwidth s then s\<lparr>fx := x\<rparr> else s);
          s = (if fy s < fheight s then s\<lparr>fy := y\<rparr> else s)
      in fb_cursor_update (fb_update_offset s))"

definition fb_color :: "u8 \<Rightarrow> fb_state \<Rightarrow> fb_state" where
  "fb_color c s = s\<lparr>fcolor := c\<rparr>"

text \<open>The pointers given are \<open>None\<close> when they are NULL.\<close>

definition fb_getxy :: "u32 option \<Rightarrow> u32 option \<Rightarrow> fb_state \<Rightarrow> u32 option \<times> u32 option" where
  "fb_getxy px py s = (map_option (\<lambda>_. fx s) px, map_option (\<lambda>_. fy s) py)"

definition fb_get_color :: "u8 option \<Rightarrow> fb_state \<Rightarrow> u8 option" where
  "fb_get_color pc s = map_option (\<lambda>_. fcolor s) pc"

fun clear_loop :: "nat \<Rightarrow> fb_state \<Rightarrow> fb_state result" where
  "clear_loop 0 s = Inl Diverge"
| "clear_loop (Suc n) s =
     (let s = s\<lparr>fb_mem := (fb_mem s)(fbmem s + foffset s := 0x20, fbmem s + foffset s + 1 := fcolor s),
          foffset := foffset s + 2\<rparr>
      in if foffset s < buff_size s then clear_loop n s else Inr s)"

definition fb_clear :: "fb_state \<Rightarrow> fb_state result" where
  "fb_clear s = bindr (clear_loop addr_space (s\<lparr>foffset := 0\<rparr>)) (fb_gotoxy 0 0)"

text \<open>The two loops of \<open>fb_roll\<close>; \<open>f\<close> is the address of the page, \<open>ls\<close> the bytes of a line.\<close>

fun copy_line :: "nat \<Rightarrow> addr \<Rightarrow> u32 \<Rightarrow> u32 \<Rightarrow> u32 \<Rightarrow> mem \<Rightarrow> mem result" where
  "copy_line 0 f ls i j m = Inl Diverge"
| "copy_line (Suc n) f ls i j m =
     (if j < ls then
        let m = m(f + (i * ls + j) := m (f + ((i + 1) * ls + j)));
            m = m(f + (i * ls + j + 1) := m (f + ((i + 1) * ls + j + 1)))
        in copy_line n f ls i (j + 2) m
      else Inr m)"

fun copy_lines :: "nat \<Rightarrow> addr \<Rightarrow> u32 \<Rightarrow> u32 \<Rightarrow> mem \<Rightarrow> mem result" where
  "copy_lines 0 f ls i m = Inr m"
| "copy_lines (Suc n) f ls i m = bindr (copy_line addr_space f ls i 0 m) (copy_lines n f ls (i + 1))"

fun blank_line :: "nat \<Rightarrow> addr \<Rightarrow> u32 \<Rightarrow> u32 \<Rightarrow> u8 \<Rightarrow> u32 \<Rightarrow> mem \<Rightarrow> mem result" where
  "blank_line 0 f ls i c j m = Inl Diverge"
| "blank_line (Suc n) f ls i c j m =
     (if j < ls then blank_line n f ls i c (j + 2) (m(f + (i * ls + j) := 0x20, f + (i * ls + j + 1) := c)) else Inr m)"

definition fb_roll :: "fb_state \<Rightarrow> fb_state result" where
  "fb_roll s =
     bindr (copy_lines (unat (fheight s)) (fbmem s) (line_size s) 0 (fb_mem s)) (\<lambda>m.
     bindr (blank_line addr_space (fbmem s) (line_size s) (fheight s) (fcolor s) 0 m) (\<lambda>m.
       Inr (s\<lparr>fb_mem := m\<rparr>)))"

definition fb_newline :: "fb_state \<Rightarrow> fb_state result" where
  "fb_newline s =
     (let s = s\<lparr>fy := fy s + 1, fx := 0\<rparr>
      in bindr (if fheight s < fy s then bindr (fb_roll s) (\<lambda>s. Inr (s\<lparr>fy := fy s - 1\<rparr>)) else Inr s)
           (\<lambda>s. fb_cursor_update (fb_update_offset s)))"

text \<open>A character that is neither a newline nor a tabulator.\<close>

definition put_cell :: "u8 \<Rightarrow> fb_state \<Rightarrow> fb_state result" where
  "put_cell c s =
     (let s = s\<lparr>fb_mem := (fb_mem s)(fbmem s + foffset s := c, fbmem s + foffset s + 1 := fcolor s), fx := fx s + 1\<rparr>
      in if fwidth s < fx s then fb_newline s else fb_cursor_update (fb_update_offset s))"

text \<open>A tabulator is \<open>fb_puts("   ")\<close>, three spaces.\<close>

definition fb_putchar :: "u8 \<Rightarrow> fb_state \<Rightarrow> fb_state result" where
  "fb_putchar c s =
     (if c = 0x0A then fb_newline s
      else if c = 0x09 then bindr (bindr (put_cell 0x20 s) (put_cell 0x20)) (put_cell 0x20)
      else put_cell c s)"

fun fb_puts :: "u8 list \<Rightarrow> fb_state \<Rightarrow> fb_state result" where
  "fb_puts [] s = Inr s"
| "fb_puts (c # cs) s = bindr (fb_putchar c s) (fb_puts cs)"

definition fb :: "u8 \<Rightarrow> u8 \<Rightarrow> fb_state \<Rightarrow> fb_state result" where
  "fb in1 in2 s =
     fb_clear (fb_cursor_enable in1 in2 (s\<lparr>fbmem := 0xB8000, fx := 0, fy := 0, foffset := 0, fwidth := 80, fheight := 24,
       cell_size := 2, line_size := 80 * 2, buff_size := 80 * 2 * 24, fcolor := FC_LGRAY OR BC_BLACK\<rparr>))"

section \<open>The screen\<close>

text \<open>
  The invariant: the geometry is the one \<open>fb\<close> sets, the cursor is on one of the 25 lines, at most
  one position behind the last column, and the offset is the cursor's.
\<close>

definition fb_wf :: "fb_state \<Rightarrow> bool" where
  "fb_wf s \<longleftrightarrow> fbmem s = 0xB8000 \<and> fwidth s = 80 \<and> fheight s = 24 \<and> cell_size s = 2 \<and> line_size s = 160 \<and>
     buff_size s = 3840 \<and> fx s \<le> 80 \<and> fy s \<le> 24 \<and> foffset s = fy s * 160 + fx s * 2"

text \<open>Nothing outside the page of 25 lines and the one cell behind it differs.\<close>

definition page_only :: "mem \<Rightarrow> mem \<Rightarrow> bool" where
  "page_only m m' \<longleftrightarrow> (\<forall>a. \<not> within 0xB8000 4002 a \<longrightarrow> m' a = m a)"

lemma page_only_refl [simp]: "page_only m m"
  by (simp add: page_only_def)

lemma page_only_trans: "\<lbrakk>page_only m m'; page_only m' m''\<rbrakk> \<Longrightarrow> page_only m m''"
  by (simp add: page_only_def)

lemma page_address: "unat k < 4001 \<Longrightarrow> within 0xB8000 4002 (0xB8000 + k) \<and> within 0xB8000 4002 (0xB8000 + k + 1)"
  by (simp add: within_def unat_word_ariths)

lemma page_only_cell: "unat k < 4001 \<Longrightarrow> page_only m (m(0xB8000 + k := v, 0xB8000 + k + 1 := w))"
  using page_address [of k] by (auto simp: page_only_def)

lemma cell_index:
  fixes i j :: u32
  assumes "unat i \<le> 24" "unat j < 160"
  shows "unat (i * 160 + j) = unat i * 160 + unat j"
proof -
  have "unat i * 160 + unat j < 2 ^ 32" using assms by simp
  then show ?thesis by (simp add: unat_word_ariths)
qed

lemma even_step:
  assumes "even (unat j)" "j < (160 :: u32)"
  shows "unat (j + 2) = unat j + 2" "even (unat (j + 2))" "unat j < 160" "unat j \<le> 158"
proof -
  show l: "unat j < 160" using assms(2) by (simp add: word_less_nat_alt)
  then show "unat (j + 2) = unat j + 2" by (simp add: unat_word_ariths)
  then show "even (unat (j + 2))" using assms(1) by simp
  show "unat j \<le> 158" using l assms(1) by presburger
qed

lemma copy_line_page:
  "\<lbrakk>unat i < 24; even (unat j); unat j \<le> 160; 160 - unat j < n\<rbrakk> \<Longrightarrow>
    \<exists>m'. copy_line n 0xB8000 160 i j m = Inr m' \<and> page_only m m'"
proof (induction n arbitrary: j m)
  case (Suc n)
  show ?case
  proof (cases "j < 160")
    case True
    note e = even_step [OF Suc.prems(2) True]
    have k: "unat (i * 160 + j) < 4001" using cell_index [of i j] e(3) Suc.prems(1) by simp
    let ?m = "m(0xB8000 + (i * 160 + j) := m (0xB8000 + ((i + 1) * 160 + j)))"
    let ?m' = "?m(0xB8000 + (i * 160 + j + 1) := ?m (0xB8000 + ((i + 1) * 160 + j + 1)))"
    have a: "page_only m ?m'" using page_only_cell [OF k] by (simp add: add.assoc)
    have "\<exists>m'. copy_line n 0xB8000 160 i (j + 2) ?m' = Inr m' \<and> page_only ?m' m'"
      using Suc.prems e by (intro Suc.IH) auto
    then obtain m2 where m2: "copy_line n 0xB8000 160 i (j + 2) ?m' = Inr m2" "page_only ?m' m2" by (elim exE conjE) rule
    have "copy_line (Suc n) 0xB8000 160 i j m = copy_line n 0xB8000 160 i (j + 2) ?m'"
      using True by (simp add: Let_def)
    with m2(1) page_only_trans [OF a m2(2)] show ?thesis by (intro exI [of _ m2]) (simp only: simp_thms)
  qed simp
qed simp

lemma copy_lines_page:
  "unat i + n \<le> 24 \<Longrightarrow> \<exists>m'. copy_lines n 0xB8000 160 i m = Inr m' \<and> page_only m m'"
proof (induction n arbitrary: i m)
  case (Suc n)
  obtain m1 where m1: "copy_line addr_space 0xB8000 160 i 0 m = Inr m1" "page_only m m1"
    using copy_line_page [of i 0 addr_space m] Suc.prems by (auto simp: addr_space_def)
  have "unat (i + 1) = unat i + 1" using Suc.prems by (intro unat_plus_1) simp
  then obtain m2 where "copy_lines n 0xB8000 160 (i + 1) m1 = Inr m2" "page_only m1 m2"
    using Suc.IH [of "i + 1" m1] Suc.prems by auto
  then show ?case using m1 page_only_trans by auto
qed simp

lemma blank_line_page:
  "\<lbrakk>unat i \<le> 24; even (unat j); unat j \<le> 160; 160 - unat j < n\<rbrakk> \<Longrightarrow>
    \<exists>m'. blank_line n 0xB8000 160 i c j m = Inr m' \<and> page_only m m'"
proof (induction n arbitrary: j m)
  case (Suc n)
  show ?case
  proof (cases "j < 160")
    case True
    note e = even_step [OF Suc.prems(2) True]
    have k: "unat (i * 160 + j) < 4001" using cell_index [of i j] e(3) Suc.prems(1) by simp
    let ?m = "m(0xB8000 + (i * 160 + j) := 0x20, 0xB8000 + (i * 160 + j + 1) := c)"
    have a: "page_only m ?m" using page_only_cell [OF k] by (simp add: add.assoc)
    have "\<exists>m'. blank_line n 0xB8000 160 i c (j + 2) ?m = Inr m' \<and> page_only ?m m'"
      using Suc.prems e by (intro Suc.IH) auto
    then obtain m2 where m2: "blank_line n 0xB8000 160 i c (j + 2) ?m = Inr m2" "page_only ?m m2" by (elim exE conjE) rule
    have "blank_line (Suc n) 0xB8000 160 i c j m = blank_line n 0xB8000 160 i c (j + 2) ?m" using True by simp
    with m2(1) page_only_trans [OF a m2(2)] show ?thesis by (intro exI [of _ m2]) (simp only: simp_thms)
  qed simp
qed simp

section \<open>The invariant\<close>

text \<open>An operation that returns, keeps the invariant and writes to the page only.\<close>

definition screen_ok :: "fb_state \<Rightarrow> fb_state result \<Rightarrow> bool" where
  "screen_ok s r \<longleftrightarrow> (\<exists>s'. r = Inr s' \<and> fb_wf s' \<and> page_only (fb_mem s) (fb_mem s'))"

lemma screen_okI: "\<lbrakk>r = Inr s'; fb_wf s'; page_only (fb_mem s) (fb_mem s')\<rbrakk> \<Longrightarrow> screen_ok s r"
  by (auto simp: screen_ok_def)

lemma screen_ok_bind:
  assumes "screen_ok s r" "\<And>s'. fb_wf s' \<Longrightarrow> screen_ok s' (f s')"
  shows "screen_ok s (bindr r f)"
  using assms page_only_trans unfolding screen_ok_def by fastforce

text \<open>What is left of an operation once the cursor is set: offset and cursor ports follow it.\<close>

lemma cursor_ok:
  assumes "fbmem s = 0xB8000" "fwidth s = 80" "fheight s = 24" "cell_size s = 2" "line_size s = 160" "buff_size s = 3840"
    and "fx s \<le> 80" "fy s \<le> 24" "page_only (fb_mem s0) (fb_mem s)"
  shows "screen_ok s0 (fb_cursor_update (fb_update_offset s))"
  using assms by (auto simp: screen_ok_def fb_cursor_update_def fb_update_offset_def Let_def fb_wf_def)

lemma word_le_80: "x \<le> (80 :: u32) \<Longrightarrow> \<not> 80 < x + 1 \<Longrightarrow> x + 1 \<le> 80"
  by (simp add: not_less)

lemma fb_newline_ok:
  assumes "fbmem s = 0xB8000" "fwidth s = 80" "fheight s = 24" "cell_size s = 2" "line_size s = 160" "buff_size s = 3840"
    and "fy s \<le> 24" "page_only (fb_mem s0) (fb_mem s)"
  shows "screen_ok s0 (fb_newline s)"
proof (cases "24 < fy s + 1")
  case True
  let ?s = "s\<lparr>fy := fy s + 1, fx := 0\<rparr>"
  obtain m1 where m1: "copy_lines 24 0xB8000 160 0 (fb_mem s) = Inr m1" "page_only (fb_mem s) m1"
    using copy_lines_page [of 0 24 "fb_mem s"] by auto
  obtain m2 where m2: "blank_line addr_space 0xB8000 160 24 (fcolor s) 0 m1 = Inr m2" "page_only m1 m2"
    using blank_line_page [of 24 0 addr_space "fcolor s" m1] by (auto simp: addr_space_def)
  have "page_only (fb_mem s0) m2" using assms(8) m1(2) m2(2) page_only_trans by blast
  moreover have "fb_newline s = fb_cursor_update (fb_update_offset (?s\<lparr>fb_mem := m2, fy := fy s\<rparr>))"
    using True assms m1(1) m2(1) by (simp add: fb_newline_def fb_roll_def Let_def)
  ultimately show ?thesis using assms by (simp add: cursor_ok)
next
  case False
  then have "fy s + 1 \<le> 24" by simp
  moreover have "fb_newline s = fb_cursor_update (fb_update_offset (s\<lparr>fy := fy s + 1, fx := 0\<rparr>))"
    using False assms by (simp add: fb_newline_def Let_def)
  ultimately show ?thesis using assms by (simp add: cursor_ok)
qed

lemma wf_offset:
  assumes "fb_wf s"
  shows "unat (foffset s) < 4001"
proof -
  have "unat (fx s) \<le> 80" "unat (fy s) \<le> 24" using assms by (simp_all add: fb_wf_def word_le_nat_alt)
  moreover have "foffset s = fy s * 160 + fx s * 2" using assms by (simp add: fb_wf_def)
  ultimately show ?thesis by (simp add: unat_word_ariths)
qed

lemma put_cell_ok: "fb_wf s \<Longrightarrow> screen_ok s (put_cell c s)"
proof -
  assume wf: "fb_wf s"
  let ?m = "(fb_mem s)(0xB8000 + foffset s := c, 0xB8000 + foffset s + 1 := fcolor s)"
  let ?s = "s\<lparr>fb_mem := ?m, fx := fx s + 1\<rparr>"
  have pg: "page_only (fb_mem s) ?m" by (rule page_only_cell [OF wf_offset [OF wf]])
  show ?thesis
  proof (cases "80 < fx s + 1")
    case True
    then have "put_cell c s = fb_newline ?s" using wf by (simp add: put_cell_def Let_def fb_wf_def)
    then show ?thesis using fb_newline_ok [of ?s s] wf pg by (simp add: fb_wf_def)
  next
    case False
    then have "put_cell c s = fb_cursor_update (fb_update_offset ?s)" using wf by (simp add: put_cell_def Let_def fb_wf_def)
    then show ?thesis using cursor_ok [of ?s s] wf pg False by (simp add: fb_wf_def)
  qed
qed

lemma fb_putchar_ok: "fb_wf s \<Longrightarrow> screen_ok s (fb_putchar c s)"
proof -
  assume wf: "fb_wf s"
  have "screen_ok s (fb_newline s)" using wf by (intro fb_newline_ok) (simp_all add: fb_wf_def)
  moreover have "screen_ok s (bindr (bindr (put_cell 0x20 s) (put_cell 0x20)) (put_cell 0x20))"
    by (intro screen_ok_bind put_cell_ok wf)
  ultimately show ?thesis using put_cell_ok [OF wf] by (simp add: fb_putchar_def)
qed

lemma fb_puts_ok: "fb_wf s \<Longrightarrow> screen_ok s (fb_puts cs s)"
proof (induction cs arbitrary: s)
  case Nil
  then show ?case by (simp add: screen_ok_def)
next
  case (Cons c cs)
  then show ?case by (auto intro!: screen_ok_bind fb_putchar_ok)
qed

lemma fb_gotoxy_ok:
  assumes "fb_wf s" "x \<le> 80" "y \<le> 24"
  shows "screen_ok s (fb_gotoxy x y s)"
  using assms unfolding fb_gotoxy_def Let_def by (intro cursor_ok) (auto simp: fb_wf_def)

lemma clear_loop_ok:
  "\<lbrakk>fbmem s = 0xB8000; buff_size s = 3840; even (unat (foffset s)); unat (foffset s) < 3840; 3840 - unat (foffset s) < n\<rbrakk> \<Longrightarrow>
    \<exists>m k. clear_loop n s = Inr (s\<lparr>fb_mem := m, foffset := k\<rparr>) \<and> page_only (fb_mem s) m"
proof (induction n arbitrary: s)
  case (Suc n)
  let ?m = "(fb_mem s)(0xB8000 + foffset s := 0x20, 0xB8000 + foffset s + 1 := fcolor s)"
  let ?s = "s\<lparr>fb_mem := ?m, foffset := foffset s + 2\<rparr>"
  have pg: "page_only (fb_mem s) ?m" using Suc.prems(4) by (intro page_only_cell) simp
  have u: "unat (foffset s + 2) = unat (foffset s) + 2" using Suc.prems(4) by (simp add: unat_word_ariths)
  have run: "clear_loop (Suc n) s = (if foffset ?s < 3840 then clear_loop n ?s else Inr ?s)"
    using Suc.prems(1,2) by (simp add: Let_def)
  show ?case
  proof (cases "foffset ?s < 3840")
    case True
    then have "\<exists>m k. clear_loop n ?s = Inr (?s\<lparr>fb_mem := m, foffset := k\<rparr>) \<and> page_only (fb_mem ?s) m"
      using Suc.prems u by (intro Suc.IH) (auto simp: word_less_nat_alt)
    then obtain m k where c: "clear_loop n ?s = Inr (?s\<lparr>fb_mem := m, foffset := k\<rparr>)" "page_only ?m m"
      by (elim exE conjE) simp
    have "page_only (fb_mem s) m" by (rule page_only_trans [OF pg c(2)])
    then show ?thesis using run True c(1) by (intro exI [of _ m] exI [of _ k]) simp
  next
    case False
    then have "clear_loop (Suc n) s = Inr ?s" unfolding run by (simp only: if_False)
    then show ?thesis using pg by blast
  qed
qed simp

lemma fb_clear_ok:
  assumes "fbmem s = 0xB8000" "fwidth s = 80" "fheight s = 24" "cell_size s = 2" "line_size s = 160" "buff_size s = 3840"
    and "fx s \<le> 80" "fy s \<le> 24"
  shows "screen_ok s (fb_clear s)"
proof -
  obtain m k where c: "clear_loop addr_space (s\<lparr>foffset := 0\<rparr>) = Inr (s\<lparr>foffset := 0, fb_mem := m, foffset := k\<rparr>)" "page_only (fb_mem s) m"
    using clear_loop_ok [of "s\<lparr>foffset := 0\<rparr>" addr_space] assms by (auto simp: addr_space_def)
  have "fb_clear s = fb_gotoxy 0 0 (s\<lparr>fb_mem := m, foffset := k\<rparr>)" using c(1) by (simp add: fb_clear_def)
  moreover have "screen_ok s (fb_gotoxy 0 0 (s\<lparr>fb_mem := m, foffset := k\<rparr>))"
    unfolding fb_gotoxy_def Let_def using assms c(2) by (intro cursor_ok) auto
  ultimately show ?thesis by simp
qed

text \<open>The states of the screen: after \<open>fb\<close>, and after any operation with a position on the screen.\<close>

inductive fb_reach :: "fb_state \<Rightarrow> fb_state \<Rightarrow> bool" for s0 where
  boot: "fb in1 in2 s0 = Inr s \<Longrightarrow> fb_reach s0 s"
| puts: "\<lbrakk>fb_reach s0 s; fb_puts cs s = Inr s'\<rbrakk> \<Longrightarrow> fb_reach s0 s'"
| newline: "\<lbrakk>fb_reach s0 s; fb_newline s = Inr s'\<rbrakk> \<Longrightarrow> fb_reach s0 s'"
| color: "fb_reach s0 s \<Longrightarrow> fb_reach s0 (fb_color c s)"
| goto: "\<lbrakk>fb_reach s0 s; x \<le> 80; y \<le> 24; fb_gotoxy x y s = Inr s'\<rbrakk> \<Longrightarrow> fb_reach s0 s'"
| clear: "\<lbrakk>fb_reach s0 s; fb_clear s = Inr s'\<rbrakk> \<Longrightarrow> fb_reach s0 s'"

lemma screen_ok_step:
  "\<lbrakk>screen_ok s r; r = Inr s'; page_only m (fb_mem s)\<rbrakk> \<Longrightarrow> fb_wf s' \<and> page_only m (fb_mem s')"
  using page_only_trans by (auto simp: screen_ok_def)

lemma fb_reach_inv: "fb_reach s0 s \<Longrightarrow> fb_wf s \<and> page_only (fb_mem s0) (fb_mem s)"
proof (induction rule: fb_reach.induct)
  case (boot in1 in2 s)
  let ?s = "fb_cursor_enable in1 in2 (s0\<lparr>fbmem := 0xB8000, fx := 0, fy := 0, foffset := 0, fwidth := 80, fheight := 24,
       cell_size := 2, line_size := 80 * 2, buff_size := 80 * 2 * 24, fcolor := FC_LGRAY OR BC_BLACK\<rparr>)"
  have "screen_ok ?s (fb_clear ?s)" by (intro fb_clear_ok) (simp_all add: fb_cursor_enable_def)
  moreover have "fb_mem ?s = fb_mem s0" by (simp add: fb_cursor_enable_def)
  ultimately show ?case using boot screen_ok_step [of ?s "fb_clear ?s" s "fb_mem s0"] by (simp add: fb_def)
next
  case (puts s cs s')
  then show ?case using screen_ok_step [OF fb_puts_ok] by blast
next
  case (newline s s')
  then show ?case using screen_ok_step [OF fb_newline_ok [of s s]] by (auto simp: fb_wf_def)
next
  case (color s c)
  then show ?case by (simp add: fb_color_def fb_wf_def)
next
  case (goto s x y s')
  then show ?case using screen_ok_step [OF fb_gotoxy_ok] by blast
next
  case (clear s s')
  then show ?case using screen_ok_step [OF fb_clear_ok [of s]] by (auto simp: fb_wf_def)
qed


definition blank_screen :: fb_state where
  "blank_screen = \<lparr>fb_mem = \<lambda>_. 0, fbmem = 0, fx = 0, fy = 0, line_size = 0, fwidth = 0, fheight = 0, cell_size = 0,
     buff_size = 0, foffset = 0, fcolor = 0, fb_ports = []\<rparr>"


end
