(* ===== verification/Gdt.thy ===== *)
theory Gdt
  imports Prelude
begin

text \<open>
  kernel/x86/gdt.c and kernel/x86/tss.c: the segment descriptors and the task state segment.

  Loading the registers of the processor is assembly. The stack pointer and the page directory
  register at the call, and the addresses of the function \<open>tss\<close> and of the table, are parameters.
\<close>

section \<open>The code\<close>

definition KERNEL_CODE :: u32 where "KERNEL_CODE = 0x08"
definition KERNEL_DATA :: u32 where "KERNEL_DATA = 0x10"

record tss =
  tss_esp0 :: u32
  tss_ss0 :: u32
  tss_cr3 :: u32
  tss_es :: u32
  tss_cs :: u32
  tss_ss :: u32
  tss_ds :: u32
  tss_fs :: u32
  tss_gs :: u32
  tss_iomap_base :: u16

record gdt_entry =
  g_low :: u32
  g_high :: u32

record gdt_state =
  kernel_tss :: tss
  gdt_entries :: "gdt_entry list"
  gdtr_size :: u16
  gdtr_offset :: u32

definition tss_init :: "u32 \<Rightarrow> u32 \<Rightarrow> tss \<Rightarrow> tss" where
  "tss_init esp cr t = t\<lparr>tss_ss0 := KERNEL_DATA, tss_esp0 := esp, tss_cr3 := cr, tss_cs := KERNEL_CODE, tss_gs := KERNEL_DATA,
     tss_fs := KERNEL_DATA, tss_es := KERNEL_DATA, tss_ds := KERNEL_DATA, tss_ss := KERNEL_DATA, tss_iomap_base := 104\<rparr>"

definition tss_set_esp0 :: "u32 \<Rightarrow> gdt_state \<Rightarrow> gdt_state" where
  "tss_set_esp0 esp s = s\<lparr>kernel_tss := (kernel_tss s)\<lparr>tss_esp0 := esp\<rparr>\<rparr>"

definition gdt_entry_setup :: "u32 \<Rightarrow> u32 \<Rightarrow> u32 \<Rightarrow> u32 \<Rightarrow> gdt_entry" where
  "gdt_entry_setup base limit acc flags =
     (let low = base AND 0xFFFF;
          low = push_bit 16 low;
          low = low OR (limit AND 0xFFFF)
      in \<lparr>g_low = low,
          g_high = (drop_bit 16 base AND 0xFF) OR push_bit 8 (acc AND 0xFF) OR
            push_bit 16 (drop_bit 16 limit AND 0xF) OR push_bit 20 (flags AND 0xF) OR
            push_bit 24 (drop_bit 24 base AND 0xFF)\<rparr>)"

text \<open>
  \<open>vstart\<close> and \<open>pstart\<close> are the addresses the linker gives the kernel, \<open>tss_fn\<close> is the address of the function
  \<open>tss\<close>, which is what \<open>&tss\<close> means, and \<open>sizeof(tss_entry_t)\<close> is 104.
\<close>

definition VIRTUAL_TO_PHYSICAL :: "addr \<Rightarrow> addr \<Rightarrow> addr \<Rightarrow> addr" where
  "VIRTUAL_TO_PHYSICAL vstart pstart a = a - vstart + pstart"

definition gdt :: "addr \<Rightarrow> addr \<Rightarrow> u32 \<Rightarrow> u32 \<Rightarrow> addr \<Rightarrow> addr \<Rightarrow> gdt_state \<Rightarrow> gdt_state" where
  "gdt vstart pstart esp cr tss_fn table s =
     s\<lparr>kernel_tss := tss_init esp cr (kernel_tss s),
       gdt_entries := [gdt_entry_setup 0 0 0 0, gdt_entry_setup 0 0xFFFFFFFF 0x9A 0xC, gdt_entry_setup 0 0xFFFFFFFF 0x92 0xC,
         gdt_entry_setup 0 0xFFFFFFFF 0xFA 0xC, gdt_entry_setup 0 0xFFFFFFFF 0xF2 0xC, gdt_entry_setup (VIRTUAL_TO_PHYSICAL vstart pstart tss_fn) 104 0x89 0xC],
       gdtr_size := 8 * 6, gdtr_offset := table\<rparr>"

section \<open>How the processor reads a descriptor\<close>

definition seg_base :: "gdt_entry \<Rightarrow> u32" where
  "seg_base g = drop_bit 16 (g_low g) OR push_bit 16 (take_bit 8 (g_high g)) OR push_bit 24 (drop_bit 24 (g_high g))"

definition seg_limit :: "gdt_entry \<Rightarrow> u32" where
  "seg_limit g = take_bit 16 (g_low g) OR push_bit 16 (take_bit 4 (drop_bit 16 (g_high g)))"

definition seg_access :: "gdt_entry \<Rightarrow> u32" where
  "seg_access g = take_bit 8 (drop_bit 8 (g_high g))"

definition seg_flags :: "gdt_entry \<Rightarrow> u32" where
  "seg_flags g = take_bit 4 (drop_bit 20 (g_high g))"

lemma gdt_masks: "x AND 0xFFFF = take_bit 16 x" "x AND 0xFF = take_bit 8 x" "x AND 0xF = take_bit 4 x" for x :: u32
  by (simp_all add: take_bit_eq_mask mask_eq_exp_minus_1)

lemma low_fields:
  "drop_bit 16 (push_bit 16 (take_bit 16 b) OR take_bit 16 l) = take_bit 16 b"
  "take_bit 16 (push_bit 16 (take_bit 16 b) OR take_bit 16 l) = take_bit 16 l" for b l :: u32
  by (rule bit_word_eqI, auto simp: bit_simps)+

lemma high_fields:
  fixes b1 a l f b2 :: u32
  defines "h \<equiv> take_bit 8 b1 OR push_bit 8 (take_bit 8 a) OR push_bit 16 (take_bit 4 l) OR push_bit 20 (take_bit 4 f) OR
    push_bit 24 (take_bit 8 b2)"
  shows "take_bit 8 h = take_bit 8 b1" "take_bit 8 (drop_bit 8 h) = take_bit 8 a" "take_bit 4 (drop_bit 16 h) = take_bit 4 l"
    "take_bit 4 (drop_bit 20 h) = take_bit 4 f" "drop_bit 24 h = take_bit 8 b2"
  unfolding h_def by (rule bit_word_eqI, auto simp: bit_simps)+

lemma split_words:
  "take_bit 16 b OR push_bit 16 (take_bit 8 (drop_bit 16 b)) OR push_bit 24 (take_bit 8 (drop_bit 24 b)) = b" (is "?l = b")
  "take_bit 16 b OR push_bit 16 (take_bit 4 (drop_bit 16 b)) = take_bit 20 b" for b :: u32
proof -
  show "?l = b"
  proof (rule bit_word_eqI)
    fix n assume "n < LENGTH(32)"
    then consider "n < 16" | "16 \<le> n" "n < 24" | "24 \<le> n" "n < 32" by fastforce
    then show "bit ?l n = bit b n" by cases (auto simp: bit_simps)
  qed
  show "take_bit 16 b OR push_bit 16 (take_bit 4 (drop_bit 16 b)) = take_bit 20 b"
    by (rule bit_word_eqI) (auto simp: bit_simps)
qed

text \<open>
  The processor reads back from a descriptor the base given to \<open>gdt_entry_setup\<close>, the low 20 bits of
  the limit, the access byte and the four flags.
\<close>

theorem gdt_entry_roundtrip:
  "seg_base (gdt_entry_setup base limit acc flags) = base \<and>
   seg_limit (gdt_entry_setup base limit acc flags) = take_bit 20 limit \<and>
   seg_access (gdt_entry_setup base limit acc flags) = take_bit 8 acc \<and>
   seg_flags (gdt_entry_setup base limit acc flags) = take_bit 4 flags"
  unfolding seg_base_def seg_limit_def seg_access_def seg_flags_def gdt_entry_setup_def Let_def gdt_masks gdt_entry.simps
    low_fields high_fields split_words by simp

end
