(* ===== verification/Serial.thy ===== *)
theory Serial
  imports Syscalls Elf
begin

text \<open>
  drivers/serial.c and kernel/devices/bios.c: the serial lines and the BIOS data area.

  Writing is in Fs, where a node's \<open>write\<close> reaches it; here are the reading, the handler and the
  setup, which registers one device per line. What is shown: how many answers of the line a write
  consumes, that it ends when the line becomes ready often enough, and what it puts on the line.
\<close>

section \<open>The code\<close>

definition bios_read_byte :: "mem \<Rightarrow> u16 \<Rightarrow> u16 \<Rightarrow> u8" where
  "bios_read_byte m segment offset =
     (let laddress = (ucast segment :: u32) * 16 + ucast offset
      in if laddress < 0x400 \<or> 0xFFFFE < laddress then 0 else m laddress)"

definition bios_read_word :: "mem \<Rightarrow> u16 \<Rightarrow> u16 \<Rightarrow> u16" where
  "bios_read_word m segment offset =
     (let laddress = (ucast segment :: u32) * 16 + ucast offset
      in if laddress < 0x400 \<or> 0xFFFFE < laddress then 0 else load16 m laddress)"

record serial_state = fs_state +
  serial_lock :: u8

text \<open>One answer of a port; there is none left when the device never answers.\<close>

definition inportb :: "'a fs_state_scheme \<Rightarrow> (u8 \<times> 'a fs_state_scheme) result" where
  "inportb s = (case port_in s of [] \<Rightarrow> Inl Diverge | x # xs \<Rightarrow> Inr (x, s\<lparr>port_in := xs\<rparr>))"

definition serial_received :: "u8 \<Rightarrow> 'a fs_state_scheme \<Rightarrow> (u8 \<times> 'a fs_state_scheme) result" where
  "serial_received com s =
     bindr (array_get (SERIAL_PORT s) (unat com)) (\<lambda>_. bindr (inportb s) (\<lambda>(x, s). Inr (x AND 1, s)))"

fun received_loop :: "nat \<Rightarrow> u8 \<Rightarrow> 'a fs_state_scheme \<Rightarrow> 'a fs_state_scheme result" where
  "received_loop 0 com s = Inl Diverge"
| "received_loop (Suc n) com s =
     bindr (serial_received com s) (\<lambda>(r, s). if r = 0 then received_loop n com s else Inr s)"

text \<open>Each turn of the loop takes an answer, so there are at most as many turns as answers.\<close>

definition read_serial :: "u8 \<Rightarrow> 'a fs_state_scheme \<Rightarrow> (u8 \<times> 'a fs_state_scheme) result" where
  "read_serial com s = bindr (received_loop (Suc (length (port_in s))) com s) inportb"

definition serial_handler :: "'a serial_state_scheme \<Rightarrow> 'a serial_state_scheme" where
  "serial_handler s = s\<lparr>serial_lock := 0\<rparr>"

definition serial_name :: "nat \<Rightarrow> u8 list" where
  "serial_name i = [lit ''com1'', lit ''com2'', lit ''com3'', lit ''com4''] ! i"

definition port_or :: "mem \<Rightarrow> u16 \<Rightarrow> u16 \<Rightarrow> u16" where
  "port_or m offset dflt = (let p = bios_read_word m 0x40 offset in if p = 0 then dflt else p)"

definition line_setup :: "u32 \<Rightarrow> port_write list" where
  "line_setup p = outportb (p + 1) 0x00 @ outportb (p + 3) 0x80 @ outportb (p + 0) 0x03 @ outportb (p + 1) 0x00 @
     outportb (p + 3) 0x03 @ outportb (p + 2) 0x7"

text \<open>The loop, with \<open>n\<close> lines left.\<close>

fun serial_lines :: "nat \<Rightarrow> (addr \<Rightarrow> fs_node) \<Rightarrow> nat \<Rightarrow> 'a fs_state_scheme \<Rightarrow> 'a fs_state_scheme result" where
  "serial_lines 0 junk i s = Inr s"
| "serial_lines (Suc n) junk i s =
     bindr (array_get (SERIAL_PORT s) i) (\<lambda>port.
       let s = s\<lparr>io_log := io_log s @ line_setup (ucast port)\<rparr>
       in bindr (new_node junk (serial_name i)
            (\<lambda>nd. (dev_node None (Some Serial_write_fs) nd)\<lparr>n_inode := of_nat i\<rparr>) s) (\<lambda>(com, s).
          bindr (devfs_register com s) (serial_lines n junk (i + 1))))"

definition serial :: "(addr \<Rightarrow> fs_node) \<Rightarrow> 'a fs_state_scheme \<Rightarrow> 'a fs_state_scheme result" where
  "serial junk s =
     (let m = bytes s
      in serial_lines 4 junk 0 (s\<lparr>SERIAL_PORT := [port_or m 0x0 0x3F8, port_or m 0x2 0x2F8, port_or m 0x4 0x3E8, port_or m 0x6 0x2E8]\<rparr>))"

section \<open>Writing to a line\<close>

text \<open>
  The line answers; an answer is ready when bit 5 is set. A byte takes the answers up to the
  first that is ready.
\<close>

definition ready :: "u8 \<Rightarrow> bool" where
  "ready x \<longleftrightarrow> x AND 0x20 \<noteq> 0"

fun drop_ready :: "nat \<Rightarrow> u8 list \<Rightarrow> u8 list" where
  "drop_ready 0 xs = xs"
| "drop_ready (Suc n) xs = drop_ready n (drop 1 (dropWhile (\<lambda>x. \<not> ready x) xs))"

lemma wait_serial_ready:
  "wait_serial xs = (if filter ready xs = [] then Inl Diverge else Inr (drop 1 (dropWhile (\<lambda>x. \<not> ready x) xs)))"
  by (induction xs) (auto simp: ready_def)

lemma filter_drop_ready:
  "filter P (drop 1 (dropWhile (\<lambda>x. \<not> P x) xs)) = drop 1 (filter P xs)"
  by (induction xs) auto

lemma serial_loop_sends:
  assumes "unat com < length (SERIAL_PORT s)"
  shows "serial_loop n com b i s =
    (if n \<le> length (filter ready (port_in s))
     then Inr (s\<lparr>port_in := drop_ready n (port_in s),
       io_log := io_log s @ map (\<lambda>k. Outb (ucast (SERIAL_PORT s ! unat com)) (bytes s (b + (i + of_nat k)))) [0 ..< n]\<rparr>)
     else Inl Diverge)"
  using assms
proof (induction n arbitrary: i s)
  case 0
  then show ?case by simp
next
  case (Suc n)
  define xs where "xs = drop 1 (dropWhile (\<lambda>x. \<not> ready x) (port_in s))"
  let ?port = "SERIAL_PORT s ! unat com"
  let ?s = "s\<lparr>port_in := xs, io_log := io_log s @ [Outb (ucast ?port) (bytes s (b + i))]\<rparr>"
  show ?case
  proof (cases "filter ready (port_in s) = []")
    case True
    then show ?thesis using Suc.prems by (simp add: write_serial_def wait_serial_ready)
  next
    case False
    then have w: "write_serial com (bytes s (b + i)) s = Inr ?s"
      using Suc.prems by (simp add: write_serial_def wait_serial_ready outportb_def xs_def)
    have "filter ready xs = drop 1 (filter ready (port_in s))" unfolding xs_def by (rule filter_drop_ready)
    then have l: "n \<le> length (filter ready xs) \<longleftrightarrow> Suc n \<le> length (filter ready (port_in s))"
      using False by (cases "filter ready (port_in s)") auto
    have d: "drop_ready (Suc n) (port_in s) = drop_ready n xs" by (simp only: drop_ready.simps xs_def)
    show ?thesis using Suc.IH [of ?s "i + 1"] Suc.prems unfolding map_upt_shift d serial_loop.simps w bindr_simps
      by (simp add: l add.assoc)
  qed
qed

text \<open>
  C26: a write to a serial line returns exactly when the line becomes ready at least as often as
  there are bytes; it then has put the bytes on the port of the line in order, once each, and returned their
  number. Otherwise it waits for ever.
\<close>

theorem serial_write_returns:
  assumes "fnodes s node = Some nd" "n_write nd = Some Serial_write_fs"
    and "unat (ucast (n_inode nd) :: u8) < length (SERIAL_PORT s)"
  shows "write_fs node off sz buf s =
    (if unat sz \<le> length (filter ready (port_in s))
     then Inr (sz, s\<lparr>port_in := drop_ready (unat sz) (port_in s),
       io_log := io_log s @ map (\<lambda>k. Outb (ucast (SERIAL_PORT s ! unat (ucast (n_inode nd) :: u8))) (bytes s (buf + of_nat k))) [0 ..< unat sz]\<rparr>)
     else Inl Diverge)"
  using serial_loop_sends [OF assms(3), of "unat sz" buf 0] assms(1,2)
  by (simp add: write_fs_def serial_write_fs_def)

definition serial_machine :: fs_state where
  "serial_machine = boot_machine\<lparr>fnodes := [0x3000 \<mapsto> (no_node 0)\<lparr>n_write := Some Serial_write_fs\<rparr>], SERIAL_PORT := [0x3F8],
     port_in := [0, 0x20, 0x20]\<rparr>"

theorem serial_write_returns_witness:
  "\<exists>s'. write_fs 0x3000 0 2 0x1000 serial_machine = Inr (2, s') \<and> port_in s' = [] \<and>
    io_log s' = io_log serial_machine @ [Outb 0x3F8 0x2F, Outb 0x3F8 0x64]"
proof -
  let ?nd = "(no_node 0)\<lparr>n_write := Some Serial_write_fs\<rparr>"
  have 1: "fnodes serial_machine 0x3000 = Some ?nd" "n_write ?nd = Some Serial_write_fs"
    "unat (ucast (n_inode ?nd) :: u8) < length (SERIAL_PORT serial_machine)"
    by (simp_all add: serial_machine_def no_node_def)
  have 2: "bytes serial_machine 0x1000 = 0x2F" "bytes serial_machine 0x1001 = 0x64"
    by (simp_all add: serial_machine_def boot_machine_simps lit_paths)
  have 3: "port_in serial_machine = [0, 0x20, 0x20]" "SERIAL_PORT serial_machine = [0x3F8]" "n_inode ?nd = 0"
    by (simp_all add: serial_machine_def no_node_def)
  have 4: "drop_ready (Suc (Suc 0)) [0, 0x20, 0x20] = []" "filter ready [0, 0x20, 0x20] = [0x20, 0x20]" by (simp_all add: ready_def)
  have 5: "unat (2 :: u32) = Suc (Suc 0)" by simp
  have 6: "[0 ..< Suc (Suc 0)] = [0, Suc 0]" by (simp add: upt_conv_Cons)
  let ?s = "serial_machine\<lparr>port_in := [], io_log := io_log serial_machine @ [Outb 0x3F8 0x2F, Outb 0x3F8 0x64]\<rparr>"
  have "write_fs 0x3000 0 2 0x1000 serial_machine = Inr (2, ?s)"
    unfolding serial_write_returns [OF 1] 3 4(2) 5 4(1) 6 by (simp add: 2)
  then show ?thesis by (intro exI [of _ ?s] conjI) simp_all
qed

end
