(* ===== verification/Debug.thy ===== *)
theory Debug
  imports Serial
begin

text \<open>
  kernel/debug_printf.c: messages to a device.

  The function is \<open>printf\<close> (theory Printf) with another \<open>putchar\<close>: each character is written to the
  device with \<open>write_fs\<close>, from the variable \<open>c\<close> of \<open>debug_putchar\<close> at the address \<open>cp\<close> of the stack. \<open>buf\<close>
  is the address of the digit buffer.
\<close>

section \<open>The code\<close>

record debug_state = serial_state +
  dbg_file :: addr

definition debug_putchar :: "addr \<Rightarrow> u8 \<Rightarrow> 'a debug_state_scheme \<Rightarrow> 'a debug_state_scheme result" where
  "debug_putchar cp c s =
     bindr (write_fs (dbg_file s) 0 1 cp (s\<lparr>bytes := (bytes s)(cp := c)\<rparr>)) (\<lambda>(_, s). Inr s)"

fun debug_puts :: "addr \<Rightarrow> u8 list \<Rightarrow> 'a debug_state_scheme \<Rightarrow> 'a debug_state_scheme result" where
  "debug_puts cp [] s = Inr s"
| "debug_puts cp (c # cs) s = bindr (debug_putchar cp c s) (debug_puts cp cs)"

definition debug_printf :: "addr \<Rightarrow> addr \<Rightarrow> addr \<Rightarrow> u32 list \<Rightarrow> 'a debug_state_scheme \<Rightarrow> 'a debug_state_scheme result" where
  "debug_printf cp buf format args s = bindr (printf (bytes s) buf format args) (\<lambda>out. debug_puts cp out s)"

text \<open>\<open>banner\<close> is the address of the format \<open>"\n%s\n\n"\<close> and \<open>msg\<close> the pointer \<open>dbg_msg\<close>.\<close>

definition debug :: "addr \<Rightarrow> addr \<Rightarrow> addr \<Rightarrow> u32 \<Rightarrow> addr \<Rightarrow> 'a debug_state_scheme \<Rightarrow> 'a debug_state_scheme result" where
  "debug cp buf banner msg name s =
     bindr (finddir_fs (fs_root_get s) name s) (\<lambda>(f, s).
       let s = s\<lparr>dbg_file := f\<rparr>
       in if f \<noteq> NULL then debug_printf cp buf banner [msg] s else Inr s)"

section \<open>Debugging over a serial line\<close>

text \<open>The device is a serial line that exists.\<close>

definition serial_device :: "'a debug_state_scheme \<Rightarrow> u16 \<Rightarrow> bool" where
  "serial_device s port \<longleftrightarrow> (\<exists>nd. fnodes s (dbg_file s) = Some nd \<and> n_write nd = Some Serial_write_fs \<and>
     unat (ucast (n_inode nd) :: u8) < length (SERIAL_PORT s) \<and> SERIAL_PORT s ! unat (ucast (n_inode nd) :: u8) = port)"

lemma debug_putchar_sends:
  assumes "serial_device s port"
  shows "debug_putchar cp c s = (if filter ready (port_in s) = [] then Inl Diverge
    else Inr (s\<lparr>bytes := (bytes s)(cp := c), port_in := drop 1 (dropWhile (\<lambda>x. \<not> ready x) (port_in s)),
      io_log := io_log s @ [Outb (ucast port) c]\<rparr>))"
proof -
  obtain nd where nd: "fnodes s (dbg_file s) = Some nd" "n_write nd = Some Serial_write_fs"
      "unat (ucast (n_inode nd) :: u8) < length (SERIAL_PORT s)" "SERIAL_PORT s ! unat (ucast (n_inode nd) :: u8) = port"
    using assms by (auto simp: serial_device_def)
  show ?thesis
    using serial_loop_sends [of "ucast (n_inode nd)" "s\<lparr>bytes := (bytes s)(cp := c)\<rparr>" 1 cp 0] nd
    by (auto simp: debug_putchar_def write_fs_def serial_write_fs_def Suc_le_eq)
qed

lemma debug_puts_sends:
  assumes "serial_device s port" "length out \<le> length (filter ready (port_in s))"
  shows "\<exists>s'. debug_puts cp out s = Inr s' \<and> io_log s' = io_log s @ map (Outb (ucast port)) out \<and>
    (\<forall>a. a \<noteq> cp \<longrightarrow> bytes s' a = bytes s a) \<and> serial_device s' port \<and>
    length (filter ready (port_in s')) = length (filter ready (port_in s)) - length out"
  using assms
proof (induction out arbitrary: s)
  case Nil
  then show ?case by simp
next
  case (Cons c out)
  define xs where "xs = drop 1 (dropWhile (\<lambda>x. \<not> ready x) (port_in s))"
  have ne: "filter ready (port_in s) \<noteq> []" using Cons.prems(2) by auto
  have "filter ready xs = drop 1 (filter ready (port_in s))" unfolding xs_def by (rule filter_drop_ready)
  then have l: "length (filter ready xs) = length (filter ready (port_in s)) - 1" by simp
  let ?s = "s\<lparr>bytes := (bytes s)(cp := c), port_in := xs, io_log := io_log s @ [Outb (ucast port) c]\<rparr>"
  have p: "debug_putchar cp c s = Inr ?s" using debug_putchar_sends [OF Cons.prems(1), of cp c] ne by (simp only: xs_def if_False)
  have "serial_device ?s port" using Cons.prems(1) by (simp add: serial_device_def)
  moreover have "length out \<le> length (filter ready (port_in ?s))" using Cons.prems(2) l by simp
  ultimately obtain s' where "debug_puts cp out ?s = Inr s'" "io_log s' = io_log ?s @ map (Outb (ucast port)) out"
      "\<forall>a. a \<noteq> cp \<longrightarrow> bytes s' a = bytes ?s a" "serial_device s' port"
      "length (filter ready (port_in s')) = length (filter ready (port_in ?s)) - length out"
    using Cons.IH [of ?s] by (elim exE conjE meta_impE) auto
  then show ?case using p l by auto
qed

text \<open>
  Once a serial line is the debug device, \<open>debug_printf\<close> of a well-formed format puts exactly the
  rendered text on the port of the line, byte by byte in order, provided the line becomes ready
  for each byte; it then returns, and leaves all memory but its own character variable as it was.
\<close>

theorem debug_printf_sends:
  assumes "serial_device s port" "list_all directive_ok ds" "string_at (bytes s) format (concat (map directive_text ds))"
    and "fits format (length (concat (map directive_text ds)) + 1)"
    and "apart format (length (concat (map directive_text ds)) + 1) buf 11" "fits buf 20"
    and "strings_ok (bytes s) buf str (string_args ds args)" "render str ds args = Some printed"
    and "length printed \<le> length (filter ready (port_in s))"
  shows "\<exists>s'. debug_printf cp buf format args s = Inr s' \<and> io_log s' = io_log s @ map (Outb (ucast port)) printed \<and>
    (\<forall>a. a \<noteq> cp \<longrightarrow> bytes s' a = bytes s a)"
proof -
  have n: "length ds < addr_space"
    using directives_le_text [of ds] string_at_length [OF assms(3)] by (simp add: addr_space_def)
  have "printf (bytes s) buf format args = Inr printed"
    using printf_loop_render [OF assms(2-8) n, of "[]"] by (simp add: printf_def)
  then show ?thesis using debug_puts_sends [OF assms(1,9), of cp] by (auto simp: debug_printf_def)
qed

text \<open>The format \<open>"a%02d"\<close> with the number 7, on a line that is ready every other time.\<close>

definition debug_machine :: debug_state where
  "debug_machine = serial_state.extend (fs_state.extend
     (serial_machine\<lparr>bytes := (\<lambda>_. 0)(100 := 0x61, 101 := 0x25, 102 := 0x30, 103 := 0x32, 104 := 0x64),
        port_in := [0, 0x20, 0, 0x20, 0, 0x20]\<rparr>) \<lparr>serial_lock = 1\<rparr>) \<lparr>dbg_file = 0x3000\<rparr>"

theorem debug_printf_sends_witness:
  "\<exists>s'. debug_printf 200 16 100 [7] debug_machine = Inr s' \<and>
    io_log s' = io_log debug_machine @ [Outb 0x3F8 0x61, Outb 0x3F8 0x30, Outb 0x3F8 0x37]"
proof -
  let ?ds = "[Lit 0x61, Num True 2 0x64]"
  note d = debug_machine_def serial_state.defs fs_state.defs
  have b: "bytes debug_machine = (\<lambda>_. 0)(100 := 0x61, 101 := 0x25, 102 := 0x30, 103 := 0x32, 104 := 0x64)"
      "port_in debug_machine = [0, 0x20, 0, 0x20, 0, 0x20]"
    by (simp_all add: d)
  have "dbg_file debug_machine = 0x3000" "SERIAL_PORT debug_machine = [0x3F8]" "fnodes debug_machine = fnodes serial_machine"
    by (simp_all add: d serial_machine_def)
  then have dev: "serial_device debug_machine 0x3F8"
    by (simp add: serial_device_def serial_machine_def no_node_def)
  have f: "list_all directive_ok ?ds" "string_at (bytes debug_machine) 100 (concat (map directive_text ?ds))"
      "fits 100 (length (concat (map directive_text ?ds)) + 1)" "apart 100 (length (concat (map directive_text ?ds)) + 1) 16 11"
      "fits 16 20" "strings_ok (bytes debug_machine) 16 (\<lambda>a. []) (string_args ?ds [7])"
    by (simp_all add: b flags_text_def numeric_def fits_def apart_def strings_ok_def)
  have "digits_of 10 7 = [7]" by (simp add: digits_of.simps)
  then have r: "render (\<lambda>a. []) ?ds [7] = Some [0x61, 0x30, 0x37]"
    by (simp add: pad_left_def itoa_text_def itoa_radix_def digit_text_def)
  have p: "length ([0x61, 0x30, 0x37] :: u8 list) \<le> length (filter ready (port_in debug_machine))"
    by (simp add: b ready_def)
  from debug_printf_sends [OF dev f r p, of 200] show ?thesis by auto
qed

end
