(* ===== verification/Typing.thy ===== *)
theory Typing
  imports Gui_Types
begin

text \<open>
  From the key to the edit: what is typed on the keyboard ends as text in the edit that has the focus.

  The keyboard thread and the desktop are two tasks that share the task structs and the messages. The
  first part follows the scan codes from the queue of the interrupt handler to the messages of the
  task that listens (drivers/kb.c), the second the messages to the edit (gui/gui.c).
\<close>

section \<open>Walks of the task list in which one task counts\<close>

lemma task_loop_quiet:
  "\<lbrakk>nodes_at (lnodes s) l bs; bs \<noteq> []; \<And>b. b \<in> set bs \<Longrightarrow> it (node_data (lnodes s) b) u s = Inr (0, u, s); length bs < n\<rbrakk> \<Longrightarrow>
    task_loop n it l u s = Inr (None, u, s)"
proof (induction bs arbitrary: l n)
  case (Cons b bs)
  obtain k where n: "n = Suc k" using Cons.prems(4) by (cases n) auto
  obtain nd where nd: "lnodes s b = Some nd" "nodes_at (lnodes s) (l_next nd) bs" "l = b"
    using Cons.prems(1) unfolding nodes_at_Cons by blast
  have v: "it (l_data nd) u s = Inr (0, u, s)" using Cons.prems(3) [of b] nd(1) by (simp add: node_data_def)
  show ?case
  proof (cases "bs = []")
    case False
    then have "l_next nd \<noteq> NULL" using nd(2) by (cases bs) auto
    then show ?thesis using n nd v False Cons.IH [OF nd(2) False, of k] Cons.prems by simp
  qed (use n nd v in simp)
qed simp

lemma task_loop_one:
  "\<lbrakk>nodes_at (lnodes s) l bs; nodes_at (lnodes s') l bs; map (node_data (lnodes s)) bs = xs; map (node_data (lnodes s')) bs = xs;
    distinct xs; x \<in> set xs; \<And>y. y \<in> set xs \<Longrightarrow> y \<noteq> x \<Longrightarrow> it y u s = Inr (0, u, s) \<and> it y u s' = Inr (0, u, s');
    it x u s = Inr (0, u, s'); length bs < n\<rbrakk> \<Longrightarrow> task_loop n it l u s = Inr (None, u, s')"
proof (induction bs arbitrary: l n xs)
  case (Cons b bs)
  obtain k where n: "n = Suc k" using Cons.prems(9) by (cases n) auto
  obtain nd where nd: "lnodes s b = Some nd" "nodes_at (lnodes s) (l_next nd) bs" "l = b"
    using Cons.prems(1) unfolding nodes_at_Cons by blast
  obtain nd' where nd': "lnodes s' b = Some nd'" "nodes_at (lnodes s') (l_next nd') bs"
    using Cons.prems(2) unfolding nodes_at_Cons by blast
  have xs: "xs = l_data nd # map (node_data (lnodes s)) bs" "xs = l_data nd' # map (node_data (lnodes s')) bs"
    using Cons.prems(3,4) nd(1) nd'(1) by (auto simp: node_data_def)
  show ?case
  proof (cases "l_data nd = x")
    case here: True
    show ?thesis
    proof (cases "bs = []")
      case True
      then show ?thesis using n nd nd' here Cons.prems(8) by simp
    next
      case False
      then have "l_next nd' \<noteq> NULL" using nd'(2) by (cases bs) auto
      moreover have "task_loop k it (l_next nd') u s' = Inr (None, u, s')"
      proof (rule task_loop_quiet [OF nd'(2) False])
        fix c assume "c \<in> set bs"
        then have m: "node_data (lnodes s') c \<in> set (map (node_data (lnodes s')) bs)" by simp
        moreover have "distinct (l_data nd' # map (node_data (lnodes s')) bs)" using Cons.prems(5) xs(2) by simp
        moreover have "l_data nd' = x" using xs here by simp
        ultimately have "node_data (lnodes s') c \<in> set xs" "node_data (lnodes s') c \<noteq> x" using xs(2) by (simp, metis distinct.simps(2))
        then show "it (node_data (lnodes s') c) u s' = Inr (0, u, s')" using Cons.prems(7) by blast
      qed (use n Cons.prems(9) in simp)
      ultimately show ?thesis using n nd nd' here Cons.prems(8) by simp
    qed
  next
    case False
    then have v: "it (l_data nd) u s = Inr (0, u, s)" and ne: "bs \<noteq> []" using Cons.prems(6,7) xs(1) by auto
    then have nx: "l_next nd \<noteq> NULL" using nd(2) by (cases bs) auto
    have "l_next nd = hd bs" "l_next nd' = hd bs" using nd(2) nd'(2) ne by (cases bs; auto simp: nodes_at_Cons)+
    then have nd'': "nodes_at (lnodes s') (l_next nd) bs" using nd'(2) by simp
    have ys: "map (node_data (lnodes s')) bs = map (node_data (lnodes s)) bs" "distinct (map (node_data (lnodes s)) bs)"
        "x \<in> set (map (node_data (lnodes s)) bs)" "set (map (node_data (lnodes s)) bs) \<subseteq> set xs"
    proof -
      have e: "map (node_data (lnodes s')) bs = map (node_data (lnodes s)) bs" using xs by (simp only: list.inject)
      show "map (node_data (lnodes s')) bs = map (node_data (lnodes s)) bs" by (rule e)
      show "distinct (map (node_data (lnodes s)) bs)" using Cons.prems(5) unfolding xs(1) by (simp only: distinct.simps)
      show "x \<in> set (map (node_data (lnodes s)) bs)" using Cons.prems(6) False unfolding xs(1) set_simps insert_iff by blast
      show "set (map (node_data (lnodes s)) bs) \<subseteq> set xs" unfolding xs(1) by (rule set_subset_Cons)
    qed
    have "task_loop k it (l_next nd) u s = Inr (None, u, s')"
    proof (rule Cons.IH [OF nd(2) nd'' refl ys(1,2,3) _ Cons.prems(8)])
      show "it y u s = Inr (0, u, s) \<and> it y u s' = Inr (0, u, s')" if "y \<in> set (map (node_data (lnodes s)) bs)" "y \<noteq> x" for y
        using Cons.prems(7) [OF subsetD [OF ys(4) that(1)] that(2)] .
      show "length bs < k" using n Cons.prems(9) by simp
    qed
    then show ?thesis using n nd v nx by simp
  qed
qed simp

lemma task_foreach_one:
  assumes "tasks_at s as xs" "tasks_at s' as xs" "task_list s' = task_list s" "distinct xs" "x \<in> set xs"
    and "\<And>y. y \<in> set xs \<Longrightarrow> y \<noteq> x \<Longrightarrow> it y u s = Inr (0, u, s) \<and> it y u s' = Inr (0, u, s')" "it x u s = Inr (0, u, s')"
  shows "task_foreach (Some it) u s = Inr (None, u, s')"
proof -
  have n: "nodes_at (lnodes s) (task_list s) as" "nodes_at (lnodes s') (task_list s) as"
      "map (node_data (lnodes s)) as = xs" "map (node_data (lnodes s')) as = xs" "list_wf s"
    using assms(1-3) by (simp_all add: tasks_at_def list_at_def)
  have "as \<noteq> []" using n(3) assms(5) by auto
  then obtain a as' where as: "as = a # as'" by (cases as) auto
  have "task_loop addr_space it (task_list s) u s = Inr (None, u, s')"
    using task_loop_one [where it = it and s = s and s' = s' and bs = as and xs = xs and x = x and u = u, OF n(1-4) assms(4,5) _ assms(7)]
      assms(6) nodes_at_length [OF n(5,1)] by simp
  then show ?thesis using n(1) as by (auto simp: task_foreach_def)
qed

section \<open>From the scan codes to the messages\<close>

text \<open>
  The packet of a code with the meaning \<open>key\<close>, and the packets of a sequence of codes; a code that means
  nothing sends none.
\<close>

definition key_packet :: "u8 \<Rightarrow> int \<Rightarrow> u32" where
  "key_packet c key = (if c AND 0x80 \<noteq> 0 then 0 else 0x100) OR ucast (of_int key :: u8)"

fun key_packets :: "bool \<Rightarrow> u8 list \<Rightarrow> u32 list" where
  "key_packets sh [] = []"
| "key_packets sh (c # cs) =
     (if (of_int (key_spec sh (ucast c)) :: u8) \<noteq> 0 then [key_packet c (key_spec sh (ucast c))] else []) @
     key_packets (shift_step sh (ucast c)) cs"

lemma kb_fields_of_more:
  fixes s s' :: "'a kb_state_scheme"
  assumes "task_state.more s' = task_state.more s"
  shows "kb_queue s' = kb_queue s" "mods s' = mods s"
  using assms by (cases s; cases s'; simp)+

lemma message_to_frame:
  assumes "message_to p d sz s = Inr s'" "tasks_at s as xs"
  shows "task_state.more s' = task_state.more s" "task_list s' = task_list s" "bytes s' = bytes s"
proof -
  have more: "task_state.more t' = task_state.more t \<and> task_list t' = task_list t \<and> bytes t' = bytes t" if "mm_state.more t' = mm_state.more t"
    for t t' :: "'a task_state_scheme" using that by (cases t; cases t') simp
  have "task_state.more s' = task_state.more s \<and> task_list s' = task_list s \<and> bytes s' = bytes s"
    using assms(1) unfolding message_to_def task_from_pid_find [OF assms(2)] bindr_simps
    by (auto simp: update_task_def Let_def elim!: bindr_Inr_elim dest!: malloc_more more split: if_splits option.splits)
  then show "task_state.more s' = task_state.more s" "task_list s' = task_list s" "bytes s' = bytes s" by simp_all
qed

abbreviation mqueue :: "'a task_state_scheme \<Rightarrow> addr \<Rightarrow> queue" where
  "mqueue s x \<equiv> t_message_queue (the (task_mem s x))"

text \<open>The keyboard thread runs, and of the tasks \<open>xs\<close> exactly \<open>x\<close> listens; its number is its own.\<close>

definition listener :: "'a task_state_scheme \<Rightarrow> addr list \<Rightarrow> addr list \<Rightarrow> addr \<Rightarrow> u32 \<Rightarrow> bool" where
  "listener s as xs x p \<longleftrightarrow> thread_wf s \<and> tasks_at s as xs \<and> distinct xs \<and> x \<in> set xs \<and> x \<noteq> NULL \<and> running_task s \<noteq> NULL \<and>
     (\<exists>r. task_mem s (running_task s) = Some r \<and> t_pid r = KEYBOARD) \<and>
     (\<exists>t. task_mem s x = Some t \<and> t_listen t \<noteq> 0 \<and> t_pid t = p \<and> queue_wf (t_message_queue t)) \<and>
     find (\<lambda>y. t_pid (the (task_mem s y)) = p) xs = Some x \<and>
     (\<forall>y \<in> set xs. y \<noteq> x \<longrightarrow> t_listen (the (task_mem s y)) = 0)"

lemma listener_message:
  assumes "listener s as xs x p" "malloc_room s 36" "length (queue_contents (mqueue s x)) < unat (qsize (mqueue s x))"
  shows "\<exists>msg s'. task_foreach (Some keyboard_listen) d s = Inr (None, d, s') \<and> listener s' as xs x p \<and>
    queue_contents (mqueue s' x) = queue_contents (mqueue s x) @ [msg] \<and> qsize (mqueue s' x) = qsize (mqueue s x) \<and> msg \<noteq> NULL \<and>
    messages s' = (messages s)(msg \<mapsto> \<lparr>m_from = KEYBOARD, m_to = p, m_data = d, m_size = 0\<rparr>) \<and>
    unat (malloc_top s) \<le> unat msg \<and> unat msg < unat (malloc_top s') \<and> unat (malloc_top s') = unat (malloc_top s) + 36 \<and>
    heap s' = heap s \<and> task_state.more s' = task_state.more s \<and> bytes s' = bytes s"
proof -
  obtain r t where i: "thread_wf s" "tasks_at s as xs" "distinct xs" "x \<in> set xs" "x \<noteq> NULL" "running_task s \<noteq> NULL"
      "task_mem s (running_task s) = Some r" "t_pid r = KEYBOARD" "task_mem s x = Some t" "t_listen t \<noteq> 0" "t_pid t = p"
      "queue_wf (t_message_queue t)" "find (\<lambda>y. t_pid (the (task_mem s y)) = p) xs = Some x"
      "\<forall>y \<in> set xs. y \<noteq> x \<longrightarrow> t_listen (the (task_mem s y)) = 0"
    using assms(1) unfolding listener_def by blast
  have room: "length (queue_contents (t_message_queue t)) < unat (qsize (t_message_queue t))" using assms(3) i(9) by simp
  obtain msg q' s' where m: "message_to p d 0 s = Inr s'" "thread_wf s'" "tasks_at s' as xs" "msg \<noteq> NULL"
      "messages s' = (messages s)(msg \<mapsto> \<lparr>m_from = t_pid r, m_to = p, m_data = d, m_size = 0\<rparr>)"
      "queue_wf q'" "queue_contents q' = queue_contents (t_message_queue t) @ [msg]" "qsize q' = qsize (t_message_queue t)"
      "task_mem s' = (task_mem s)(x \<mapsto> t\<lparr>t_message_queue := q', t_status := TS_READY\<rparr>)" "running_task s' = running_task s"
      "unat (malloc_top s) \<le> unat msg" "unat msg < unat (malloc_top s')" "unat (malloc_top s') = unat (malloc_top s) + 36" "heap s' = heap s"
    using message_to_delivers [OF i(1,2) assms(2) i(13,5,9,6,7,12) room, of d 0] by blast
  note fr = message_to_frame [OF m(1) i(2)]
  have ts: "task_mem s y \<noteq> None" if "y \<in> set xs" for y using i(2) that by (auto simp: tasks_at_def list_all_iff)
  have other: "keyboard_listen y d s = Inr (0, d, s) \<and> keyboard_listen y d s' = Inr (0, d, s')" if "y \<in> set xs" "y \<noteq> x" for y
    using ts [OF that(1)] i(14) that m(9) by (auto simp: keyboard_listen_def)
  have "keyboard_listen x d s = Inr (0, d, s')" using i(9-11) m(1) by (simp add: keyboard_listen_def)
  then have fe: "task_foreach (Some keyboard_listen) d s = Inr (None, d, s')"
    using task_foreach_one [OF i(2) m(3) fr(2) i(3,4), of keyboard_listen d] other by blast
  have "find (\<lambda>y. t_pid (the (task_mem s' y)) = p) xs = Some x"
    unfolding i(13) [symmetric] using i(9,11) m(9) by (intro find_cong) auto
  moreover have "\<exists>r. task_mem s' (running_task s') = Some r \<and> t_pid r = KEYBOARD"
    using i(7-9,11) m(9,10) by (cases "running_task s = x") auto
  ultimately have "listener s' as xs x p" using i m by (auto simp: listener_def)
  then show ?thesis using fe m i(8,9) fr(1,3) by (intro exI [of _ msg] exI [of _ s']) simp
qed

text \<open>What changes only the driver's own variables and the log of the ports keeps the listener.\<close>

lemma listener_driver [simp]:
  "listener (s\<lparr>kb_queue := q\<rparr>) as xs x p = listener s as xs x p"
  "listener (s\<lparr>mods := k\<rparr>) as xs x p = listener s as xs x p"
  "listener (s\<lparr>kb_wait := q\<rparr>) as xs x p = listener s as xs x p"
  "listener (s\<lparr>io_log := l\<rparr>) as xs x p = listener s as xs x p"
  by (simp_all add: listener_def thread_wf_def tasks_at_def list_wf_def mm_wf_def)

lemma malloc_room_driver [simp]:
  "malloc_room (s\<lparr>kb_queue := q\<rparr>) n = malloc_room s n"
  "malloc_room (s\<lparr>mods := k\<rparr>) n = malloc_room s n"
  "malloc_room (s\<lparr>io_log := l\<rparr>) n = malloc_room s n"
  by (simp_all add: malloc_room_def)

definition key_message :: "u32 \<Rightarrow> u32 \<Rightarrow> message" where
  "key_message p d = \<lparr>m_from = KEYBOARD, m_to = p, m_data = d, m_size = 0\<rparr>"

lemma keyboard_drain_delivers:
  "\<lbrakk>listener s as xs x p; queue_wf (kb_queue s); queue_contents (kb_queue s) = map ucast cs;
    \<forall>c \<in> set cs. c \<noteq> 0 \<and> (c < 105 \<or> 0x80 \<le> c); malloc_room s (36 * length cs);
    length (queue_contents (mqueue s x)) + length cs \<le> unat (qsize (mqueue s x)); length cs < n\<rbrakk> \<Longrightarrow>
    \<exists>msgs s'. keyboard_drain n s = Inr s' \<and> listener s' as xs x p \<and>
      queue_contents (mqueue s' x) = queue_contents (mqueue s x) @ msgs \<and> NULL \<notin> set msgs \<and>
      list_all2 (\<lambda>a d. messages s' a = Some (key_message p d)) msgs (key_packets (k_shift (mods s) \<noteq> 0) cs) \<and>
      (\<forall>a. unat a < unat (malloc_top s) \<longrightarrow> messages s' a = messages s a) \<and> bytes s' = bytes s"
proof (induction cs arbitrary: s n)
  case Nil
  obtain m where n: "n = Suc m" using Nil.prems(7) by (cases n) auto
  have "keyboard_drain n s = Inr (s\<lparr>kb_queue := kb_queue s\<rparr>)"
    using queue_remove_empty [of "kb_queue s"] Nil.prems(3) by (simp add: n)
  then show ?case using Nil.prems(1) by (intro exI [of _ "[]"] exI [of _ s]) simp
next
  case (Cons c cs)
  obtain m where n: "n = Suc m" "length cs < m" using Cons.prems(7) by (cases n) auto
  obtain q where q: "queue_remove (kb_queue s) = Inr (ucast c, q)" "queue_wf q" "queue_contents q = map ucast cs"
    using queue_remove_some [OF Cons.prems(2), of "ucast c" "map ucast cs"] Cons.prems(3) by auto
  have uu: "ucast (ucast c :: u32) = c" by (transfer) simp
  have cc: "c \<noteq> 0" "c < 105 \<or> 0x80 \<le> c" using Cons.prems(4) by auto
  have "unat (ucast c :: u32) = unat c" by (rule unat_ucast_up) simp
  then have range: "(ucast c :: u32) < 105 \<or> 0x80 \<le> (ucast c :: u32)"
    using cc(2) by (simp add: word_less_nat_alt word_le_nat_alt)
  let ?sh = "k_shift (mods s) \<noteq> 0"
  let ?key = "key_spec ?sh (ucast c)"
  obtain k ps where k: "convert (ucast c) (mods s) = Inr (?key, k, ps)" "k_shift k \<noteq> 0 \<longleftrightarrow> shift_step ?sh (ucast c)"
    using convert_spec [OF range, of "mods s"] by (elim exE conjE) rule
  define s0 where "s0 = s\<lparr>kb_queue := q, mods := k, io_log := io_log s @ ps\<rparr>"
  have s0: "listener s0 as xs x p" "malloc_room s0 (36 * Suc (length cs))" "queue_wf (kb_queue s0)"
      "queue_contents (kb_queue s0) = map ucast cs" "mqueue s0 x = mqueue s x" "mods s0 = k" "messages s0 = messages s"
      "malloc_top s0 = malloc_top s" "bytes s0 = bytes s"
    using Cons.prems(1,5) q by (simp_all add: s0_def)
  have rest: "\<forall>c \<in> set cs. c \<noteq> 0 \<and> (c < 105 \<or> 0x80 \<le> c)" using Cons.prems(4) by simp
  show ?case
  proof (cases "(of_int ?key :: u8) = 0")
    case True
    have run: "keyboard_drain n s = keyboard_drain m s0"
      unfolding n(1) using q(1) k(1) cc(1) True by (simp add: uu s0_def Let_def)
    have "malloc_room s0 (36 * length cs)" using s0(2) by (simp add: malloc_room_def)
    moreover have "length (queue_contents (mqueue s0 x)) + length cs \<le> unat (qsize (mqueue s0 x))" using s0(5) Cons.prems(6) by simp
    ultimately show ?thesis
      using Cons.IH [OF s0(1,3,4) rest _ _ n(2)] True k(2) s0(5-9) run by simp
  next
    case False
    let ?d = "key_packet c ?key"
    have r36: "malloc_room s0 36" using s0(2) by (simp add: malloc_room_def)
    have ql: "length (queue_contents (mqueue s0 x)) < unat (qsize (mqueue s0 x))" using s0(5) Cons.prems(6) by simp
    obtain msg s1 where s1: "task_foreach (Some keyboard_listen) ?d s0 = Inr (None, ?d, s1)" "listener s1 as xs x p"
        "queue_contents (mqueue s1 x) = queue_contents (mqueue s0 x) @ [msg]" "qsize (mqueue s1 x) = qsize (mqueue s0 x)" "msg \<noteq> NULL"
        "messages s1 = (messages s0)(msg \<mapsto> key_message p ?d)"
        "unat (malloc_top s0) \<le> unat msg" "unat msg < unat (malloc_top s1)" "unat (malloc_top s1) = unat (malloc_top s0) + 36"
        "heap s1 = heap s0" "task_state.more s1 = task_state.more s0" "bytes s1 = bytes s0"
      using listener_message [OF s0(1) r36 ql, of ?d] unfolding key_message_def by blast
    note kf = kb_fields_of_more [OF s1(11)]
    have run: "keyboard_drain n s = keyboard_drain m s1"
      unfolding n(1) using q(1) k(1) cc(1) False s1(1) by (simp add: uu s0_def Let_def key_packet_def)
    have "malloc_room s1 (36 * length cs)" using s0(2) s1(9,10) by (simp add: malloc_room_def)
    moreover have "length (queue_contents (mqueue s1 x)) + length cs \<le> unat (qsize (mqueue s1 x))"
      using s0(5) s1(3,4) Cons.prems(6) by (simp del: length_queue_contents)
    moreover have "queue_wf (kb_queue s1)" "queue_contents (kb_queue s1) = map ucast cs" using kf(1) s0(3,4) by simp_all
    ultimately obtain msgs s' where IH: "keyboard_drain m s1 = Inr s'" "listener s' as xs x p"
        "queue_contents (mqueue s' x) = queue_contents (mqueue s1 x) @ msgs" "NULL \<notin> set msgs"
        "list_all2 (\<lambda>a d. messages s' a = Some (key_message p d)) msgs (key_packets (k_shift (mods s1) \<noteq> 0) cs)"
        "\<forall>a. unat a < unat (malloc_top s1) \<longrightarrow> messages s' a = messages s1 a" "bytes s' = bytes s1"
      using Cons.IH [OF s1(2) _ _ rest _ _ n(2)] by blast
    have "messages s' msg = Some (key_message p ?d)" using IH(6) s1(6,8) by simp
    moreover have "k_shift (mods s1) \<noteq> 0 \<longleftrightarrow> shift_step ?sh (ucast c)" using kf(2) s0(6) k(2) by simp
    moreover have "messages s' a = messages s a" if "unat a < unat (malloc_top s)" for a
      using that IH(6) s1(6,7,9) s0(7,8) by (auto simp: fun_upd_def)
    ultimately show ?thesis using IH(1-5,7) run False s1(3,5,12) s0(5,9)
      by (intro exI [of _ "msg # msgs"] exI [of _ s']) simp
  qed
qed

section \<open>From the messages to the edit\<close>

text \<open>
  \<open>focused s w e\<close>: the active window is \<open>w\<close>, its focus is on \<open>e\<close>, and both have the handlers of the keys that
  \<open>window_create\<close> and \<open>edit_create\<close> give them.
\<close>

definition focused :: "'a gui_state_scheme \<Rightarrow> addr \<Rightarrow> addr \<Rightarrow> bool" where
  "focused s w e \<longleftrightarrow> gui_get_active_window s = Inr w \<and> w \<noteq> NULL \<and> e \<noteq> NULL \<and>
     (\<exists>x. widgets s w = Some x \<and> OnKeyDown x = Some Window_key_down \<and> OnKeyUp x = Some Window_key_up) \<and>
     (\<exists>v. windows s w = Some v \<and> win_focus v = e) \<and>
     (\<exists>y. widgets s e = Some y \<and> OnKeyDown y = Some Edit_keydown \<and> OnKeyUp y = None)"

definition press_packet :: "u32 \<Rightarrow> u8 list \<Rightarrow> u8 list" where
  "press_packet d xs = (if drop_bit 8 d AND 1 \<noteq> 0 then press (d AND 0xFF) xs else xs)"

lemma get_active_loop_cong:
  "\<lbrakk>widgets s' = widgets s; windows s' = windows s\<rbrakk> \<Longrightarrow> get_active_loop n c s' = get_active_loop n c s"
  by (induction n arbitrary: c) (simp_all cong: if_cong)

lemma focused_cong:
  assumes "widgets s' = widgets s" "windows s' = windows s" "desktop_window s' = desktop_window s"
  shows "focused s' w e = focused s w e"
  using assms by (simp add: focused_def gui_get_active_window_def gui_widget_root_def get_active_loop_cong [OF assms(1,2)])

lemma edit_keydown_frame:
  "edit_keydown p key s = Inr s' \<Longrightarrow> \<exists>E B. s' = s\<lparr>edits := E, bytes := B\<rparr>"
  by (rule exI [of _ "edits s'"], rule exI [of _ "bytes s'"])
    (auto simp: edit_keydown_def Let_def elim!: bindr_Inr_elim split: if_splits)

lemma keyboard_message_focused:
  assumes "focused s w e" "edit_holds s e xs"
  shows "\<exists>E B. keyboard_message env d s = Inr (s\<lparr>edits := E, bytes := B\<rparr>) \<and> focused (s\<lparr>edits := E, bytes := B\<rparr>) w e \<and>
    edit_holds (s\<lparr>edits := E, bytes := B\<rparr>) e (press_packet d xs)"
proof -
  obtain x v y where f: "gui_get_active_window s = Inr w" "w \<noteq> NULL" "e \<noteq> NULL" "widgets s w = Some x"
      "OnKeyDown x = Some Window_key_down" "OnKeyUp x = Some Window_key_up" "windows s w = Some v" "win_focus v = e"
      "widgets s e = Some y" "OnKeyDown y = Some Edit_keydown" "OnKeyUp y = None"
    using assms(1) unfolding focused_def by blast
  have two: "addr_space = Suc (Suc (addr_space - 2))" by (simp add: addr_space_def)
  have foc: "focused (s\<lparr>edits := E, bytes := B\<rparr>) w e" for E B
    using focused_cong [of "s\<lparr>edits := E, bytes := B\<rparr>" s] assms(1) by simp
  show ?thesis
  proof (cases "drop_bit 8 d AND 1 \<noteq> 0")
    case True
    obtain s' where s': "edit_keydown e (d AND 0xFF) s = Inr s'" "edit_holds s' e (press (d AND 0xFF) xs)"
      using edit_keydown_presses [OF assms(2)] by blast
    obtain E B where "s' = s\<lparr>edits := E, bytes := B\<rparr>" using edit_keydown_frame [OF s'(1)] by blast
    moreover have "keyboard_message env d s = edit_keydown e (d AND 0xFF) s"
      unfolding keyboard_message_def by (subst two) (use True f in simp)
    ultimately show ?thesis using s' True foc by (auto simp: press_packet_def)
  next
    case False
    have "keyboard_message env d s = Inr s" unfolding keyboard_message_def 
      by (subst two, subst two) (use False f in simp)
    then show ?thesis using False foc [where E = "edits s" and B = "bytes s"] assms
      by (intro exI [of _ "edits s"] exI [of _ "bytes s"]) (simp add: press_packet_def)
  qed
qed

text \<open>
  The desktop \<open>x\<close> runs with the messages \<open>msgs\<close> in its queue, one for each of the packets \<open>ds\<close> of the keyboard.
\<close>

definition mailbox :: "'a task_state_scheme \<Rightarrow> addr \<Rightarrow> addr list \<Rightarrow> u32 \<Rightarrow> u32 list \<Rightarrow> bool" where
  "mailbox s x msgs p ds \<longleftrightarrow> running_task s = x \<and> x \<noteq> NULL \<and>
     (\<exists>t. task_mem s x = Some t \<and> queue_wf (t_message_queue t) \<and> queue_contents (t_message_queue t) = msgs) \<and>
     NULL \<notin> set msgs \<and> list_all2 (\<lambda>a d. messages s a = Some (key_message p d)) msgs ds"

lemma gui_drain_types:
  "\<lbrakk>focused s w e; edit_holds s e xs; mailbox s x msgs p ds; length msgs < n\<rbrakk> \<Longrightarrow>
    \<exists>s'. gui_drain n env s = Inr s' \<and> focused s' w e \<and> edit_holds s' e (fold press_packet ds xs) \<and> mailbox s' x [] p []"
proof (induction msgs arbitrary: s xs ds n)
  case Nil
  obtain m t where n: "n = Suc m" and t: "running_task s \<noteq> NULL" "task_mem s (running_task s) = Some t"
      "queue_wf (t_message_queue t)" "queue_contents (t_message_queue t) = []" and ds: "ds = []"
    using Nil.prems by (cases n) (auto simp: mailbox_def simp del: length_queue_contents)
  have x: "running_task s = x" using Nil.prems(3) by (simp add: mailbox_def)
  let ?s = "s\<lparr>task_mem := (task_mem s)(running_task s \<mapsto> t)\<rparr>"
  have "message_get s = Inr (NULL, ?s)"
    using t(1,2) queue_remove_empty [OF t(4)] by (simp add: message_get_def task_get_def update_task_def)
  then have "gui_drain n env s = Inr ?s" by (simp add: n)
  moreover have "focused ?s w e" using focused_cong [of ?s s] Nil.prems(1) by simp
  ultimately show ?case using Nil.prems(2) t ds x
    by (intro exI [of _ ?s]) (simp add: edit_holds_def mailbox_def del: length_queue_contents)
next
  case (Cons msg msgs)
  obtain m t where n: "n = Suc m" "length msgs < m" and t: "running_task s \<noteq> NULL" "task_mem s (running_task s) = Some t"
      "queue_wf (t_message_queue t)" "queue_contents (t_message_queue t) = msg # msgs"
    using Cons.prems(3,4) by (cases n) (auto simp: mailbox_def simp del: length_queue_contents)
  have x: "running_task s = x" using Cons.prems(3) by (simp add: mailbox_def)
  obtain d ds' where ds: "ds = d # ds'" "messages s msg = Some (key_message p d)" "msg \<noteq> NULL"
      "list_all2 (\<lambda>a d. messages s a = Some (key_message p d)) msgs ds'" "NULL \<notin> set msgs"
    using Cons.prems(3) by (cases ds) (auto simp: mailbox_def)
  obtain q where q: "message_get s = Inr (msg, s\<lparr>task_mem := (task_mem s)(running_task s \<mapsto> t\<lparr>t_message_queue := q\<rparr>)\<rparr>)"
      "queue_wf q" "queue_contents q = msgs"
    using message_get_first [OF t] by blast
  define s1 where "s1 = s\<lparr>task_mem := (task_mem s)(running_task s \<mapsto> t\<lparr>t_message_queue := q\<rparr>)\<rparr>"
  have s1: "focused s1 w e" "edit_holds s1 e xs" "messages s1 = messages s"
    using focused_cong [of s1 s] Cons.prems(1,2) by (simp_all add: s1_def edit_holds_def)
  obtain E B where k: "keyboard_message env d s1 = Inr (s1\<lparr>edits := E, bytes := B\<rparr>)" "focused (s1\<lparr>edits := E, bytes := B\<rparr>) w e"
      "edit_holds (s1\<lparr>edits := E, bytes := B\<rparr>) e (press_packet d xs)"
    using keyboard_message_focused [OF s1(1,2)] by blast
  have "gui_drain n env s = gui_drain m env (s1\<lparr>edits := E, bytes := B\<rparr>)"
    using q(1) ds(2,3) k(1) s1(3)
    by (simp add: n(1) s1_def [symmetric] gui_message_def key_message_def message_destroy_def free_def)
  moreover have "mailbox (s1\<lparr>edits := E, bytes := B\<rparr>) x msgs p ds'"
    using ds(4,5) q(2,3) t(1) x by (simp add: mailbox_def s1_def del: length_queue_contents)
  ultimately show ?case using Cons.IH [OF k(2,3) _ n(2)] ds(1) by auto
qed

text \<open>The characters typed: those of the presses that mean one.\<close>

fun typed :: "bool \<Rightarrow> u8 list \<Rightarrow> u32 list" where
  "typed sh [] = []"
| "typed sh (c # cs) =
     (let key = (of_int (key_spec sh (ucast c)) :: u8)
      in (if c < 0x80 \<and> key \<noteq> 0 then [ucast key] else []) @ typed (shift_step sh (ucast c)) cs)"

lemma all_bytes:
  assumes "\<forall>n \<in> set [0 ..< 256]. P (of_nat n)"
  shows "P (c :: u8)"
proof -
  have "unat c < 256" using unsigned_less [where 'b = 8 and 'a = nat, of c] by simp
  then show ?thesis using bspec [OF assms, of "unat c"] by simp
qed

lemma release_bit: "(c :: u8) AND 0x80 \<noteq> 0 \<longleftrightarrow> 0x80 \<le> c"
  by (rule all_bytes [where P = "\<lambda>c. c AND 0x80 \<noteq> 0 \<longleftrightarrow> 0x80 \<le> c"]) code_simp

lemma packet_masks: "(0x100 :: u32) = push_bit 8 1" "(0xFF :: u32) = mask 8"
  by (simp_all add: mask_eq_exp_minus_1)

lemma packet_bits:
  fixes k :: u8
  shows "drop_bit 8 (0x100 OR ucast k :: u32) AND 1 = 1" "drop_bit 8 (ucast k :: u32) AND 1 = 0"
    "(0x100 OR ucast k :: u32) AND 0xFF = ucast k"
proof -
  have "\<not> bit (0x100 :: u32) n" if "n < 8" for n
    using that by (simp only: packet_masks(1) bit_push_bit_iff) simp
  then show "(0x100 OR ucast k :: u32) AND 0xFF = ucast k"
    unfolding packet_masks(2) by (intro bit_word_eqI) (auto simp: bit_simps dest: bit_imp_le_length)
  show "drop_bit 8 (0x100 OR ucast k :: u32) AND 1 = 1"
    unfolding packet_masks(1) by (rule bit_word_eqI) (auto simp: bit_simps dest: bit_imp_le_length)
  have "drop_bit 8 (ucast k :: u32) = 0" by (rule bit_word_eqI) (auto simp: bit_simps dest: bit_imp_le_length)
  then show "drop_bit 8 (ucast k :: u32) AND 1 = 0" by simp
qed

lemma press_packets:
  "fold press_packet (key_packets sh cs) xs = fold press (typed sh cs) xs"
  by (induction sh cs arbitrary: xs rule: key_packets.induct)
    (simp_all add: key_packet_def press_packet_def release_bit packet_bits Let_def linorder_not_le [symmetric])

section \<open>From the key to the edit\<close>

text \<open>
  The state of another part of the kernel after the tasks' part of it became that of \<open>s\<close>: what one thread
  did to the tasks, the messages and the heap is what the next thread finds.
\<close>

definition with_tasks_of :: "'a task_state_scheme \<Rightarrow> 'b task_state_scheme \<Rightarrow> 'b task_state_scheme" where
  "with_tasks_of s g = task_state.extend (task_state.truncate s) (task_state.more g)"

lemma with_tasks_of_simps [simp]:
  "running_task (with_tasks_of s g) = running_task s" "task_mem (with_tasks_of s g) = task_mem s"
  "messages (with_tasks_of s g) = messages s" "bytes (with_tasks_of s g) = bytes s"
  "task_state.more (with_tasks_of s g) = task_state.more g"
  by (simp_all add: with_tasks_of_def task_state.defs)

lemma gui_fields_of_more:
  fixes g g' :: "'a gui_state_scheme"
  assumes "task_state.more g' = task_state.more g"
  shows "widgets g' = widgets g" "windows g' = windows g" "desktop_window g' = desktop_window g" "edits g' = edits g"
  using assms by (cases g; cases g'; simp)+

text \<open>The interrupts of the keyboard, one for each code that port 60 gives.\<close>

fun key_interrupts :: "u8 list \<Rightarrow> 'a kb_state_scheme \<Rightarrow> 'a kb_state_scheme result" where
  "key_interrupts [] s = Inr s"
| "key_interrupts (c # cs) s = bindr (keyboard_handler c s) (key_interrupts cs)"

text \<open>Of the threads, at most \<open>k\<close>, the one of the keyboard, waits for a code; it is ready when it does not.\<close>

definition kb_waits :: "'a kb_state_scheme \<Rightarrow> addr \<Rightarrow> bool" where
  "kb_waits s k \<longleftrightarrow> queue_wf (kb_wait s) \<and> k \<noteq> NULL \<and> (\<exists>r. task_mem s k = Some r \<and>
     (queue_contents (kb_wait s) = [k] \<or> queue_contents (kb_wait s) = [] \<and> t_status r = TS_READY))"

lemma listener_ready:
  assumes "listener s as xs x p" "task_mem s k = Some r"
  shows "listener (s\<lparr>task_mem := (task_mem s)(k \<mapsto> r\<lparr>t_status := st\<rparr>)\<rparr>) as xs x p"
proof -
  let ?m = "(task_mem s)(k \<mapsto> r\<lparr>t_status := st\<rparr>)"
  have same: "(?m y = None) = (task_mem s y = None)" "t_pid (the (?m y)) = t_pid (the (task_mem s y))"
    "t_listen (the (?m y)) = t_listen (the (task_mem s y))" for y using assms(2) by auto
  have "\<exists>t. ?m y = Some t \<and> P (t_pid t) (t_listen t) (t_message_queue t)"
    if "\<exists>t. task_mem s y = Some t \<and> P (t_pid t) (t_listen t) (t_message_queue t)" for y P
    using that assms(2) by (cases "y = k") auto
  note ex = this [of _ "\<lambda>p _ _. p = KEYBOARD"] this [of _ "\<lambda>q l m. l \<noteq> 0 \<and> q = p \<and> queue_wf m"]
  show ?thesis using assms(1) ex
    by (simp add: listener_def thread_wf_def tasks_at_def list_wf_def mm_wf_def same del: fun_upd_apply)
qed

lemma keyboard_handler_queues:
  assumes "listener (s\<lparr>running_task := k\<rparr>) as xs x p" "kb_waits s k" "queue_wf (kb_queue s)"
    and "length (queue_contents (kb_queue s)) < unat (qsize (kb_queue s))"
  shows "\<exists>s'. keyboard_handler c s = Inr s' \<and> listener (s'\<lparr>running_task := k\<rparr>) as xs x p \<and> kb_waits s' k \<and>
    queue_wf (kb_queue s') \<and> queue_contents (kb_queue s') = queue_contents (kb_queue s) @ [ucast c] \<and>
    qsize (kb_queue s') = qsize (kb_queue s) \<and> t_status (the (task_mem s' k)) = TS_READY \<and> mqueue s' x = mqueue s x \<and>
    mods s' = mods s \<and> malloc_top s' = malloc_top s \<and> heap s' = heap s \<and> bytes s' = bytes s"
proof -
  obtain q where q: "queue_add (kb_queue s) (ucast c) = Inr q" "queue_wf q" "queue_contents q = queue_contents (kb_queue s) @ [ucast c]"
      "qsize q = qsize (kb_queue s)"
    using queue_add_room [OF assms(3), of "ucast c"] assms(4) by auto
  obtain r where w: "queue_wf (kb_wait s)" "k \<noteq> NULL" "task_mem s k = Some r"
      "queue_contents (kb_wait s) = [k] \<or> queue_contents (kb_wait s) = [] \<and> t_status r = TS_READY"
    using assms(2) unfolding kb_waits_def by blast
  define s1 where "s1 = s\<lparr>io_log := io_log s @ pic_acknowledge 1, kb_queue := q\<rparr>"
  have l1: "listener (s1\<lparr>running_task := k\<rparr>) as xs x p"
  proof -
    have "s1\<lparr>running_task := k\<rparr> = (s\<lparr>running_task := k\<rparr>)\<lparr>io_log := io_log s @ pic_acknowledge 1, kb_queue := q\<rparr>"
      by (simp add: s1_def)
    then show ?thesis using assms(1) by simp
  qed
  have run: "keyboard_handler c s = bindr (wake_up (kb_wait s1) s1) (\<lambda>(q, s). Inr (s\<lparr>kb_wait := q\<rparr>))"
    using q(1) by (simp add: keyboard_handler_def s1_def Let_def)
  show ?thesis
  proof (cases "queue_contents (kb_wait s) = []")
    case True
    then have "keyboard_handler c s = Inr (s1\<lparr>kb_wait := kb_wait s\<rparr>)"
      unfolding run using queue_remove_empty [OF True] by (simp add: wake_up_def s1_def)
    then have "keyboard_handler c s = Inr s1" by (simp add: s1_def)
    then show ?thesis using l1 assms(2) q w True
      by (intro exI [of _ s1]) (simp add: s1_def kb_waits_def del: length_queue_contents)
  next
    case False
    then have c: "queue_contents (kb_wait s) = [k]" using w(4) by blast
    obtain q2 where q2: "queue_remove (kb_wait s) = Inr (k, q2)" "queue_wf q2" "queue_contents q2 = []"
      using queue_remove_some [OF w(1) c] by blast
    let ?s2 = "s1\<lparr>task_mem := (task_mem s)(k \<mapsto> r\<lparr>t_status := TS_READY\<rparr>)\<rparr>"
    have "keyboard_handler c s = Inr (?s2\<lparr>kb_wait := q2\<rparr>)"
      unfolding run using q2(1) w(2,3) by (simp add: wake_up_def update_task_def s1_def)
    moreover have "listener ((?s2\<lparr>kb_wait := q2\<rparr>)\<lparr>running_task := k\<rparr>) as xs x p"
    proof -
      have "(?s2\<lparr>kb_wait := q2\<rparr>)\<lparr>running_task := k\<rparr> = ((s1\<lparr>running_task := k\<rparr>)\<lparr>task_mem := (task_mem s)(k \<mapsto> r\<lparr>t_status := TS_READY\<rparr>)\<rparr>)\<lparr>kb_wait := q2\<rparr>"
        by simp
      moreover have "task_mem (s1\<lparr>running_task := k\<rparr>) = task_mem s" by (simp add: s1_def)
      ultimately show ?thesis using listener_ready [OF l1, of k r TS_READY] w(3) by (simp only: listener_driver)
    qed
    moreover have "mqueue ?s2 x = mqueue s x" using w(3) by auto
    ultimately show ?thesis using q q2 w(2)
      by (intro exI [of _ "?s2\<lparr>kb_wait := q2\<rparr>"]) (simp add: s1_def kb_waits_def del: length_queue_contents)
  qed
qed

lemma key_interrupts_queue:
  "\<lbrakk>listener (s\<lparr>running_task := k\<rparr>) as xs x p; kb_waits s k; queue_wf (kb_queue s);
    length (queue_contents (kb_queue s)) + length cs \<le> unat (qsize (kb_queue s))\<rbrakk> \<Longrightarrow>
    \<exists>s'. key_interrupts cs s = Inr s' \<and> listener (s'\<lparr>running_task := k\<rparr>) as xs x p \<and> kb_waits s' k \<and>
      queue_wf (kb_queue s') \<and> queue_contents (kb_queue s') = queue_contents (kb_queue s) @ map ucast cs \<and>
      (cs \<noteq> [] \<longrightarrow> t_status (the (task_mem s' k)) = TS_READY) \<and> mqueue s' x = mqueue s x \<and>
      mods s' = mods s \<and> malloc_top s' = malloc_top s \<and> heap s' = heap s \<and> bytes s' = bytes s"
proof (induction cs arbitrary: s)
  case Nil
  then show ?case by (intro exI [of _ s]) simp
next
  case (Cons c cs)
  have room: "length (queue_contents (kb_queue s)) < unat (qsize (kb_queue s))" using Cons.prems(4) by simp
  obtain s1 where s1: "keyboard_handler c s = Inr s1" "listener (s1\<lparr>running_task := k\<rparr>) as xs x p" "kb_waits s1 k"
      "queue_wf (kb_queue s1)" "queue_contents (kb_queue s1) = queue_contents (kb_queue s) @ [ucast c]"
      "qsize (kb_queue s1) = qsize (kb_queue s)" "t_status (the (task_mem s1 k)) = TS_READY" "mqueue s1 x = mqueue s x"
      "mods s1 = mods s" "malloc_top s1 = malloc_top s" "heap s1 = heap s" "bytes s1 = bytes s"
    using keyboard_handler_queues [OF Cons.prems(1-3) room, of c] by blast
  have "length (queue_contents (kb_queue s1)) + length cs \<le> unat (qsize (kb_queue s1))"
    using s1(5,6) Cons.prems(4) by (simp del: length_queue_contents)
  then obtain s' where s': "key_interrupts cs s1 = Inr s'" "listener (s'\<lparr>running_task := k\<rparr>) as xs x p" "kb_waits s' k"
      "queue_wf (kb_queue s')" "queue_contents (kb_queue s') = queue_contents (kb_queue s1) @ map ucast cs"
      "cs \<noteq> [] \<longrightarrow> t_status (the (task_mem s' k)) = TS_READY" "mqueue s' x = mqueue s1 x"
      "mods s' = mods s1" "malloc_top s' = malloc_top s1" "heap s' = heap s1" "bytes s' = bytes s1"
    using Cons.IH [OF s1(2-4)] by blast
  have "t_status (the (task_mem s' k)) = TS_READY" using s'(1,6) s1(7) by (cases cs) auto
  then show ?case using s1 s' by (intro exI [of _ s']) (simp del: length_queue_contents)
qed


section \<open>Example\<close>

text \<open>The thread of the keyboard waits, the other task listens, and a desktop whose edit has the focus.\<close>

definition typist :: kb_state where
  "typist = task_state.extend ((two_tasks 0)\<lparr>task_mem := [0x1000 \<mapsto> (example_task KEYBOARD 1 TS_BLOCKED 0),
       0x2000 \<mapsto> (example_task 1002 1 TS_BLOCKED 0)\<lparr>t_listen := 6\<rparr>]\<rparr>)
     \<lparr>kb_task = 0x1000, kb_queue = queue_init (replicate 16 0) 16,
      kb_wait = \<lparr>data = 0x1000 # replicate 7 0, qsize = 8, count = 1, rear = 0, front = 0\<rparr>, mods = no_mods, ocw1 = 0\<rparr>"

definition open_desk :: gui_state where
  "open_desk = desk\<lparr>windows := [0x200 \<mapsto> example_window\<lparr>win_active := 1, win_focus := 0x400\<rparr>, 0x300 \<mapsto> example_window],
     widgets := (widgets desk)(0x200 \<mapsto> (widget_at desk 0x200)\<lparr>OnKeyDown := Some Window_key_down, OnKeyUp := Some Window_key_up\<rparr>,
       0x400 \<mapsto> (widget_at desk 0x400)\<lparr>OnKeyDown := Some Edit_keydown\<rparr>)\<rparr>"

lemmas typist_simps = typist_def task_state.defs two_tasks_def example_task_def

lemma typist_listener: "listener (typist\<lparr>running_task := 0x1000\<rparr>) [0x100, 0x200] [0x1000, 0x2000] 0x2000 1002"
proof -
  have "mm_wf (typist\<lparr>running_task := 0x1000\<rparr>)"
    unfolding mm_wf_def by (rule exI [of _ "[0xC0000000]"]) (simp add: typist_simps used_block_def new_block_def)
  then show ?thesis
    by (auto simp: listener_def thread_wf_def tasks_at_def list_wf_def typist_simps list_at_def node_data_def KEYBOARD_def queue_init_wf
      split: if_splits)
qed

lemma typist_waits: "kb_waits typist 0x1000"
  by (simp add: kb_waits_def typist_simps queue_wf_def next_slot_def queue_contents_def)

lemma open_desk_focused:
  "focused (with_tasks_of typist open_desk) 0x200 0x400" "edit_holds (with_tasks_of typist open_desk) 0x400 []"
proof -
  have "task_state.more (with_tasks_of typist open_desk) = task_state.more open_desk" by simp
  note same = gui_fields_of_more [OF this]
  obtain n where n: "addr_space = Suc n" by (cases addr_space) (simp_all add: addr_space_def)
  have "gui_get_active_window open_desk = Inr 0x200"
    by (simp add: n gui_get_active_window_def gui_widget_root_def widget_classes open_desk_def desk_simps zero_widget_def widget_at_def example_window_def)
  then have "focused open_desk 0x200 0x400"
    by (simp add: focused_def open_desk_def desk_simps zero_widget_def widget_at_def example_window_def)
  then show "focused (with_tasks_of typist open_desk) 0x200 0x400" using focused_cong [OF same(1-3)] by simp
  show "edit_holds (with_tasks_of typist open_desk) 0x400 []"
    unfolding edit_holds_def same by (simp add: open_desk_def desk_simps zero_widget_def fits_def)
qed


end
