(* ===== verification/Idt.thy ===== *)
theory Idt
  imports Threads
begin

text \<open>
  kernel/x86/idt.c, kernel/panic.c and the entry of interrupts in kernel/x86/int_handler.asm: which
  handler an interrupt reaches, and what the default handlers do.

  Printed messages are logged as a format with its arguments, apart for the screen and the debug
  line. The bytes of the descriptors other than the type are not modelled; \<open>Other\<close> is a handler a
  driver installs.
\<close>

section \<open>The code\<close>

record int_regs =
  r_edi :: u32
  r_esi :: u32
  r_ebp :: u32
  r_esp :: u32
  r_ebx :: u32
  r_edx :: u32
  r_ecx :: u32
  r_eax :: u32
  r_gs :: u32
  r_fs :: u32
  r_es :: u32
  r_ds :: u32
  intn :: u32
  err_code :: u32
  r_eip :: u32
  r_cs :: u32
  r_eflags :: u32
  r_useresp :: u32
  r_ss :: u32

datatype isr_call = Page_fault_handler | Irq7_handler | Other addr

datatype print_arg = Number u32 | Bytes "u8 list" | Literal "string option"

record isr_state = task_state +
  type_attr :: "u8 list"
  isr_call_vector :: "isr_call option list"
  screen_log :: "(string \<times> print_arg list) list"
  debug_log :: "(string \<times> print_arg list) list"
  cr2 :: addr

definition print_screen :: "string \<Rightarrow> print_arg list \<Rightarrow> 'a isr_state_scheme \<Rightarrow> 'a isr_state_scheme" where
  "print_screen str args s = s\<lparr>screen_log := screen_log s @ [(str, args)]\<rparr>"

definition print_debug :: "string \<Rightarrow> print_arg list \<Rightarrow> 'a isr_state_scheme \<Rightarrow> 'a isr_state_scheme" where
  "print_debug str args s = s\<lparr>debug_log := debug_log s @ [(str, args)]\<rparr>"

text \<open>\<open>panic\<close> prints and loops for ever.\<close>

definition panic :: "string \<Rightarrow> 'b \<Rightarrow> 'a result" where
  "panic message s = Inl Panic"

record fault_name =
  f_name :: "string option"
  has_errcode :: bool

definition fault_names :: "fault_name list" where
  "fault_names = map (\<lambda>(n, e). \<lparr>f_name = n, has_errcode = e\<rparr>)
     [(Some ''Divide-by-Zero'', False), (Some ''Debug'', False), (Some ''Non-maskable Interrupt'', False), (Some ''Breakpoint'', False),
      (Some ''Overflow'', False), (Some ''Bound Range Exceeded'', False), (Some ''Invalid Opcode'', False),
      (Some ''Device Not Available'', False), (Some ''Double Fault'', True), (Some ''Coprocessor Segment Overrun'', False),
      (Some ''Invalid TSS'', True), (Some ''Segment Not Present'', True), (Some ''Stack-Segment Fault'', True),
      (Some ''General Protection Fault'', True), (Some ''Page Fault'', True), (None, False), (Some ''x87 Floating-Point Exception'', False),
      (Some ''Alignment Check'', True), (Some ''Machine Check'', False), (Some ''SIMD Floating-Point Exception'', False),
      (Some ''Virtualization Exception'', False), (None, False), (None, False), (None, False), (None, False), (None, False), (None, False),
      (None, False), (None, False), (None, False), (Some ''Security Exception'', True), (None, False)]"

text \<open>The messages of a handler, printed by \<open>p\<close>: who runs, what happened, the registers.\<close>

type_synonym 's printer = "string \<Rightarrow> print_arg list \<Rightarrow> 's \<Rightarrow> 's"

definition tab :: string where "tab = [CHR 0x09]"
definition nl :: string where "nl = [CHR 0x0A]"

definition stars :: string where
  "stars = replicate 68 (CHR ''*'') @ nl"

definition print_task :: "'a isr_state_scheme printer \<Rightarrow> addr \<Rightarrow> 'a isr_state_scheme \<Rightarrow> 'a isr_state_scheme result" where
  "print_task pr t s =
     (if t \<noteq> NULL then bindr (deref (task_mem s) t) (\<lambda>tsk. Inr (pr (''*'' @ tab @ ''PID: %d'' @ tab @ ''NAME: %s'' @ nl) [Number (t_pid tsk), Bytes (t_name tsk)] s))
      else Inr (pr (''*'' @ tab @ ''PID: -'' @ tab @ ''NAME: -'' @ nl) [] s))"

definition print_regs :: "'a isr_state_scheme printer \<Rightarrow> int_regs \<Rightarrow> 'a isr_state_scheme \<Rightarrow> 'a isr_state_scheme" where
  "print_regs pr r s = pr stars [] (pr (''*'' @ tab @ ''CS:EIP=0x%x:0x%x'' @ tab @ ''SS:ESP=0x%x:0x%x'' @ nl) (map Number [r_cs r, r_eip r, r_ss r, r_useresp r])
     (pr (''*'' @ tab @ ''EAX=0x%x'' @ tab @ ''EBX=0x%x'' @ tab @ ''ECX=0x%x'' @ tab @ ''EDX=0x%x'' @ nl) (map Number [r_eax r, r_ebx r, r_ecx r, r_edx r]) s))"

definition fault_report :: "'a isr_state_scheme printer \<Rightarrow> addr \<Rightarrow> int_regs \<Rightarrow> 'a isr_state_scheme \<Rightarrow> 'a isr_state_scheme result" where
  "fault_report pr t r s =
     bindr (print_task pr t (pr stars [] s)) (\<lambda>s.
       guardr (unat (intn r) < length fault_names) OutOfBounds
         (Inr (print_regs pr r (pr (''*'' @ tab @ ''Error! %s (error: 0x%x)'' @ nl) [Literal (f_name (fault_names ! unat (intn r))), Number (err_code r)] s))))"

definition isr_fault :: "addr \<Rightarrow> int_regs \<Rightarrow> 'a isr_state_scheme \<Rightarrow> 'a isr_state_scheme result" where
  "isr_fault esp r s =
     (let t = task_get s
      in bindr (fault_report print_screen t r s) (\<lambda>s.
         let t = task_get s
         in bindr (fault_report print_debug t r s) (\<lambda>s.
            if t \<noteq> NULL then task_exit 1 esp s else Inr s)))"

definition pagefault_words :: "u32 \<Rightarrow> print_arg list" where
  "pagefault_words err =
     [Literal (Some (if err AND 1 \<noteq> 0 then ''Prot.'' else '' '')), Literal (Some (if err AND 2 \<noteq> 0 then ''Write'' else ''Read'')),
      Literal (Some (if err AND 5 \<noteq> 0 then ''User'' else ''Super''))]"

definition pagefault_report :: "'a isr_state_scheme printer \<Rightarrow> addr \<Rightarrow> int_regs \<Rightarrow> 'a isr_state_scheme \<Rightarrow> 'a isr_state_scheme result" where
  "pagefault_report pr t r s =
     (let s = pr stars [] s
      in bindr (if t \<noteq> NULL then print_task pr t s else Inr (pr (''*'' @ tab @ ''PID: -'' @ tab @ ''NAME: (null)'' @ nl) [] s)) (\<lambda>s.
         Inr (print_regs pr r (pr (''*'' @ tab @ ''PAGEFAULT on address 0x%x (%s %s %s) !'' @ nl) (Number (cr2 s) # pagefault_words (err_code r)) s))))"

definition page_fault_handler :: "int_regs \<Rightarrow> 'a isr_state_scheme \<Rightarrow> 'a isr_state_scheme result" where
  "page_fault_handler r s =
     (let t = task_get s
      in bindr (pagefault_report print_screen t r s) (\<lambda>s.
         bindr (if t \<noteq> NULL then Inr s else panic ''kernel fault.'' s) (\<lambda>s.
         bindr (pagefault_report print_debug t r s) (\<lambda>s.
         bindr (if t \<noteq> NULL then Inr s else panic ''kernel fault.'' s) (\<lambda>s.
           Inl Diverge)))))"

definition irq7_handler :: "'a isr_state_scheme \<Rightarrow> 'a isr_state_scheme" where
  "irq7_handler s = print_debug (''irq7'' @ nl) [] s"

text \<open>kernel/x86/int_handler.asm: only the low byte of the number selects the descriptor.\<close>

definition isr_set_handler :: "u32 \<Rightarrow> u8 \<Rightarrow> isr_call \<Rightarrow> 'a isr_state_scheme \<Rightarrow> 'a isr_state_scheme result" where
  "isr_set_handler num gate call s =
     guardr (unat num < length (isr_call_vector s)) OutOfBounds
       (Inr (s\<lparr>type_attr := (type_attr s)[unat (ucast num :: u8) := gate],
          isr_call_vector := (isr_call_vector s)[unat num := Some call]\<rparr>))"

definition IRQ_SET_HANDLER :: "u32 \<Rightarrow> isr_call \<Rightarrow> 'a isr_state_scheme \<Rightarrow> 'a isr_state_scheme result" where
  "IRQ_SET_HANDLER irq call s = guardr (irq \<le> 0xF) Panic (isr_set_handler (0x20 + irq) 0x8E call s)"

definition ISR_SET_HANDLER :: "u32 \<Rightarrow> isr_call \<Rightarrow> 'a isr_state_scheme \<Rightarrow> 'a isr_state_scheme result" where
  "ISR_SET_HANDLER n call s = isr_set_handler n 0x8E call s"

definition isr_install :: "'a isr_state_scheme \<Rightarrow> 'a isr_state_scheme result" where
  "isr_install s = bindr (ISR_SET_HANDLER 14 Page_fault_handler s) (IRQ_SET_HANDLER 7 Irq7_handler)"

text \<open>\<open>load_idt\<close> fills the descriptors with the addresses of the entries and loads the register.\<close>

definition idt :: "'a isr_state_scheme \<Rightarrow> 'a isr_state_scheme result" where
  "idt s = isr_install (s\<lparr>io_log := io_log s @ pic\<rparr>)"

text \<open>
  The entry of interrupt \<open>n\<close> pushes the number as a byte, which the processor extends with its sign;
  the common part reads the vector at that index.
\<close>

definition pushed_number :: "u8 \<Rightarrow> u32" where
  "pushed_number n = scast n"

definition isr_handler :: "(addr \<Rightarrow> int_regs \<Rightarrow> 'a isr_state_scheme \<Rightarrow> 'a isr_state_scheme result) \<Rightarrow> addr \<Rightarrow> u8 \<Rightarrow> int_regs \<Rightarrow>
    'a isr_state_scheme \<Rightarrow> 'a isr_state_scheme result" where
  "isr_handler other esp n r s =
     (let r = r\<lparr>intn := pushed_number n\<rparr>
      in guardr (unat (intn r) < length (isr_call_vector s)) OutOfBounds
         (case isr_call_vector s ! unat (intn r) of
            None \<Rightarrow> isr_fault esp r s
          | Some Page_fault_handler \<Rightarrow> page_fault_handler r s
          | Some Irq7_handler \<Rightarrow> Inr (irq7_handler s)
          | Some (Other a) \<Rightarrow> other a r s))"

section \<open>Which handler an interrupt reaches\<close>

lemma idt_installs:
  assumes "length (isr_call_vector s) = 256"
  shows "idt s = Inr (s\<lparr>io_log := io_log s @ pic, type_attr := (type_attr s)[14 := 0x8E, 39 := 0x8E],
      isr_call_vector := (isr_call_vector s)[14 := Some Page_fault_handler, 39 := Some Irq7_handler]\<rparr>)"
  using assms
  by (simp add: idt_def isr_install_def ISR_SET_HANDLER_def IRQ_SET_HANDLER_def isr_set_handler_def guardr_def bindr_def
      word_le_nat_alt)

lemma sign_bit: "bit n 7 \<longleftrightarrow> 0x80 \<le> n" for n :: u8
proof -
  have u: "0 \<le> uint n" "uint n < 256" using uint_lt2p [of n] by simp_all
  have "bit n 7 \<longleftrightarrow> bit (uint n) 7" by (simp add: bit_uint_iff)
  also have "\<dots> \<longleftrightarrow> odd (uint n div 2 ^ 7)" by (rule bit_iff_odd)
  also have "\<dots> \<longleftrightarrow> odd (uint n div 128)" by simp
  also have "\<dots> \<longleftrightarrow> 128 \<le> uint n"
    using u int_div_pos_eq [of "uint n" 128 1 "uint n - 128"] by (cases "uint n < 128") (simp_all add: div_pos_pos_trivial)
  finally show ?thesis by (simp add: word_le_def)
qed

lemma pushed_number_low: "n < 0x80 \<Longrightarrow> unat (pushed_number n) = unat n"
proof -
  assume "n < 0x80"
  then have "\<not> bit n 7" by (simp add: sign_bit not_le)
  then have "pushed_number n = ucast n" 
    unfolding pushed_number_def
  proof (intro bit_word_eqI)
    fix k :: nat
    have "k = 7" if "bit n k" "7 \<le> k" using bit_imp_le_length [OF that(1)] that(2) by simp
    then show "bit (scast n :: u32) k \<longleftrightarrow> bit (ucast n :: u32) k" if "k < LENGTH(32)"
      using that \<open>\<not> bit n 7\<close> by (auto simp: bit_simps min_def not_less)
  qed
  then show ?thesis by (simp add: unat_ucast_up)
qed

lemma pushed_number_high: "0x80 \<le> n \<Longrightarrow> 256 \<le> unat (pushed_number n)"
proof (rule ccontr)
  assume "0x80 \<le> n" and "\<not> 256 \<le> unat (pushed_number n)"
  moreover from this have "bit (pushed_number n) 31" by (simp add: pushed_number_def bit_simps sign_bit)
  then have "odd (unat (pushed_number n) div 2 ^ 31)" using bit_iff_odd [of "unat (pushed_number n)" 31] by (simp add: bit_unsigned_iff)
  ultimately show False by simp
qed

text \<open>
  A page fault never returns to the code that made it: without a running task it is a panic, and with
  one the processor halts in a loop with interrupts off, where neither the task is ended nor another
  runs.
\<close>

theorem page_fault_never_returns:
  assumes "idt s0 = Inr s" "length (isr_call_vector s0) = 256"
    and "running_task s = NULL \<or> task_mem s (running_task s) \<noteq> None"
  shows "isr_handler other esp 14 r s = Inl (if running_task s = NULL then Panic else Diverge)"
proof -
  have v: "isr_call_vector s ! 14 = Some Page_fault_handler" "length (isr_call_vector s) = 256"
    using assms(1,2) by (auto simp: idt_installs)
  have n: "unat (pushed_number 14) = 14" by (simp add: pushed_number_def)
  show ?thesis using assms(3)
    by (auto simp: isr_handler_def guardr_def Let_def n v page_fault_handler_def pagefault_report_def task_get_def print_task_def
        print_screen_def print_debug_def print_regs_def deref_def bindr_def panic_def)
qed

text \<open>A machine of two tasks before the table is installed, and the registers of a fault.\<close>

definition faulty_machine :: isr_state where
  "faulty_machine = task_state.extend (two_tasks 0)
     \<lparr>type_attr = replicate 256 0x8E, isr_call_vector = replicate 256 None, screen_log = [], debug_log = [], cr2 = 0xDEAD\<rparr>"

definition blank_regs :: int_regs where
  "blank_regs = \<lparr>r_edi = 0, r_esi = 0, r_ebp = 0, r_esp = 0, r_ebx = 0, r_edx = 0, r_ecx = 0, r_eax = 0, r_gs = 0, r_fs = 0,
     r_es = 0, r_ds = 0, intn = 0, err_code = 1, r_eip = 0, r_cs = 8, r_eflags = 0, r_useresp = 0, r_ss = 0\<rparr>"

lemma faulty_machine_simps:
  "isr_call_vector faulty_machine = replicate 256 None" "running_task faulty_machine = 0x1000"
  "task_mem faulty_machine (running_task faulty_machine) \<noteq> None"
  by (simp_all add: faulty_machine_def task_state.defs two_tasks_def)

theorem page_fault_never_returns_witness:
  "bindr (idt faulty_machine) (isr_handler (\<lambda>_ _. Inr) 0x5000 14 blank_regs) = Inl Diverge"
proof -
  obtain s where s: "idt faulty_machine = Inr s" and r: "running_task s = 0x1000" "task_mem s = task_mem faulty_machine"
    using idt_installs [of faulty_machine] by (simp add: faulty_machine_simps)
  show ?thesis
    using page_fault_never_returns [OF s, where r = blank_regs] r faulty_machine_simps by (simp add: s bindr_def)
qed



text \<open>
  An exception in the kernel before tasks run is reported on the screen and on the debug line, and the
  handler returns to the instruction that made it.
\<close>

lemma isr_fault_kernel:
  assumes "running_task s = NULL" "unat (intn r) < 32"
  shows "\<exists>s'. isr_fault esp r s = Inr s' \<and> screen_log s' \<noteq> [] \<and> debug_log s' \<noteq> [] \<and> running_task s' = NULL"
proof -
  have n: "unat (intn r) < length fault_names" using assms(2) by (simp add: fault_names_def)
  show ?thesis using assms(1) n
    by (simp add: isr_fault_def fault_report_def task_get_def print_task_def print_screen_def print_debug_def print_regs_def
        bindr_def guardr_def)
qed

text \<open>The words of a page fault: the bit of a present page alone makes the access one of the user.\<close>

lemma pagefault_words_supervisor:
  "pagefault_words 1 = [Literal (Some ''Prot.''), Literal (Some ''Read''), Literal (Some ''User'')]"
  by (simp add: pagefault_words_def)

end
