(* ===== verification/Boot.thy ===== *)
theory Boot
  imports Layout Fb Gdt Debug Typing Idt
begin

text \<open>
  kernel/do_it_yourself.c: the start of the kernel.

  The parts of the kernel keep their variables in records that extend the ones they share, so the state of
  the whole is the chain that the file system and the debug messages use, \<open>b_core\<close>, and what the
  others add to a part of it; \<open>on_kb\<close> and its like run a step of a driver on the shared part and its own. The
  mask of the interrupt controllers is one variable for both drivers that have it.
\<close>

section \<open>The code\<close>

record boot_state =
  b_screen :: fb_state
  b_gdt :: gdt_state
  b_core :: debug_state
  b_isr :: "unit isr_state_ext"
  b_gui :: "unit gui_state_ext bochs_state_ext"
  b_kb :: "unit kb_state_ext"
  b_mouse :: "unit mouse_state_ext"
  b_mask :: u16

text \<open>
  What the start does not compute: the answers of the ports of the cursor, addresses that the linker chose (of
  the tables, of functions, of literals), the stack's variables, what fresh memory holds, the PCI bus.
\<close>

record boot_env =
  cursor_lo :: u8
  cursor_hi :: u8
  virtual_start :: addr
  physical_start :: addr
  kernel_vaddr_end :: addr
  boot_esp :: u32
  tss_address :: addr
  gdt_address :: addr
  literal :: "string \<Rightarrow> addr"
  code :: "string \<Rightarrow> addr"
  dbg_msg :: addr
  char_at :: addr
  digits_at :: addr
  fresh_node :: "addr \<Rightarrow> fs_node"
  fresh_task :: "string \<Rightarrow> task"
  fresh_cells :: "string \<Rightarrow> u32 list"
  fresh_packet :: mouse_packet
  loop_node :: addr
  pci_conf :: pci_bus
  env_gui :: gui_env

definition with_fs_of :: "'a fs_state_scheme \<Rightarrow> 'b fs_state_scheme \<Rightarrow> 'b fs_state_scheme" where
  "with_fs_of s g = fs_state.extend (fs_state.truncate s) (fs_state.more g)"

definition on_core :: "(debug_state \<Rightarrow> debug_state result) \<Rightarrow> boot_state \<Rightarrow> boot_state result" where
  "on_core f b = bindr (f (b_core b)) (\<lambda>s. Inr (b\<lparr>b_core := s\<rparr>))"

definition on_isr :: "(isr_state \<Rightarrow> isr_state result) \<Rightarrow> boot_state \<Rightarrow> boot_state result" where
  "on_isr f b =
     bindr (f (task_state.extend (task_state.truncate (b_core b)) (b_isr b))) (\<lambda>s.
       Inr (b\<lparr>b_isr := task_state.more s, b_core := with_tasks_of s (b_core b)\<rparr>))"

definition on_gui :: "(gui_state \<Rightarrow> gui_state result) \<Rightarrow> boot_state \<Rightarrow> boot_state result" where
  "on_gui f b =
     bindr (f (fs_state.extend (fs_state.truncate (b_core b)) (b_gui b))) (\<lambda>s.
       Inr (b\<lparr>b_gui := fs_state.more s, b_core := with_fs_of s (b_core b)\<rparr>))"

definition on_kb :: "(kb_state \<Rightarrow> kb_state result) \<Rightarrow> boot_state \<Rightarrow> boot_state result" where
  "on_kb f b =
     bindr (f ((task_state.extend (task_state.truncate (b_core b)) (b_kb b))\<lparr>ocw1 := b_mask b\<rparr>)) (\<lambda>s.
       Inr (b\<lparr>b_kb := task_state.more s, b_core := with_tasks_of s (b_core b), b_mask := ocw1 s\<rparr>))"

definition on_mouse :: "(mouse_state \<Rightarrow> mouse_state result) \<Rightarrow> boot_state \<Rightarrow> boot_state result" where
  "on_mouse f b =
     bindr (f ((task_state.extend (task_state.truncate (b_core b)) (b_mouse b))\<lparr>mouse_ocw1 := b_mask b\<rparr>)) (\<lambda>s.
       Inr (b\<lparr>b_mouse := task_state.more s, b_core := with_tasks_of s (b_core b), b_mask := mouse_ocw1 s\<rparr>))"

fun run_steps :: "('s \<Rightarrow> 's result) list \<Rightarrow> 's \<Rightarrow> 's result" where
  "run_steps [] s = Inr s"
| "run_steps (f # fs) s = bindr (f s) (run_steps fs)"

text \<open>The screen and the processor's tables; \<open>printf\<close> of a text without directives.\<close>

definition boot_screen :: "boot_env \<Rightarrow> boot_state \<Rightarrow> boot_state result" where
  "boot_screen v b =
     bindr (fb (cursor_lo v) (cursor_hi v) (b_screen b)) (\<lambda>s.
     bindr (fb_puts (lit ''DiyOS - do it yourself Operating System'' @ [0x0A]) s) (\<lambda>s. Inr (b\<lparr>b_screen := s\<rparr>)))"

definition boot_arch :: "boot_env \<Rightarrow> boot_state \<Rightarrow> boot_state result" where
  "boot_arch v b =
     on_isr (\<lambda>s. bindr (idt s) isr_install) (b\<lparr>b_gdt := gdt (virtual_start v) (physical_start v) (boot_esp v) (cr3 (b_core b)) (tss_address v) (gdt_address v) (b_gdt b)\<rparr>)"

text \<open>The memory manager gets the information of the boot loader at \<open>mbi\<close>.\<close>

definition boot_mm :: "boot_env \<Rightarrow> addr \<Rightarrow> 'a byte_state_scheme \<Rightarrow> 'a byte_state_scheme result" where
  "boot_mm v mbi s =
     mm (kernel_vaddr_end v) (mb_field (bytes s) mbi ''mods_count'') (mod_field (bytes s) (mb_field (bytes s) mbi ''mods_addr'') ''mod_end'')
       (mb_field (bytes s) mbi ''mem_upper'') s"

definition banner_text :: string where
  "banner_text = [CHR 0x0A] @ ''%s'' @ [CHR 0x0A, CHR 0x0A]"

definition fs_start :: "boot_env \<Rightarrow> (debug_state \<Rightarrow> debug_state result) list" where
  "fs_start v =
     [\<lambda>s. bindr (fs_root (fresh_node v) s) (\<lambda>(_, s). Inr s),
      serial (fresh_node v),
      debug (char_at v) (digits_at v) (literal v banner_text) (dbg_msg v) (literal v ''/dev/com1'')]"

definition boot_ramdisk :: "boot_env \<Rightarrow> addr \<Rightarrow> 'a fs_state_scheme \<Rightarrow> 'a fs_state_scheme result" where
  "boot_ramdisk v mbi s =
     (if 0 < mb_field (bytes s) mbi ''mods_count'' then
        let md = mb_field (bytes s) mbi ''mods_addr''
        in bindr (ramfs (fresh_node v) (loop_node v) (mod_field (bytes s) md ''mod_start'') (mod_field (bytes s) md ''mod_end'') s) (\<lambda>(_, s). Inr s)
      else Inr s)"

text \<open>\<open>timer\<close>; setting the gate is assembly.\<close>

definition timer :: "boot_state \<Rightarrow> boot_state result" where
  "timer b =
     (let (mask, ports) = irq_enable 0 (b_mask b); s = b_core b
      in Inr (b\<lparr>b_mask := mask, b_core := s\<lparr>io_log := io_log s @ timer_ports @ ports\<rparr>\<rparr>))"

definition boot_steps :: "boot_env \<Rightarrow> addr \<Rightarrow> (boot_state \<Rightarrow> boot_state result) list" where
  "boot_steps v mbi =
     [boot_screen v, boot_arch v, on_core (boot_mm v mbi)] @ map on_core (fs_start v) @
     [on_core (boot_ramdisk v mbi),
      on_core (tasking (fresh_task v ''idle'') (fresh_cells v ''idle'') (code v ''idle'') (literal v ''idle'')),
      on_gui (\<lambda>s. Inr (gfx s)),
      on_gui (\<lambda>s. bindr (gfx_bochs (pci_conf v) s) (\<lambda>(_, s). Inr s)),
      on_kb (kb (fresh_task v ''keyboard'') (fresh_cells v ''keyboard'') (code v ''keyboad_task'') (literal v ''keyboard'')
        (fresh_cells v ''kb_queue'') (fresh_cells v ''kb_wait'')),
      on_mouse (mouse (fresh_task v ''mouse'') (fresh_cells v ''mouse'') (code v ''mouse_task'') (literal v ''mouse'')
        (fresh_cells v ''mouse_queue'') (fresh_cells v ''mouse_wait'') (fresh_packet v)),
      timer,
      on_gui (gui (env_gui v) (fresh_task v ''gui'') (fresh_cells v ''gui'') (code v ''gui_main'')),
      on_core (debug_printf (char_at v) (digits_at v) (literal v (''start scheduling...'' @ [CHR 0x0A])) []),
      on_core (schedule (boot_esp v))]"

definition do_it_yourself :: "boot_env \<Rightarrow> addr \<Rightarrow> boot_state \<Rightarrow> boot_state result" where
  "do_it_yourself v mbi b = bindr (run_steps (boot_steps v mbi) b) (\<lambda>_. Inl Panic)"

section \<open>Devices added after the root directory\<close>

text \<open>
  After \<open>fs_root\<close>: the root holds the directory \<open>d\<close>, which holds \<open>es\<close>; the other nodes are files.
\<close>

definition dev_tree :: "addr \<Rightarrow> addr \<Rightarrow> (u8 list \<times> addr) list \<Rightarrow> tree" where
  "dev_tree r d es = (\<lambda>_. [])(r := [(lit ''dev'', d)], d := es)"

definition booted :: "'a fs_state_scheme \<Rightarrow> addr \<Rightarrow> addr \<Rightarrow> (u8 list \<times> addr) list \<Rightarrow> bool" where
  "booted s r d es \<longleftrightarrow> fs_tree s (dev_tree r d es) \<and> root_node s = r \<and> devfs_root_node s = d \<and> r \<noteq> d \<and> d \<notin> snd ` set es \<and>
     (\<exists>nd. fnodes s d = Some (dir_node Devfs_readdir Devfs_finddir nd)) \<and>
     (\<forall>p nd. fnodes s p = Some nd \<longrightarrow> p = r \<or> p = d \<or> n_finddir nd = None)"

lemma boot_tree_dev: "boot_tree r d p1 p2 p3 = dev_tree r d [(lit ''one'', p1), (lit ''zero'', p2), (lit ''random'', p3)]"
  by (simp add: boot_tree_def dev_tree_def)

lemma booted_lists:
  assumes "booted s r d es"
  shows "list_wf s" "dir_list s (root_nodes s) [(lit ''dev'', d)]" "dir_list s (dev_nodes s) es" "r \<notin> snd ` set es"
proof -
  have t: "fs_tree s (dev_tree r d es)" and rd: "root_node s = r" "devfs_root_node s = d" "r \<noteq> d" using assms by (auto simp: booted_def)
  then show "list_wf s" by (simp add: fs_tree_def)
  obtain nr nd where n: "fnodes s r = Some nr" "n_flags nr = FS_DIRECTORY" "n_finddir nr = Some Root_fs_finddir"
      "fnodes s d = Some (dir_node Devfs_readdir Devfs_finddir nd)"
    using t rd(1) assms unfolding fs_tree_def booted_def by blast
  have e: "dir_entries s p k (dev_tree r d es p) \<and> r \<notin> snd ` set (dev_tree r d es p)" if "fnodes s p = Some k" for p k
    using t rd(1) that unfolding fs_tree_def by blast
  show "dir_list s (root_nodes s) [(lit ''dev'', d)]"
    using e [OF n(1)] n(2,3) rd by (simp add: dir_entries_def dev_tree_def FS_DIRECTORY_def)
  show "dir_list s (dev_nodes s) es" "r \<notin> snd ` set es"
    using e [OF n(4)] rd by (simp_all add: dir_entries_def dev_tree_def FS_DIRECTORY_def)
qed

text \<open>Two lists whose last nodes hold different data have no node in common.\<close>

lemma list_at_apart:
  assumes "list_at h l as xs" "list_at h l' as' xs'" "xs \<noteq> []" "xs' \<noteq> []" "last xs \<noteq> last xs'"
  shows "set as \<inter> set as' = {}"
proof (rule ccontr)
  assume "set as \<inter> set as' \<noteq> {}"
  then obtain a where a: "a \<in> set as" "a \<in> set as'" by blast
  then obtain us vs us' vs' where s: "as = us @ a # vs" "as' = us' @ a # vs'" by (meson split_list)
  have "nodes_at h a (a # vs)" "nodes_at h a (a # vs')"
    using assms(1,2) nodes_at_suffix [of h l us a vs] nodes_at_suffix [of h l' us' a vs']
    unfolding s list_at_def by auto
  then have "a # vs = a # vs'" by (rule nodes_at_unique)
  then have "last as = last as'" unfolding s by simp
  moreover have "as \<noteq> []" "as' \<noteq> []" using s by simp_all
  ultimately have "last xs = last xs'" using assms(1,2) unfolding list_at_def by (metis last_map)
  then show False using assms(5) by contradiction
qed


lemma device_registered:
  fixes s :: "'a fs_state_scheme"
  assumes boot: "booted s r d es" and room: "malloc_room s 220" and name: "length name < 128" "0 \<notin> set name"
    and f: "\<And>nd. n_finddir (f nd) = None"
  shows "\<exists>p s'. bindr (new_node junk name f s) (\<lambda>(p, s). devfs_register p s) = Inr s' \<and> booted s' r d (es @ [(name, p)]) \<and>
    fnodes s' = (fnodes s)(p \<mapsto> f (junk p)) \<and> fnodes s p = None \<and> unat (malloc_top s') = unat (malloc_top s) + 220 \<and>
    heap s' = heap s \<and> SERIAL_PORT s' = SERIAL_PORT s \<and> port_in s' = port_in s \<and> io_log s' = io_log s \<and> old_bytes s s'"
proof -
  have t: "fs_tree s (dev_tree r d es)" and rd: "root_node s = r" "devfs_root_node s = d" "r \<noteq> d"
    and files: "\<And>p nd. fnodes s p = Some nd \<Longrightarrow> p = r \<or> p = d \<or> n_finddir nd = None" using boot by (auto simp: booted_def)
  note ls = booted_lists [OF boot]
  obtain nr nd where n: "fnodes s r = Some nr" "n_flags nr = FS_DIRECTORY" "n_finddir nr = Some Root_fs_finddir"
      "fnodes s d = Some (dir_node Devfs_readdir Devfs_finddir nd)"
    using t rd(1) boot unfolding fs_tree_def booted_def by blast
  have below: "unat p < unat (malloc_top s)" if "fnodes s p = Some k" for p k using t that by (auto simp: fs_tree_def)
  have de: "dir_entries s p k (dev_tree r d es p)" if "fnodes s p = Some k" for p k using t that by (auto simp: fs_tree_def)
  have r1: "malloc_room s 188" using room by (simp add: malloc_room_def)
  obtain p lb m s1 where w: "new_node junk name f s = Inr (p, s1)"
      "s1 = (malloced 168 s lb)\<lparr>bytes := m, fnodes := (fnodes s)(p \<mapsto> f (junk p))\<rparr>" "list_wf s1" "p \<noteq> NULL"
      "unat (malloc_top s) \<le> unat p" "unat p < unat (malloc_top s1)" "string_below s1 p name"
      "unat (malloc_top s1) = unat (malloc_top s) + 188" "\<forall>a. unat a < unat (malloc_top s) \<longrightarrow> m a = bytes s a"
    using new_node_fresh [OF ls(1) r1 name, of junk f] by (elim exE conjE) rule
  have fresh: "fnodes s p = None" using below w(5) by (cases "fnodes s p") fastforce+
  have pn: "p \<noteq> r" "p \<noteq> d" using fresh n by auto
  have s1: "lnodes s1 = lnodes s" "heap s1 = heap s" "dev_nodes s1 = dev_nodes s" "root_nodes s1 = root_nodes s" "root_node s1 = root_node s"
      "devfs_root_node s1 = devfs_root_node s" "SERIAL_PORT s1 = SERIAL_PORT s" "port_in s1 = port_in s" "io_log s1 = io_log s"
    unfolding w(2) by (simp_all add: malloced_def)
  obtain as where as: "list_at (lnodes s1) (dev_nodes s1) as (map snd es)" "list_all (is_entry s) es"
    using ls(3) s1 by (auto simp: dir_list_def)
  obtain rs where rs: "list_at (lnodes s) (root_nodes s) rs [d]" "is_entry s (lit ''dev'', d)"
    using ls(2) by (auto simp: dir_list_def)
  have r2: "malloc_room s1 32" using room w(8) s1(2) by (simp add: malloc_room_def)
  obtain l' e s2 where a: "list_add (dev_nodes s1) p s1 = Inr (l', s2)" "list_wf s2" "lnodes s1 e = None"
      "list_at (lnodes s2) l' (as @ [e]) (map snd es @ [p])" "\<forall>a. a \<noteq> e \<longrightarrow> a \<notin> set as \<longrightarrow> lnodes s2 a = lnodes s1 a"
      "unat (malloc_top s2) = unat (malloc_top s1) + 32" "heap s2 = heap s1" "list_state.more s2 = list_state.more s1" "bytes s2 = bytes s1"
    using list_add_appends [OF w(3) r2 as(1), of p] by blast
  note same = fs_fields_of_list_more [OF a(8)]
  have more: "SERIAL_PORT s2 = SERIAL_PORT s1" "port_in s2 = port_in s1" "io_log s2 = io_log s1"
    using a(8) by (cases s2; cases s1; simp)+
  let ?s = "s2\<lparr>dev_nodes := l', dev_files := dev_files s2 + 1\<rparr>"
  have keep: "string_below ?s q xs" if "string_below s q xs" for q xs
    by (rule string_below_mono [OF that]) (use a(6,9) w(2,8,9) in simp_all)
  have fn: "fnodes ?s = (fnodes s)(p \<mapsto> f (junk p))" using same unfolding w(2) by simp
  have ent: "is_entry ?s x" if "is_entry s x" for x using that keep fn by (auto simp: is_entry_def)
  have "string_below ?s p name" by (rule string_below_mono [OF w(7)]) (use a(6,9) in simp_all)
  then have new: "is_entry ?s (name, p)" using w(4) fn by (simp add: is_entry_def)
  have dev: "dir_list ?s (dev_nodes ?s) (es @ [(name, p)])"
    using a(4) as(2) ent new by (auto simp: dir_list_def list_all_iff)
  have d: "d \<notin> snd ` set es" using boot by (simp add: booted_def)
  have "set rs \<inter> set as = {}"
  proof (cases "es = []")
    case True
    then show ?thesis using as(1) by (simp add: list_at_def)
  next
    case False
    then have "last (map snd es) \<in> set (map snd es)" by (intro last_in_set) simp
    then have "last (map snd es) \<noteq> d" using d by auto
    then show ?thesis using list_at_apart [OF rs(1), of "dev_nodes s1" as "map snd es"] as(1) s1(1) False by auto
  qed
  moreover have "e \<notin> set rs" using rs(1) a(3) s1(1) nodes_at_member [of "lnodes s" "root_nodes s" rs e] by (auto simp: list_at_def)
  ultimately have "\<And>b. b \<in> set rs \<Longrightarrow> lnodes s2 b = lnodes s b" using a(5) s1(1) by fastforce
  then have "list_at (lnodes s2) (root_nodes s) rs [d]" using rs(1) list_at_cong [of rs "lnodes s" "lnodes s2"] by metis
  then have root: "dir_list ?s (root_nodes ?s) [(lit ''dev'', d)]"
    using ent [OF rs(2)] same s1 by (auto simp: dir_list_def)
  have files': "q = r \<or> q = d \<or> n_finddir k = None" if "fnodes ?s q = Some k" for q k
    using that files f unfolding fn by (auto split: if_splits)
  have rd': "root_node ?s = r" "devfs_root_node ?s = d" using same s1 rd by simp_all
  have "dir_entries ?s q k (dev_tree r d (es @ [(name, p)]) q) \<and> r \<notin> snd ` set (dev_tree r d (es @ [(name, p)]) q)"
    if "fnodes ?s q = Some k" for q k
  proof -
    have "fnodes ?s r = Some nr" "fnodes ?s d = Some (dir_node Devfs_readdir Devfs_finddir nd)" using n pn unfolding fn by auto
    then show ?thesis using files' [OF that] that dev root rd' rd(3) n(2,3) ls(4) pn
      by (elim disjE) (auto simp: dir_entries_def dev_tree_def FS_DIRECTORY_def)
  qed
  moreover have "list_wf ?s" using a(2) by (simp add: list_wf_def mm_wf_def)
  moreover have "unat q < unat (malloc_top ?s)" if "fnodes ?s q = Some k" for q k
    using that below w(6,8) a(6) unfolding fn by (fastforce split: if_splits)
  moreover have "\<exists>k. fnodes ?s (root_node ?s) = Some k \<and> n_flags k = FS_DIRECTORY \<and> n_finddir k = Some Root_fs_finddir"
    unfolding rd' fn using n pn by auto
  ultimately have "fs_tree ?s (dev_tree r d (es @ [(name, p)]))" using rd' by (auto simp: fs_tree_def)
  then have "booted ?s r d (es @ [(name, p)])"
    using rd rd' d pn n(4) files' unfolding booted_def fn by auto
  moreover have "bindr (new_node junk name f s) (\<lambda>(p, s). devfs_register p s) = Inr ?s"
    using w(1) a(1) by (simp add: devfs_register_def)
  moreover have "old_bytes s ?s" using w(2,8,9) a(6,9) by (simp add: old_bytes_def)
  ultimately show ?thesis using fn fresh a(6,7) w(8) s1(2,7-9) more by (intro exI [of _ p] exI [of _ ?s]) simp
qed


lemma booted_frame [simp]:
  "booted (s\<lparr>io_log := l\<rparr>) r d es = booted s r d es" "booted (s\<lparr>SERIAL_PORT := ps\<rparr>) r d es = booted s r d es"
proof -
  have e: "is_entry (s\<lparr>io_log := l\<rparr>) = is_entry s" "is_entry (s\<lparr>SERIAL_PORT := ps\<rparr>) = is_entry s"
    by (simp_all add: fun_eq_iff is_entry_def string_below_def)
  have "dir_list (s\<lparr>io_log := l\<rparr>) = dir_list s" "dir_list (s\<lparr>SERIAL_PORT := ps\<rparr>) = dir_list s"
    by (simp_all add: fun_eq_iff dir_list_def e)
  then have "dir_entries (s\<lparr>io_log := l\<rparr>) = dir_entries s" "dir_entries (s\<lparr>SERIAL_PORT := ps\<rparr>) = dir_entries s"
    by (simp_all add: fun_eq_iff dir_entries_def split: option.split finddir_fn.split)
  then show "booted (s\<lparr>io_log := l\<rparr>) r d es = booted s r d es" "booted (s\<lparr>SERIAL_PORT := ps\<rparr>) r d es = booted s r d es"
    by (simp_all add: booted_def fs_tree_def list_wf_def mm_wf_def)
qed

definition com_node :: "(addr \<Rightarrow> fs_node) \<Rightarrow> addr \<Rightarrow> nat \<Rightarrow> fs_node" where
  "com_node junk p i = (dev_node None (Some Serial_write_fs) (junk p))\<lparr>n_inode := of_nat i\<rparr>"

lemma serial_names: "i < 4 \<Longrightarrow> length (serial_name i) < 128 \<and> 0 \<notin> set (serial_name i)"
proof -
  have "\<forall>i \<in> set [0 ..< 4]. length (serial_name i) < 128 \<and> 0 \<notin> set (serial_name i)" by code_simp
  then show "i < 4 \<Longrightarrow> length (serial_name i) < 128 \<and> 0 \<notin> set (serial_name i)" by simp
qed

lemma serial_lines_register:
  fixes s :: "'a fs_state_scheme"
  shows "\<lbrakk>booted s r d es; i + n \<le> 4; length (SERIAL_PORT s) = 4; malloc_room s (220 * n)\<rbrakk> \<Longrightarrow>
    \<exists>ps s'. serial_lines n junk i s = Inr s' \<and> length ps = n \<and> booted s' r d (es @ zip (map serial_name [i ..< i + n]) ps) \<and>
      (\<forall>k < n. fnodes s' (ps ! k) = Some (com_node junk (ps ! k) (i + k))) \<and>
      (\<forall>p. fnodes s p \<noteq> None \<longrightarrow> fnodes s' p = fnodes s p) \<and> SERIAL_PORT s' = SERIAL_PORT s \<and> port_in s' = port_in s \<and>
      io_log s' = io_log s @ concat (map (\<lambda>k. line_setup (ucast (SERIAL_PORT s ! k))) [i ..< i + n]) \<and>
      unat (malloc_top s') = unat (malloc_top s) + 220 * n \<and> heap s' = heap s \<and> old_bytes s s'"
proof (induction n arbitrary: i s es)
  case 0
  then show ?case by (intro exI [of _ "[]"] exI [of _ s]) (simp add: old_bytes_def)
next
  case (Suc n)
  define port where "port = SERIAL_PORT s ! i"
  let ?s = "s\<lparr>io_log := io_log s @ line_setup (ucast port)\<rparr>"
  have i: "i < 4" using Suc.prems(2) by simp
  have port: "array_get (SERIAL_PORT s) i = Inr port" using i Suc.prems(3) by (simp add: port_def)
  have room: "malloc_room ?s 220" using Suc.prems(4) by (simp add: malloc_room_def)
  let ?f = "\<lambda>nd. (dev_node None (Some Serial_write_fs) nd)\<lparr>n_inode := of_nat i\<rparr>"
  have f: "n_finddir (?f nd) = None" for nd by simp
  have b: "booted ?s r d es" using Suc.prems(1) by simp
  obtain p s1 where d: "bindr (new_node junk (serial_name i) ?f ?s) (\<lambda>(p, s). devfs_register p s) = Inr s1"
      "booted s1 r d (es @ [(serial_name i, p)])" "fnodes s1 = (fnodes ?s)(p \<mapsto> ?f (junk p))" "fnodes ?s p = None"
      "unat (malloc_top s1) = unat (malloc_top ?s) + 220" "heap s1 = heap ?s" "SERIAL_PORT s1 = SERIAL_PORT ?s" "port_in s1 = port_in ?s"
      "old_bytes ?s s1" "io_log s1 = io_log ?s"
    using device_registered [OF b room conjunct1 [OF serial_names [OF i]] conjunct2 [OF serial_names [OF i]], of ?f junk] f by blast
  have "malloc_room s1 (220 * n)" "length (SERIAL_PORT s1) = 4" "Suc i + n \<le> 4"
    using Suc.prems(2-4) d(5-7) by (simp_all add: malloc_room_def)
  then obtain ps s' where IH: "serial_lines n junk (Suc i) s1 = Inr s'" "length ps = n"
      "booted s' r d ((es @ [(serial_name i, p)]) @ zip (map serial_name [Suc i ..< Suc i + n]) ps)"
      "\<forall>k < n. fnodes s' (ps ! k) = Some (com_node junk (ps ! k) (Suc i + k))"
      "\<forall>p. fnodes s1 p \<noteq> None \<longrightarrow> fnodes s' p = fnodes s1 p" "SERIAL_PORT s' = SERIAL_PORT s1" "port_in s' = port_in s1"
      "unat (malloc_top s') = unat (malloc_top s1) + 220 * n" "heap s' = heap s1" "old_bytes s1 s'"
      "io_log s' = io_log s1 @ concat (map (\<lambda>k. line_setup (ucast (SERIAL_PORT s1 ! k))) [Suc i ..< Suc i + n])"
    using Suc.IH [OF d(2)] by blast
  have "serial_lines (Suc n) junk i s = Inr s'"
    using IH(1) d(1) port by (simp add: Let_def bindr_assoc [symmetric] split_def)
  moreover have "map serial_name [i ..< i + Suc n] = serial_name i # map serial_name [Suc i ..< Suc i + n]"
    using upt_conv_Cons [of i "i + Suc n"] by (simp del: upt_Suc)
  moreover have "fnodes s' ((p # ps) ! k) = Some (com_node junk ((p # ps) ! k) (i + k))" if "k < Suc n" for k
    using that IH(4,5) d(3) by (cases k) (auto simp: com_node_def)
  moreover have "fnodes s' q = fnodes s q" if "fnodes s q \<noteq> None" for q
  proof -
    have "q \<noteq> p" using that d(4) by auto
    then have "fnodes s1 q = fnodes s q" using d(3) by simp
    then show ?thesis using IH(5) that by simp
  qed
  moreover have "old_bytes s s'" using IH(10) d(9) by (simp add: old_bytes_def)
  moreover have "io_log s' = io_log s @ concat (map (\<lambda>k. line_setup (ucast (SERIAL_PORT s ! k))) [i ..< i + Suc n])"
    using IH(11) d(7,10) upt_conv_Cons [of i "i + Suc n"] by (simp add: port_def del: upt_Suc)
  ultimately show ?case using IH d by (intro exI [of _ "p # ps"] exI [of _ s']) simp
qed


section \<open>What the file system leaves alone\<close>

lemma io_of_list_more:
  fixes s s' :: "'a task_state_scheme"
  shows "list_state.more s' = list_state.more s \<Longrightarrow> io_log s' = io_log s"
  by (cases s; cases s') simp

lemma malloc_io: "malloc sz s = Inr (p, s') \<Longrightarrow> io_log s' = io_log s"
  by (intro io_of_list_more malloc_list_more)

lemma path_io: "path p s = Inr (r, s') \<Longrightarrow> io_log s' = io_log s"
  by (auto simp: path_def Let_def elim!: bindr_Inr_elim split: if_splits
    dest!: strdup_more [THEN list_more_of_byte_more, THEN io_of_list_more] malloc_io)

lemma find_segs_io:
  assumes "\<And>node name s r s'. fd node name s = Inr (r, s') \<Longrightarrow> io_log s' = io_log s"
  shows "find_segs n fd p i nd s = Inr (r, s') \<Longrightarrow> io_log s' = io_log s"
  by (induction n arbitrary: i nd s) (auto simp: path_free_def free_def dest!: assms elim!: bindr_Inr_elim split: if_splits)

lemma finddir_rec_io: "finddir_rec n node name s = Inr (r, s') \<Longrightarrow> io_log s' = io_log s"
proof (induction n arbitrary: node name s r s')
  case (Suc n)
  have d: "devfs_finddir node name s = Inr (r, s') \<Longrightarrow> s' = s"
    by (auto simp: devfs_finddir_def devfs_find_def dest!: search_state entry_node_state elim!: bindr_Inr_elim split: if_splits)
  have m: "ramfs_finddir node name s = Inr (r, s') \<Longrightarrow> s' = s"
    by (auto simp: ramfs_finddir_def find_name_def dest!: search_state entry_node_state elim!: bindr_Inr_elim split: if_splits)
  have fs: "find_segs k (finddir_rec n) p i nd t = Inr (r, s') \<Longrightarrow> io_log s' = io_log t" for k p i nd t
    by (rule find_segs_io [OF Suc.IH])
  have r: "root_fs_finddir (finddir_rec n) node name s = Inr (r, s') \<Longrightarrow> io_log s' = io_log s"
    by (auto simp: root_fs_finddir_def path_free_def free_def elim!: bindr_Inr_elim dest!: path_io search_state fs split: if_splits)
  from Suc.prems show ?case
    by (auto dest: r dest!: d m elim!: bindr_Inr_elim split: if_splits option.splits finddir_fn.splits)
qed simp

lemma port_of_more:
  fixes s s' :: "'a fs_state_scheme"
  shows "list_state.more s' = list_state.more s \<Longrightarrow> port_in s' = port_in s \<and> io_log s' = io_log s"
  by (cases s; cases s') simp

lemma devfs_register_ports: "devfs_register p s = Inr s' \<Longrightarrow> port_in s' = port_in s \<and> io_log s' = io_log s"
  by (auto simp: devfs_register_def elim!: bindr_Inr_elim dest!: list_add_more [THEN port_of_more])

lemma new_node_ports: "new_node junk name f s = Inr (p, s') \<Longrightarrow> port_in s' = port_in s \<and> io_log s' = io_log s"
  by (auto simp: new_node_def elim!: bindr_Inr_elim dest!: malloc_list_more [THEN port_of_more])

lemma fs_root_ports: "fs_root junk s = Inr (r, s') \<Longrightarrow> port_in s' = port_in s \<and> io_log s' = io_log s"
  by (auto simp: fs_root_def devfs_def dev_one_def dev_zero_def dev_rand_def fs_register_def Let_def
    elim!: bindr_Inr_elim dest!: new_node_ports devfs_register_ports list_add_more [THEN port_of_more] split: if_splits)


section \<open>The file system and the debug line\<close>

lemma fs_root_booted:
  fixes s :: "'a fs_state_scheme"
  assumes wf: "list_wf s" and empty: "fnodes s = Map.empty" "root_nodes s = NULL" "dev_nodes s = NULL" "dev_files s = 0"
    and room: "malloc_room s 1068"
  shows "\<exists>r d p1 p2 p3 s'. fs_root junk s = Inr (r, s') \<and> booted s' r d [(lit ''one'', p1), (lit ''zero'', p2), (lit ''random'', p3)] \<and>
    heap s' = heap s \<and> unat (malloc_top s') = unat (malloc_top s) + 1068 \<and> old_bytes s s'"
proof -
  obtain r d p1 p2 p3 nd s' where b: "fs_root junk s = Inr (r, s')" "fs_tree s' (boot_tree r d p1 p2 p3)" "root_node s' = r" "r \<noteq> d"
      "fnodes s' p1 = Some (dev_node (Some Dev_one_read) None (junk p1))" "fnodes s' p2 = Some (dev_node (Some Dev_zero_read) None (junk p2))"
      "fnodes s' p3 = Some (dev_node (Some Dev_rand_read) None (junk p3))" "heap s' = heap s"
      "unat (malloc_top s') = unat (malloc_top s) + 1068" "old_bytes s s'" "devfs_root_node s' = d"
      "fnodes s' d = Some (dir_node Devfs_readdir Devfs_finddir nd)"
      "\<forall>p nd. fnodes s' p = Some nd \<longrightarrow> p = r \<or> p = d \<or> n_finddir nd = None"
    using fs_root_boots [OF assms, of junk] by (elim exE conjE) rule
  have ne: "dir_node Devfs_readdir Devfs_finddir nd \<noteq> dev_node x w k" for x w k
  proof
    assume "dir_node Devfs_readdir Devfs_finddir nd = dev_node x w k"
    then have "n_finddir (dir_node Devfs_readdir Devfs_finddir nd) = n_finddir (dev_node x w k)" by (rule arg_cong)
    then show False unfolding dir_nodes by simp
  qed
  have "p1 \<noteq> d" "p2 \<noteq> d" "p3 \<noteq> d" using b(5-7,12) ne by auto
  then have "booted s' r d [(lit ''one'', p1), (lit ''zero'', p2), (lit ''random'', p3)]"
    using b by (auto simp: booted_def boot_tree_dev)
  then show ?thesis using b(1,8-10) by blast
qed

lemma serial_registers:
  fixes s :: "'a fs_state_scheme"
  assumes "booted s r d es" "malloc_room s 880"
  shows "\<exists>p ps s'. serial junk s = Inr s' \<and> booted s' r d (es @ (lit ''com1'', p) # ps) \<and> fnodes s' p = Some (com_node junk p 0) \<and>
    SERIAL_PORT s' = [port_or (bytes s) 0 0x3F8, port_or (bytes s) 2 0x2F8, port_or (bytes s) 4 0x3E8, port_or (bytes s) 6 0x2E8] \<and>
    io_log s' = io_log s @ concat (map (\<lambda>port. line_setup (ucast port)) (SERIAL_PORT s')) \<and>
    port_in s' = port_in s \<and> unat (malloc_top s') = unat (malloc_top s) + 880 \<and> heap s' = heap s \<and> old_bytes s s'"
proof -
  let ?ps = "[port_or (bytes s) 0 0x3F8, port_or (bytes s) 2 0x2F8, port_or (bytes s) 4 0x3E8, port_or (bytes s) 6 0x2E8]"
  let ?s = "s\<lparr>SERIAL_PORT := ?ps\<rparr>"
  have "booted ?s r d es" "length (SERIAL_PORT ?s) = 4" "malloc_room ?s (220 * 4)" using assms by (simp_all add: malloc_room_def)
  then obtain qs s' where q: "serial_lines 4 junk 0 ?s = Inr s'" "length qs = 4" "booted s' r d (es @ zip (map serial_name [0 ..< 0 + 4]) qs)"
      "\<forall>k < 4. fnodes s' (qs ! k) = Some (com_node junk (qs ! k) (0 + k))" "SERIAL_PORT s' = SERIAL_PORT ?s" "port_in s' = port_in ?s"
      "unat (malloc_top s') = unat (malloc_top ?s) + 220 * 4" "heap s' = heap ?s" "old_bytes ?s s'"
      "io_log s' = io_log ?s @ concat (map (\<lambda>k. line_setup (ucast (SERIAL_PORT ?s ! k))) [0 ..< 0 + 4])"
    using serial_lines_register [of ?s r d es 0 4 junk] by auto
  obtain p qs' where qs: "qs = p # qs'" using q(2) by (cases qs) auto
  have "map serial_name [0 ..< 0 + 4] = lit ''com1'' # map serial_name [1 ..< 4]"
    by (simp add: upt_conv_Cons serial_name_def)
  then have "zip (map serial_name [0 ..< 0 + 4]) qs = (lit ''com1'', p) # zip (map serial_name [1 ..< 4]) qs'" unfolding qs by simp
  moreover have "fnodes s' p = Some (com_node junk p 0)" using q(4) [rule_format, of 0] unfolding qs by simp
  moreover have "serial junk s = Inr s'" using q(1) by (simp add: serial_def Let_def)
  moreover have "old_bytes s s'" using q(9) by (simp add: old_bytes_def)
  moreover have "io_log s' = io_log s @ concat (map (\<lambda>port. line_setup (ucast port)) (SERIAL_PORT s'))"
    using q(5,10) by (simp add: upt_conv_Cons)
  ultimately show ?thesis using q(3,5-8) by auto
qed

definition com_ports :: "mem \<Rightarrow> u16 list" where
  "com_ports m = [port_or m 0 0x3F8, port_or m 2 0x2F8, port_or m 4 0x3E8, port_or m 6 0x2E8]"

lemma com_ports_cong: "(\<And>a. unat a < 0x408 \<Longrightarrow> m' a = m a) \<Longrightarrow> com_ports m' = com_ports m"
  by (simp add: com_ports_def port_or_def bios_read_word_def load16_def)

lemma banner_lit: "lit banner_text = [0x0A, 0x25, 0x73, 0x0A, 0x0A]"
  by code_simp

lemma fs_root_then_serial:
  fixes s :: "'a fs_state_scheme"
  assumes "list_wf s" "fnodes s = Map.empty" "root_nodes s = NULL" "dev_nodes s = NULL" "dev_files s = 0" "malloc_room s 2100"
    and "0x408 \<le> unat (malloc_top s)"
  shows "\<exists>r d p es s1 s2. fs_root junk s = Inr (r, s1) \<and> serial junk s1 = Inr s2 \<and> booted s2 r d es \<and> map_of es (lit ''com1'') = Some p \<and>
    fnodes s2 p = Some (com_node junk p 0) \<and> SERIAL_PORT s2 = com_ports (bytes s) \<and> port_in s2 = port_in s \<and>
    io_log s2 = io_log s @ concat (map (\<lambda>port. line_setup (ucast port)) (com_ports (bytes s))) \<and> malloc_room s2 100 \<and> old_bytes s s2"
proof -
  have r1: "malloc_room s 1068" using assms(6) by (simp add: malloc_room_def)
  obtain r d p1 p2 p3 s1 where b: "fs_root junk s = Inr (r, s1)" "booted s1 r d [(lit ''one'', p1), (lit ''zero'', p2), (lit ''random'', p3)]"
      "heap s1 = heap s" "unat (malloc_top s1) = unat (malloc_top s) + 1068" "old_bytes s s1"
    using fs_root_booted [OF assms(1-5) r1, of junk] by blast
  have r2: "malloc_room s1 880" using assms(6) b(3,4) by (simp add: malloc_room_def)
  let ?es = "[(lit ''one'', p1), (lit ''zero'', p2), (lit ''random'', p3)]"
  obtain p ps s2 where c: "serial junk s1 = Inr s2" "booted s2 r d (?es @ (lit ''com1'', p) # ps)" "fnodes s2 p = Some (com_node junk p 0)"
      "SERIAL_PORT s2 = com_ports (bytes s1)" "io_log s2 = io_log s1 @ concat (map (\<lambda>port. line_setup (ucast port)) (SERIAL_PORT s2))"
      "port_in s2 = port_in s1" "unat (malloc_top s2) = unat (malloc_top s1) + 880" "heap s2 = heap s1" "old_bytes s1 s2"
    using serial_registers [OF b(2) r2, of junk] unfolding com_ports_def by blast
  have "com_ports (bytes s1) = com_ports (bytes s)"
    by (rule com_ports_cong) (use b(5) assms(7) in \<open>simp add: old_bytes_def\<close>)
  moreover have "lit ''com1'' \<noteq> lit ''one''" "lit ''com1'' \<noteq> lit ''zero''" "lit ''com1'' \<noteq> lit ''random''" by code_simp+
  then have "map_of (?es @ (lit ''com1'', p) # ps) (lit ''com1'') = Some p" by simp
  moreover have "malloc_room s2 100" using assms(6) b(3,4) c(7,8) by (simp add: malloc_room_def)
  moreover note fs_root_ports [OF b(1)] old_bytes_trans [OF b(5) c(9)]
  ultimately show ?thesis using b(1) c(1-6) by (intro exI conjI) auto
qed

lemma debug_finds_com1:
  fixes s :: "'a debug_state_scheme"
  assumes "booted s r d es" "map_of es (lit ''com1'') = Some p" "fnodes s p = Some (com_node junk p 0)" "SERIAL_PORT s = port # ports"
    and "malloc_room s 100" "string_below s name (lit ''/dev/com1'')" "name \<noteq> NULL" "string_below s banner (lit banner_text)"
    and "string_below s msg cs" "msg \<noteq> NULL" "fits buf 20" "apart banner 6 buf 11" "fits msg (length cs + 10)" "apart msg (length cs + 1) buf 11"
    and "length cs + 3 \<le> length (filter ready (port_in s))"
  shows "\<exists>s'. debug cp buf banner msg name s = Inr s' \<and> io_log s' = io_log s @ map (Outb (ucast port)) (0x0A # cs @ [0x0A, 0x0A])"
proof -
  have t: "fs_tree s (dev_tree r d es)" "root_node s = r" "r \<noteq> d" using assms(1) by (auto simp: booted_def)
  have seg: "segments (lit ''/dev/com1'') = [lit ''dev'', lit ''com1'']" "lit ''/dev/com1'' \<noteq> [0x2F]" by code_simp+
  have rs: "resolve (dev_tree r d es) (root_node s) (segments (lit ''/dev/com1'')) = Some p"
    using t(2,3) assms(2) by (simp add: seg(1) dev_tree_def)
  have pr: "path_room s (lit ''/dev/com1'')" using assms(5) by (simp add: path_room_def path_need_def malloc_room_def)
  obtain s1 where f: "finddir_fs (root_node s) name s = Inr (p, s1)" "fs_extends s s1"
    using finddir_root [OF t(1) assms(6,7) pr] rs seg(2) by auto
  have pn: "p \<noteq> NULL" using resolved_node [OF t(1) rs] by simp
  have word: "word_state.more s1 = word_state.more s" using f(2) by (simp add: fs_extends_def)
  have io: "io_log s1 = io_log s" using f(1) finddir_rec_io unfolding finddir_fs_def by blast
  let ?s = "s1\<lparr>dbg_file := p\<rparr>"
  have dev: "serial_device ?s port"
    using assms(3,4) fs_fields_of_more [OF word] by (simp add: serial_device_def com_node_def)
  have str: "string_at (bytes ?s) q xs" if "string_below s q xs" for q xs
    using string_below_extends [OF that f(2)] by (simp add: string_below_def)
  let ?ds = "[Lit 0x0A, Str False 0, Lit 0x0A, Lit 0x0A]"
  have ds: "list_all directive_ok ?ds" "concat (map directive_text ?ds) = lit banner_text"
    by (simp_all add: flags_text_def banner_lit)
  have len: "length (lit banner_text) + 1 = 6" unfolding banner_lit by simp
  have fb: "fits banner 6" using assms(8) unat_u32_less [of "malloc_top s"] len by (simp add: string_below_def fits_def)
  have so: "strings_ok (bytes ?s) buf (\<lambda>_. cs) (string_args ?ds [msg])"
    using str [OF assms(9)] assms(10,13,14) by (simp add: strings_ok_def)
  have re: "render (\<lambda>_. cs) ?ds [msg] = Some (0x0A # cs @ [0x0A, 0x0A])" using assms(10) by (simp add: pad_left_def)
  have pi: "port_in ?s = port_in s" using fs_fields_of_more [OF word] by simp
  obtain s4 where "debug_printf cp buf banner [msg] ?s = Inr s4"
      "io_log s4 = io_log ?s @ map (Outb (ucast port)) (0x0A # cs @ [0x0A, 0x0A])"
    using debug_printf_sends [OF dev ds(1) _ _ _ assms(11) so re, of banner cp] str [OF assms(8)] fb assms(12,15) pi len
    unfolding ds(2) by auto
  then show ?thesis using f(1) pn io by (auto simp: debug_def fs_root_get_def Let_def)
qed

text \<open>
  C40: the start of the file system gives the kernel its debug line. After \<open>fs_root\<close> and \<open>serial\<close>, \<open>debug\<close>
  finds \<open>/dev/com1\<close>; all that these steps write to ports is the setup of the four lines, at the ports
  that the BIOS data area names and at the standard ones where it names none, and then the message on
  the first line, provided that line becomes ready for each byte.
\<close>

theorem boot_debug_sends:
  assumes "list_wf (b_core b)" "fnodes (b_core b) = Map.empty" "root_nodes (b_core b) = NULL" "dev_nodes (b_core b) = NULL"
    and "dev_files (b_core b) = 0" "malloc_room (b_core b) 2100" "0x408 \<le> unat (malloc_top (b_core b))"
    and "string_below (b_core b) (literal v ''/dev/com1'') (lit ''/dev/com1'')" "literal v ''/dev/com1'' \<noteq> NULL"
    and "string_below (b_core b) (literal v banner_text) (lit banner_text)" "string_below (b_core b) (dbg_msg v) cs" "dbg_msg v \<noteq> NULL"
    and "fits (digits_at v) 20" "apart (literal v banner_text) 6 (digits_at v) 11" "fits (dbg_msg v) (length cs + 10)"
    and "apart (dbg_msg v) (length cs + 1) (digits_at v) 11" "length cs + 3 \<le> length (filter ready (port_in (b_core b)))"
  shows "\<exists>s. run_steps (map on_core (fs_start v)) b = Inr (b\<lparr>b_core := s\<rparr>) \<and>
    io_log s = io_log (b_core b) @ concat (map (\<lambda>port. line_setup (ucast port)) (com_ports (bytes (b_core b)))) @
      map (Outb (ucast (hd (com_ports (bytes (b_core b)))))) (0x0A # cs @ [0x0A, 0x0A])"
proof -
  obtain r d p es s1 s2 where c: "fs_root (fresh_node v) (b_core b) = Inr (r, s1)" "serial (fresh_node v) s1 = Inr s2" "booted s2 r d es"
      "map_of es (lit ''com1'') = Some p" "fnodes s2 p = Some (com_node (fresh_node v) p 0)" "SERIAL_PORT s2 = com_ports (bytes (b_core b))"
      "port_in s2 = port_in (b_core b)"
      "io_log s2 = io_log (b_core b) @ concat (map (\<lambda>port. line_setup (ucast port)) (com_ports (bytes (b_core b))))"
      "malloc_room s2 100" "old_bytes (b_core b) s2"
    using fs_root_then_serial [OF assms(1-7), of "fresh_node v"] by (elim exE conjE) rule
  have keep: "string_below s2 q xs" if "string_below (b_core b) q xs" for q xs
    by (rule string_below_mono [OF that]) (use c(10) in \<open>auto simp: old_bytes_def\<close>)
  have sp: "SERIAL_PORT s2 = hd (com_ports (bytes (b_core b))) # tl (com_ports (bytes (b_core b)))"
    unfolding c(6) by (simp add: com_ports_def)
  obtain s3 where "debug (char_at v) (digits_at v) (literal v banner_text) (dbg_msg v) (literal v ''/dev/com1'') s2 = Inr s3"
      "io_log s3 = io_log s2 @ map (Outb (ucast (hd (com_ports (bytes (b_core b)))))) (0x0A # cs @ [0x0A, 0x0A])"
    using debug_finds_com1 [OF c(3-5) sp c(9) keep [OF assms(8)] assms(9) keep [OF assms(10)] keep [OF assms(11)] assms(12-16)]
      assms(17) c(7) by auto
  then show ?thesis using c(1,2,8) by (intro exI [of _ s3]) (simp add: fs_start_def on_core_def)
qed

text \<open>The start never ends: what comes back from the scheduler is a panic.\<close>

lemma do_it_yourself_never_returns: "do_it_yourself v mbi b \<noteq> Inr b'"
  by (cases "run_steps (boot_steps v mbi) b") (simp_all add: do_it_yourself_def bindr_def)

section \<open>The interrupt mask after the start\<close>

lemma task_more_of_list_more:
  fixes s s' :: "'a task_state_scheme"
  shows "list_state.more s' = list_state.more s \<Longrightarrow> task_state.more s' = task_state.more s"
  by (cases s; cases s') simp

lemma malloc_task_more:
  fixes s s' :: "'a task_state_scheme"
  shows "malloc sz s = Inr (p, s') \<Longrightarrow> task_state.more s' = task_state.more s"
  by (intro task_more_of_list_more malloc_list_more)

lemma thread_create_more: "thread_create raw cs ip prio ppid name s = Inr (t, s') \<Longrightarrow> task_state.more s' = task_state.more s"
  by (auto simp: thread_create_def pid_new_def free_def Let_def elim!: bindr_Inr_elim dest!: malloc_task_more split: if_splits)

lemma update_task_more: "update_task p f s = Inr s' \<Longrightarrow> task_state.more s' = task_state.more s"
  by (auto simp: update_task_def elim!: bindr_Inr_elim)

lemma task_add_more: "task_add t s = Inr s' \<Longrightarrow> task_state.more s' = task_state.more s"
  by (auto simp: task_add_def elim!: bindr_Inr_elim dest!: list_add_more [THEN task_more_of_list_more])

lemma kb_mask_of_more:
  fixes s s' :: "'a kb_state_scheme"
  shows "task_state.more s' = task_state.more s \<Longrightarrow> ocw1 s' = ocw1 s"
  by (cases s; cases s') simp

lemma mouse_mask_of_more:
  fixes s s' :: "'a mouse_state_scheme"
  shows "task_state.more s' = task_state.more s \<Longrightarrow> mouse_ocw1 s' = mouse_ocw1 s"
  by (cases s; cases s') simp

lemma kb_mask: "kb raw cs ip name c1 c2 s = Inr s' \<Longrightarrow> ocw1 s' = fst (irq_enable 1 (ocw1 s))"
  by (auto simp: kb_def Let_def split_def elim!: bindr_Inr_elim dest!: thread_create_more [THEN kb_mask_of_more] malloc_task_more [THEN kb_mask_of_more]
    update_task_more [THEN kb_mask_of_more] task_add_more [THEN kb_mask_of_more] split: if_splits)

lemma wait_loop_mask: "wait_loop n m w s = Inr s' \<Longrightarrow> mouse_ocw1 s' = mouse_ocw1 s"
  by (induction n arbitrary: s) (auto simp: inport64_def elim!: bindr_Inr_elim split: list.splits if_splits)

lemma mouse_ports_mask:
  "mouse_wait_for ty s = Inr s' \<Longrightarrow> mouse_ocw1 s' = mouse_ocw1 s"
  "inport60 s = Inr (x, s') \<Longrightarrow> mouse_ocw1 s' = mouse_ocw1 s"
  "mouse_ocw1 (out_port p u s) = mouse_ocw1 s"
  by (auto simp: mouse_wait_for_def inport60_def out_port_def dest: wait_loop_mask split: list.splits if_splits)

lemma mouse_commands_mask:
  "mouse_write u s = Inr s' \<Longrightarrow> mouse_ocw1 s' = mouse_ocw1 s"
  "mouse_read s = Inr (x, s') \<Longrightarrow> mouse_ocw1 s' = mouse_ocw1 s"
  by (auto simp: mouse_write_def mouse_read_def mouse_ports_mask(3) elim!: bindr_Inr_elim dest!: mouse_ports_mask(1,2))

lemma mouse_start_mask: "mouse_start s = Inr s' \<Longrightarrow> mouse_ocw1 s' = mouse_ocw1 s"
  by (auto simp: mouse_start_def mouse_ports_mask(3) elim!: bindr_Inr_elim dest!: mouse_ports_mask(1,2) mouse_commands_mask)

lemma mouse_mask: "mouse raw cs ip name c1 c2 junk s = Inr s' \<Longrightarrow> mouse_ocw1 s' = fst (irq_enable 12 (mouse_ocw1 s))"
  by (auto simp: mouse_def Let_def split_def elim!: bindr_Inr_elim dest!: thread_create_more [THEN mouse_mask_of_more]
    malloc_task_more [THEN mouse_mask_of_more] update_task_more [THEN mouse_mask_of_more] task_add_more [THEN mouse_mask_of_more]
    mouse_start_mask mouse_commands_mask)

lemma run_steps_append: "run_steps (fs @ gs) s = bindr (run_steps fs s) (run_steps gs)"
proof (induction fs arbitrary: s)
  case (Cons f fs)
  then have "run_steps (fs @ gs) = (\<lambda>s. bindr (run_steps fs s) (run_steps gs))" by (simp add: fun_eq_iff)
  then show ?case by (simp add: bindr_assoc)
qed simp

lemma run_steps_mask:
  "\<lbrakk>run_steps fs b = Inr b'; \<And>f c c'. f \<in> set fs \<Longrightarrow> f c = Inr c' \<Longrightarrow> b_mask c' = b_mask c\<rbrakk> \<Longrightarrow> b_mask b' = b_mask b"
proof (induction fs arbitrary: b)
  case (Cons f fs)
  then obtain c where c: "f b = Inr c" "run_steps fs c = Inr b'" by (auto elim!: bindr_Inr_elim)
  have "b_mask c = b_mask b" by (rule Cons.prems(2) [where f = f]) (simp_all add: c(1))
  moreover have "b_mask b' = b_mask c" by (rule Cons.IH [OF c(2)]) (auto intro: Cons.prems(2))
  ultimately show ?case by simp
qed simp

lemma masks_kept:
  "on_core f b = Inr b' \<Longrightarrow> b_mask b' = b_mask b" "on_isr g b = Inr b' \<Longrightarrow> b_mask b' = b_mask b"
  "on_gui h b = Inr b' \<Longrightarrow> b_mask b' = b_mask b"
  by (auto simp: on_core_def on_isr_def on_gui_def elim!: bindr_Inr_elim)

text \<open>
  After the start the interrupts of the timer, the keyboard, the second controller and the mouse are
  enabled, and no others.
\<close>

theorem start_enables_interrupts:
  assumes "run_steps (boot_steps v mbi) b = Inr b'" "b_mask b = ocw1_init" "k < 16"
  shows "bit (b_mask b') k \<longleftrightarrow> k \<notin> {0, 1, 2, 12}"
proof -
  let ?kb = "kb (fresh_task v ''keyboard'') (fresh_cells v ''keyboard'') (code v ''keyboad_task'') (literal v ''keyboard'')
        (fresh_cells v ''kb_queue'') (fresh_cells v ''kb_wait'')"
  let ?mouse = "mouse (fresh_task v ''mouse'') (fresh_cells v ''mouse'') (code v ''mouse_task'') (literal v ''mouse'')
        (fresh_cells v ''mouse_queue'') (fresh_cells v ''mouse_wait'') (fresh_packet v)"
  define early where "early = [boot_screen v, boot_arch v, on_core (boot_mm v mbi)] @ map on_core (fs_start v) @
     [on_core (boot_ramdisk v mbi),
      on_core (tasking (fresh_task v ''idle'') (fresh_cells v ''idle'') (code v ''idle'') (literal v ''idle'')),
      on_gui (\<lambda>s. Inr (gfx s)), on_gui (\<lambda>s. bindr (gfx_bochs (pci_conf v) s) (\<lambda>(_, s). Inr s))]"
  define late where "late = [on_gui (gui (env_gui v) (fresh_task v ''gui'') (fresh_cells v ''gui'') (code v ''gui_main'')),
      on_core (debug_printf (char_at v) (digits_at v) (literal v (''start scheduling...'' @ [CHR 0x0A])) []), on_core (schedule (boot_esp v))]"
  have steps: "boot_steps v mbi = early @ [on_kb ?kb, on_mouse ?mouse, timer] @ late" by (simp add: boot_steps_def early_def late_def)
  obtain b1 b2 b3 b4 where r: "run_steps early b = Inr b1" "on_kb ?kb b1 = Inr b2" "on_mouse ?mouse b2 = Inr b3" "timer b3 = Inr b4"
      "run_steps late b4 = Inr b'"
    using assms(1) unfolding steps run_steps_append by (auto elim!: bindr_Inr_elim)
  have "b_mask b1 = b_mask b"
    by (rule run_steps_mask [OF r(1)])
      (auto simp: early_def boot_screen_def boot_arch_def dest!: masks_kept elim!: bindr_Inr_elim)
  moreover have "b_mask b2 = fst (irq_enable 1 (b_mask b1))" using r(2) by (auto simp: on_kb_def elim!: bindr_Inr_elim dest!: kb_mask)
  moreover have "b_mask b3 = fst (irq_enable 12 (b_mask b2))" using r(3) by (auto simp: on_mouse_def elim!: bindr_Inr_elim dest!: mouse_mask)
  moreover have "b_mask b4 = fst (irq_enable 0 (b_mask b3))" using r(4) by (auto simp: timer_def split_def Let_def)
  moreover have "b_mask b' = b_mask b4"
    by (rule run_steps_mask [OF r(5)]) (auto simp: late_def dest!: masks_kept)
  moreover have "bit ocw1_init k \<longleftrightarrow> k \<noteq> 2"
  proof -
    have "\<forall>k \<in> set [0 ..< 16]. bit ocw1_init k \<longleftrightarrow> k \<noteq> 2" by code_simp
    then show ?thesis using assms(3) by simp
  qed
  ultimately show ?thesis using assms(2,3) by (auto simp: irq_enable_mask)
qed

section \<open>Example\<close>

text \<open>
  A machine before the file system starts: the strings in static memory, the message \<open>"ok"\<close>, an empty BIOS data
  area and a line that is always ready.
\<close>

definition start_core :: debug_state where
  "start_core = serial_state.extend (fs_state.extend
     (boot_machine\<lparr>bytes := strcpy_lit (strcpy_lit (strcpy_lit (\<lambda>_. 0) 0x1000 (lit ''/dev/com1'')) 0x1010 (lit banner_text)) 0x1020 (lit ''ok''),
        port_in := replicate 5 0x20\<rparr>) \<lparr>serial_lock = 0\<rparr>) \<lparr>dbg_file = 0\<rparr>"

definition start_machine :: boot_state where
  "start_machine = \<lparr>b_screen = blank_screen,
     b_gdt = \<lparr>kernel_tss = \<lparr>tss_esp0 = 0, tss_ss0 = 0, tss_cr3 = 0, tss_es = 0, tss_cs = 0, tss_ss = 0, tss_ds = 0, tss_fs = 0, tss_gs = 0,
       tss_iomap_base = 0\<rparr>, gdt_entries = [], gdtr_size = 0, gdtr_offset = 0\<rparr>,
     b_core = start_core, b_isr = task_state.more faulty_machine, b_gui = fs_state.more desk, b_kb = task_state.more typist,
     b_mouse = task_state.more mouse_machine, b_mask = ocw1_init\<rparr>"

definition start_env :: boot_env where
  "start_env = \<lparr>cursor_lo = 0, cursor_hi = 0, virtual_start = 0xC0000000, physical_start = 0x100000, kernel_vaddr_end = 0xC0000000, boot_esp = 0,
     tss_address = 0, gdt_address = 0, literal = (\<lambda>str. if str = ''/dev/com1'' then 0x1000 else 0x1010), code = (\<lambda>_. 0), dbg_msg = 0x1020,
     char_at = 0x2100, digits_at = 0x2000, fresh_node = no_node, fresh_task = (\<lambda>_. example_task 0 0 TS_READY 0),
     fresh_cells = (\<lambda>_. replicate 32 0), fresh_packet = \<lparr>mp_flags = 0, mp_dx = 0, mp_dy = 0, mp_dz = 0\<rparr>, loop_node = 0,
     pci_conf = (\<lambda>_. - 1), env_gui = blank_env\<rparr>"

lemmas start_simps = start_core_def serial_state.defs fs_state.defs boot_machine_simps

lemma start_strings:
  "lit ''/dev/com1'' = [0x2F, 0x64, 0x65, 0x76, 0x2F, 0x63, 0x6F, 0x6D, 0x31]" "lit ''ok'' = [0x6F, 0x6B]"
  by code_simp+

theorem boot_debug_sends_witness:
  "\<exists>s. run_steps (map on_core (fs_start start_env)) start_machine = Inr (start_machine\<lparr>b_core := s\<rparr>) \<and>
    drop 24 (io_log s) = map (Outb 0x3F8) [0x0A, 0x6F, 0x6B, 0x0A, 0x0A]"
proof -
  have c: "b_core start_machine = start_core" by (simp add: start_machine_def)
  have wf: "list_wf start_core"
    unfolding list_wf_def mm_wf_def
    by (auto intro!: exI [of _ "[0xC0000000]"] simp: start_simps used_block_def new_block_def)
  have e: "fnodes start_core = Map.empty" "root_nodes start_core = NULL" "dev_nodes start_core = NULL" "dev_files start_core = 0"
      "malloc_room start_core 2100" "0x408 \<le> unat (malloc_top start_core)" "io_log start_core = []"
      "port_in start_core = replicate 5 0x20"
    by (simp_all add: start_simps malloc_room_def)
  have v: "literal start_env ''/dev/com1'' = 0x1000" "literal start_env banner_text = 0x1010" "dbg_msg start_env = 0x1020"
      "digits_at start_env = 0x2000"
    by (simp_all add: start_env_def banner_text_def)
  have str: "string_below start_core 0x1000 (lit ''/dev/com1'')" "string_below start_core 0x1010 (lit banner_text)"
      "string_below start_core 0x1020 (lit ''ok'')"
    by (simp_all add: start_simps start_strings banner_lit string_below_def)
  have p: "com_ports (bytes start_core) = [0x3F8, 0x2F8, 0x3E8, 0x2E8]"
    by (simp add: com_ports_def port_or_def bios_read_word_def load16_def start_simps start_strings banner_lit)
  have a: "(0x1000 :: addr) \<noteq> NULL" "(0x1020 :: addr) \<noteq> NULL" "fits 0x2000 20" "apart 0x1010 6 0x2000 11"
      "fits 0x1020 (length (lit ''ok'') + 10)" "apart 0x1020 (length (lit ''ok'') + 1) 0x2000 11"
      "length (lit ''ok'') + 3 \<le> length (filter ready (port_in start_core))"
    unfolding e(8) start_strings by (simp_all add: fits_def apart_def ready_def)
  obtain s where s: "run_steps (map on_core (fs_start start_env)) start_machine = Inr (start_machine\<lparr>b_core := s\<rparr>)"
      "io_log s = io_log start_core @ concat (map (\<lambda>port. line_setup (ucast port)) (com_ports (bytes start_core))) @
        map (Outb (ucast (hd (com_ports (bytes start_core))))) (0x0A # lit ''ok'' @ [0x0A, 0x0A])"
    using boot_debug_sends [where b = start_machine and v = start_env and cs = "lit ''ok''", unfolded c v,
      OF wf e(1-6) str(1) a(1) str(2,3) a(2-7)] by (elim exE conjE) rule
  then show ?thesis unfolding p e(7) start_strings
    by (intro exI [of _ s]) (simp add: line_setup_def outportb_def)
qed

end
