(* ===== verification/Spec2Isabelle.thy ===== *)
theory Spec2Isabelle
  imports Queue Ring Elf_Loading Console Gui_Types Boot
begin

text \<open>
  DiyOS: a verification development beside the kernel (C for 32-bit x86, under src/).

  \<^bold>\<open>The program.\<close> The kernel is entered with interrupts off and brings its parts up in a fixed order
  (kernel/do\_it\_yourself.c): the text screen, the descriptor tables, the memory manager with the frame
  bitmap, the page tables and the heap, the file system with its devices, the serial lines and the
  debug messages, the RAM disk, threads, the frame buffer, keyboard, mouse and timer, the desktop; the
  scheduler then runs the first thread. Interrupt handlers put what they receive in bounded queues and
  wake a thread, which sends messages to the tasks that listen. One of these is the desktop, which
  turns them into events of its widgets and draws. Every part allocates from the one heap.

  \<^bold>\<open>How C is read\<close> (Prelude). Integers are words of their width, pointers 32-bit words. A computation has
  type \<open>'a result\<close>: a value or a \<open>fault\<close> (a panic, an access outside an array or through a pointer to
  nothing, a loop that never ends, a missing return value, a division by zero). State is a chain of
  records, each component extending the one it calls:
  \<open>frame_state\<close>, \<open>page_state\<close>, \<open>mm_state\<close>, \<open>byte_state\<close>, \<open>list_state\<close>, \<open>task_state\<close>, \<open>word_state\<close>, \<open>fs_state\<close>,
  \<open>serial_state\<close>, \<open>debug_state\<close>; the frame buffer and the widgets, \<open>bochs_state\<close> and \<open>gui_state\<close>, extend \<open>fs_state\<close>,
  because images are read from files; the other drivers extend \<open>task_state\<close> or \<open>byte_state\<close>. Memory has
  three views: bytes (strings, images, pixels), typed heaps of structs by address, and words (page
  tables, arrays of pointers). Globals are fields; the answers of input ports are lists or parameters,
  the ports written a list of writes. A loop carries the number of iterations it has left;
  where the code has no bound this is \<open>addr_space\<close>, \<open>2 ^ 32\<close>, more than a walk without a cycle or a
  32-bit counter can take, so running out of it means that the code never stops.

  \<^bold>\<open>The theories\<close> and what their lemmas show.
  \<^item> Fifo\_Spec, Queue, Ring (lib/queue.c, lib/ring.c): bounded queues refine an abstract first-in
    first-out specification, stated as a locale and interpreted on the code; the byte ring.
  \<^item> CString, Alloc\_String, Printf (lib/string, lib/stdio): string routines over bytes, their results and
    the bytes they leave alone; numbers as text; \<open>printf\<close> against a rendering of directives.
  \<^item> Frame, Page, MM (kernel/memory, kernel/x86/page.c): the bitmap against the set of groups taken, page
    tables as a translation, the heap as a tiling by blocks, and the boot of the three together.
  \<^item> LinkedList (lib/list.c): lists in memory; the locale \<open>list_search\<close> for callbacks that stop at
    the first match, which the process table and the directories use.
  \<^item> Pic, Task, Schedule, Threads (kernel/devices/pic.c, kernel/task.c, thread.c, schedule.c, message.c,
    drivers/timer.c): scheduling, sleeping and waking, creation of threads, messages in order.
  \<^item> Path, Fs, FsTree, Syscalls, Ramfs (kernel/filesystem, lib/system): paths as segments; the nodes as a
    tree, of which lookup is the refinement; opening, reading and listing; the tar archive.
  \<^item> Serial, Debug (drivers/serial.c, kernel/devices/bios.c, kernel/debug\_printf.c): a write returns
    exactly when the line becomes ready often enough; a debug message is the rendered text on the line.
  \<^item> Fb (drivers/fb.c): the invariant of the text screen over any sequence of operations.
  \<^item> Kb, Mouse (drivers/kb.c, mouse.c): scan codes against a reference decoder; packets in order.
  \<^item> Elf, Elf\_Loading (kernel/elf.c, aspace.c, module.c): relocation, the sections a loaded executable
    gets, symbol search against the list of all symbols.
  \<^item> Pci, Gdt, Bochs, Console (kernel/devices/pci.c, drivers/ide.c, kernel/x86, drivers/gfx/bochs.c, gfx/gfx.c,
    kernel/terminal.c, console.c): the scan of the bus through the address register, descriptors as the
    processor reads them, rectangles in the frame buffer, terminals and consoles.
  \<^item> Idt (kernel/x86/idt.c, int\_handler.asm, kernel/panic.c): which handler an interrupt reaches, and what
    the default handlers do.
  \<^item> Acpi (kernel/devices/acpi.c): the search in the firmware's tables, and the writes that power down.
  \<^item> Widget (gui/widgets/widget.c, gui/util/point.c): the tree of widgets as linked children, absolute
    positions, the focus and the active window.
  \<^item> Controls, Images (gui/widgets/label.c, edit.c, button.c, window.c; gui/util, gui/desktop/wallpaper.c):
    creating the controls, texts, and typing as operations on an abstract text; bitmaps.
  \<^item> Drawing (the drawing functions of gui/widgets): the walk over the tree against its preorder.
  \<^item> Navigator, Desktop (gui/widgets/filenavigator.c, gui/test, gui/gui.c, gui/desktop/taskbar.c): the file
    navigator and the events of a window; messages of keyboard and mouse, from the packet to the edit
    that gets the key; the task of the desktop.
  \<^item> Gui\_Types: what the class of a widget says about its struct and its callbacks, an invariant of all
    states the GUI reaches.
  \<^item> Layout (the structs of kernel/devices/acpi.c, kernel/filesystem/ramfs.c, include/kernel/elf.h and
    include/multiboot.h): the offsets at which the other theories read are those of the declarations.
  \<^item> Typing: from the interrupts of the keyboard through its thread and the messages to the text of the
    edit that has the focus.
  \<^item> Boot (kernel/do\_it\_yourself.c): the start as a list of steps, each on its part of one state; the
    file system, the serial lines and the debug messages from empty tables up to the first message; the
    interrupts that are enabled behind it.

  \<^bold>\<open>Conventions.\<close> A property stands behind a text with its number; one with hypotheses is followed
  by its application to a concrete state. Many properties show what the code does where it
  fails its purpose; the comments of the theories say so at the definition.

  \<^bold>\<open>Assumptions.\<close> Contents of memory that the code reads before it was written, addresses chosen by the
  linker, answers of devices and the function behind a stored address are parameters. Block
  headers, list nodes and structs lie where the allocator put them and are not also read as bytes,
  except where the code does so (Ramfs). Interrupts do not occur inside an operation.

  \<^bold>\<open>Not modelled.\<close> The assembly under kernel/x86 but the choice of the interrupt handler, the enabling and
  disabling of interrupts, and the loading of processor registers; of the boot information
  (include/multiboot.h) what the kernel does not read; headers that only declare; functions that
  only print or halt (mm\_dump, pci\_test, dump\_tar\_file, idle, panic\_assert). Of the modelled functions the messages
  they print for information are left out.
\<close>

end
